(* ===== verification/Topia_Prelude.thy ===== *)
theory Topia_Prelude
  imports Main "HOL-Library.Word" "HOL-Library.List_Lexorder" "HOL-Library.Char_ord"
    "HOL-Library.Sublist"
begin

text \<open>
  The shared vocabulary of the development: Go's \<open>byte\<close>, \<open>uint64\<close> and
  \<open>int64\<close>, byte strings and their lexicographic order (\<open>bytes.Compare\<close>),
  the error values that the Go functions return, fixed-width big-endian
  encoding (\<open>encoding/binary\<close>), and the generic lemmas on sorted association
  lists and prefixes that several components need.

  Conventions. A Go call that returns \<open>(T, error)\<close> has the type
  \<open>error + 'a\<close>; a call that changes a store and returns an \<open>error\<close> has the
  type \<open>'s \<times> error option\<close>, because the change made before the error stays
  made. A run-time panic is the error value \<open>Panic\<close>.
\<close>

section \<open>Machine integers and byte strings\<close>

type_synonym byte = "8 word"
type_synonym bytes = "byte list"
type_synonym u64 = "64 word"

definition byte_of_char :: "char \<Rightarrow> byte" where
  "byte_of_char c = word_of_nat (of_char c)"

definition str_bytes :: "string \<Rightarrow> bytes" where
  "str_bytes s = map byte_of_char s"

lemma unat_byte_of_char: "unat (byte_of_char c) = of_char c"
  by (simp add: byte_of_char_def unat_of_nat)

lemma byte_of_char_inj [simp]: "byte_of_char c = byte_of_char d \<longleftrightarrow> c = d"
  by (metis unat_byte_of_char of_char_eq_iff)

lemma inj_byte_of_char: "inj byte_of_char"
  by (rule injI) simp

lemma str_bytes_inj [simp]: "str_bytes s = str_bytes t \<longleftrightarrow> s = t"
  unfolding str_bytes_def by (rule inj_map_eq_map [OF inj_byte_of_char])

lemma str_bytes_eq_Nil [simp]: "str_bytes s = [] \<longleftrightarrow> s = []"
  by (simp add: str_bytes_def)

lemma unat_Suc_u64: "(x :: u64) \<noteq> - 1 \<Longrightarrow> unat (x + 1) = Suc (unat x)"
  by (metis add.commute diff_add_cancel eq_neg_iff_add_eq_0 unatSuc)

lemma u64_less_Suc: "(x :: u64) \<noteq> - 1 \<Longrightarrow> y < x + 1 \<longleftrightarrow> y \<le> x"
  by (simp add: word_less_nat_alt word_le_nat_alt unat_Suc_u64 less_Suc_eq_le)

section \<open>Errors\<close>

text \<open>
  One constructor per error the modelled functions return. The formatted
  message of \<open>fmt.Errorf\<close> is kept as the arguments it prints.
\<close>

datatype error =
    ErrTransactionClosed | ErrKeyEmpty | ErrValueNil | ErrVersionDoesNotExist
  | ErrOpenTransactions | ErrInvalidVersion
  | ErrTargetTooLow u64 u64 | ErrVersionExists u64 | ErrBadHistory u64
  | ErrReadOnly string | ErrNoStore string | MultiError "error list"
  | ErrJson | ErrProto | ErrNil string | ErrInvalidNode string string
  | ErrExists string | ErrNoSymbol string | ErrInsufficient string | ErrOther string
  | Panic string

section \<open>Big-endian encoding of 64-bit words\<close>

text \<open>\<open>binary.BigEndian.PutUint64\<close> on a fresh 8-byte buffer, and \<open>Uint64\<close>,
  which panics on a slice of fewer than 8 bytes and ignores the bytes after
  the eighth.\<close>

definition be_put :: "u64 \<Rightarrow> bytes" where
  "be_put w = map (\<lambda>i. ucast (drop_bit (8 * i) w)) [7, 6, 5, 4, 3, 2, 1, 0]"

definition be_get :: "bytes \<Rightarrow> error + u64" where
  "be_get bs = (if length bs < 8 then Inl (Panic ''index out of range'')
     else Inr (foldl (\<lambda>acc b. push_bit 8 acc + ucast b) 0 (take 8 bs)))"

lemma length_be_put [simp]: "length (be_put w) = 8"
  by (simp add: be_put_def)

lemma be_get_put [simp]: "be_get (be_put w) = Inr w"
proof -
  have split: "push_bit 8 (drop_bit (8 * Suc i) w) + ucast (ucast (drop_bit (8 * i) w) :: byte)
      = drop_bit (8 * i) w" for i
  proof -
    let ?x = "drop_bit (8 * i) w"
    have b: "ucast (ucast ?x :: byte) = take_bit 8 ?x"
      by (rule bit_word_eqI) (auto simp: bit_simps)
    have "push_bit 8 (drop_bit 8 ?x) + take_bit 8 ?x = ?x"
      by (rule bits_ident)
    moreover have "drop_bit 8 ?x = drop_bit (8 * Suc i) w"
      by (simp add: drop_bit_drop_bit add.commute)
    ultimately show ?thesis by (simp only: b)
  qed
  have top: "drop_bit (64 :: nat) w = 0"
    by (rule bit_word_eqI) (auto simp: bit_simps dest: bit_imp_le_length)
  note s = split [of 7] split [of 6] split [of 5] split [of 4] split [of 3] split [of 2]
    split [of 1] split [of 0]
  show ?thesis
    using s top by (simp add: be_get_def be_put_def)
qed

section \<open>Ranges of keys\<close>

text \<open>The domain of an iterator: \<open>start\<close> is inclusive, \<open>end\<close> exclusive, and
  \<open>nil\<close> (here \<open>None\<close>) leaves that side open.\<close>

definition in_range :: "bytes option \<Rightarrow> bytes option \<Rightarrow> bytes \<Rightarrow> bool" where
  "in_range s e k \<longleftrightarrow>
     (case s of None \<Rightarrow> True | Some a \<Rightarrow> a \<le> k) \<and> (case e of None \<Rightarrow> True | Some b \<Rightarrow> k < b)"

lemma in_range_simps [simp]:
  "in_range None None k"
  "in_range (Some a) None k \<longleftrightarrow> a \<le> k"
  "in_range None (Some b) k \<longleftrightarrow> k < b"
  "in_range (Some a) (Some b) k \<longleftrightarrow> a \<le> k \<and> k < b"
  by (simp_all add: in_range_def)

section \<open>The lexicographic order of byte strings and prefixes\<close>

lemma append_mono_le [simp]: "p @ a \<le> p @ b \<longleftrightarrow> a \<le> (b :: 'a :: linorder list)"
  by (induction p) simp_all

lemma append_mono_less [simp]: "p @ a < p @ b \<longleftrightarrow> a < (b :: 'a :: linorder list)"
  by (induction p) simp_all

lemma prefix_le: "prefix p k \<Longrightarrow> p \<le> (k :: 'a :: linorder list)"
  by (induction p k rule: list_induct2') (auto simp: prefix_Cons)

section \<open>Sorted association lists\<close>

definition sorted_keys :: "('k :: linorder \<times> 'v) list \<Rightarrow> bool" where
  "sorted_keys xs \<longleftrightarrow> sorted_wrt (<) (map fst xs)"

lemma sorted_keys_Nil [simp]: "sorted_keys []"
  by (simp add: sorted_keys_def)

lemma sorted_keys_Cons [simp]:
  "sorted_keys ((k, v) # xs) \<longleftrightarrow> (\<forall>(k', v') \<in> set xs. k < k') \<and> sorted_keys xs"
  by (auto simp: sorted_keys_def)

lemma sorted_keys_filter: "sorted_keys xs \<Longrightarrow> sorted_keys (filter P xs)"
  by (induction xs) (auto simp: sorted_keys_def)

lemma sorted_keys_distinct: "sorted_keys xs \<Longrightarrow> distinct (map fst xs)"
  by (simp add: sorted_keys_def strict_sorted_iff)

lemma sorted_keys_mem: "sorted_keys xs \<Longrightarrow> (k, v) \<in> set xs \<longleftrightarrow> map_of xs k = Some v"
  by (simp add: sorted_keys_distinct)

text \<open>A sorted association list is determined by its set of pairs.\<close>

lemma sorted_keys_unique:
  assumes "sorted_keys xs" "sorted_keys ys" "set xs = set ys"
  shows "xs = ys"
proof -
  have "map fst xs = map fst ys"
    using assms by (intro strict_sorted_equal) (auto simp: sorted_keys_def)
  moreover have "map snd xs = map snd ys"
  proof (rule nth_equalityI)
    show l: "length (map snd xs) = length (map snd ys)"
      using calculation by (metis length_map)
    fix i assume i: "i < length (map snd xs)"
    have "xs ! i \<in> set ys" using assms(3) i by (metis length_map nth_mem)
    moreover have "ys ! i \<in> set ys" using i l by simp
    moreover have "fst (xs ! i) = fst (ys ! i)"
      using \<open>map fst xs = map fst ys\<close> i l by (metis length_map nth_map)
    ultimately have "snd (xs ! i) = snd (ys ! i)"
      using assms(2) by (metis prod.collapse sorted_keys_mem option.inject)
    then show "map snd xs ! i = map snd ys ! i" using i l by simp
  qed
  ultimately show ?thesis by (metis zip_map_fst_snd)
qed

section \<open>Counting in an updated list\<close>

lemma length_filter_update:
  "i < length xs \<Longrightarrow> int (length (filter P (xs[i := x]))) =
     int (length (filter P xs)) - (if P (xs ! i) then 1 else 0) + (if P x then 1 else 0)"
proof (induction xs arbitrary: i)
  case (Cons y ys)
  show ?case
  proof (cases i)
    case (Suc j)
    then show ?thesis using Cons.IH [of j] Cons.prems by (auto split: if_splits)
  qed simp
qed simp

end
