(* ===== verification/Version_Manager.thy ===== *)
theory Version_Manager
  imports Topia_Prelude
begin

text \<open>
  The set of saved database versions
  (\<open>src/ledger/backend/common/version_manager.go\<close>). Go's
  \<open>map[uint64]struct{}\<close> is the list of its keys in some order: \<open>range\<close> visits
  a map in an unspecified order, and every lemma below holds for every list,
  so for every order. The contract is the abstract specification
  \<open>vm_inv\<close>: the keys are distinct and not 0, \<open>last\<close> is their maximum and
  \<open>initial\<close> their minimum, both 0 for the empty set.
\<close>

record version_manager =
  vm_versions :: "u64 list"
  vm_initial :: u64
  vm_last :: u64

text \<open>\<open>vmap[ver] = struct{}{}\<close>: a key is stored once.\<close>

definition vset_insert :: "u64 \<Rightarrow> u64 list \<Rightarrow> u64 list" where
  "vset_insert v vs = (if v \<in> set vs then vs else vs @ [v])"

fun newVersionManager_loop :: "u64 list \<Rightarrow> u64 list \<Rightarrow> u64 \<Rightarrow> u64 \<Rightarrow> version_manager" where
  "newVersionManager_loop [] vmap init lst =
     \<lparr>vm_versions = vmap, vm_initial = init, vm_last = lst\<rparr>"
| "newVersionManager_loop (ver # vers) vmap init lst =
     newVersionManager_loop vers (vset_insert ver vmap)
       (if init = 0 \<or> ver < init then ver else init)
       (if ver > lst then ver else lst)"

definition NewVersionManager :: "u64 list \<Rightarrow> version_manager" where
  "NewVersionManager versions = newVersionManager_loop versions [] 0 0"

definition vm_Exists :: "version_manager \<Rightarrow> u64 \<Rightarrow> bool" where
  "vm_Exists vm v \<longleftrightarrow> v \<in> set (vm_versions vm)"

definition vm_Count :: "version_manager \<Rightarrow> nat" where
  "vm_Count vm = length (vm_versions vm)"

definition vm_Save :: "version_manager \<Rightarrow> u64 \<Rightarrow> error + (u64 \<times> version_manager)" where
  "vm_Save vm target0 =
     (let nxt = vm_last vm + 1;
          target = (if target0 = 0 then nxt else target0)
      in if target0 \<noteq> 0 \<and> target0 < nxt then Inl (ErrTargetTooLow target0 nxt)
         else if target \<in> set (vm_versions vm) then Inl (ErrVersionExists target)
         else let vs = vm_versions vm @ [target]
              in Inr (target,
                   vm\<lparr>vm_versions := vs, vm_last := target,
                      vm_initial := (if length vs = 1 then target else vm_initial vm)\<rparr>))"

fun findLimit :: "u64 list \<Rightarrow> (u64 \<Rightarrow> u64 \<Rightarrow> bool) \<Rightarrow> u64 \<Rightarrow> u64" where
  "findLimit [] cmp init = init"
| "findLimit (x # xs) cmp init = findLimit xs cmp (if cmp x init then x else init)"

definition vm_Delete :: "version_manager \<Rightarrow> u64 \<Rightarrow> version_manager" where
  "vm_Delete vm target =
     (let vs = filter (\<lambda>v. v \<noteq> target) (vm_versions vm);
          lst = (if target = vm_last vm then findLimit vs (\<lambda>x mx. x > mx) 0 else vm_last vm);
          ini = (if target = vm_initial vm then findLimit vs (\<lambda>x mn. x < mn) lst
                 else vm_initial vm)
      in \<lparr>vm_versions = vs, vm_initial = ini, vm_last = lst\<rparr>)"

definition vm_Equal :: "version_manager \<Rightarrow> version_manager \<Rightarrow> bool" where
  "vm_Equal vm that \<longleftrightarrow>
     vm_Count vm = vm_Count that \<and> list_all (vm_Exists vm) (vm_versions that)"

definition vm_Copy :: "version_manager \<Rightarrow> version_manager" where
  "vm_Copy vm = \<lparr>vm_versions = foldl (\<lambda>m v. vset_insert v m) [] (vm_versions vm),
     vm_initial = vm_initial vm, vm_last = vm_last vm\<rparr>"

section \<open>The invariant\<close>

definition is_max :: "u64 list \<Rightarrow> u64 \<Rightarrow> bool" where
  "is_max vs m \<longleftrightarrow> (if vs = [] then m = 0 else m \<in> set vs \<and> (\<forall>v \<in> set vs. v \<le> m))"

definition is_min :: "u64 list \<Rightarrow> u64 \<Rightarrow> bool" where
  "is_min vs m \<longleftrightarrow> (if vs = [] then m = 0 else m \<in> set vs \<and> (\<forall>v \<in> set vs. m \<le> v))"

definition vm_inv :: "version_manager \<Rightarrow> bool" where
  "vm_inv vm \<longleftrightarrow> distinct (vm_versions vm) \<and> 0 \<notin> set (vm_versions vm) \<and>
     is_max (vm_versions vm) (vm_last vm) \<and> is_min (vm_versions vm) (vm_initial vm)"

lemma vm_inv_versions_le_last: "vm_inv vm \<Longrightarrow> v \<in> set (vm_versions vm) \<Longrightarrow> v \<le> vm_last vm"
  by (auto simp: vm_inv_def is_max_def split: if_splits)

lemma set_vset_insert [simp]: "set (vset_insert v vs) = insert v (set vs)"
  by (auto simp: vset_insert_def)

lemma distinct_vset_insert [simp]: "distinct (vset_insert v vs) = distinct vs"
  by (auto simp: vset_insert_def)

lemma vset_insert_neq_Nil [simp]: "vset_insert v vs \<noteq> []"
  by (auto simp: vset_insert_def)

lemma findLimit_mem: "findLimit vs cmp a \<in> insert a (set vs)"
proof (induction vs arbitrary: a)
  case (Cons x xs)
  show ?case using Cons [of "if cmp x a then x else a"] by (auto split: if_splits)
qed simp

lemma findLimit_max:
  "a \<le> findLimit vs (\<lambda>x mx. x > mx) a \<and> (\<forall>v \<in> set vs. v \<le> findLimit vs (\<lambda>x mx. x > mx) a)"
proof (induction vs arbitrary: a)
  case (Cons x xs)
  show ?case using Cons [of "if x > a then x else a"] by (simp split: if_splits) fastforce+
qed simp

lemma findLimit_min:
  "findLimit vs (\<lambda>x mn. x < mn) a \<le> a \<and> (\<forall>v \<in> set vs. findLimit vs (\<lambda>x mn. x < mn) a \<le> v)"
proof (induction vs arbitrary: a)
  case (Cons x xs)
  show ?case using Cons [of "if x < a then x else a"] by (simp split: if_splits) fastforce+
qed simp

lemma findLimit_is_max:
  assumes "0 \<notin> set vs"
  shows "is_max vs (findLimit vs (\<lambda>x mx. x > mx) 0)"
proof (cases vs)
  case (Cons w ws)
  let ?m = "findLimit vs (\<lambda>x mx. x > mx) 0"
  have "w \<le> ?m" using findLimit_max [of 0 vs] Cons by simp
  moreover have "w \<noteq> 0" using assms Cons by auto
  ultimately have "?m \<noteq> 0" by auto
  then have "?m \<in> set vs" using findLimit_mem [of vs "\<lambda>x mx. x > mx" 0] by simp
  then show ?thesis using findLimit_max [of 0 vs] Cons by (simp add: is_max_def)
qed (simp add: is_max_def)

lemma findLimit_is_min: "is_max vs a \<Longrightarrow> is_min vs (findLimit vs (\<lambda>x mn. x < mn) a)"
  using findLimit_min [of vs a] findLimit_mem [of vs "\<lambda>x mn. x < mn" a]
  by (auto simp: is_min_def is_max_def split: if_splits)

lemma is_max_filter:
  "is_max vs m \<Longrightarrow> t \<noteq> m \<Longrightarrow> is_max (filter (\<lambda>v. v \<noteq> t) vs) m"
  by (auto simp: is_max_def filter_empty_conv split: if_splits)

lemma is_min_filter:
  "is_min vs m \<Longrightarrow> t \<noteq> m \<Longrightarrow> is_min (filter (\<lambda>v. v \<noteq> t) vs) m"
  by (auto simp: is_min_def filter_empty_conv split: if_splits)

lemma vm_Delete_inv: "vm_inv vm \<Longrightarrow> vm_inv (vm_Delete vm t)"
proof -
  assume inv: "vm_inv vm"
  let ?vs = "filter (\<lambda>v. v \<noteq> t) (vm_versions vm)"
  let ?lst = "if t = vm_last vm then findLimit ?vs (\<lambda>x mx. x > mx) 0 else vm_last vm"
  have mx: "is_max ?vs ?lst"
    using inv by (auto simp: vm_inv_def intro: findLimit_is_max is_max_filter)
  moreover have "is_min ?vs (if t = vm_initial vm then findLimit ?vs (\<lambda>x mn. x < mn) ?lst
      else vm_initial vm)"
    using inv findLimit_is_min [OF mx] by (auto simp: vm_inv_def intro: is_min_filter)
  ultimately show ?thesis
    using inv by (auto simp: vm_inv_def vm_Delete_def Let_def)
qed

lemma vm_Delete_versions [simp]: "set (vm_versions (vm_Delete vm t)) = set (vm_versions vm) - {t}"
  by (auto simp: vm_Delete_def Let_def)

lemma newVersionManager_loop_inv:
  assumes "distinct vmap" "0 \<notin> set vmap" "0 \<notin> set vers" "is_max vmap lst" "is_min vmap init"
  shows "vm_inv (newVersionManager_loop vers vmap init lst) \<and>
    set (vm_versions (newVersionManager_loop vers vmap init lst)) = set vmap \<union> set vers"
  using assms
proof (induction vers vmap init lst rule: newVersionManager_loop.induct)
  case (1 vmap init lst)
  then show ?case by (simp add: vm_inv_def)
next
  case (2 ver vers vmap init lst)
  have "is_max (vset_insert ver vmap) (if ver > lst then ver else lst)"
    using "2.prems" by (auto simp: is_max_def not_less split: if_splits)
  moreover have "is_min (vset_insert ver vmap) (if init = 0 \<or> ver < init then ver else init)"
    using "2.prems" by (auto simp: is_min_def not_less split: if_splits)
  ultimately show ?case using "2.IH" "2.prems" by auto
qed

lemma NewVersionManager_inv:
  "0 \<notin> set vers \<Longrightarrow> vm_inv (NewVersionManager vers) \<and> set (vm_versions (NewVersionManager vers)) = set vers"
  using newVersionManager_loop_inv [of "[]" vers 0 0]
  by (simp add: NewVersionManager_def is_max_def is_min_def)

lemma vm_Equal_iff:
  "vm_inv a \<Longrightarrow> vm_inv b \<Longrightarrow> vm_Equal a b \<longleftrightarrow> set (vm_versions a) = set (vm_versions b)"
proof -
  assume inv: "vm_inv a" "vm_inv b"
  then have "vm_Count x = card (set (vm_versions x))" if "x \<in> {a, b}" for x
    using that by (auto simp: vm_Count_def vm_inv_def distinct_card)
  then have "vm_Equal a b \<longleftrightarrow> card (set (vm_versions a)) = card (set (vm_versions b)) \<and>
      set (vm_versions b) \<subseteq> set (vm_versions a)"
    by (simp add: vm_Equal_def list_all_iff vm_Exists_def subset_eq)
  then show ?thesis
    by (metis List.finite_set card_subset_eq order_refl)
qed

lemma vm_Copy_id: "distinct (vm_versions vm) \<Longrightarrow> vm_Copy vm = vm"
proof -
  have "foldl (\<lambda>m v. vset_insert v m) acc vs = acc @ vs"
    if "distinct (acc @ vs)" for acc vs
    using that by (induction vs arbitrary: acc) (auto simp: vset_insert_def)
  then show "distinct (vm_versions vm) \<Longrightarrow> vm_Copy vm = vm"
    by (simp add: vm_Copy_def)
qed

text \<open>
  The target 0 asks for the next version. Below the largest \<open>uint64\<close> a
  successful save returns a version above every earlier one.
\<close>

lemma vm_Save_cases:
  assumes "vm_inv vm" "vm_last vm \<noteq> - 1"
  shows "vm_Save vm t = (if t \<noteq> 0 \<and> t \<le> vm_last vm then Inl (ErrTargetTooLow t (vm_last vm + 1))
    else let t' = (if t = 0 then vm_last vm + 1 else t) in
      Inr (t', \<lparr>vm_versions = vm_versions vm @ [t'],
                vm_initial = (if vm_versions vm = [] then t' else vm_initial vm),
                vm_last = t'\<rparr>))"
proof -
  note step = u64_less_Suc [OF assms(2)]
  have new: "x \<notin> set (vm_versions vm)" if "vm_last vm < x" for x
    using that vm_inv_versions_le_last [OF assms(1)] by force
  have "vm_last vm < vm_last vm + 1" by (simp add: step)
  then show ?thesis
    using step new by (cases "t = 0") (auto simp: vm_Save_def Let_def not_le)
qed

lemma vm_Save_inv:
  assumes "vm_inv vm" "vm_last vm \<noteq> - 1" "vm_Save vm t = Inr (v, vm')"
  shows "vm_inv vm' \<and> vm_last vm < v \<and> vm_versions vm' = vm_versions vm @ [v] \<and>
    vm_last vm' = v"
proof -
  have less: "vm_last vm < vm_last vm + 1" by (simp add: u64_less_Suc [OF assms(2)])
  from assms have v: "vm_last vm < v"
    and vm': "vm' = \<lparr>vm_versions = vm_versions vm @ [v],
                vm_initial = (if vm_versions vm = [] then v else vm_initial vm), vm_last = v\<rparr>"
    using less by (auto simp: vm_Save_cases Let_def split: if_splits)
  have v0: "v \<noteq> 0" using v by auto
  have lt: "w < v" if "w \<in> set (vm_versions vm)" for w
    using vm_inv_versions_le_last [OF assms(1) that] v by simp
  have "is_max (vm_versions vm @ [v]) v"
    using lt by (auto simp: is_max_def less_imp_le)
  moreover have "is_min (vm_versions vm @ [v]) (if vm_versions vm = [] then v else vm_initial vm)"
    using assms(1) lt by (auto simp: vm_inv_def is_min_def less_imp_le)
  ultimately show ?thesis
    using assms(1) v v0 lt unfolding vm' by (auto simp: vm_inv_def)
qed

section \<open>Properties\<close>

text \<open>
  \<open>Save\<close> on every branch, below the largest \<open>uint64\<close>: a target that is not
  above the last version is refused with the bound it missed; any other target,
  or the next version for target 0, becomes the last version, is added to the
  set, and the invariant (distinct non-zero versions, \<open>last\<close> the maximum,
  \<open>initial\<close> the minimum) holds again.
\<close>

theorem vm_Save_correct:
  assumes "vm_inv vm" "vm_last vm \<noteq> - 1"
  shows "case vm_Save vm t of
      Inl e \<Rightarrow> t \<noteq> 0 \<and> t \<le> vm_last vm \<and> e = ErrTargetTooLow t (vm_last vm + 1)
    | Inr (v, vm') \<Rightarrow> (t = 0 \<and> v = vm_last vm + 1 \<or> vm_last vm < t \<and> v = t) \<and>
        (\<forall>w. vm_Exists vm' w \<longleftrightarrow> w = v \<or> vm_Exists vm w) \<and> \<not> vm_Exists vm v \<and>
        vm_last vm' = v \<and> vm_inv vm'"
proof (cases "vm_Save vm t")
  case (Inl e)
  then show ?thesis using vm_Save_cases [OF assms, of t] by (auto simp: Let_def split: if_splits)
next
  case (Inr r)
  obtain v vm' where r: "r = (v, vm')" by force
  note inv = vm_Save_inv [OF assms Inr [unfolded r]]
  have "\<not> vm_Exists vm v"
    using inv vm_inv_versions_le_last [OF assms(1), of v] by (auto simp: vm_Exists_def)
  moreover have "t = 0 \<and> v = vm_last vm + 1 \<or> vm_last vm < t \<and> v = t"
    using Inr vm_Save_cases [OF assms, of t] by (auto simp: r Let_def split: if_splits)
  ultimately show ?thesis using Inr inv by (auto simp: r vm_Exists_def)
qed

definition vm_sample :: version_manager where
  "vm_sample = NewVersionManager [3, 7, 5]"

theorem vm_Save_correct_witness:
  "vm_inv vm_sample \<and> vm_last vm_sample \<noteq> - 1 \<and>
   vm_Save vm_sample 6 = Inl (ErrTargetTooLow 6 8) \<and>
   (case vm_Save vm_sample 0 of Inl e \<Rightarrow> False | Inr (v, vm') \<Rightarrow> v = 8 \<and> vm_last vm' = 8 \<and> vm_inv vm')"
proof -
  have inv: "vm_inv vm_sample" "vm_last vm_sample \<noteq> - 1" by code_simp+
  have "case vm_Save vm_sample 0 of Inl e \<Rightarrow> False | Inr (v, vm') \<Rightarrow> v = 8 \<and> vm_last vm' = 8"
    "vm_Save vm_sample 6 = Inl (ErrTargetTooLow 6 8)" by code_simp+
  with inv vm_Save_correct [OF inv, of 0] show ?thesis by (auto split: sum.splits)
qed

text \<open>
  \<open>Delete\<close> removes the target and nothing else, and re-establishes \<open>last\<close>
  as the maximum and \<open>initial\<close> as the minimum of what is left (both 0 when
  nothing is left), in whatever order Go visits the map.
\<close>

theorem vm_Delete_correct:
  assumes "vm_inv vm"
  shows "vm_inv (vm_Delete vm t) \<and>
    (\<forall>w. vm_Exists (vm_Delete vm t) w \<longleftrightarrow> w \<noteq> t \<and> vm_Exists vm w)"
  using assms by (auto simp: vm_Delete_inv vm_Exists_def)

theorem vm_Delete_correct_witness:
  "vm_inv vm_sample \<and> vm_inv (vm_Delete vm_sample 7) \<and> vm_last (vm_Delete vm_sample 7) = 5 \<and>
   vm_initial (vm_Delete vm_sample 3) = 5 \<and> \<not> vm_Exists (vm_Delete vm_sample 7) 7"
proof -
  have inv: "vm_inv vm_sample" by code_simp
  moreover have "vm_last (vm_Delete vm_sample 7) = 5" "vm_initial (vm_Delete vm_sample 3) = 5"
    by code_simp+
  ultimately show ?thesis using vm_Delete_correct [OF inv, of 7] by simp
qed

text \<open>
  At the largest \<open>uint64\<close> the next version wraps around: \<open>Save(0)\<close> succeeds
  with version 0, the number that \<open>last == 0\<close> and \<open>target == 0\<close> reserve for
  \<^emph>\<open>no version\<close>, and the last version falls back to 0.
\<close>

theorem vm_Save_wraps:
  assumes "vm_inv vm" "vm_last vm = - 1"
  shows "\<exists>vm'. vm_Save vm 0 = Inr (0, vm') \<and> vm_last vm' = 0 \<and> \<not> vm_inv vm'"
  using assms by (auto simp: vm_Save_def vm_inv_def)

theorem vm_Save_wraps_witness:
  "vm_inv (NewVersionManager [- 1]) \<and> vm_last (NewVersionManager [- 1]) = - 1 \<and>
   (\<exists>vm'. vm_Save (NewVersionManager [- 1]) 0 = Inr (0, vm') \<and> \<not> vm_inv vm')"
proof -
  have inv: "vm_inv (NewVersionManager [- 1])" "vm_last (NewVersionManager [- 1]) = - 1"
    by code_simp+
  then show ?thesis using vm_Save_wraps [OF inv] by blast
qed

end
