(* ===== verification/Memdb.thy ===== *)
theory Memdb
  imports Version_Manager "HOL-Library.RBT"
begin

text \<open>
  The in-memory versioned database (\<open>src/ledger/backend/memdb/backend.go\<close>,
  \<open>iterator.go\<close>) and the transaction interface it implements
  (\<open>src/ledger/backend/common/interface.go\<close>).

  The B-tree is \<open>github.com/google/btree\<close>, which is not part of the repository:
  it is the parameter \<open>B\<close>, a record of the operations the code calls, and
  its documented behaviour is the locale \<open>btree\<close>. A tree is a value of the
  type \<open>'t\<close>. \<open>Clone\<close> is documented to give a copy-on-write extension, so a
  write to one tree is never seen through another; the code writes only to
  trees that \<open>ReadWriter\<close> cloned, and drops its own reference on commit, so a
  tree that \<open>saved\<close>, a reader or another writer holds is never written.
  That makes a tree a value, and the clone the value itself.

  The interface \<open>DBReadWriter\<close> is the record \<open>db_ops\<close>, over a state \<open>'c\<close> that
  holds the database and the transaction; its contract is the locale \<open>db_rw\<close>,
  which the database implements here and the prefixed views implement in the
  theory \<open>Prefix_Backend\<close>.
\<close>

section \<open>The B-tree library\<close>

record ('t, 'v) btree_ops =
  bt_new :: 't
  bt_get :: "'t \<Rightarrow> bytes \<Rightarrow> 'v option"
  bt_has :: "'t \<Rightarrow> bytes \<Rightarrow> bool"
  bt_replaceOrInsert :: "'t \<Rightarrow> bytes \<Rightarrow> 'v \<Rightarrow> 't"
  bt_delete :: "'t \<Rightarrow> bytes \<Rightarrow> 't"
  bt_ascend :: "'t \<Rightarrow> (bytes \<times> 'v) list"
  bt_ascendGreaterOrEqual :: "'t \<Rightarrow> bytes \<Rightarrow> (bytes \<times> 'v) list"
  bt_ascendRange :: "'t \<Rightarrow> bytes \<Rightarrow> bytes \<Rightarrow> (bytes \<times> 'v) list"
  bt_descend :: "'t \<Rightarrow> (bytes \<times> 'v) list"
  bt_descendLessOrEqual :: "'t \<Rightarrow> bytes \<Rightarrow> (bytes \<times> 'v) list"

text \<open>
  The traversals return what the library passes to the visitor as long as it
  answers true. The laws are the library's documentation: a tree is an ordered
  set of items, \<open>Less\<close> compares keys by \<open>bytes.Compare\<close>.
\<close>

locale btree =
  fixes B :: "('t, 'v) btree_ops"
  assumes ascend_sorted: "sorted_keys (bt_ascend B t)"
    and get_ascend: "bt_get B t k = map_of (bt_ascend B t) k"
    and has_get: "bt_has B t k \<longleftrightarrow> bt_get B t k \<noteq> None"
    and ascend_new: "bt_ascend B (bt_new B) = []"
    and get_replaceOrInsert: "bt_get B (bt_replaceOrInsert B t k v) = (bt_get B t)(k \<mapsto> v)"
    and get_delete: "bt_get B (bt_delete B t k) = (bt_get B t)(k := None)"
    and ascendGreaterOrEqual: "bt_ascendGreaterOrEqual B t a = filter (\<lambda>(k, v). a \<le> k) (bt_ascend B t)"
    and ascendRange: "bt_ascendRange B t a b = filter (\<lambda>(k, v). a \<le> k \<and> k < b) (bt_ascend B t)"
    and descend: "bt_descend B t = rev (bt_ascend B t)"
    and descendLessOrEqual: "bt_descendLessOrEqual B t b = rev (filter (\<lambda>(k, v). k \<le> b) (bt_ascend B t))"

section \<open>The transaction interface\<close>

record ('c, 'v) db_ops =
  db_Get :: "'c \<Rightarrow> bytes \<Rightarrow> error + 'v option"
  db_Has :: "'c \<Rightarrow> bytes \<Rightarrow> error + bool"
  db_Set :: "'c \<Rightarrow> bytes \<Rightarrow> 'v option \<Rightarrow> 'c \<times> error option"
  db_Delete :: "'c \<Rightarrow> bytes \<Rightarrow> 'c \<times> error option"
  db_Iterator :: "'c \<Rightarrow> bytes option \<Rightarrow> bytes option \<Rightarrow> error + (bytes \<times> 'v) list"
  db_ReverseIterator :: "'c \<Rightarrow> bytes option \<Rightarrow> bytes option \<Rightarrow> error + (bytes \<times> 'v) list"
  db_Commit :: "'c \<Rightarrow> 'c \<times> error option"
  db_Discard :: "'c \<Rightarrow> 'c \<times> error option"

text \<open>
  The contract: an open transaction is a map \<open>abs c\<close> from non-empty keys to
  values, which \<open>Get\<close> and \<open>Has\<close> read, \<open>Set\<close> and \<open>Delete\<close> update at one key, and
  \<open>Iterator\<close> and \<open>ReverseIterator\<close> list over a range, in ascending and in
  descending order. Empty keys and nil values are refused without a change.
\<close>

locale db_rw =
  fixes ops :: "('c, 'v) db_ops"
    and abs :: "'c \<Rightarrow> bytes \<rightharpoonup> 'v"
    and opn :: "'c \<Rightarrow> bool"
  assumes abs_Nil: "opn c \<Longrightarrow> abs c [] = None"
    and Get: "opn c \<Longrightarrow> db_Get ops c k = (if k = [] then Inl ErrKeyEmpty else Inr (abs c k))"
    and Has: "opn c \<Longrightarrow> db_Has ops c k = (if k = [] then Inl ErrKeyEmpty else Inr (abs c k \<noteq> None))"
    and Set_err: "opn c \<Longrightarrow> snd (db_Set ops c k v) =
        (if k = [] then Some ErrKeyEmpty else if v = None then Some ErrValueNil else None)"
    and Set_open: "opn c \<Longrightarrow> opn (fst (db_Set ops c k v))"
    and Set_abs: "opn c \<Longrightarrow> abs (fst (db_Set ops c k v)) =
        (if k = [] \<or> v = None then abs c else (abs c)(k := v))"
    and Delete_err: "opn c \<Longrightarrow> snd (db_Delete ops c k) = (if k = [] then Some ErrKeyEmpty else None)"
    and Delete_open: "opn c \<Longrightarrow> opn (fst (db_Delete ops c k))"
    and Delete_abs: "opn c \<Longrightarrow> abs (fst (db_Delete ops c k)) = (abs c)(k := None)"
    and Iterator: "opn c \<Longrightarrow> s \<noteq> Some [] \<Longrightarrow> e \<noteq> Some [] \<Longrightarrow>
        \<exists>xs. db_Iterator ops c s e = Inr xs \<and> sorted_keys xs \<and>
          (\<forall>k v. (k, v) \<in> set xs \<longleftrightarrow> abs c k = Some v \<and> in_range s e k)"
    and ReverseIterator: "opn c \<Longrightarrow> s \<noteq> Some [] \<Longrightarrow> e \<noteq> Some [] \<Longrightarrow>
        \<exists>xs. db_ReverseIterator ops c s e = Inr xs \<and> sorted_keys (rev xs) \<and>
          (\<forall>k v. (k, v) \<in> set xs \<longleftrightarrow> abs c k = Some v \<and> in_range s e k)"
    and Iterator_err: "opn c \<Longrightarrow> s = Some [] \<or> e = Some [] \<Longrightarrow>
        db_Iterator ops c s e = Inl ErrKeyEmpty \<and> db_ReverseIterator ops c s e = Inl ErrKeyEmpty"

section \<open>The database\<close>

text \<open>A \<open>*btree.BTree\<close> is a tree or nil.\<close>

type_synonym 't tree_ptr = "'t option"

record 't memdb =
  mdb_btree :: "'t tree_ptr"
  mdb_saved :: "u64 \<rightharpoonup> 't tree_ptr"
  mdb_vmgr :: version_manager
  mdb_openWriters :: int

text \<open>In a transaction, \<open>btree == nil\<close> marks that it was committed or discarded.\<close>

record 't dbTxn =
  tx_btree :: "'t tree_ptr"

definition NewMemDBBackend :: "('t, 'v) btree_ops \<Rightarrow> 't memdb" where
  "NewMemDBBackend B = \<lparr>mdb_btree = Some (bt_new B), mdb_saved = Map.empty,
     mdb_vmgr = NewVersionManager [], mdb_openWriters = 0\<rparr>"

definition mdb_Reader :: "'t memdb \<Rightarrow> 't dbTxn" where
  "mdb_Reader m = \<lparr>tx_btree = mdb_btree m\<rparr>"

definition mdb_ReaderAt :: "'t memdb \<Rightarrow> u64 \<Rightarrow> error + 't dbTxn" where
  "mdb_ReaderAt m version = (case mdb_saved m version of
     None \<Rightarrow> Inl ErrVersionDoesNotExist
   | Some tree \<Rightarrow> Inr \<lparr>tx_btree = tree\<rparr>)"

text \<open>\<open>Clone\<close> of the nil tree is a nil dereference.\<close>

definition mdb_ReadWriter :: "'t memdb \<Rightarrow> error + ('t memdb \<times> 't dbTxn)" where
  "mdb_ReadWriter m = (case mdb_btree m of
     None \<Rightarrow> Inl (Panic ''nil pointer dereference'')
   | Some tree \<Rightarrow> Inr (m\<lparr>mdb_openWriters := mdb_openWriters m + 1\<rparr>, \<lparr>tx_btree = Some tree\<rparr>))"

definition mdb_save :: "'t memdb \<Rightarrow> u64 \<Rightarrow> error + (u64 \<times> 't memdb)" where
  "mdb_save m target =
     (if mdb_openWriters m > 0 then Inl ErrOpenTransactions
      else case vm_Save (vm_Copy (mdb_vmgr m)) target of
        Inl err \<Rightarrow> Inl err
      | Inr (target', newVmgr) \<Rightarrow>
          Inr (target', m\<lparr>mdb_saved := (mdb_saved m)(target' \<mapsto> mdb_btree m), mdb_vmgr := newVmgr\<rparr>))"

definition mdb_SaveNextVersion :: "'t memdb \<Rightarrow> error + (u64 \<times> 't memdb)" where
  "mdb_SaveNextVersion m = mdb_save m 0"

definition mdb_SaveVersion :: "'t memdb \<Rightarrow> u64 \<Rightarrow> 't memdb \<times> error option" where
  "mdb_SaveVersion m target =
     (if target = 0 then (m, Some ErrInvalidVersion)
      else case mdb_save m target of Inl err \<Rightarrow> (m, Some err) | Inr (_, m') \<Rightarrow> (m', None))"

definition mdb_DeleteVersion :: "'t memdb \<Rightarrow> u64 \<Rightarrow> 't memdb \<times> error option" where
  "mdb_DeleteVersion m target =
     (if mdb_saved m target = None then (m, Some ErrVersionDoesNotExist)
      else (m\<lparr>mdb_saved := (mdb_saved m)(target := None),
              mdb_vmgr := vm_Delete (vm_Copy (mdb_vmgr m)) target\<rparr>, None))"

text \<open>\<open>m.btree, has = m.saved[last]\<close> assigns before the check of \<open>has\<close>.\<close>

definition mdb_Revert :: "('t, 'v) btree_ops \<Rightarrow> 't memdb \<Rightarrow> 't memdb \<times> error option" where
  "mdb_Revert B m =
     (if mdb_openWriters m > 0 then (m, Some ErrOpenTransactions)
      else let lst = vm_last (mdb_vmgr m) in
        if lst = 0 then (m\<lparr>mdb_btree := Some (bt_new B)\<rparr>, None)
        else case mdb_saved m lst of
          None \<Rightarrow> (m\<lparr>mdb_btree := None\<rparr>, Some (ErrBadHistory lst))
        | Some tree \<Rightarrow> (m\<lparr>mdb_btree := tree,
            mdb_saved := (\<lambda>ver. if ver > lst then None else mdb_saved m ver)\<rparr>, None))"

definition mdb_PendingTxCount :: "'t memdb \<Rightarrow> int" where
  "mdb_PendingTxCount m = mdb_openWriters m"

section \<open>Transactions\<close>

definition txn_Get :: "('t, 'v) btree_ops \<Rightarrow> 't dbTxn \<Rightarrow> bytes \<Rightarrow> error + 'v option" where
  "txn_Get B tx key = (case tx_btree tx of
     None \<Rightarrow> Inl ErrTransactionClosed
   | Some tree \<Rightarrow> if key = [] then Inl ErrKeyEmpty else Inr (bt_get B tree key))"

definition txn_Has :: "('t, 'v) btree_ops \<Rightarrow> 't dbTxn \<Rightarrow> bytes \<Rightarrow> error + bool" where
  "txn_Has B tx key = (case tx_btree tx of
     None \<Rightarrow> Inl ErrTransactionClosed
   | Some tree \<Rightarrow> if key = [] then Inl ErrKeyEmpty else Inr (bt_has B tree key))"

definition ValidateKv :: "bytes \<Rightarrow> 'v option \<Rightarrow> error option" where
  "ValidateKv key val =
     (if key = [] then Some ErrKeyEmpty else if val = None then Some ErrValueNil else None)"

definition writer_Set :: "('t, 'v) btree_ops \<Rightarrow> 't dbTxn \<Rightarrow> bytes \<Rightarrow> 'v option \<Rightarrow> 't dbTxn \<times> error option" where
  "writer_Set B tx key val = (case tx_btree tx of
     None \<Rightarrow> (tx, Some ErrTransactionClosed)
   | Some tree \<Rightarrow> (case ValidateKv key val of
        Some err \<Rightarrow> (tx, Some err)
      | None \<Rightarrow> (tx\<lparr>tx_btree := Some (bt_replaceOrInsert B tree key (the val))\<rparr>, None)))"

definition writer_Delete :: "('t, 'v) btree_ops \<Rightarrow> 't dbTxn \<Rightarrow> bytes \<Rightarrow> 't dbTxn \<times> error option" where
  "writer_Delete B tx key = (case tx_btree tx of
     None \<Rightarrow> (tx, Some ErrTransactionClosed)
   | Some tree \<Rightarrow> if key = [] then (tx, Some ErrKeyEmpty)
       else (tx\<lparr>tx_btree := Some (bt_delete B tree key)\<rparr>, None))"

definition txn_Discard :: "'t dbTxn \<Rightarrow> 't dbTxn" where
  "txn_Discard tx = tx\<lparr>tx_btree := None\<rparr>"

definition writer_Discard :: "'t memdb \<Rightarrow> 't dbTxn \<Rightarrow> 't memdb \<times> 't dbTxn" where
  "writer_Discard m tx =
     ((if tx_btree tx \<noteq> None then m\<lparr>mdb_openWriters := mdb_openWriters m - 1\<rparr> else m),
      txn_Discard tx)"

definition writer_Commit :: "'t memdb \<Rightarrow> 't dbTxn \<Rightarrow> ('t memdb \<times> 't dbTxn) \<times> error option" where
  "writer_Commit m tx = (if tx_btree tx = None then ((m, tx), Some ErrTransactionClosed)
     else (writer_Discard (m\<lparr>mdb_btree := tx_btree tx\<rparr>) tx, None))"

section \<open>Iterators\<close>

text \<open>
  The goroutine of \<open>newMemDBIterator\<close> sends the items that the visitor accepts
  into the channel from which \<open>Next\<close> reads: the iterator is the list of these
  items. The visitor skips the item at \<open>skipEqual\<close> once and stops the traversal
  at the first key below \<open>abortLessThan\<close>.
\<close>

fun visit :: "bytes option \<Rightarrow> bytes option \<Rightarrow> (bytes \<times> 'v) list \<Rightarrow> (bytes \<times> 'v) list" where
  "visit skipEqual abortLessThan [] = []"
| "visit skipEqual abortLessThan ((k, v) # items) =
     (if skipEqual = Some k then visit None abortLessThan items
      else if (case abortLessThan of None \<Rightarrow> False | Some a \<Rightarrow> k < a) then []
      else (k, v) # visit skipEqual abortLessThan items)"

text \<open>With a nil \<open>start\<close> and an \<open>end\<close>, the code asks for the range from the
  key item of nil, which \<open>Less\<close> takes as the empty key.\<close>

definition newMemDBIterator ::
  "('t, 'v) btree_ops \<Rightarrow> 't \<Rightarrow> bytes option \<Rightarrow> bytes option \<Rightarrow> bool \<Rightarrow> (bytes \<times> 'v) list" where
  "newMemDBIterator B tree s e reverse = (case (s, e, reverse) of
     (None, None, False) \<Rightarrow> visit None None (bt_ascend B tree)
   | (None, None, True) \<Rightarrow> visit None None (bt_descend B tree)
   | (Some a, None, False) \<Rightarrow> visit None None (bt_ascendGreaterOrEqual B tree a)
   | (_, Some b, False) \<Rightarrow>
       visit None None (bt_ascendRange B tree (case s of None \<Rightarrow> [] | Some a \<Rightarrow> a) b)
   | (Some a, None, True) \<Rightarrow> visit None (Some a) (bt_descend B tree)
   | (_, Some b, True) \<Rightarrow> visit (Some b) s (bt_descendLessOrEqual B tree b))"

definition txn_iterate ::
  "('t, 'v) btree_ops \<Rightarrow> bool \<Rightarrow> 't dbTxn \<Rightarrow> bytes option \<Rightarrow> bytes option \<Rightarrow> error + (bytes \<times> 'v) list" where
  "txn_iterate B reverse tx s e = (case tx_btree tx of
     None \<Rightarrow> Inl ErrTransactionClosed
   | Some tree \<Rightarrow> if s = Some [] \<or> e = Some [] then Inl ErrKeyEmpty
       else Inr (newMemDBIterator B tree s e reverse))"

text \<open>The read-write transaction of one database as the interface the layers above use.\<close>

definition memdb_ops :: "('t, 'v) btree_ops \<Rightarrow> ('t memdb \<times> 't dbTxn, 'v) db_ops" where
  "memdb_ops B = \<lparr>
     db_Get = (\<lambda>(m, tx) k. txn_Get B tx k),
     db_Has = (\<lambda>(m, tx) k. txn_Has B tx k),
     db_Set = (\<lambda>(m, tx) k v. case writer_Set B tx k v of (tx', err) \<Rightarrow> ((m, tx'), err)),
     db_Delete = (\<lambda>(m, tx) k. case writer_Delete B tx k of (tx', err) \<Rightarrow> ((m, tx'), err)),
     db_Iterator = (\<lambda>(m, tx) s e. txn_iterate B False tx s e),
     db_ReverseIterator = (\<lambda>(m, tx) s e. txn_iterate B True tx s e),
     db_Commit = (\<lambda>(m, tx). writer_Commit m tx),
     db_Discard = (\<lambda>(m, tx). (writer_Discard m tx, None))\<rparr>"

section \<open>Iterators list exactly their range\<close>

lemma visit_None [simp]: "visit None None items = items"
  by (induction items) auto

lemma visit_abort:
  "sorted_keys (rev items) \<Longrightarrow> visit None (Some a) items = filter (\<lambda>(k, v). a \<le> k) items"
proof (induction items)
  case (Cons kv items)
  obtain k v where kv: "kv = (k, v)" by force
  have lt: "\<forall>(k', v') \<in> set items. k' < k"
    using Cons.prems by (auto simp: sorted_keys_def sorted_wrt_append kv)
  have "filter (\<lambda>(k, v). a \<le> k) items = []" if "k < a"
    using that lt by (fastforce simp: filter_empty_conv)
  moreover have "sorted_keys (rev items)"
    using Cons.prems by (simp add: sorted_keys_def sorted_wrt_append)
  ultimately show ?case using Cons.IH by (auto simp: kv)
qed simp

lemma visit_skip:
  "sorted_keys (rev items) \<Longrightarrow> \<forall>(k, v) \<in> set items. k \<le> b \<Longrightarrow>
   visit (Some b) s items = visit None s (filter (\<lambda>(k, v). k < b) items)"
proof (induction items)
  case (Cons kv items)
  obtain k v where kv: "kv = (k, v)" by force
  have lt: "\<forall>(k', v') \<in> set items. k' < k"
    using Cons.prems by (auto simp: sorted_keys_def sorted_wrt_append kv)
  have "filter (\<lambda>(k, v). k < b) items = items" if "k = b"
    using that lt by (fastforce simp: filter_id_conv)
  moreover have "sorted_keys (rev items)"
    using Cons.prems by (simp add: sorted_keys_def sorted_wrt_append)
  ultimately show ?case using Cons by (auto simp: kv)
qed simp

context btree
begin

lemma get_new: "bt_get B (bt_new B) k = None"
  by (simp add: get_ascend ascend_new)

lemma ascend_mem: "(k, v) \<in> set (bt_ascend B t) \<longleftrightarrow> bt_get B t k = Some v"
  by (simp add: get_ascend sorted_keys_mem ascend_sorted)

lemma newMemDBIterator_ascending:
  "s \<noteq> Some [] \<Longrightarrow> newMemDBIterator B t s e False = filter (\<lambda>(k, v). in_range s e k) (bt_ascend B t)"
  by (cases s; cases e) (auto simp: newMemDBIterator_def ascendGreaterOrEqual ascendRange
      intro!: filter_cong)

lemma newMemDBIterator_descending:
  "s \<noteq> Some [] \<Longrightarrow>
   newMemDBIterator B t s e True = rev (filter (\<lambda>(k, v). in_range s e k) (bt_ascend B t))"
proof -
  have sorted: "sorted_keys (filter P (bt_ascend B t))" for P
    by (simp add: ascend_sorted sorted_keys_filter)
  have skip: "visit (Some b) s (bt_descendLessOrEqual B t b) =
      visit None s (rev (filter (\<lambda>(k, v). k < b) (bt_ascend B t)))" for b s
  proof -
    have "visit (Some b) s (bt_descendLessOrEqual B t b) =
        visit None s (filter (\<lambda>(k, v). k < b) (rev (filter (\<lambda>(k, v). k \<le> b) (bt_ascend B t))))"
      by (simp add: descendLessOrEqual visit_skip sorted)
    also have "filter (\<lambda>(k, v). k < b) (rev (filter (\<lambda>(k, v). k \<le> b) (bt_ascend B t))) =
        rev (filter (\<lambda>(k, v). k < b) (bt_ascend B t))"
      by (auto simp: rev_filter [symmetric] intro!: arg_cong [where f = rev] filter_cong)
    finally show ?thesis .
  qed
  show ?thesis
    by (cases s; cases e)
      (auto simp: newMemDBIterator_def descend skip visit_abort sorted ascend_sorted rev_filter
        intro!: filter_cong)
qed

end

section \<open>The database implements the transaction interface\<close>

text \<open>A tree of the database never holds the empty key, which \<open>Set\<close> refuses.\<close>

definition good_tree :: "('t, 'v) btree_ops \<Rightarrow> 't tree_ptr \<Rightarrow> bool" where
  "good_tree B p \<longleftrightarrow> (case p of None \<Rightarrow> False | Some t \<Rightarrow> bt_get B t [] = None)"

definition memdb_abs :: "('t, 'v) btree_ops \<Rightarrow> 't memdb \<times> 't dbTxn \<Rightarrow> bytes \<rightharpoonup> 'v" where
  "memdb_abs B c = (case tx_btree (snd c) of None \<Rightarrow> Map.empty | Some t \<Rightarrow> bt_get B t)"

definition memdb_opn :: "('t, 'v) btree_ops \<Rightarrow> 't memdb \<times> 't dbTxn \<Rightarrow> bool" where
  "memdb_opn B c \<longleftrightarrow> good_tree B (tx_btree (snd c))"

lemma good_treeE:
  assumes "good_tree B p"
  obtains t where "p = Some t" "bt_get B t [] = None"
  using assms by (auto simp: good_tree_def split: option.splits)

lemmas memdb_txn_defs = memdb_ops_def memdb_abs_def memdb_opn_def good_tree_def txn_Get_def
  txn_Has_def writer_Set_def writer_Delete_def txn_iterate_def ValidateKv_def

context btree
begin

lemma memdb_Iterator:
  assumes "memdb_opn B c" "s \<noteq> Some []" "e \<noteq> Some []"
  shows "\<exists>xs. db_Iterator (memdb_ops B) c s e = Inr xs \<and> sorted_keys xs \<and>
    (\<forall>k v. (k, v) \<in> set xs \<longleftrightarrow> memdb_abs B c k = Some v \<and> in_range s e k)"
proof -
  obtain m tx t where c: "c = (m, tx)" "tx_btree tx = Some t"
    using assms(1) by (cases c) (auto simp: memdb_opn_def elim: good_treeE)
  show ?thesis using assms(2,3)
    by (auto simp: c memdb_txn_defs newMemDBIterator_ascending ascend_mem ascend_sorted
        sorted_keys_filter)
qed

lemma memdb_ReverseIterator:
  assumes "memdb_opn B c" "s \<noteq> Some []" "e \<noteq> Some []"
  shows "\<exists>xs. db_ReverseIterator (memdb_ops B) c s e = Inr xs \<and> sorted_keys (rev xs) \<and>
    (\<forall>k v. (k, v) \<in> set xs \<longleftrightarrow> memdb_abs B c k = Some v \<and> in_range s e k)"
proof -
  obtain m tx t where c: "c = (m, tx)" "tx_btree tx = Some t"
    using assms(1) by (cases c) (auto simp: memdb_opn_def elim: good_treeE)
  show ?thesis using assms(2,3)
    by (auto simp: c memdb_txn_defs newMemDBIterator_descending ascend_mem ascend_sorted
        sorted_keys_filter)
qed

end

sublocale btree \<subseteq> memdb: db_rw "memdb_ops B" "memdb_abs B" "memdb_opn B"
proof (unfold_locales, goal_cases)
  case (10 c s e)
  then show ?case by (rule memdb_Iterator)
next
  case (11 c s e)
  then show ?case by (rule memdb_ReverseIterator)
qed (auto simp: memdb_txn_defs has_get get_replaceOrInsert get_delete
    split: option.splits prod.splits)

context btree
begin

lemma memdb_contract: "db_rw (memdb_ops B) (memdb_abs B) (memdb_opn B)"
  by unfold_locales

end

lemmas memdb_db_rw = btree.memdb_contract

text \<open>
  The red-black trees of the library satisfy the contract of the B-tree: the
  instance that the closed examples of the development run on.
\<close>

definition rbt_ops :: "((bytes, 'v) rbt, 'v) btree_ops" where
  "rbt_ops = \<lparr>
     bt_new = RBT.empty,
     bt_get = RBT.lookup,
     bt_has = (\<lambda>t k. RBT.lookup t k \<noteq> None),
     bt_replaceOrInsert = (\<lambda>t k v. RBT.insert k v t),
     bt_delete = (\<lambda>t k. RBT.delete k t),
     bt_ascend = RBT.entries,
     bt_ascendGreaterOrEqual = (\<lambda>t a. filter (\<lambda>(k, v). a \<le> k) (RBT.entries t)),
     bt_ascendRange = (\<lambda>t a b. filter (\<lambda>(k, v). a \<le> k \<and> k < b) (RBT.entries t)),
     bt_descend = (\<lambda>t. rev (RBT.entries t)),
     bt_descendLessOrEqual = (\<lambda>t b. rev (filter (\<lambda>(k, v). k \<le> b) (RBT.entries t)))\<rparr>"

lemma entries_sorted_keys: "sorted_keys (RBT.entries t)"
  using sorted_entries [of t] distinct_entries [of t]
  by (simp add: sorted_keys_def strict_sorted_iff)

lemma entries_empty: "RBT.entries RBT.empty = []"
  by (metis lookup_empty map_of_entries map_of_eq_empty_iff)

interpretation rbt: btree rbt_ops
  by unfold_locales
    (auto simp: rbt_ops_def entries_sorted_keys entries_empty map_of_entries fun_eq_iff)

section \<open>Histories of a database\<close>

text \<open>
  A database with the writers opened on it, in the order of opening; a closed
  writer stays in the list. An event is one call of a client; calls that fail
  are events too. Readers hold a tree and change nothing, so they need no state.
\<close>

record 't mdb_sys =
  sys_db :: "'t memdb"
  sys_writers :: "'t dbTxn list"

datatype 'v mdb_event =
    EvReadWriter
  | EvSet nat bytes "'v option"
  | EvDelete nat bytes
  | EvCommit nat
  | EvDiscard nat
  | EvSaveVersion u64
  | EvDeleteVersion u64
  | EvRevert

inductive mdb_step :: "('t, 'v) btree_ops \<Rightarrow> 't mdb_sys \<Rightarrow> 'v mdb_event \<Rightarrow> 't mdb_sys \<Rightarrow> bool"
  for B :: "('t, 'v) btree_ops" where
  step_ReadWriter: "mdb_ReadWriter (sys_db s) = Inr (m, tx) \<Longrightarrow>
    mdb_step B s EvReadWriter \<lparr>sys_db = m, sys_writers = sys_writers s @ [tx]\<rparr>"
| step_Set: "i < length (sys_writers s) \<Longrightarrow> writer_Set B (sys_writers s ! i) k v = (tx, err) \<Longrightarrow>
    mdb_step B s (EvSet i k v) (s\<lparr>sys_writers := (sys_writers s)[i := tx]\<rparr>)"
| step_Delete: "i < length (sys_writers s) \<Longrightarrow> writer_Delete B (sys_writers s ! i) k = (tx, err) \<Longrightarrow>
    mdb_step B s (EvDelete i k) (s\<lparr>sys_writers := (sys_writers s)[i := tx]\<rparr>)"
| step_Commit: "i < length (sys_writers s) \<Longrightarrow>
    writer_Commit (sys_db s) (sys_writers s ! i) = ((m, tx), err) \<Longrightarrow>
    mdb_step B s (EvCommit i) \<lparr>sys_db = m, sys_writers = (sys_writers s)[i := tx]\<rparr>"
| step_Discard: "i < length (sys_writers s) \<Longrightarrow>
    writer_Discard (sys_db s) (sys_writers s ! i) = (m, tx) \<Longrightarrow>
    mdb_step B s (EvDiscard i) \<lparr>sys_db = m, sys_writers = (sys_writers s)[i := tx]\<rparr>"
| step_SaveVersion: "mdb_SaveVersion (sys_db s) v = (m, err) \<Longrightarrow>
    vm_last (mdb_vmgr (sys_db s)) \<noteq> - 1 \<Longrightarrow>
    mdb_step B s (EvSaveVersion v) (s\<lparr>sys_db := m\<rparr>)"
| step_DeleteVersion: "mdb_DeleteVersion (sys_db s) v = (m, err) \<Longrightarrow>
    mdb_step B s (EvDeleteVersion v) (s\<lparr>sys_db := m\<rparr>)"
| step_Revert: "mdb_Revert B (sys_db s) = (m, err) \<Longrightarrow>
    mdb_step B s EvRevert (s\<lparr>sys_db := m\<rparr>)"

inductive_cases mdb_stepE: "mdb_step B s ev s'"

inductive mdb_run :: "('t, 'v) btree_ops \<Rightarrow> 't mdb_sys \<Rightarrow> 'v mdb_event list \<Rightarrow> 't mdb_sys \<Rightarrow> bool"
  for B :: "('t, 'v) btree_ops" where
  run_Nil: "mdb_run B s [] s"
| run_Cons: "mdb_step B s ev s' \<Longrightarrow> mdb_run B s' evs s'' \<Longrightarrow> mdb_run B s (ev # evs) s''"

text \<open>The same step as a function, for running a history.\<close>

fun mdb_do :: "('t, 'v) btree_ops \<Rightarrow> 't mdb_sys \<Rightarrow> 'v mdb_event \<Rightarrow> 't mdb_sys option" where
  "mdb_do B s EvReadWriter = (case mdb_ReadWriter (sys_db s) of
     Inl err \<Rightarrow> None | Inr (m, tx) \<Rightarrow> Some \<lparr>sys_db = m, sys_writers = sys_writers s @ [tx]\<rparr>)"
| "mdb_do B s (EvSet i k v) = (if i < length (sys_writers s)
     then Some (s\<lparr>sys_writers := (sys_writers s)[i := fst (writer_Set B (sys_writers s ! i) k v)]\<rparr>)
     else None)"
| "mdb_do B s (EvDelete i k) = (if i < length (sys_writers s)
     then Some (s\<lparr>sys_writers := (sys_writers s)[i := fst (writer_Delete B (sys_writers s ! i) k)]\<rparr>)
     else None)"
| "mdb_do B s (EvCommit i) = (if i < length (sys_writers s)
     then case writer_Commit (sys_db s) (sys_writers s ! i) of ((m, tx), err) \<Rightarrow>
       Some \<lparr>sys_db = m, sys_writers = (sys_writers s)[i := tx]\<rparr>
     else None)"
| "mdb_do B s (EvDiscard i) = (if i < length (sys_writers s)
     then case writer_Discard (sys_db s) (sys_writers s ! i) of (m, tx) \<Rightarrow>
       Some \<lparr>sys_db = m, sys_writers = (sys_writers s)[i := tx]\<rparr>
     else None)"
| "mdb_do B s (EvSaveVersion v) = (if vm_last (mdb_vmgr (sys_db s)) = - 1 then None
     else Some (s\<lparr>sys_db := fst (mdb_SaveVersion (sys_db s) v)\<rparr>))"
| "mdb_do B s (EvDeleteVersion v) = Some (s\<lparr>sys_db := fst (mdb_DeleteVersion (sys_db s) v)\<rparr>)"
| "mdb_do B s EvRevert = Some (s\<lparr>sys_db := fst (mdb_Revert B (sys_db s))\<rparr>)"

fun mdb_do_all :: "('t, 'v) btree_ops \<Rightarrow> 't mdb_sys \<Rightarrow> 'v mdb_event list \<Rightarrow> 't mdb_sys option" where
  "mdb_do_all B s [] = Some s"
| "mdb_do_all B s (ev # evs) = Option.bind (mdb_do B s ev) (\<lambda>s'. mdb_do_all B s' evs)"

lemma mdb_do_step: "mdb_do B s ev = Some s' \<Longrightarrow> mdb_step B s ev s'"
  by (cases ev) (auto split: sum.splits if_splits prod.splits intro!: mdb_step.intros prod_eqI)

lemma mdb_do_all_run: "mdb_do_all B s evs = Some s' \<Longrightarrow> mdb_run B s evs s'"
  by (induction evs arbitrary: s) (auto simp: bind_eq_Some_conv intro: mdb_run.intros mdb_do_step)

definition mdb_init :: "('t, 'v) btree_ops \<Rightarrow> 't mdb_sys" where
  "mdb_init B = \<lparr>sys_db = NewMemDBBackend B, sys_writers = []\<rparr>"

text \<open>
  The invariant: every tree is good, the version manager satisfies its own and
  mirrors the keys of \<open>saved\<close>, and \<open>openWriters\<close> counts the writers that are
  neither committed nor discarded.
\<close>

definition db_inv :: "('t, 'v) btree_ops \<Rightarrow> 't memdb \<Rightarrow> bool" where
  "db_inv B m \<longleftrightarrow> good_tree B (mdb_btree m) \<and> vm_inv (mdb_vmgr m) \<and>
     (\<forall>v. mdb_saved m v = None \<longleftrightarrow> \<not> vm_Exists (mdb_vmgr m) v) \<and>
     (\<forall>v p. mdb_saved m v = Some p \<longrightarrow> good_tree B p)"

definition open_writers :: "'t dbTxn list \<Rightarrow> 't dbTxn list" where
  "open_writers ws = filter (\<lambda>tx. tx_btree tx \<noteq> None) ws"

definition mdb_inv :: "('t, 'v) btree_ops \<Rightarrow> 't mdb_sys \<Rightarrow> bool" where
  "mdb_inv B s \<longleftrightarrow> db_inv B (sys_db s) \<and>
     (\<forall>tx \<in> set (open_writers (sys_writers s)). good_tree B (tx_btree tx)) \<and>
     mdb_openWriters (sys_db s) = int (length (open_writers (sys_writers s)))"

lemma mdb_inv_db: "mdb_inv B s \<Longrightarrow> db_inv B (sys_db s)"
  by (simp add: mdb_inv_def)

lemma db_inv_vm: "db_inv B m \<Longrightarrow> vm_inv (mdb_vmgr m)"
  by (simp add: db_inv_def)

lemma db_inv_copy: "db_inv B m \<Longrightarrow> vm_Copy (mdb_vmgr m) = mdb_vmgr m"
  by (simp add: vm_Copy_id db_inv_def vm_inv_def)

lemma db_inv_saved: "db_inv B m \<Longrightarrow> mdb_saved m v = None \<longleftrightarrow> \<not> vm_Exists (mdb_vmgr m) v"
  by (simp add: db_inv_def)

lemma db_inv_good: "db_inv B m \<Longrightarrow> mdb_saved m v = Some p \<Longrightarrow> good_tree B p"
  by (auto simp: db_inv_def)

lemma open_writers_append [simp]: "open_writers (ws @ ws') = open_writers ws @ open_writers ws'"
  by (simp add: open_writers_def)

lemma open_writers_single: "open_writers [tx] = (if tx_btree tx = None then [] else [tx])"
  by (simp add: open_writers_def)

lemma length_open_writers_update:
  "i < length ws \<Longrightarrow> int (length (open_writers (ws[i := tx]))) = int (length (open_writers ws)) -
     (if tx_btree (ws ! i) = None then 0 else 1) + (if tx_btree tx = None then 0 else 1)"
  by (simp add: open_writers_def length_filter_update)

lemma set_open_writers_update:
  "tx' \<in> set (open_writers (ws[i := tx])) \<Longrightarrow> tx' \<in> set (open_writers ws) \<or> tx' = tx \<and> tx_btree tx \<noteq> None"
  using set_update_subset_insert [of ws i tx] by (auto simp: open_writers_def)

lemma mdb_init_inv: "btree B \<Longrightarrow> mdb_inv B (mdb_init B)"
  using NewVersionManager_inv [of "[]"]
  by (simp add: mdb_inv_def db_inv_def mdb_init_def NewMemDBBackend_def good_tree_def
      btree.get_new vm_Exists_def open_writers_def)

lemma writer_Set_good:
  assumes "btree B" "good_tree B (tx_btree tx)"
  shows "good_tree B (tx_btree (fst (writer_Set B tx k v)))"
  using assms(2) btree.get_replaceOrInsert [OF assms(1)]
  by (auto simp: writer_Set_def ValidateKv_def good_tree_def split: option.splits)

lemma writer_Delete_good:
  assumes "btree B" "good_tree B (tx_btree tx)"
  shows "good_tree B (tx_btree (fst (writer_Delete B tx k)))"
  using assms(2) btree.get_delete [OF assms(1)]
  by (auto simp: writer_Delete_def good_tree_def split: option.splits)

lemma writer_keeps_open:
  "tx_btree (fst (writer_Set B tx k v)) = None \<longleftrightarrow> tx_btree tx = None"
  "tx_btree (fst (writer_Delete B tx k)) = None \<longleftrightarrow> tx_btree tx = None"
  by (auto simp: writer_Set_def writer_Delete_def split: option.splits)

lemma mdb_inv_writer_update:
  assumes "mdb_inv B s" "i < length (sys_writers s)"
    and "tx_btree tx = None \<longleftrightarrow> tx_btree (sys_writers s ! i) = None"
    and "good_tree B (tx_btree (sys_writers s ! i)) \<Longrightarrow> good_tree B (tx_btree tx)"
  shows "mdb_inv B (s\<lparr>sys_writers := (sys_writers s)[i := tx]\<rparr>)"
proof -
  have "good_tree B (tx_btree tx)" if "tx_btree tx \<noteq> None"
    using that assms by (auto simp: mdb_inv_def open_writers_def)
  then show ?thesis using assms(1-3)
    by (auto simp: mdb_inv_def length_open_writers_update dest!: set_open_writers_update)
qed

text \<open>What a save does, on every branch.\<close>

lemma mdb_save_cases [consumes 2, case_names open_writers too_low saved]:
  assumes "db_inv B m" "vm_last (mdb_vmgr m) \<noteq> - 1"
  obtains (open_writers) "mdb_openWriters m > 0" "mdb_save m v = Inl ErrOpenTransactions"
  | (too_low) "v \<noteq> 0" "v \<le> vm_last (mdb_vmgr m)"
      "mdb_save m v = Inl (ErrTargetTooLow v (vm_last (mdb_vmgr m) + 1))"
  | (saved) v' vm' where "mdb_openWriters m \<le> 0" "vm_inv vm'"
      "v' = (if v = 0 then vm_last (mdb_vmgr m) + 1 else v)"
      "vm_last (mdb_vmgr m) < v'" "vm_last vm' = v'"
      "vm_versions vm' = vm_versions (mdb_vmgr m) @ [v']" "mdb_saved m v' = None"
      "mdb_save m v = Inr (v', m\<lparr>mdb_saved := (mdb_saved m)(v' \<mapsto> mdb_btree m), mdb_vmgr := vm'\<rparr>)"
proof -
  let ?vm = "mdb_vmgr m"
  note inv = db_inv_vm [OF assms(1)] and copy = db_inv_copy [OF assms(1)]
  consider "mdb_openWriters m > 0" | "mdb_openWriters m \<le> 0" "v \<noteq> 0" "v \<le> vm_last ?vm"
    | "mdb_openWriters m \<le> 0" "\<not> (v \<noteq> 0 \<and> v \<le> vm_last ?vm)"
    by linarith
  then show thesis
  proof cases
    case 1
    then show thesis using open_writers by (simp add: mdb_save_def)
  next
    case 2
    then show thesis using too_low by (simp add: mdb_save_def copy vm_Save_cases [OF inv assms(2)])
  next
    case 3
    let ?v = "if v = 0 then vm_last ?vm + 1 else v"
    obtain vm' where sv: "vm_Save ?vm v = Inr (?v, vm')"
      using 3(2) by (auto simp: vm_Save_cases [OF inv assms(2)] Let_def)
    note facts = vm_Save_inv [OF inv assms(2) sv]
    have "mdb_saved m ?v = None"
      using facts vm_inv_versions_le_last [OF inv, of ?v] db_inv_saved [OF assms(1), of ?v]
      by (auto simp: vm_Exists_def)
    then show thesis
      using saved [of vm' ?v] facts 3(1) sv by (simp add: mdb_save_def copy)
  qed
qed

lemma mdb_SaveVersion_inv:
  assumes "db_inv B m" "vm_last (mdb_vmgr m) \<noteq> - 1"
  shows "db_inv B (fst (mdb_SaveVersion m v)) \<and>
    mdb_openWriters (fst (mdb_SaveVersion m v)) = mdb_openWriters m"
  using assms
proof (cases rule: mdb_save_cases [where v = v])
  case (saved v' vm')
  then show ?thesis using assms(1)
    by (auto simp: mdb_SaveVersion_def db_inv_def vm_Exists_def)
qed (use assms in \<open>auto simp: mdb_SaveVersion_def\<close>)

lemma mdb_DeleteVersion_inv:
  assumes "db_inv B m"
  shows "db_inv B (fst (mdb_DeleteVersion m v)) \<and>
    mdb_openWriters (fst (mdb_DeleteVersion m v)) = mdb_openWriters m"
proof (cases "mdb_saved m v")
  case (Some p)
  have "vm_inv (vm_Delete (mdb_vmgr m) v)" using assms by (simp add: vm_Delete_inv db_inv_vm)
  moreover have "vm_Exists (vm_Delete (mdb_vmgr m) v) w \<longleftrightarrow> w \<noteq> v \<and> vm_Exists (mdb_vmgr m) w" for w
    by (auto simp: vm_Exists_def)
  ultimately show ?thesis using assms Some db_inv_copy [OF assms]
    by (simp add: mdb_DeleteVersion_def db_inv_def)
qed (use assms in \<open>simp add: mdb_DeleteVersion_def\<close>)

lemma mdb_Revert_saved:
  assumes "db_inv B m"
  shows "mdb_saved (fst (mdb_Revert B m)) = mdb_saved m"
proof -
  have "mdb_saved m ver = None" if "vm_last (mdb_vmgr m) < ver" for ver
    using that vm_inv_versions_le_last [OF db_inv_vm [OF assms], of ver]
    by (auto simp: db_inv_saved [OF assms] vm_Exists_def)
  then show ?thesis
    by (auto simp: mdb_Revert_def Let_def fun_eq_iff split: option.splits)
qed

lemma mdb_Revert_inv:
  assumes "btree B" "db_inv B m"
  shows "db_inv B (fst (mdb_Revert B m)) \<and>
    mdb_openWriters (fst (mdb_Revert B m)) = mdb_openWriters m"
proof -
  let ?lst = "vm_last (mdb_vmgr m)"
  let ?m = "fst (mdb_Revert B m)"
  have frame: "mdb_vmgr ?m = mdb_vmgr m" "mdb_openWriters ?m = mdb_openWriters m"
    by (auto simp: mdb_Revert_def Let_def split: option.splits)
  have "vm_Exists (mdb_vmgr m) ?lst" if "?lst \<noteq> 0"
    using that db_inv_vm [OF assms(2)]
    by (auto simp: vm_inv_def is_max_def vm_Exists_def split: if_splits)
  then have "?lst \<noteq> 0 \<Longrightarrow> mdb_saved m ?lst \<noteq> None"
    using db_inv_saved [OF assms(2)] by simp
  moreover have "good_tree B (Some (bt_new B))"
    using btree.get_new [OF assms(1)] by (simp add: good_tree_def)
  ultimately have "good_tree B (mdb_btree ?m)"
    using assms(2) db_inv_good [OF assms(2), of ?lst]
    by (cases "mdb_saved m ?lst") (auto simp: mdb_Revert_def Let_def db_inv_def)
  then show ?thesis
    using assms(2) by (simp add: db_inv_def frame mdb_Revert_saved [OF assms(2)])
qed

lemma writer_Commit_inv:
  assumes "mdb_inv B s" "i < length (sys_writers s)"
    and "writer_Commit (sys_db s) (sys_writers s ! i) = ((m, tx), err)"
  shows "mdb_inv B \<lparr>sys_db = m, sys_writers = (sys_writers s)[i := tx]\<rparr>"
proof (cases "tx_btree (sys_writers s ! i)")
  case None
  then have "m = sys_db s" "tx = sys_writers s ! i"
    using assms(3) by (simp_all add: writer_Commit_def)
  then show ?thesis using assms(1) by (simp add: mdb_inv_def)
next
  case (Some t)
  then have "sys_writers s ! i \<in> set (open_writers (sys_writers s))"
    using assms(2) by (simp add: open_writers_def)
  then have "good_tree B (Some t)" using assms(1) Some by (auto simp: mdb_inv_def)
  moreover have "m = (sys_db s)\<lparr>mdb_btree := Some t, mdb_openWriters := mdb_openWriters (sys_db s) - 1\<rparr>"
    "tx_btree tx = None"
    using assms(3) Some by (auto simp: writer_Commit_def writer_Discard_def txn_Discard_def)
  ultimately show ?thesis using assms(1,2) Some
    by (auto simp: mdb_inv_def db_inv_def length_open_writers_update dest!: set_open_writers_update)
qed

lemma writer_Discard_inv:
  assumes "mdb_inv B s" "i < length (sys_writers s)"
    and "writer_Discard (sys_db s) (sys_writers s ! i) = (m, tx)"
  shows "mdb_inv B \<lparr>sys_db = m, sys_writers = (sys_writers s)[i := tx]\<rparr>"
proof -
  have "db_inv B m" "tx_btree tx = None"
    "mdb_openWriters m = mdb_openWriters (sys_db s) - (if tx_btree (sys_writers s ! i) = None then 0 else 1)"
    using assms by (cases "tx_btree (sys_writers s ! i)";
        auto simp: writer_Discard_def txn_Discard_def mdb_inv_def db_inv_def)+
  then show ?thesis using assms(1,2)
    by (auto simp: mdb_inv_def length_open_writers_update dest!: set_open_writers_update)
qed

lemma mdb_step_inv:
  assumes "btree B" "mdb_step B s ev s'" "mdb_inv B s"
  shows "mdb_inv B s'"
  using assms(2)
proof cases
  case (step_ReadWriter m tx)
  then show ?thesis using assms(3)
    by (auto simp: mdb_ReadWriter_def mdb_inv_def db_inv_def open_writers_single split: option.splits)
next
  case (step_Set i k v tx err)
  then have tx: "tx = fst (writer_Set B (sys_writers s ! i) k v)" by simp
  show ?thesis unfolding step_Set(2) tx
    by (rule mdb_inv_writer_update [OF assms(3) step_Set(3)])
      (simp_all add: writer_keeps_open writer_Set_good assms(1))
next
  case (step_Delete i k tx err)
  then have tx: "tx = fst (writer_Delete B (sys_writers s ! i) k)" by simp
  show ?thesis unfolding step_Delete(2) tx
    by (rule mdb_inv_writer_update [OF assms(3) step_Delete(3)])
      (simp_all add: writer_keeps_open writer_Delete_good assms(1))
next
  case (step_Commit i m tx err)
  then show ?thesis using writer_Commit_inv [OF assms(3)] by simp
next
  case (step_Discard i m tx)
  then show ?thesis using writer_Discard_inv [OF assms(3)] by simp
next
  case (step_SaveVersion v m err)
  then show ?thesis using mdb_SaveVersion_inv [of B "sys_db s" v] assms(3) by (simp add: mdb_inv_def)
next
  case (step_DeleteVersion v m err)
  then show ?thesis using mdb_DeleteVersion_inv [of B "sys_db s" v] assms(3) by (simp add: mdb_inv_def)
next
  case (step_Revert m err)
  then show ?thesis using mdb_Revert_inv [OF assms(1), of "sys_db s"] assms(3) by (simp add: mdb_inv_def)
qed

lemma mdb_run_inv: "mdb_run B s evs s' \<Longrightarrow> btree B \<Longrightarrow> mdb_inv B s \<Longrightarrow> mdb_inv B s'"
  by (induction rule: mdb_run.induct) (auto intro: mdb_step_inv)

text \<open>No event but its own deletion changes a saved version.\<close>

lemma mdb_step_saved:
  assumes "mdb_step B s ev s'" "mdb_inv B s" "mdb_saved (sys_db s) v = Some p"
    and "ev \<noteq> EvDeleteVersion v"
  shows "mdb_saved (sys_db s') v = Some p"
  using assms(1)
proof cases
  case (step_SaveVersion w m err)
  show ?thesis
    using mdb_inv_db [OF assms(2)] step_SaveVersion(4)
  proof (cases rule: mdb_save_cases [where v = w])
    case (saved v' vm')
    then have "v' \<noteq> v" using assms(3) by auto
    then show ?thesis using step_SaveVersion assms(3) saved(8)
      by (auto simp: mdb_SaveVersion_def split: if_splits)
  qed (use step_SaveVersion assms(3) in \<open>auto simp: mdb_SaveVersion_def split: if_splits\<close>)
next
  case (step_DeleteVersion w m err)
  then show ?thesis using assms(3,4) by (auto simp: mdb_DeleteVersion_def split: if_splits)
next
  case (step_Revert m err)
  then show ?thesis using assms(3) mdb_Revert_saved [OF mdb_inv_db [OF assms(2)]]
    by (metis fst_conv mdb_sys.select_convs(1) mdb_sys.surjective mdb_sys.update_convs(1))
qed (use assms(3) in \<open>auto simp: mdb_ReadWriter_def writer_Commit_def writer_Discard_def
    split: option.splits if_splits\<close>)

lemma mdb_run_saved:
  "mdb_run B s evs s' \<Longrightarrow> btree B \<Longrightarrow> mdb_inv B s \<Longrightarrow> mdb_saved (sys_db s) v = Some p \<Longrightarrow>
   EvDeleteVersion v \<notin> set evs \<Longrightarrow> mdb_saved (sys_db s') v = Some p"
proof (induction rule: mdb_run.induct)
  case (run_Cons s ev s' evs s'')
  then show ?case using mdb_step_saved mdb_step_inv by (metis list.set_intros(1,2))
qed simp

section \<open>Properties\<close>


definition mdb_sample_events :: "nat mdb_event list" where
  "mdb_sample_events = [EvReadWriter, EvSet 0 [1] (Some 7), EvSet 0 [2] (Some 8), EvCommit 0,
     EvSaveVersion 1, EvReadWriter, EvReadWriter, EvSet 1 [1] (Some 9), EvCommit 1]"

definition mdb_sample :: "(bytes, nat) rbt mdb_sys" where
  "mdb_sample = the (mdb_do_all rbt_ops (mdb_init rbt_ops) mdb_sample_events)"

lemma mdb_sample_run: "mdb_run rbt_ops (mdb_init rbt_ops) mdb_sample_events mdb_sample"
proof (rule mdb_do_all_run)
  have "mdb_do_all rbt_ops (mdb_init rbt_ops) mdb_sample_events \<noteq> None" by code_simp
  then show "mdb_do_all rbt_ops (mdb_init rbt_ops) mdb_sample_events = Some mdb_sample"
    by (simp add: mdb_sample_def)
qed



definition mdb_sample_more :: "nat mdb_event list" where
  "mdb_sample_more = [EvDelete 2 [1], EvCommit 2, EvSaveVersion 5, EvRevert, EvDeleteVersion 5]"

definition mdb_sample_end :: "(bytes, nat) rbt mdb_sys" where
  "mdb_sample_end = the (mdb_do_all rbt_ops mdb_sample mdb_sample_more)"

lemma mdb_sample_more_run: "mdb_run rbt_ops mdb_sample mdb_sample_more mdb_sample_end"
proof (rule mdb_do_all_run)
  have "mdb_do_all rbt_ops mdb_sample mdb_sample_more \<noteq> None" by code_simp
  then show "mdb_do_all rbt_ops mdb_sample mdb_sample_more = Some mdb_sample_end"
    by (simp add: mdb_sample_end_def)
qed


text \<open>
  \<open>Revert\<close> in a reachable state: refused while a writer is open; otherwise it
  succeeds and the database reads as the last saved version, or as the empty
  database when nothing was saved, and every saved version is kept.
\<close>

theorem mdb_Revert_restores:
  assumes "btree B" "mdb_run B (mdb_init B) evs s"
  shows "case mdb_Revert B (sys_db s) of (m', err) \<Rightarrow>
    mdb_saved m' = mdb_saved (sys_db s) \<and>
    (if open_writers (sys_writers s) \<noteq> [] then err = Some ErrOpenTransactions \<and> m' = sys_db s
     else err = None \<and>
       (if vm_last (mdb_vmgr m') = 0 then mdb_Reader m' = \<lparr>tx_btree = Some (bt_new B)\<rparr>
        else mdb_ReaderAt (sys_db s) (vm_last (mdb_vmgr m')) = Inr (mdb_Reader m')))"
proof -
  let ?m = "sys_db s"
  have inv: "mdb_inv B s" using mdb_run_inv [OF assms(2,1) mdb_init_inv [OF assms(1)]] .
  note db = mdb_inv_db [OF inv]
  have "vm_Exists (mdb_vmgr ?m) (vm_last (mdb_vmgr ?m))" if "vm_last (mdb_vmgr ?m) \<noteq> 0"
    using that db_inv_vm [OF db] by (auto simp: vm_inv_def is_max_def vm_Exists_def split: if_splits)
  then have "vm_last (mdb_vmgr ?m) \<noteq> 0 \<Longrightarrow> mdb_saved ?m (vm_last (mdb_vmgr ?m)) \<noteq> None"
    using db_inv_saved [OF db] by simp
  moreover have "mdb_openWriters ?m > 0 \<longleftrightarrow> open_writers (sys_writers s) \<noteq> []"
    using inv by (simp add: mdb_inv_def)
  ultimately show ?thesis
    using mdb_Revert_saved [OF db]
    by (auto simp: mdb_Revert_def Let_def mdb_Reader_def mdb_ReaderAt_def split: option.splits)
qed

definition mdb_sample_closed :: "(bytes, nat) rbt mdb_sys" where
  "mdb_sample_closed = the (mdb_do_all rbt_ops (mdb_init rbt_ops) (mdb_sample_events @ [EvDiscard 2]))"

theorem mdb_Revert_restores_witness:
  "mdb_run rbt_ops (mdb_init rbt_ops) (mdb_sample_events @ [EvDiscard 2]) mdb_sample_closed \<and>
   txn_Get rbt_ops (mdb_Reader (sys_db mdb_sample_closed)) [1] = Inr (Some 9) \<and>
   snd (mdb_Revert rbt_ops (sys_db mdb_sample_closed)) = None \<and>
   txn_Get rbt_ops (mdb_Reader (fst (mdb_Revert rbt_ops (sys_db mdb_sample_closed)))) [1] = Inr (Some 7)"
proof -
  have "mdb_do_all rbt_ops (mdb_init rbt_ops) (mdb_sample_events @ [EvDiscard 2]) \<noteq> None" by code_simp
  then have run: "mdb_run rbt_ops (mdb_init rbt_ops) (mdb_sample_events @ [EvDiscard 2]) mdb_sample_closed"
    by (intro mdb_do_all_run) (simp add: mdb_sample_closed_def)
  have "open_writers (sys_writers mdb_sample_closed) = []"
    "txn_Get rbt_ops (mdb_Reader (sys_db mdb_sample_closed)) [1] = Inr (Some 9)"
    "txn_Get rbt_ops (mdb_Reader (fst (mdb_Revert rbt_ops (sys_db mdb_sample_closed)))) [1] = Inr (Some 7)"
    by code_simp+
  then show ?thesis
    using mdb_Revert_restores [OF rbt.btree_axioms run] run by (auto split: prod.splits)
qed

text \<open>
  (C26) The iterators of an open transaction list exactly the entries whose keys
  lie in the half-open range from \<open>start\<close> to \<open>end\<close> (nil meaning unbounded), each
  once, in ascending order by \<open>Iterator\<close> and in descending order by
  \<open>ReverseIterator\<close>.
\<close>

theorem memdb_iterators_exact:
  assumes "btree B" "tx_btree tx = Some t" "bt_get B t [] = None" "s \<noteq> Some []" "e \<noteq> Some []"
  shows "\<exists>xs. txn_iterate B False tx s e = Inr xs \<and> txn_iterate B True tx s e = Inr (rev xs) \<and>
    sorted_keys xs \<and> (\<forall>k v. (k, v) \<in> set xs \<longleftrightarrow> txn_Get B tx k = Inr (Some v) \<and> in_range s e k)"
proof -
  have "btree B" by fact
  then show ?thesis using assms(2-)
    by (auto simp: txn_iterate_def txn_Get_def btree.newMemDBIterator_ascending
        btree.newMemDBIterator_descending btree.ascend_mem btree.ascend_sorted sorted_keys_filter)
qed

theorem memdb_iterators_exact_witness:
  "\<exists>xs. txn_iterate rbt_ops False (mdb_Reader (sys_db mdb_sample)) (Some [1]) (Some [2]) = Inr xs \<and>
     xs = [([1], 9)] \<and> txn_iterate rbt_ops True (mdb_Reader (sys_db mdb_sample)) None None = Inr [([2], 8), ([1], 9)]"
proof -
  let ?tx = "mdb_Reader (sys_db mdb_sample)"
  have "case tx_btree ?tx of None \<Rightarrow> False | Some t \<Rightarrow> bt_get rbt_ops t [] = None" by code_simp
  then obtain t where t: "tx_btree ?tx = Some t" "bt_get rbt_ops t [] = None" by (auto split: option.splits)
  have "txn_iterate rbt_ops False ?tx (Some [1]) (Some [2]) = Inr [([1], 9)]"
    "txn_iterate rbt_ops False ?tx None None = Inr [([1], 9), ([2], 8)]" by code_simp+
  then show ?thesis using memdb_iterators_exact [OF rbt.btree_axioms t, of None None] by auto
qed

end
