(* ===== verification/Prefix_Backend.thy ===== *)
theory Prefix_Backend
  imports Memdb
begin

text \<open>
  Views of a database restricted to the keys under a prefix
  (\<open>src/ledger/backend/backend_prefixed.go\<close>). A view turns an implementation
  of the transaction interface into another one over the same state: the
  function \<open>prefixed_ops\<close>. The sublocale at the end shows that it keeps the
  contract \<open>db_rw\<close>, so views can be stacked, as the state store does.
\<close>

definition prefixed :: "bytes \<Rightarrow> bytes \<Rightarrow> bytes" where
  "prefixed p key = p @ key"

text \<open>The loop of \<open>endIter\<close> from the last index down: increment the byte, or
  reset it to 0 and carry; a carry out of the first byte is the nil end.\<close>

fun endIter_loop :: "bytes \<Rightarrow> nat \<Rightarrow> bytes option" where
  "endIter_loop ret i =
     (if ret ! i < 0xFF then Some (ret[i := ret ! i + 1])
      else case i of 0 \<Rightarrow> None | Suc j \<Rightarrow> endIter_loop (ret[i := 0]) j)"

declare endIter_loop.simps [simp del]

definition endIter :: "bytes \<Rightarrow> error + bytes option" where
  "endIter bz = (if bz = [] then Inl (Panic ''endIter expects non-zero bz length'')
     else Inr (endIter_loop bz (length bz - 1)))"

text \<open>\<open>Next\<close> of a prefixed iterator skips the key that is the prefix itself and
  ends at the first key without the prefix; \<open>Key\<close> drops the prefix.\<close>

fun prefixIter :: "bytes \<Rightarrow> (bytes \<times> 'v) list \<Rightarrow> (bytes \<times> 'v) list" where
  "prefixIter p [] = []"
| "prefixIter p ((k, v) # xs) =
     (if \<not> prefix p k then []
      else if k = p then prefixIter p xs
      else (drop (length p) k, v) # prefixIter p xs)"

definition rp_Get :: "bytes \<Rightarrow> ('c, 'v) db_ops \<Rightarrow> 'c \<Rightarrow> bytes \<Rightarrow> error + 'v option" where
  "rp_Get p ops c key = (if key = [] then Inl ErrKeyEmpty else db_Get ops c (prefixed p key))"

definition rp_Has :: "bytes \<Rightarrow> ('c, 'v) db_ops \<Rightarrow> 'c \<Rightarrow> bytes \<Rightarrow> error + bool" where
  "rp_Has p ops c key = (if key = [] then Inl ErrKeyEmpty else db_Has ops c (prefixed p key))"

definition rp_bounds :: "bytes \<Rightarrow> bytes option \<Rightarrow> bytes option \<Rightarrow> error + bytes \<times> bytes option" where
  "rp_bounds p s e =
     (if s = Some [] \<or> e = Some [] then Inl ErrKeyEmpty
      else let ps = prefixed p (case s of None \<Rightarrow> [] | Some a \<Rightarrow> a) in
        case e of
          None \<Rightarrow> (case endIter p of Inl err \<Rightarrow> Inl err | Inr pend \<Rightarrow> Inr (ps, pend))
        | Some b \<Rightarrow> Inr (ps, Some (prefixed p b)))"

definition rp_Iterator ::
  "bytes \<Rightarrow> ('c, 'v) db_ops \<Rightarrow> 'c \<Rightarrow> bytes option \<Rightarrow> bytes option \<Rightarrow> error + (bytes \<times> 'v) list" where
  "rp_Iterator p ops c s e = (case rp_bounds p s e of
     Inl err \<Rightarrow> Inl err
   | Inr (ps, pend) \<Rightarrow> (case db_Iterator ops c (Some ps) pend of
        Inl err \<Rightarrow> Inl err | Inr xs \<Rightarrow> Inr (prefixIter p xs)))"

definition rp_ReverseIterator ::
  "bytes \<Rightarrow> ('c, 'v) db_ops \<Rightarrow> 'c \<Rightarrow> bytes option \<Rightarrow> bytes option \<Rightarrow> error + (bytes \<times> 'v) list" where
  "rp_ReverseIterator p ops c s e = (case rp_bounds p s e of
     Inl err \<Rightarrow> Inl err
   | Inr (ps, pend) \<Rightarrow> (case db_ReverseIterator ops c (Some ps) pend of
        Inl err \<Rightarrow> Inl err | Inr xs \<Rightarrow> Inr (prefixIter p xs)))"

definition wp_Set :: "bytes \<Rightarrow> ('c, 'v) db_ops \<Rightarrow> 'c \<Rightarrow> bytes \<Rightarrow> 'v option \<Rightarrow> 'c \<times> error option" where
  "wp_Set p ops c key val =
     (if key = [] then (c, Some ErrKeyEmpty) else db_Set ops c (prefixed p key) val)"

definition wp_Delete :: "bytes \<Rightarrow> ('c, 'v) db_ops \<Rightarrow> 'c \<Rightarrow> bytes \<Rightarrow> 'c \<times> error option" where
  "wp_Delete p ops c key =
     (if key = [] then (c, Some ErrKeyEmpty) else db_Delete ops c (prefixed p key))"

text \<open>\<open>BackendRWPrefixed\<close>: reads go through the reader, writes through the writer.\<close>

definition prefixed_ops :: "bytes \<Rightarrow> ('c, 'v) db_ops \<Rightarrow> ('c, 'v) db_ops" where
  "prefixed_ops p ops = \<lparr>
     db_Get = rp_Get p ops, db_Has = rp_Has p ops,
     db_Set = wp_Set p ops, db_Delete = wp_Delete p ops,
     db_Iterator = rp_Iterator p ops, db_ReverseIterator = rp_ReverseIterator p ops,
     db_Commit = db_Commit ops, db_Discard = db_Discard ops\<rparr>"

definition IteratePrefix :: "('c, 'v) db_ops \<Rightarrow> 'c \<Rightarrow> bytes \<Rightarrow> error + (bytes \<times> 'v) list" where
  "IteratePrefix ops c p =
     (if p = [] then db_Iterator ops c None None
      else case endIter p of Inl err \<Rightarrow> Inl err | Inr e \<Rightarrow> db_Iterator ops c (Some p) e)"

section \<open>The end of a prefix range\<close>

lemma endIter_loop_snoc:
  "endIter_loop (p @ b # zs) (length p) =
     (if b < 0xFF then Some (p @ (b + 1) # zs)
      else if p = [] then None
      else endIter_loop (p @ 0 # zs) (length p - 1))"
proof -
  have upd: "(p @ b # zs)[length p := c] = p @ c # zs" for c
    by (rule list_update_length)
  have "endIter_loop (p @ b # zs) (length p) =
      (if b < 0xFF then Some (p @ (b + 1) # zs)
       else case length p of 0 \<Rightarrow> None | Suc j \<Rightarrow> endIter_loop (p @ 0 # zs) j)"
    by (subst endIter_loop.simps) (simp only: upd nth_append_length)
  then show ?thesis by (cases "length p") auto
qed

lemma byte_less_Suc: "(b :: byte) < 0xFF \<Longrightarrow> b < b + 1"
  using word_less_nat_alt [of b "b + 1"] word_less_nat_alt [of b "0xFF"]
  by (simp add: unat_word_ariths)

text \<open>Every key under the prefix lies below the end.\<close>

lemma endIter_loop_upper:
  "p \<noteq> [] \<Longrightarrow> endIter_loop (p @ zs) (length p - 1) = Some e \<Longrightarrow> p @ x < e"
proof (induction p arbitrary: zs e x rule: rev_induct)
  case (snoc b p)
  have l: "endIter_loop ((p @ [b]) @ zs) (length (p @ [b]) - 1) = endIter_loop (p @ b # zs) (length p)"
    by simp
  show ?case
  proof (cases "b < 0xFF")
    case True
    then have "e = p @ (b + 1) # zs" using snoc.prems by (simp add: l endIter_loop_snoc)
    then show ?thesis using byte_less_Suc [OF True] by simp
  next
    case False
    then have "p \<noteq> []" and "endIter_loop (p @ 0 # zs) (length p - 1) = Some e"
      using snoc.prems by (simp_all add: l endIter_loop_snoc split: if_splits)
    then have "p @ ([b] @ x) < e" by (rule snoc.IH)
    then show ?thesis by simp
  qed
qed simp

lemma endIter_upper: "endIter p = Inr (Some e) \<Longrightarrow> p @ x < e"
  using endIter_loop_upper [of p "[]"] by (auto simp: endIter_def split: if_splits)

lemma endIter_last:
  assumes "p \<noteq> []" "last p < 0xFF"
  shows "endIter p = Inr (Some (butlast p @ [last p + 1]))"
proof -
  have "endIter_loop (butlast p @ last p # []) (length (butlast p)) = Some (butlast p @ [last p + 1])"
    using assms by (simp only: endIter_loop_snoc) simp
  then show ?thesis using assms by (simp add: endIter_def)
qed

text \<open>A key at or above the prefix that does not have it is above every key that has it.\<close>

lemma above_prefix: "p \<le> k \<Longrightarrow> \<not> prefix p k \<Longrightarrow> p @ x < (k :: 'a :: linorder list)"
proof (induction p arbitrary: k)
  case (Cons a p)
  then show ?case by (cases k) (auto simp: le_less)
qed simp

lemma between_prefix: "p @ a \<le> k \<Longrightarrow> k < p @ b \<Longrightarrow> prefix p (k :: 'a :: linorder list)"
  by (metis above_prefix append_Nil2 append_mono_le le_less_trans less_asym Nil_le_Cons
      order_trans list.exhaust order_refl)

lemma below_endIter:
  fixes p k :: bytes
  assumes "p \<noteq> []" "last p < 0xFF" "p \<le> k" "k < butlast p @ [last p + 1]"
  shows "prefix p k"
proof -
  define q b where "q = butlast p" and "b = last p"
  have p: "p = q @ [b]" using assms(1) by (simp add: q_def b_def)
  have "prefix q k"
    using assms(3,4) between_prefix [of q "[b]" k "[b + 1]"] by (simp add: p)
  then obtain y where k: "k = q @ y" by (auto simp: prefix_def)
  have "[b] \<le> y" "y < [b + 1]" using assms(3,4) by (simp_all add: p k)
  moreover have "\<not> (b < c \<and> c < b + 1)" for c
  proof -
    have "unat (b + 1) = Suc (unat b)"
      using assms(2) by (simp add: p unat_word_ariths word_less_nat_alt)
    then show ?thesis by (simp add: word_less_nat_alt)
  qed
  ultimately have "prefix [b] y"
    by (cases y) (auto simp: le_less)
  then show ?thesis by (simp add: p k)
qed

section \<open>A view keeps the contract\<close>

definition prefixed_abs :: "bytes \<Rightarrow> ('c \<Rightarrow> bytes \<rightharpoonup> 'v) \<Rightarrow> 'c \<Rightarrow> bytes \<rightharpoonup> 'v" where
  "prefixed_abs p m c k = (if k = [] then None else m c (p @ k))"

text \<open>
  From a source in ascending order the iterator keeps exactly the keys under
  the prefix: the first key without it ends the loop, and no key after that one
  has it.
\<close>

lemma prefixIter_filter:
  "sorted_keys xs \<Longrightarrow> \<forall>(k, v) \<in> set xs. p \<le> k \<Longrightarrow>
   prefixIter p xs = map (\<lambda>(k, v). (drop (length p) k, v)) (filter (\<lambda>(k, v). prefix p k \<and> k \<noteq> p) xs)"
proof (induction xs)
  case (Cons kv xs)
  obtain k v where kv: "kv = (k, v)" by force
  show ?case
  proof (cases "prefix p k")
    case True
    then show ?thesis using Cons by (simp add: kv)
  next
    case False
    have "\<not> prefix p k'" if "(k', v') \<in> set xs" for k' v'
    proof
      assume "prefix p k'"
      then obtain x where "k' = p @ x" by (auto simp: prefix_def)
      then have "k' < k" using Cons.prems(2) False above_prefix [of p k] by (simp add: kv)
      moreover have "k < k'" using Cons.prems(1) that by (auto simp: kv)
      ultimately show False by simp
    qed
    then have "filter (\<lambda>(k, v). prefix p k \<and> k \<noteq> p) xs = []"
      by (auto simp: filter_empty_conv)
    then show ?thesis using False by (simp add: kv)
  qed
qed simp

lemma prefixIter_all:
  "\<forall>(k, v) \<in> set xs. prefix p k \<Longrightarrow>
   prefixIter p xs = map (\<lambda>(k, v). (drop (length p) k, v)) (filter (\<lambda>(k, v). prefix p k \<and> k \<noteq> p) xs)"
  by (induction xs) auto

lemma sorted_keys_strip:
  assumes "sorted_keys xs" "\<forall>(k, v) \<in> set xs. prefix p k"
  shows "sorted_keys (map (\<lambda>(k, v). (drop (length p) k, v)) xs)"
  using assms
proof (induction xs)
  case (Cons kv xs)
  obtain k v where kv: "kv = (k, v)" by force
  have "drop (length p) k < drop (length p) k'" if "(k', v') \<in> set xs" for k' v'
  proof -
    have "k < k'" using that Cons.prems(1) by (auto simp: kv)
    moreover have "prefix p k" "prefix p k'" using that Cons.prems(2) by (auto simp: kv)
    then obtain x x' where "k = p @ x" "k' = p @ x'" unfolding prefix_def by blast
    ultimately show ?thesis by simp
  qed
  then show ?case using Cons by (auto simp: kv)
qed simp

lemma strip_mem:
  "(k, v) \<in> set (map (\<lambda>(k, v). (drop (length p) k, v)) (filter (\<lambda>(k, v). prefix p k \<and> k \<noteq> p) xs)) \<longleftrightarrow>
   k \<noteq> [] \<and> (p @ k, v) \<in> set xs"
  by (force simp: prefix_def image_iff)

context db_rw
begin

text \<open>Ascending iteration of a view is right for every non-empty prefix.\<close>

lemma rp_bounds_forward:
  assumes "p \<noteq> []" "s \<noteq> Some []" "e \<noteq> Some []"
  obtains ps pend where "rp_bounds p s e = Inr (ps, pend)" "ps \<noteq> []" "pend \<noteq> Some []" "p \<le> ps"
    "\<And>k. in_range (Some ps) pend (p @ k) \<longleftrightarrow> in_range s e k"
proof -
  define a where "a = (case s of None \<Rightarrow> [] | Some a \<Rightarrow> a)"
  have a: "p \<le> p @ a" "(p @ a \<le> p @ k) \<longleftrightarrow> in_range s None k" for k
    by (auto simp: a_def prefix_le split: option.splits)
  obtain pend where pend: "rp_bounds p s e = Inr (p @ a, pend)"
    "pend = (case e of Some b \<Rightarrow> Some (p @ b) | None \<Rightarrow> endIter_loop p (length p - 1))"
    using assms by (auto simp: rp_bounds_def a_def prefixed_def endIter_def split: option.splits)
  have up: "p @ k < u" if "e = None" "pend = Some u" for u k
    using endIter_upper [of p u k] that pend(2) assms(1) by (simp add: endIter_def)
  show thesis
  proof (rule that [OF pend(1)])
    show "in_range (Some (p @ a)) pend (p @ k) \<longleftrightarrow> in_range s e k" for k
      using a(2) [of k] up pend(2) by (cases e) (auto simp: in_range_def split: option.split)
    show "pend \<noteq> Some []"
      using up [of "[]"] pend(2) assms(1) by (cases e) auto
  qed (use a assms in auto)
qed

lemma rp_Iterator:
  assumes "p \<noteq> []" "opn c" "s \<noteq> Some []" "e \<noteq> Some []"
  shows "\<exists>xs. rp_Iterator p ops c s e = Inr xs \<and> sorted_keys xs \<and>
    (\<forall>k v. (k, v) \<in> set xs \<longleftrightarrow> prefixed_abs p abs c k = Some v \<and> in_range s e k)"
proof -
  obtain ps pend where b: "rp_bounds p s e = Inr (ps, pend)" "ps \<noteq> []" "pend \<noteq> Some []" "p \<le> ps"
    and rng: "\<And>k. in_range (Some ps) pend (p @ k) \<longleftrightarrow> in_range s e k"
    using rp_bounds_forward [OF assms(1,3,4)] by blast
  obtain xs where xs: "db_Iterator ops c (Some ps) pend = Inr xs" "sorted_keys xs"
    "\<And>k v. (k, v) \<in> set xs \<longleftrightarrow> abs c k = Some v \<and> in_range (Some ps) pend k"
    using Iterator [OF assms(2), of "Some ps" pend] b by auto
  let ?ys = "map (\<lambda>(k, v). (drop (length p) k, v)) (filter (\<lambda>(k, v). prefix p k \<and> k \<noteq> p) xs)"
  have "p \<le> k" if "in_range (Some ps) pend k" for k
    using that b(4) by (auto simp: in_range_def)
  then have "prefixIter p xs = ?ys"
    using xs by (intro prefixIter_filter) auto
  moreover have "sorted_keys ?ys"
    by (rule sorted_keys_strip) (auto simp: sorted_keys_filter xs(2))
  ultimately show ?thesis
    using b xs(1) strip_mem [of _ _ p xs] xs(3) rng
    by (auto simp: rp_Iterator_def prefixed_abs_def)
qed

end

text \<open>Descending iteration needs a prefix whose last byte is not \<open>0xFF\<close>.\<close>

locale db_rw_prefixed = db_rw ops abs opn
  for ops :: "('c, 'v) db_ops" and abs :: "'c \<Rightarrow> bytes \<rightharpoonup> 'v" and opn :: "'c \<Rightarrow> bool" +
  fixes p :: bytes
  assumes p_ne: "p \<noteq> []" and p_last: "last p < 0xFF"
begin

lemma rp_bounds_range:
  assumes "s \<noteq> Some []" "e \<noteq> Some []"
  obtains ps pend where "rp_bounds p s e = Inr (ps, pend)" "ps \<noteq> []" "pend \<noteq> Some []"
    "\<And>k. in_range (Some ps) pend (p @ k) \<longleftrightarrow> in_range s e k"
    "\<And>k. in_range (Some ps) pend k \<Longrightarrow> prefix p k"
proof -
  define a where "a = (case s of None \<Rightarrow> [] | Some a \<Rightarrow> a)"
  have a: "p \<le> p @ a" "(p @ a \<le> p @ k) \<longleftrightarrow> in_range s None k" for k
    by (auto simp: a_def prefix_le split: option.splits)
  show thesis
  proof (cases e)
    case None
    let ?pend = "butlast p @ [last p + 1]"
    note ei = endIter_last [OF p_ne p_last]
    show thesis
    proof (rule that)
      show "rp_bounds p s e = Inr (p @ a, Some ?pend)"
        using assms None ei by (auto simp: rp_bounds_def a_def prefixed_def split: option.splits)
      show "in_range (Some (p @ a)) (Some ?pend) (p @ k) \<longleftrightarrow> in_range s e k" for k
        using endIter_upper [OF ei] a(2) None by simp
      show "prefix p k" if "in_range (Some (p @ a)) (Some ?pend) k" for k
        using that a(1) below_endIter [OF p_ne p_last] by (auto dest: order_trans)
    qed (use p_ne in auto)
  next
    case (Some b)
    show thesis
    proof (rule that)
      show "rp_bounds p s e = Inr (p @ a, Some (p @ b))"
        using assms Some by (auto simp: rp_bounds_def a_def prefixed_def split: option.splits)
      show "in_range (Some (p @ a)) (Some (p @ b)) (p @ k) \<longleftrightarrow> in_range s e k" for k
        using a(2) Some by (auto simp: in_range_def)
      show "prefix p k" if "in_range (Some (p @ a)) (Some (p @ b)) k" for k
        using that between_prefix by auto
    qed (use p_ne Some assms in auto)
  qed
qed

lemma rp_ReverseIterator:
  assumes "opn c" "s \<noteq> Some []" "e \<noteq> Some []"
  shows "\<exists>xs. rp_ReverseIterator p ops c s e = Inr xs \<and> sorted_keys (rev xs) \<and>
    (\<forall>k v. (k, v) \<in> set xs \<longleftrightarrow> prefixed_abs p abs c k = Some v \<and> in_range s e k)"
proof -
  obtain ps pend where b: "rp_bounds p s e = Inr (ps, pend)" "ps \<noteq> []" "pend \<noteq> Some []"
    and rng: "\<And>k. in_range (Some ps) pend (p @ k) \<longleftrightarrow> in_range s e k"
    and pre: "\<And>k. in_range (Some ps) pend k \<Longrightarrow> prefix p k"
    using rp_bounds_range [OF assms(2,3)] by blast
  obtain xs where xs: "db_ReverseIterator ops c (Some ps) pend = Inr xs" "sorted_keys (rev xs)"
    "\<And>k v. (k, v) \<in> set xs \<longleftrightarrow> abs c k = Some v \<and> in_range (Some ps) pend k"
    using ReverseIterator [OF assms(1), of "Some ps" pend] b by auto
  let ?ys = "map (\<lambda>(k, v). (drop (length p) k, v)) (filter (\<lambda>(k, v). prefix p k \<and> k \<noteq> p) xs)"
  have "prefixIter p xs = ?ys"
    using xs(3) pre by (intro prefixIter_all) auto
  moreover have "sorted_keys (rev ?ys)"
    unfolding rev_map rev_filter
    by (rule sorted_keys_strip) (auto simp: sorted_keys_filter xs(2))
  ultimately show ?thesis
    using b xs(1) strip_mem [of _ _ p xs] xs(3) rng
    by (auto simp: rp_ReverseIterator_def prefixed_abs_def)
qed

end

sublocale db_rw_prefixed \<subseteq> view: db_rw "prefixed_ops p ops" "prefixed_abs p abs" opn
proof (unfold_locales, goal_cases)
  case (10 c s e)
  then show ?case by (simp add: prefixed_ops_def rp_Iterator p_ne)
next
  case (11 c s e)
  then show ?case by (simp add: prefixed_ops_def rp_ReverseIterator)
next
  case (12 c s e)
  then show ?case
    by (auto simp: prefixed_ops_def rp_Iterator_def rp_ReverseIterator_def rp_bounds_def)
qed (auto simp: prefixed_ops_def rp_Get_def rp_Has_def wp_Set_def wp_Delete_def prefixed_def
    prefixed_abs_def Get Has Set_err Set_open Set_abs Delete_err Delete_open Delete_abs fun_eq_iff p_ne)

context db_rw_prefixed
begin

lemma view_contract: "db_rw (prefixed_ops p ops) (prefixed_abs p abs) opn"
  by unfold_locales

end

interpretation node_view: db_rw_prefixed "memdb_ops rbt_ops" "memdb_abs rbt_ops" "memdb_opn rbt_ops" "str_bytes ''node''"
  by unfold_locales code_simp+

section \<open>Properties\<close>

text \<open>Views under prefixes of which none extends the other do not overlap.\<close>

lemma parallel_append: "\<not> prefix p q \<Longrightarrow> \<not> prefix q p \<Longrightarrow> p @ k \<noteq> q @ k'"
  by (metis prefixI prefix_same_cases)

context db_rw
begin

lemma view_Set:
  assumes "opn c" "k \<noteq> []"
  shows "snd (wp_Set p ops c k (Some v)) = None \<and> opn (fst (wp_Set p ops c k (Some v))) \<and>
    prefixed_abs p abs (fst (wp_Set p ops c k (Some v))) = (prefixed_abs p abs c)(k \<mapsto> v) \<and>
    (\<not> prefix p q \<and> \<not> prefix q p \<longrightarrow>
      prefixed_abs q abs (fst (wp_Set p ops c k (Some v))) = prefixed_abs q abs c)"
  using assms parallel_append [of p q] parallel_append [of q p]
  by (auto simp: wp_Set_def prefixed_def Set_err Set_open Set_abs prefixed_abs_def fun_eq_iff)

end

text \<open>
  A key set through a view of the database is read back through the same
  view, every other key of the view reads as before, and a view under a prefix
  that neither extends this one nor is extended by it sees no change.
\<close>

theorem prefixed_Set_Get:
  assumes "btree B" "memdb_opn B c" "k \<noteq> []" "k' \<noteq> []"
  shows "case db_Set (prefixed_ops p (memdb_ops B)) c k (Some v) of (c', err) \<Rightarrow>
    err = None \<and>
    db_Get (prefixed_ops p (memdb_ops B)) c' k' =
      (if k' = k then Inr (Some v) else db_Get (prefixed_ops p (memdb_ops B)) c k') \<and>
    (\<not> prefix p q \<and> \<not> prefix q p \<longrightarrow>
      db_Get (prefixed_ops q (memdb_ops B)) c' k' = db_Get (prefixed_ops q (memdb_ops B)) c k')"
proof -
  note rw = memdb_db_rw [OF assms(1)]
  obtain c' err where c': "db_Set (prefixed_ops p (memdb_ops B)) c k (Some v) = (c', err)"
    using prod.exhaust by blast
  note st = db_rw.view_Set [OF rw assms(2,3), of p v q]
  have "wp_Set p (memdb_ops B) c k (Some v) = (c', err)" using c' by (simp add: prefixed_ops_def)
  then have c'': "err = None" "memdb_opn B c'"
    "prefixed_abs p (memdb_abs B) c' = (prefixed_abs p (memdb_abs B) c)(k \<mapsto> v)"
    "\<not> prefix p q \<and> \<not> prefix q p \<longrightarrow> prefixed_abs q (memdb_abs B) c' = prefixed_abs q (memdb_abs B) c"
    using st by simp_all
  have get: "db_Get (prefixed_ops r (memdb_ops B)) d k' = Inr (prefixed_abs r (memdb_abs B) d k')"
    if "memdb_opn B d" for d r
    using that assms(4) by (simp add: prefixed_ops_def rp_Get_def prefixed_def db_rw.Get [OF rw] prefixed_abs_def)
  show ?thesis using c''(1,3,4) by (simp add: c' get [OF c''(2)] get [OF assms(2)])
qed

definition view_sample :: "(bytes, nat) rbt memdb \<times> (bytes, nat) rbt dbTxn" where
  "view_sample = (case mdb_ReadWriter (NewMemDBBackend rbt_ops) of
     Inr (m, tx) \<Rightarrow> (m, fst (writer_Set rbt_ops (fst (writer_Set rbt_ops (fst (writer_Set rbt_ops tx
       [1, 5] (Some 10))) [1, 0xFF, 5] (Some 11))) [2] (Some 12))))"

lemma view_sample_open: "memdb_opn rbt_ops view_sample"
  by code_simp

theorem prefixed_Set_Get_witness:
  "memdb_opn rbt_ops view_sample \<and>
   (case db_Set (prefixed_ops [1] (memdb_ops rbt_ops)) view_sample [6] (Some 13) of (c', err) \<Rightarrow>
     err = None \<and> db_Get (prefixed_ops [1] (memdb_ops rbt_ops)) c' [6] = Inr (Some 13) \<and>
     db_Get (prefixed_ops [1] (memdb_ops rbt_ops)) c' [5] = Inr (Some 10) \<and>
     db_Get (prefixed_ops [2] (memdb_ops rbt_ops)) c' [6] = Inr None)"
proof -
  have "db_Get (prefixed_ops [1] (memdb_ops rbt_ops)) view_sample [5] = Inr (Some 10)"
    "db_Get (prefixed_ops [2] (memdb_ops rbt_ops)) view_sample [6] = Inr None" by code_simp+
  then show ?thesis
    using prefixed_Set_Get [OF rbt.btree_axioms view_sample_open, of "[6]" "[6]" "[1]" 13 "[2]"]
      prefixed_Set_Get [OF rbt.btree_axioms view_sample_open, of "[6]" "[5]" "[1]" 13 "[2]"]
      view_sample_open
    by (auto split: prod.splits)
qed

text \<open>
  \<open>Iterator\<close> of a view under any non-empty prefix, also one that ends in
  \<open>0xFF\<close>, lists in ascending order exactly the entries of the view in the range,
  with the prefix removed from the keys.
\<close>

theorem prefixed_Iterator_exact:
  assumes "btree B" "memdb_opn B c" "p \<noteq> []" "s \<noteq> Some []" "e \<noteq> Some []"
  shows "\<exists>xs. db_Iterator (prefixed_ops p (memdb_ops B)) c s e = Inr xs \<and> sorted_keys xs \<and>
    (\<forall>k v. (k, v) \<in> set xs \<longleftrightarrow>
      db_Get (prefixed_ops p (memdb_ops B)) c k = Inr (Some v) \<and> in_range s e k)"
  using db_rw.rp_Iterator [OF memdb_db_rw [OF assms(1)] assms(3,2,4,5)] assms(2,3)
  by (auto simp: prefixed_ops_def rp_Get_def prefixed_def db_rw.Get [OF memdb_db_rw [OF assms(1)]]
      prefixed_abs_def)

theorem prefixed_Iterator_exact_witness:
  "db_Iterator (prefixed_ops [1, 0xFF] (memdb_ops rbt_ops)) view_sample None None = Inr [([5], 11)] \<and>
   (\<exists>xs. db_Iterator (prefixed_ops [1] (memdb_ops rbt_ops)) view_sample None None = Inr xs \<and>
     sorted_keys xs \<and> ([5], 10) \<in> set xs \<and> ([0xFF, 5], 11) \<in> set xs)"
proof -
  have "db_Iterator (prefixed_ops [1, 0xFF] (memdb_ops rbt_ops)) view_sample None None = Inr [([5], 11)]"
    "db_Get (prefixed_ops [1] (memdb_ops rbt_ops)) view_sample [5] = Inr (Some 10)"
    "db_Get (prefixed_ops [1] (memdb_ops rbt_ops)) view_sample [0xFF, 5] = Inr (Some 11)"
    by code_simp+
  then show ?thesis
    using prefixed_Iterator_exact [OF rbt.btree_axioms view_sample_open, of "[1]" None None] by auto
qed

text \<open>
  \<open>ReverseIterator\<close> of a view without an upper bound is wrong for a prefix that
  ends in \<open>0xFF\<close>: \<open>endIter\<close> resets the trailing \<open>0xFF\<close> to \<open>0x00\<close> where the carry
  should drop it, so the end of the range of prefix \<open>01 FF\<close> is \<open>02 00\<close> and not \<open>02\<close>.
  The key \<open>02\<close> lies in between, lacks the prefix, and ends the iteration before
  its first item, although the ascending iterator lists one.
\<close>

theorem prefixed_ReverseIterator_misses:
  "endIter [1, 0xFF] = Inr (Some [2, 0]) \<and>
   db_Iterator (prefixed_ops [1, 0xFF] (memdb_ops rbt_ops)) view_sample None None = Inr [([5], 11)] \<and>
   db_ReverseIterator (prefixed_ops [1, 0xFF] (memdb_ops rbt_ops)) view_sample None None = Inr []"
  by code_simp

text \<open>
  For a prefix whose last byte is below \<open>0xFF\<close> the descending iterator of a view
  is exact too.
\<close>

theorem prefixed_ReverseIterator_exact:
  assumes "btree B" "memdb_opn B c" "p \<noteq> []" "last p < 0xFF" "s \<noteq> Some []" "e \<noteq> Some []"
  shows "\<exists>xs. db_ReverseIterator (prefixed_ops p (memdb_ops B)) c s e = Inr xs \<and> sorted_keys (rev xs) \<and>
    (\<forall>k v. (k, v) \<in> set xs \<longleftrightarrow>
      db_Get (prefixed_ops p (memdb_ops B)) c k = Inr (Some v) \<and> in_range s e k)"
proof -
  have pre: "db_rw_prefixed (memdb_ops B) (memdb_abs B) (memdb_opn B) p"
    using assms(3,4) by (intro db_rw_prefixed.intro memdb_db_rw assms(1) db_rw_prefixed_axioms.intro)
  show ?thesis
    using db_rw_prefixed.rp_ReverseIterator [OF pre assms(2,5,6)] assms(2,3)
    by (auto simp: prefixed_ops_def rp_Get_def prefixed_def db_rw.Get [OF memdb_db_rw [OF assms(1)]]
        prefixed_abs_def)
qed

theorem prefixed_ReverseIterator_exact_witness:
  "\<exists>xs. db_ReverseIterator (prefixed_ops [1] (memdb_ops rbt_ops)) view_sample None None = Inr xs \<and>
     sorted_keys (rev xs) \<and> ([5], 10) \<in> set xs \<and> ([0xFF, 5], 11) \<in> set xs"
proof -
  have "db_Get (prefixed_ops [1] (memdb_ops rbt_ops)) view_sample [5] = Inr (Some 10)"
    "db_Get (prefixed_ops [1] (memdb_ops rbt_ops)) view_sample [0xFF, 5] = Inr (Some 11)"
    by code_simp+
  moreover have "last [1] < (0xFF :: byte)" by code_simp
  ultimately show ?thesis
    using prefixed_ReverseIterator_exact [OF rbt.btree_axioms view_sample_open, of "[1]" None None] by auto
qed

end
