(* ===== verification/State_Store.thy ===== *)
theory State_Store
  imports Prefix_Backend
begin

text \<open>
  The state store (\<open>src/ledger/state/data.go\<close>, \<open>proof.go\<close>, \<open>store.go\<close>,
  \<open>store_state.go\<close>): named key-value stores inside one transaction of the
  database. The store called \<open>name\<close> keeps its data under \<open>name @ 01\<close>, and the nodes
  and values of a sparse Merkle tree over the same keys under \<open>name @ 03\<close> and
  \<open>name @ 04\<close>.

  The sparse Merkle tree is \<open>github.com/lazyledger/smt\<close>, which is not part of the
  repository: it is the parameter \<open>M\<close>, a record of the operations the code calls.
  An operation of the tree is given the two stores it may use (\<open>MapStore\<close>:
  \<open>Get\<close>, \<open>Set\<close> and \<open>Delete\<close>), the state they live in and the root, and returns
  the state and the new root. What the code relies on is the locale \<open>smt\<close>. Proofs
  are values of the type \<open>'p\<close>; their \<open>gob\<close> encoding is a field of \<open>M\<close> as well,
  since it follows the layout of the library's type.

  The cache of \<open>stateData\<close> is nil throughout: its uses are commented out.
\<close>

section \<open>The Merkle tree library\<close>

record ('c, 'v) map_store =
  ms_Get :: "'c \<Rightarrow> bytes \<Rightarrow> error + 'v option"
  ms_Set :: "'c \<Rightarrow> bytes \<Rightarrow> 'v option \<Rightarrow> 'c \<times> error option"
  ms_Delete :: "'c \<Rightarrow> bytes \<Rightarrow> 'c \<times> error option"

record ('c, 'v, 'p) smt_ops =
  smt_newRoot :: 'v
  smt_Get :: "('c, 'v) map_store \<Rightarrow> ('c, 'v) map_store \<Rightarrow> 'c \<Rightarrow> 'v \<Rightarrow> bytes \<Rightarrow> error + 'v option"
  smt_Has :: "('c, 'v) map_store \<Rightarrow> ('c, 'v) map_store \<Rightarrow> 'c \<Rightarrow> 'v \<Rightarrow> bytes \<Rightarrow> error + bool"
  smt_Update :: "('c, 'v) map_store \<Rightarrow> ('c, 'v) map_store \<Rightarrow> 'c \<Rightarrow> 'v \<Rightarrow> bytes \<Rightarrow> 'v option \<Rightarrow> 'c \<times> (error + 'v)"
  smt_Delete :: "('c, 'v) map_store \<Rightarrow> ('c, 'v) map_store \<Rightarrow> 'c \<Rightarrow> 'v \<Rightarrow> bytes \<Rightarrow> 'c \<times> (error + 'v)"
  smt_Prove :: "('c, 'v) map_store \<Rightarrow> ('c, 'v) map_store \<Rightarrow> 'c \<Rightarrow> 'v \<Rightarrow> bytes \<Rightarrow> error + 'p"
  smt_VerifyProof :: "'p \<Rightarrow> 'v \<Rightarrow> bytes \<Rightarrow> 'v option \<Rightarrow> bool"
  gob_Encode :: "'p \<Rightarrow> error + 'v"
  gob_Decode :: "'v \<Rightarrow> error + 'p"

definition stateProofDB :: "('c, 'v) db_ops \<Rightarrow> ('c, 'v) map_store" where
  "stateProofDB ops = \<lparr>ms_Get = db_Get ops, ms_Set = db_Set ops, ms_Delete = db_Delete ops\<rparr>"

definition stateProofDBReadonly :: "('c, 'v) db_ops \<Rightarrow> ('c, 'v) map_store" where
  "stateProofDBReadonly ops = \<lparr>ms_Get = db_Get ops,
     ms_Set = (\<lambda>c k v. (c, Some (ErrReadOnly ''Can't set because of read only state proof db''))),
     ms_Delete = (\<lambda>c k. (c, Some (ErrReadOnly ''Can't delete because of read only state proof db'')))\<rparr>"

section \<open>State data\<close>

text \<open>The flag \<open>ro\<close> says that \<open>backendR\<close> is set; both backends read the same way.\<close>

definition newStateData :: "int \<Rightarrow> error option" where
  "newStateData cacheSize = (if cacheSize > 0 then None
     else Some (Panic ''CacheSize must be bigger than 0 when creating state data!''))"

definition sd_Get :: "('c, 'v) db_ops \<Rightarrow> 'c \<Rightarrow> bytes \<Rightarrow> error + 'v option" where
  "sd_Get ops c key = db_Get ops c key"

definition sd_Set :: "bool \<Rightarrow> ('c, 'v) db_ops \<Rightarrow> 'c \<Rightarrow> bytes \<Rightarrow> 'v option \<Rightarrow> 'c \<times> error option" where
  "sd_Set ro ops c key val = (if ro then (c, Some (ErrReadOnly ''Read only state data store''))
     else db_Set ops c key val)"

definition sd_Delete :: "bool \<Rightarrow> ('c, 'v) db_ops \<Rightarrow> 'c \<Rightarrow> bytes \<Rightarrow> 'c \<times> error option" where
  "sd_Delete ro ops c key = (if ro then (c, Some (ErrReadOnly ''Read only state data store''))
     else db_Delete ops c key)"

definition sd_Has :: "('c, 'v) db_ops \<Rightarrow> 'c \<Rightarrow> bytes \<Rightarrow> error + bool" where
  "sd_Has ops c key = db_Has ops c key"

definition sd_Iterator ::
  "('c, 'v) db_ops \<Rightarrow> 'c \<Rightarrow> bytes option \<Rightarrow> bytes option \<Rightarrow> error + (bytes \<times> 'v) list" where
  "sd_Iterator ops c s e = db_Iterator ops c s e"

section \<open>State proofs\<close>

definition rootKey :: bytes where
  "rootKey = str_bytes ''srk''"

fun newStateProof_fill ::
  "('c, 'v, 'p) smt_ops \<Rightarrow> ('c, 'v) map_store \<Rightarrow> ('c, 'v) map_store \<Rightarrow> (bytes \<times> 'v) list \<Rightarrow> 'c \<Rightarrow> 'v \<Rightarrow> error + ('c \<times> 'v)" where
  "newStateProof_fill M N V [] c root = Inr (c, root)"
| "newStateProof_fill M N V ((k, v) # items) c root =
     (case smt_Update M N V c root k (Some v) of
        (c', Inl err) \<Rightarrow> Inl (Panic ''SparseMerkleTree update failed'')
      | (c', Inr root') \<Rightarrow> newStateProof_fill M N V items c' root')"

text \<open>
  The result is the state and the root with which the tree is imported. The
  write of the root is not checked. On an iterator error the deferred \<open>Close\<close>
  of the nil iterator panics.
\<close>

definition newStateProof ::
  "('c, 'v, 'p) smt_ops \<Rightarrow> ('c, 'v) db_ops \<Rightarrow> ('c, 'v) db_ops \<Rightarrow> 'c \<Rightarrow> error + ('c \<times> 'v)" where
  "newStateProof M nodes vals c = (case db_Get vals c rootKey of
     Inl err \<Rightarrow> Inl (Panic ''Get root key failed'')
   | Inr (Some stateRoot) \<Rightarrow> Inr (fst (db_Set vals c rootKey (Some stateRoot)), stateRoot)
   | Inr None \<Rightarrow> (case db_Iterator vals c None None of
        Inl err \<Rightarrow> Inl (Panic ''nil pointer dereference'')
      | Inr items \<Rightarrow>
          (case newStateProof_fill M (stateProofDB nodes) (stateProofDB vals) items c (smt_newRoot M) of
             Inl err \<Rightarrow> Inl err
           | Inr (c', stateRoot) \<Rightarrow> Inr (fst (db_Set vals c' rootKey (Some stateRoot)), stateRoot))))"

text \<open>
  The read-only tree ignores the errors of its updates. On an iterator error
  the function returns nil, here the error \<open>ErrNil\<close>; the same transaction has just
  answered \<open>Get\<close>, so this does not happen.
\<close>

fun newStateProofReadonly_fill ::
  "('c, 'v, 'p) smt_ops \<Rightarrow> ('c, 'v) map_store \<Rightarrow> ('c, 'v) map_store \<Rightarrow> (bytes \<times> 'v) list \<Rightarrow> 'c \<Rightarrow> 'v \<Rightarrow> 'c \<times> 'v" where
  "newStateProofReadonly_fill M N V [] c root = (c, root)"
| "newStateProofReadonly_fill M N V ((k, v) # items) c root =
     (case smt_Update M N V c root k (Some v) of (c', r) \<Rightarrow>
        newStateProofReadonly_fill M N V items c' (case r of Inl err \<Rightarrow> root | Inr root' \<Rightarrow> root'))"

definition newStateProofReadonly ::
  "('c, 'v, 'p) smt_ops \<Rightarrow> ('c, 'v) db_ops \<Rightarrow> ('c, 'v) db_ops \<Rightarrow> 'c \<Rightarrow> error + ('c \<times> 'v)" where
  "newStateProofReadonly M nodes vals c = (case db_Get vals c rootKey of
     Inl err \<Rightarrow> Inl (Panic ''Get root key failed'')
   | Inr (Some stateRoot) \<Rightarrow> Inr (c, stateRoot)
   | Inr None \<Rightarrow> (case db_Iterator vals c None None of
        Inl err \<Rightarrow> Inl (ErrNil ''stateProof'')
      | Inr items \<Rightarrow> Inr (newStateProofReadonly_fill M (stateProofDBReadonly nodes)
          (stateProofDBReadonly vals) items c (smt_newRoot M))))"

definition encodeProof :: "('c, 'v, 'p) smt_ops \<Rightarrow> 'p \<Rightarrow> error + 'v" where
  "encodeProof M sp = gob_Encode M sp"

definition decodeProof :: "('c, 'v, 'p) smt_ops \<Rightarrow> 'v \<Rightarrow> error + 'p" where
  "decodeProof M proofData = gob_Decode M proofData"

definition VerifyProof :: "('c, 'v, 'p) smt_ops \<Rightarrow> 'v \<Rightarrow> 'v \<Rightarrow> bytes \<Rightarrow> 'v option \<Rightarrow> bool" where
  "VerifyProof M proofData root key val = (case decodeProof M proofData of
     Inl err \<Rightarrow> False
   | Inr proof' \<Rightarrow> smt_VerifyProof M proof' root key val)"

section \<open>One named store\<close>

text \<open>\<open>cp_root\<close> is the root that the tree of \<open>proofS\<close> holds in memory.\<close>

record 'v composition =
  cp_name :: string
  cp_ro :: bool
  cp_root :: 'v

abbreviation stateDataPrefix :: byte where "stateDataPrefix \<equiv> 0x01"
abbreviation merkleNodePrefix :: byte where "merkleNodePrefix \<equiv> 0x03"
abbreviation merkleValuePrefix :: byte where "merkleValuePrefix \<equiv> 0x04"

definition comp_view :: "('c, 'v) db_ops \<Rightarrow> string \<Rightarrow> byte \<Rightarrow> ('c, 'v) db_ops" where
  "comp_view ops name b = prefixed_ops [b] (prefixed_ops (str_bytes name) ops)"

definition newStateStoreComposition ::
  "('c, 'v, 'p) smt_ops \<Rightarrow> ('c, 'v) db_ops \<Rightarrow> 'c \<Rightarrow> string \<Rightarrow> int \<Rightarrow> error + ('c \<times> 'v composition)" where
  "newStateStoreComposition M ops c name cacheSize = (case newStateData cacheSize of
     Some err \<Rightarrow> Inl err
   | None \<Rightarrow>
      (case newStateProof M (comp_view ops name merkleNodePrefix) (comp_view ops name merkleValuePrefix) c of
        Inl err \<Rightarrow> Inl err
      | Inr (c', root) \<Rightarrow> Inr (c', \<lparr>cp_name = name, cp_ro = False, cp_root = root\<rparr>)))"

definition newStateStoreCompositionReadOnly ::
  "('c, 'v, 'p) smt_ops \<Rightarrow> ('c, 'v) db_ops \<Rightarrow> 'c \<Rightarrow> string \<Rightarrow> int \<Rightarrow> error + ('c \<times> 'v composition)" where
  "newStateStoreCompositionReadOnly M ops c name cacheSize = (case newStateData cacheSize of
     Some err \<Rightarrow> Inl err
   | None \<Rightarrow>
      (case newStateProofReadonly M (comp_view ops name merkleNodePrefix) (comp_view ops name merkleValuePrefix) c of
        Inl err \<Rightarrow> Inl err
      | Inr (c', root) \<Rightarrow> Inr (c', \<lparr>cp_name = name, cp_ro = True, cp_root = root\<rparr>)))"

definition comp_stores :: "('c, 'v) db_ops \<Rightarrow> 'v composition \<Rightarrow> ('c, 'v) map_store \<times> ('c, 'v) map_store" where
  "comp_stores ops cp =
     (let db = (if cp_ro cp then stateProofDBReadonly else stateProofDB)
      in (db (comp_view ops (cp_name cp) merkleNodePrefix), db (comp_view ops (cp_name cp) merkleValuePrefix)))"

definition comp_dataS :: "('c, 'v) db_ops \<Rightarrow> 'v composition \<Rightarrow> ('c, 'v) db_ops" where
  "comp_dataS ops cp = comp_view ops (cp_name cp) stateDataPrefix"

text \<open>\<open>multierror.Append\<close> of the errors that occurred; no error is nil.\<close>

definition multi :: "error list \<Rightarrow> error option" where
  "multi errs = (if errs = [] then None else Some (MultiError errs))"

definition opt_list :: "'a option \<Rightarrow> 'a list" where
  "opt_list x = (case x of None \<Rightarrow> [] | Some a \<Rightarrow> [a])"

definition sp_result :: "'v composition \<Rightarrow> error + 'v \<Rightarrow> 'v composition \<times> error option" where
  "sp_result cp r = (case r of Inl err \<Rightarrow> (cp, Some err) | Inr root \<Rightarrow> (cp\<lparr>cp_root := root\<rparr>, None))"

definition comp_Put ::
  "('c, 'v, 'p) smt_ops \<Rightarrow> ('c, 'v) db_ops \<Rightarrow> 'c \<times> 'v composition \<Rightarrow> bytes \<Rightarrow> 'v option
   \<Rightarrow> ('c \<times> 'v composition) \<times> error option" where
  "comp_Put M ops st key val = (case st of (c, cp) \<Rightarrow>
     if cp_ro cp then ((c, cp), Some (ErrReadOnly ''Can't put because of read only state store composition''))
     else case sd_Set False (comp_dataS ops cp) c key val of (c1, err1) \<Rightarrow>
       (case comp_stores ops cp of (N, V) \<Rightarrow>
         (case smt_Update M N V c1 (cp_root cp) key val of (c2, r) \<Rightarrow>
           (case sp_result cp r of (cp', err2) \<Rightarrow> ((c2, cp'), multi (opt_list err1 @ opt_list err2))))))"

definition comp_Delete ::
  "('c, 'v, 'p) smt_ops \<Rightarrow> ('c, 'v) db_ops \<Rightarrow> 'c \<times> 'v composition \<Rightarrow> bytes
   \<Rightarrow> ('c \<times> 'v composition) \<times> error option" where
  "comp_Delete M ops st key = (case st of (c, cp) \<Rightarrow>
     if cp_ro cp then ((c, cp), Some (ErrReadOnly ''Can't delete because of read only state store composition''))
     else case sd_Delete False (comp_dataS ops cp) c key of (c1, err1) \<Rightarrow>
       (case comp_stores ops cp of (N, V) \<Rightarrow>
         (case smt_Delete M N V c1 (cp_root cp) key of (c2, r) \<Rightarrow>
           (case sp_result cp r of (cp', err2) \<Rightarrow> ((c2, cp'), multi (opt_list err1 @ opt_list err2))))))"

definition comp_Exists :: "('c, 'v) db_ops \<Rightarrow> 'c \<times> 'v composition \<Rightarrow> bytes \<Rightarrow> error + bool" where
  "comp_Exists ops st key = sd_Has (comp_dataS ops (snd st)) (fst st) key"

definition comp_Update ::
  "('c, 'v, 'p) smt_ops \<Rightarrow> ('c, 'v) db_ops \<Rightarrow> 'c \<times> 'v composition \<Rightarrow> bytes \<Rightarrow> 'v option
   \<Rightarrow> ('c \<times> 'v composition) \<times> error option" where
  "comp_Update M ops st key val =
     (if cp_ro (snd st) then (st, Some (ErrReadOnly ''Can't update because of read only state store composition''))
      else comp_Put M ops st key val)"

definition comp_GetStateData :: "('c, 'v) db_ops \<Rightarrow> 'c \<times> 'v composition \<Rightarrow> bytes \<Rightarrow> error + 'v option" where
  "comp_GetStateData ops st key = sd_Get (comp_dataS ops (snd st)) (fst st) key"

definition sp_Proof ::
  "('c, 'v, 'p) smt_ops \<Rightarrow> ('c, 'v) db_ops \<Rightarrow> 'c \<times> 'v composition \<Rightarrow> bytes \<Rightarrow> error + 'v" where
  "sp_Proof M ops st key = (case comp_stores ops (snd st) of (N, V) \<Rightarrow>
     (case smt_Prove M N V (fst st) (cp_root (snd st)) key of
        Inl err \<Rightarrow> Inl err | Inr p \<Rightarrow> encodeProof M p))"

text \<open>The value and the proof are nil where their error occurred.\<close>

definition comp_GetState ::
  "('c, 'v, 'p) smt_ops \<Rightarrow> ('c, 'v) db_ops \<Rightarrow> 'c \<times> 'v composition \<Rightarrow> bytes \<Rightarrow> 'v option \<times> 'v option \<times> error option" where
  "comp_GetState M ops st key =
     (let (val, errs1) = (case comp_GetStateData ops st key of Inl err \<Rightarrow> (None, [err]) | Inr v \<Rightarrow> (v, []));
          (proof', errs2) = (case sp_Proof M ops st key of Inl err \<Rightarrow> (None, [err]) | Inr p \<Rightarrow> (Some p, []))
      in (val, proof', multi (errs1 @ errs2)))"

definition comp_GetAllStateData :: "('c, 'v) db_ops \<Rightarrow> 'c \<times> 'v composition \<Rightarrow> error + (bytes list \<times> 'v list)" where
  "comp_GetAllStateData ops st = (case sd_Iterator (comp_dataS ops (snd st)) (fst st) None None of
     Inl err \<Rightarrow> Inl err
   | Inr items \<Rightarrow> Inr (map fst items, map snd items))"

text \<open>The callback threads a state of the caller.\<close>

definition comp_IterateAllStateDataCB ::
  "('c, 'v) db_ops \<Rightarrow> 'c \<times> 'v composition \<Rightarrow> ('x \<Rightarrow> bytes \<Rightarrow> 'v \<Rightarrow> 'x) \<Rightarrow> 'x \<Rightarrow> error + 'x" where
  "comp_IterateAllStateDataCB ops st cb x = (case sd_Iterator (comp_dataS ops (snd st)) (fst st) None None of
     Inl err \<Rightarrow> Inl err
   | Inr items \<Rightarrow> Inr (foldl (\<lambda>x (k, v). cb x k v) x items))"

text \<open>
  The loop of \<open>GetAllState\<close> reads \<open>proof, _, err := store.GetState(key)\<close>: what it
  collects as the proof is the first result of \<open>GetState\<close>, the value.
\<close>

fun getAllState_loop ::
  "('c, 'v, 'p) smt_ops \<Rightarrow> ('c, 'v) db_ops \<Rightarrow> 'c \<times> 'v composition \<Rightarrow> (bytes \<times> 'v) list
   \<Rightarrow> error + (bytes \<times> 'v \<times> 'v option) list" where
  "getAllState_loop M ops st [] = Inr []"
| "getAllState_loop M ops st ((k, v) # items) = (case comp_GetState M ops st k of
     (proof', _, Some err) \<Rightarrow> Inl err
   | (proof', _, None) \<Rightarrow> (case getAllState_loop M ops st items of
        Inl err \<Rightarrow> Inl err | Inr rest \<Rightarrow> Inr ((k, v, proof') # rest)))"

definition comp_GetAllState ::
  "('c, 'v, 'p) smt_ops \<Rightarrow> ('c, 'v) db_ops \<Rightarrow> 'c \<times> 'v composition
   \<Rightarrow> error + (bytes list \<times> 'v list \<times> 'v option list)" where
  "comp_GetAllState M ops st = (case sd_Iterator (comp_dataS ops (snd st)) (fst st) None None of
     Inl err \<Rightarrow> Inl err
   | Inr items \<Rightarrow> (case getAllState_loop M ops st items of
        Inl err \<Rightarrow> Inl err
      | Inr xs \<Rightarrow> Inr (map fst xs, map (fst \<circ> snd) xs, map (snd \<circ> snd) xs)))"

fun iterateAllState_loop ::
  "('c, 'v, 'p) smt_ops \<Rightarrow> ('c, 'v) db_ops \<Rightarrow> 'c \<times> 'v composition
   \<Rightarrow> ('x \<Rightarrow> bytes \<Rightarrow> 'v \<Rightarrow> 'v option \<Rightarrow> 'x) \<Rightarrow> 'x \<Rightarrow> (bytes \<times> 'v) list \<Rightarrow> 'x \<times> error option" where
  "iterateAllState_loop M ops st cb x [] = (x, None)"
| "iterateAllState_loop M ops st cb x ((k, v) # items) = (case comp_GetState M ops st k of
     (proof', _, Some err) \<Rightarrow> (x, Some err)
   | (proof', _, None) \<Rightarrow> iterateAllState_loop M ops st cb (cb x k v proof') items)"

definition comp_IterateAllStateCB ::
  "('c, 'v, 'p) smt_ops \<Rightarrow> ('c, 'v) db_ops \<Rightarrow> 'c \<times> 'v composition
   \<Rightarrow> ('x \<Rightarrow> bytes \<Rightarrow> 'v \<Rightarrow> 'v option \<Rightarrow> 'x) \<Rightarrow> 'x \<Rightarrow> 'x \<times> error option" where
  "comp_IterateAllStateCB M ops st cb x = (case sd_Iterator (comp_dataS ops (snd st)) (fst st) None None of
     Inl err \<Rightarrow> (x, Some err)
   | Inr items \<Rightarrow> iterateAllState_loop M ops st cb x items)"

definition comp_Commit :: "('c, 'v) db_ops \<Rightarrow> 'c \<times> 'v composition \<Rightarrow> ('c \<times> 'v composition) \<times> error option" where
  "comp_Commit ops st =
     (if cp_ro (snd st) then (st, Some (ErrReadOnly ''Can't commit because of read only state store composition''))
      else case db_Commit ops (fst st) of (c', err) \<Rightarrow> ((c', snd st), err))"

section \<open>The state store\<close>

text \<open>
  \<open>st_ro\<close> says which of \<open>backendR\<close> and \<open>backendRW\<close> is set; \<open>st_txn\<close> is that
  transaction, on the database \<open>st_db\<close>. Each method runs under the lock of the
  store and is one step.
\<close>

record ('t, 'v) stateStore =
  st_db :: "'t memdb"
  st_ro :: bool
  st_txn :: "'t dbTxn"
  st_storeMap :: "string \<rightharpoonup> 'v composition"

abbreviation Flag_ReadOnly :: int where "Flag_ReadOnly \<equiv> 0x01"
abbreviation Flag_WriteOnly :: int where "Flag_WriteOnly \<equiv> 0x10"
abbreviation Flag_ReadWrite :: int where "Flag_ReadWrite \<equiv> 0x11"

definition NewStateStore :: "'t memdb \<Rightarrow> int \<Rightarrow> error + ('t, 'v) stateStore" where
  "NewStateStore db flag =
     (if flag = Flag_ReadWrite then (case mdb_ReadWriter db of
         Inl err \<Rightarrow> Inl err
       | Inr (db', tx) \<Rightarrow> Inr \<lparr>st_db = db', st_ro = False, st_txn = tx, st_storeMap = Map.empty\<rparr>)
      else if flag = Flag_ReadOnly then
        Inr \<lparr>st_db = db, st_ro = True, st_txn = mdb_Reader db, st_storeMap = Map.empty\<rparr>
      else Inl (Panic ''Invalid state store flag''))"

definition NewStateStoreAt :: "'t memdb \<Rightarrow> int \<Rightarrow> u64 \<Rightarrow> error + ('t, 'v) stateStore" where
  "NewStateStoreAt db flag version =
     (if flag = Flag_ReadWrite then (case mdb_ReadWriter db of
         Inl err \<Rightarrow> Inl err
       | Inr (db', tx) \<Rightarrow> Inr \<lparr>st_db = db', st_ro = False, st_txn = tx, st_storeMap = Map.empty\<rparr>)
      else if flag = Flag_ReadOnly then (case mdb_ReaderAt db version of
         Inl err \<Rightarrow> Inl (Panic ''reader'')
       | Inr tx \<Rightarrow> Inr \<lparr>st_db = db, st_ro = True, st_txn = tx, st_storeMap = Map.empty\<rparr>)
      else Inl (Panic ''Invalid state store flag''))"

type_synonym ('t, 'v, 'p) memdb_smt = "('t memdb \<times> 't dbTxn, 'v, 'p) smt_ops"

definition st_conn :: "('t, 'v) stateStore \<Rightarrow> 't memdb \<times> 't dbTxn" where
  "st_conn s = (st_db s, st_txn s)"

definition st_put_comp ::
  "('t, 'v) stateStore \<Rightarrow> string \<Rightarrow> ('t memdb \<times> 't dbTxn) \<times> 'v composition \<Rightarrow> ('t, 'v) stateStore" where
  "st_put_comp s name st = s\<lparr>st_db := fst (fst st), st_txn := snd (fst st),
     st_storeMap := (st_storeMap s)(name \<mapsto> snd st)\<rparr>"

definition ss_AddNamedStateStore ::
  "('t, 'v) btree_ops \<Rightarrow> ('t, 'v, 'p) memdb_smt \<Rightarrow> ('t, 'v) stateStore \<Rightarrow> string \<Rightarrow> int
   \<Rightarrow> ('t, 'v) stateStore \<times> error option" where
  "ss_AddNamedStateStore B M s name cacheSize =
     (if st_storeMap s name \<noteq> None then (s, None)
      else case (if st_ro s
           then newStateStoreCompositionReadOnly M (memdb_ops B) (st_conn s) name cacheSize
           else newStateStoreComposition M (memdb_ops B) (st_conn s) name cacheSize) of
        Inl err \<Rightarrow> (s, Some err)
      | Inr st \<Rightarrow> (st_put_comp s name st, None))"

definition ss_Root :: "('t, 'v) stateStore \<Rightarrow> string \<Rightarrow> error + 'v" where
  "ss_Root s name = (case st_storeMap s name of
     Some cp \<Rightarrow> Inr (cp_root cp) | None \<Rightarrow> Inl (ErrNoStore name))"

text \<open>A write is delegated to the named store, a read as well.\<close>

definition ss_write ::
  "string \<Rightarrow> (('t memdb \<times> 't dbTxn) \<times> 'v composition \<Rightarrow> (('t memdb \<times> 't dbTxn) \<times> 'v composition) \<times> error option)
   \<Rightarrow> ('t, 'v) stateStore \<Rightarrow> ('t, 'v) stateStore \<times> error option" where
  "ss_write name f s = (case st_storeMap s name of
     Some cp \<Rightarrow> (case f (st_conn s, cp) of (st, err) \<Rightarrow> (st_put_comp s name st, err))
   | None \<Rightarrow> (s, Some (ErrNoStore name)))"

definition ss_Put ::
  "('t, 'v) btree_ops \<Rightarrow> ('t, 'v, 'p) memdb_smt \<Rightarrow> ('t, 'v) stateStore \<Rightarrow> string \<Rightarrow> bytes \<Rightarrow> 'v option
   \<Rightarrow> ('t, 'v) stateStore \<times> error option" where
  "ss_Put B M s name key val =
     (if st_ro s then (s, Some (ErrReadOnly ''Can't put because of read only state store''))
      else ss_write name (\<lambda>st. comp_Put M (memdb_ops B) st key val) s)"

definition ss_Delete ::
  "('t, 'v) btree_ops \<Rightarrow> ('t, 'v, 'p) memdb_smt \<Rightarrow> ('t, 'v) stateStore \<Rightarrow> string \<Rightarrow> bytes
   \<Rightarrow> ('t, 'v) stateStore \<times> error option" where
  "ss_Delete B M s name key =
     (if st_ro s then (s, Some (ErrReadOnly ''Can't delete because of read only state store''))
      else ss_write name (\<lambda>st. comp_Delete M (memdb_ops B) st key) s)"

definition ss_Update ::
  "('t, 'v) btree_ops \<Rightarrow> ('t, 'v, 'p) memdb_smt \<Rightarrow> ('t, 'v) stateStore \<Rightarrow> string \<Rightarrow> bytes \<Rightarrow> 'v option
   \<Rightarrow> ('t, 'v) stateStore \<times> error option" where
  "ss_Update B M s name key val =
     (if st_ro s then (s, Some (ErrReadOnly ''Can't update because of read only state store''))
      else ss_write name (\<lambda>st. comp_Update M (memdb_ops B) st key val) s)"

definition ss_Exists ::
  "('t, 'v) btree_ops \<Rightarrow> ('t, 'v) stateStore \<Rightarrow> string \<Rightarrow> bytes \<Rightarrow> error + bool" where
  "ss_Exists B s name key = (case st_storeMap s name of
     Some cp \<Rightarrow> comp_Exists (memdb_ops B) (st_conn s, cp) key | None \<Rightarrow> Inl (ErrNoStore name))"

definition ss_GetStateData ::
  "('t, 'v) btree_ops \<Rightarrow> ('t, 'v) stateStore \<Rightarrow> string \<Rightarrow> bytes \<Rightarrow> error + 'v option" where
  "ss_GetStateData B s name key = (case st_storeMap s name of
     Some cp \<Rightarrow> comp_GetStateData (memdb_ops B) (st_conn s, cp) key | None \<Rightarrow> Inl (ErrNoStore name))"

definition ss_GetState ::
  "('t, 'v) btree_ops \<Rightarrow> ('t, 'v, 'p) memdb_smt \<Rightarrow> ('t, 'v) stateStore \<Rightarrow> string \<Rightarrow> bytes
   \<Rightarrow> 'v option \<times> 'v option \<times> error option" where
  "ss_GetState B M s name key = (case st_storeMap s name of
     Some cp \<Rightarrow> comp_GetState M (memdb_ops B) (st_conn s, cp) key
   | None \<Rightarrow> (None, None, Some (ErrNoStore name)))"

definition ss_GetAllStateData ::
  "('t, 'v) btree_ops \<Rightarrow> ('t, 'v) stateStore \<Rightarrow> string \<Rightarrow> error + (bytes list \<times> 'v list)" where
  "ss_GetAllStateData B s name = (case st_storeMap s name of
     Some cp \<Rightarrow> comp_GetAllStateData (memdb_ops B) (st_conn s, cp) | None \<Rightarrow> Inl (ErrNoStore name))"

definition ss_IterateAllStateDataCB ::
  "('t, 'v) btree_ops \<Rightarrow> ('t, 'v) stateStore \<Rightarrow> string \<Rightarrow> ('x \<Rightarrow> bytes \<Rightarrow> 'v \<Rightarrow> 'x) \<Rightarrow> 'x \<Rightarrow> error + 'x" where
  "ss_IterateAllStateDataCB B s name cb x = (case st_storeMap s name of
     Some cp \<Rightarrow> comp_IterateAllStateDataCB (memdb_ops B) (st_conn s, cp) cb x
   | None \<Rightarrow> Inl (ErrNoStore name))"

definition ss_GetAllState ::
  "('t, 'v) btree_ops \<Rightarrow> ('t, 'v, 'p) memdb_smt \<Rightarrow> ('t, 'v) stateStore \<Rightarrow> string
   \<Rightarrow> error + (bytes list \<times> 'v list \<times> 'v option list)" where
  "ss_GetAllState B M s name = (case st_storeMap s name of
     Some cp \<Rightarrow> comp_GetAllState M (memdb_ops B) (st_conn s, cp) | None \<Rightarrow> Inl (ErrNoStore name))"

definition ss_IterateAllStateCB ::
  "('t, 'v) btree_ops \<Rightarrow> ('t, 'v, 'p) memdb_smt \<Rightarrow> ('t, 'v) stateStore \<Rightarrow> string
   \<Rightarrow> ('x \<Rightarrow> bytes \<Rightarrow> 'v \<Rightarrow> 'v option \<Rightarrow> 'x) \<Rightarrow> 'x \<Rightarrow> 'x \<times> error option" where
  "ss_IterateAllStateCB B M s name cb x = (case st_storeMap s name of
     Some cp \<Rightarrow> comp_IterateAllStateCB M (memdb_ops B) (st_conn s, cp) cb x
   | None \<Rightarrow> (x, Some (ErrNoStore name)))"

text \<open>
  \<open>Clone\<close> writes every entry of the own transaction, of all regions, into the
  transaction of the other store; errors of the writes are not checked.
\<close>

definition ss_Clone ::
  "('t, 'v) btree_ops \<Rightarrow> ('t, 'v) stateStore \<Rightarrow> ('t, 'v) stateStore \<Rightarrow> ('t, 'v) stateStore \<times> error option" where
  "ss_Clone B s other =
     (if st_ro other then (other, Some (ErrReadOnly ''Other is read only''))
      else case txn_iterate B False (st_txn s) None None of
        Inl err \<Rightarrow> (other, Some err)
      | Inr items \<Rightarrow>
          (other\<lparr>st_txn := foldl (\<lambda>tx (k, v). fst (writer_Set B tx k (Some v))) (st_txn other) items\<rparr>, None))"

definition ss_StateLatestVersion :: "('t, 'v) stateStore \<Rightarrow> u64" where
  "ss_StateLatestVersion s = vm_last (mdb_vmgr (st_db s))"

definition ss_StateVersions :: "('t, 'v) stateStore \<Rightarrow> u64 list" where
  "ss_StateVersions s = vm_versions (mdb_vmgr (st_db s))"

text \<open>The results of \<open>backendRW.Commit()\<close> and of \<open>SaveVersion\<close> are dropped.\<close>

definition ss_Commit :: "('t, 'v) stateStore \<Rightarrow> ('t, 'v) stateStore \<times> error option" where
  "ss_Commit s =
     (if st_ro s then (s, Some (ErrReadOnly ''Can't commit because of read only state store''))
      else case writer_Commit (st_db s) (st_txn s) of ((db, tx), _) \<Rightarrow>
        let lastVer = vm_last (mdb_vmgr db)
        in (s\<lparr>st_db := fst (mdb_SaveVersion db (lastVer + 1)), st_txn := tx\<rparr>, None))"

definition ss_Rollback :: "('t, 'v) btree_ops \<Rightarrow> ('t, 'v) stateStore \<Rightarrow> ('t, 'v) stateStore \<times> error option" where
  "ss_Rollback B s =
     (if st_ro s then (s, Some (ErrReadOnly ''Can't rollback because of read only state store''))
      else case mdb_Revert B (st_db s) of (db, err) \<Rightarrow> (s\<lparr>st_db := db\<rparr>, err))"

definition ss_Stop :: "('t, 'v) stateStore \<Rightarrow> ('t, 'v) stateStore" where
  "ss_Stop s = (if st_ro s then s\<lparr>st_txn := txn_Discard (st_txn s)\<rparr>
     else case writer_Discard (st_db s) (st_txn s) of (db, tx) \<Rightarrow> s\<lparr>st_db := db, st_txn := tx\<rparr>)"

section \<open>What the code relies on of the Merkle tree\<close>

text \<open>
  \<open>ms_keeps S K I\<close>: the calls of the store \<open>S\<close> at keys outside \<open>K\<close> keep \<open>I\<close>.
  \<open>ms_sound S I\<close>: while \<open>I\<close> holds, the calls at non-empty keys succeed.
\<close>

definition ms_keeps :: "('c, 'v) map_store \<Rightarrow> bytes set \<Rightarrow> ('c \<Rightarrow> bool) \<Rightarrow> bool" where
  "ms_keeps S K I \<longleftrightarrow>
     (\<forall>c k v. I c \<longrightarrow> k \<notin> K \<longrightarrow> I (fst (ms_Set S c k v)) \<and> I (fst (ms_Delete S c k)))"

definition ms_sound :: "('c, 'v) map_store \<Rightarrow> ('c \<Rightarrow> bool) \<Rightarrow> bool" where
  "ms_sound S I \<longleftrightarrow> (\<forall>c k v. I c \<longrightarrow> k \<noteq> [] \<longrightarrow> (\<exists>x. ms_Get S c k = Inr x) \<and>
     snd (ms_Set S c k (Some v)) = None \<and> snd (ms_Delete S c k) = None)"

text \<open>
  The library works on the stores only through their interface, keys the values
  by the hash of the key and so never touches \<open>rootKey\<close>, and fails only when a
  store fails.
\<close>

locale smt =
  fixes M :: "('c, 'v, 'p) smt_ops"
  assumes Update_keeps: "ms_keeps N {} I \<Longrightarrow> ms_keeps V {rootKey} I \<Longrightarrow> I c \<Longrightarrow> I (fst (smt_Update M N V c r k v))"
    and Delete_keeps: "ms_keeps N {} I \<Longrightarrow> ms_keeps V {rootKey} I \<Longrightarrow> I c \<Longrightarrow> I (fst (smt_Delete M N V c r k))"
    and Update_ok: "ms_keeps N {} I \<Longrightarrow> ms_keeps V {rootKey} I \<Longrightarrow> ms_sound N I \<Longrightarrow> ms_sound V I \<Longrightarrow> I c \<Longrightarrow>
      \<exists>r'. snd (smt_Update M N V c r k v) = Inr r'"
    and Delete_ok: "ms_keeps N {} I \<Longrightarrow> ms_keeps V {rootKey} I \<Longrightarrow> ms_sound N I \<Longrightarrow> ms_sound V I \<Longrightarrow> I c \<Longrightarrow>
      \<exists>r'. snd (smt_Delete M N V c r k) = Inr r'"
    and Prove_ok: "ms_sound N I \<Longrightarrow> ms_sound V I \<Longrightarrow> I c \<Longrightarrow> \<exists>p. smt_Prove M N V c r k = Inr p"
    and Encode_ok: "\<exists>d. gob_Encode M p = Inr d"

section \<open>Regions of the named stores\<close>

text \<open>
  A name is proper when it is not empty and none of its bytes is one of the
  region bytes or \<open>0xFF\<close>; then the regions of different names are disjoint.
\<close>

definition name_ok :: "string \<Rightarrow> bool" where
  "name_ok name \<longleftrightarrow> name \<noteq> [] \<and> (\<forall>b \<in> set (str_bytes name). 4 < b \<and> b < 0xFF)"

definition region :: "string \<Rightarrow> byte \<Rightarrow> bytes \<Rightarrow> bytes" where
  "region name b k = str_bytes name @ b # k"

lemma str_bytes_Nil_iff [simp]: "str_bytes n = [] \<longleftrightarrow> n = []"
  by (simp add: str_bytes_def)

lemma append_sep_inj:
  "\<forall>x \<in> set p. 4 < x \<Longrightarrow> \<forall>x \<in> set q. 4 < x \<Longrightarrow> b \<le> 4 \<Longrightarrow> b' \<le> 4 \<Longrightarrow>
   p @ b # k = q @ b' # k' \<longleftrightarrow> p = q \<and> b = b' \<and> k = k'" for b :: byte
proof (induction p arbitrary: q)
  case Nil
  then show ?case by (cases q) auto
next
  case (Cons x p)
  then show ?case by (cases q) auto
qed

lemma region_inj:
  "name_ok n \<Longrightarrow> name_ok n' \<Longrightarrow> b \<le> 4 \<Longrightarrow> b' \<le> 4 \<Longrightarrow>
   region n b k = region n' b' k' \<longleftrightarrow> n = n' \<and> b = b' \<and> k = k'"
  unfolding region_def using append_sep_inj [of "str_bytes n" "str_bytes n'"]
  by (auto simp: name_ok_def)

lemma region_neq_Nil [simp]: "region n b k \<noteq> []"
  by (simp add: region_def)

text \<open>What the Merkle tree of a store never touches.\<close>

definition outside :: "string \<Rightarrow> bytes \<Rightarrow> bool" where
  "outside name key \<longleftrightarrow> (\<forall>k. key \<noteq> region name merkleNodePrefix k) \<and>
     (\<forall>k. k \<noteq> rootKey \<longrightarrow> key \<noteq> region name merkleValuePrefix k)"

lemma outside_data: "name_ok n \<Longrightarrow> name_ok n' \<Longrightarrow> outside n (region n' stateDataPrefix k)"
  by (auto simp: outside_def region_inj)

lemma outside_root: "name_ok n \<Longrightarrow> name_ok n' \<Longrightarrow> outside n (region n' merkleValuePrefix rootKey)"
  by (auto simp: outside_def region_inj)

lemma rootKey_neq_Nil [simp]: "rootKey \<noteq> []"
  by (simp add: rootKey_def)

lemma comp_view_simps:
  "k \<noteq> [] \<Longrightarrow> db_Get (comp_view ops n b) c k = db_Get ops c (region n b k)"
  "k \<noteq> [] \<Longrightarrow> db_Has (comp_view ops n b) c k = db_Has ops c (region n b k)"
  "k \<noteq> [] \<Longrightarrow> db_Set (comp_view ops n b) c k v = db_Set ops c (region n b k) v"
  "k \<noteq> [] \<Longrightarrow> db_Delete (comp_view ops n b) c k = db_Delete ops c (region n b k)"
  "db_Get (comp_view ops n b) c [] = Inl ErrKeyEmpty"
  "db_Has (comp_view ops n b) c [] = Inl ErrKeyEmpty"
  "db_Set (comp_view ops n b) c [] v = (c, Some ErrKeyEmpty)"
  "db_Delete (comp_view ops n b) c [] = (c, Some ErrKeyEmpty)"
  by (simp_all add: comp_view_def prefixed_ops_def rp_Get_def rp_Has_def wp_Set_def wp_Delete_def
      prefixed_def region_def)

section \<open>One named store behaves as a map\<close>

definition db_keeps :: "('c, 'v) db_ops \<Rightarrow> ('c \<Rightarrow> bool) \<Rightarrow> bool" where
  "db_keeps ops J \<longleftrightarrow> (\<forall>c k v. J c \<longrightarrow> J (fst (db_Set ops c k v)) \<and> J (fst (db_Delete ops c k)))"

locale comp_store = db_rw ops abs opn + smt M
  for ops :: "('c, 'v) db_ops" and abs :: "'c \<Rightarrow> bytes \<rightharpoonup> 'v" and opn :: "'c \<Rightarrow> bool"
    and M :: "('c, 'v, 'p) smt_ops"
begin

text \<open>The invariant under which the tree of the store \<open>n\<close> works from the state \<open>c0\<close>.\<close>

definition tree_inv :: "string \<Rightarrow> 'c \<Rightarrow> 'c \<Rightarrow> bool" where
  "tree_inv n c0 c \<longleftrightarrow> opn c \<and> (\<forall>key. outside n key \<longrightarrow> abs c key = abs c0 key)"

lemma tree_inv_stores:
  shows "ms_keeps (stateProofDB (comp_view ops n merkleNodePrefix)) {} (tree_inv n c0)"
    and "ms_keeps (stateProofDB (comp_view ops n merkleValuePrefix)) {rootKey} (tree_inv n c0)"
    and "ms_sound (stateProofDB (comp_view ops n b)) (tree_inv n c0)"
proof -
  show "ms_keeps (stateProofDB (comp_view ops n merkleNodePrefix)) {} (tree_inv n c0)"
    unfolding ms_keeps_def
  proof (intro allI impI)
    fix c k v assume "tree_inv n c0 c"
    then show "tree_inv n c0 (fst (ms_Set (stateProofDB (comp_view ops n merkleNodePrefix)) c k v)) \<and>
        tree_inv n c0 (fst (ms_Delete (stateProofDB (comp_view ops n merkleNodePrefix)) c k))"
      by (cases "k = []")
        (auto simp: stateProofDB_def comp_view_simps tree_inv_def Set_open Set_abs Delete_open
          Delete_abs outside_def)
  qed
  show "ms_keeps (stateProofDB (comp_view ops n merkleValuePrefix)) {rootKey} (tree_inv n c0)"
    unfolding ms_keeps_def
  proof (intro allI impI)
    fix c k v assume "tree_inv n c0 c" "k \<notin> {rootKey}"
    then show "tree_inv n c0 (fst (ms_Set (stateProofDB (comp_view ops n merkleValuePrefix)) c k v)) \<and>
        tree_inv n c0 (fst (ms_Delete (stateProofDB (comp_view ops n merkleValuePrefix)) c k))"
      by (cases "k = []")
        (auto simp: stateProofDB_def comp_view_simps tree_inv_def Set_open Set_abs Delete_open
          Delete_abs outside_def)
  qed
  show "ms_sound (stateProofDB (comp_view ops n b)) (tree_inv n c0)"
    by (auto simp: ms_sound_def stateProofDB_def comp_view_simps tree_inv_def Get Set_err Delete_err)
qed

lemma tree_inv_refl: "opn c \<Longrightarrow> tree_inv n c c"
  by (simp add: tree_inv_def)

lemma smt_Update_frame:
  fixes n
  defines "N \<equiv> stateProofDB (comp_view ops n merkleNodePrefix)"
    and "V \<equiv> stateProofDB (comp_view ops n merkleValuePrefix)"
  assumes "opn c"
  shows "tree_inv n c (fst (smt_Update M N V c r k v))" "\<exists>r'. snd (smt_Update M N V c r k v) = Inr r'"
    "tree_inv n c (fst (smt_Delete M N V c r k))" "\<exists>r'. snd (smt_Delete M N V c r k) = Inr r'"
proof -
  note inv = tree_inv_refl [OF assms(3), of n]
  show "tree_inv n c (fst (smt_Update M N V c r k v))" "\<exists>r'. snd (smt_Update M N V c r k v) = Inr r'"
    "tree_inv n c (fst (smt_Delete M N V c r k))" "\<exists>r'. snd (smt_Delete M N V c r k) = Inr r'"
    unfolding N_def V_def
    by (rule Update_keeps [OF tree_inv_stores(1,2) inv] Update_ok [OF tree_inv_stores(1,2,3,3) inv]
        Delete_keeps [OF tree_inv_stores(1,2) inv] Delete_ok [OF tree_inv_stores(1,2,3,3) inv])+
qed

lemma comp_stores_rw: "\<not> cp_ro cp \<Longrightarrow> comp_stores ops cp =
    (stateProofDB (comp_view ops (cp_name cp) merkleNodePrefix),
     stateProofDB (comp_view ops (cp_name cp) merkleValuePrefix))"
  by (simp add: comp_stores_def)

text \<open>
  \<open>Put\<close> and \<open>Delete\<close> change, outside the regions of the store's tree, the one key
  of the data region.
\<close>

lemma comp_Put:
  assumes "opn c" "\<not> cp_ro cp" "k \<noteq> []" "comp_Put M ops (c, cp) k (Some v) = ((c', cp'), err)"
  shows "err = None" "opn c'" "\<exists>r. cp' = cp\<lparr>cp_root := r\<rparr>"
    "\<forall>key. outside (cp_name cp) key \<longrightarrow>
       abs c' key = (if key = region (cp_name cp) stateDataPrefix k then Some v else abs c key)"
proof -
  let ?n = "cp_name cp"
  let ?c1 = "fst (db_Set ops c (region ?n stateDataPrefix k) (Some v))"
  have c1: "sd_Set False (comp_dataS ops cp) c k (Some v) = (?c1, None)" "opn ?c1"
    "abs ?c1 = (abs c)(region ?n stateDataPrefix k \<mapsto> v)"
    using assms(1,3) by (auto simp: sd_Set_def comp_dataS_def comp_view_simps Set_err Set_open Set_abs
        intro: prod_eqI)
  note up = smt_Update_frame(1,2) [OF c1(2), of ?n "cp_root cp" k "Some v"]
  then obtain r' where "snd (smt_Update M (stateProofDB (comp_view ops ?n merkleNodePrefix))
      (stateProofDB (comp_view ops ?n merkleValuePrefix)) ?c1 (cp_root cp) k (Some v)) = Inr r'" by blast
  then show "err = None" "opn c'" "\<exists>r. cp' = cp\<lparr>cp_root := r\<rparr>"
    "\<forall>key. outside ?n key \<longrightarrow>
       abs c' key = (if key = region ?n stateDataPrefix k then Some v else abs c key)"
    using assms(2,4) up(1) c1
    by (auto simp: comp_Put_def comp_stores_rw sp_result_def multi_def opt_list_def tree_inv_def
        split: prod.splits sum.splits)
qed

lemma comp_Delete:
  assumes "opn c" "\<not> cp_ro cp" "k \<noteq> []" "comp_Delete M ops (c, cp) k = ((c', cp'), err)"
  shows "err = None" "opn c'" "\<exists>r. cp' = cp\<lparr>cp_root := r\<rparr>"
    "\<forall>key. outside (cp_name cp) key \<longrightarrow>
       abs c' key = (if key = region (cp_name cp) stateDataPrefix k then None else abs c key)"
proof -
  let ?n = "cp_name cp"
  let ?c1 = "fst (db_Delete ops c (region ?n stateDataPrefix k))"
  have c1: "sd_Delete False (comp_dataS ops cp) c k = (?c1, None)" "opn ?c1"
    "abs ?c1 = (abs c)(region ?n stateDataPrefix k := None)"
    using assms(1,3) by (auto simp: sd_Delete_def comp_dataS_def comp_view_simps Delete_err Delete_open
        Delete_abs intro: prod_eqI)
  note up = smt_Update_frame(3,4) [OF c1(2), of ?n "cp_root cp" k]
  then obtain r' where "snd (smt_Delete M (stateProofDB (comp_view ops ?n merkleNodePrefix))
      (stateProofDB (comp_view ops ?n merkleValuePrefix)) ?c1 (cp_root cp) k) = Inr r'" by blast
  then show "err = None" "opn c'" "\<exists>r. cp' = cp\<lparr>cp_root := r\<rparr>"
    "\<forall>key. outside ?n key \<longrightarrow>
       abs c' key = (if key = region ?n stateDataPrefix k then None else abs c key)"
    using assms(2,4) up(1) c1
    by (auto simp: comp_Delete_def comp_stores_rw sp_result_def multi_def opt_list_def tree_inv_def
        split: prod.splits sum.splits)
qed

text \<open>What every write of the database keeps, the operations of a store keep.\<close>

lemma comp_view_keeps:
  assumes "db_keeps ops J"
  shows "ms_keeps (stateProofDB (comp_view ops n b)) K J"
proof -
  have "J (fst (ms_Set (stateProofDB (comp_view ops n b)) c k v)) \<and>
      J (fst (ms_Delete (stateProofDB (comp_view ops n b)) c k))" if "J c" for c k v
    using assms that by (cases "k = []") (auto simp: stateProofDB_def comp_view_simps db_keeps_def)
  then show ?thesis by (simp add: ms_keeps_def)
qed

lemma comp_Put_keeps:
  assumes "db_keeps ops J" "J c" "\<not> cp_ro cp"
  shows "J (fst (fst (comp_Put M ops (c, cp) k v)))"
proof -
  have "J (fst (sd_Set False (comp_dataS ops cp) c k v))"
    using assms(1,2) by (cases "k = []") (auto simp: sd_Set_def comp_dataS_def comp_view_simps db_keeps_def)
  from Update_keeps [OF comp_view_keeps [OF assms(1)] comp_view_keeps [OF assms(1)] this] assms(3)
  show ?thesis by (auto simp: comp_Put_def comp_stores_rw split: prod.splits) (metis fst_conv)
qed

lemma comp_Delete_keeps:
  assumes "db_keeps ops J" "J c" "\<not> cp_ro cp"
  shows "J (fst (fst (comp_Delete M ops (c, cp) k)))"
proof -
  have "J (fst (sd_Delete False (comp_dataS ops cp) c k))"
    using assms(1,2) by (cases "k = []") (auto simp: sd_Delete_def comp_dataS_def comp_view_simps db_keeps_def)
  from Delete_keeps [OF comp_view_keeps [OF assms(1)] comp_view_keeps [OF assms(1)] this] assms(3)
  show ?thesis by (auto simp: comp_Delete_def comp_stores_rw split: prod.splits) (metis fst_conv)
qed

lemma newStateProof_fill_keeps:
  assumes "db_keeps ops J"
  shows "J c \<Longrightarrow> newStateProof_fill M (stateProofDB (comp_view ops n b)) (stateProofDB (comp_view ops n b')) items c r
    = Inr (c', r') \<Longrightarrow> J c'"
proof (induction items arbitrary: c r)
  case (Cons kv items)
  obtain k v where kv: "kv = (k, v)" by force
  from Update_keeps [OF comp_view_keeps [OF assms] comp_view_keeps [OF assms] Cons.prems(1)]
  show ?case using Cons.IH Cons.prems(2) by (auto simp: kv split: prod.splits sum.splits) (metis fst_conv)
qed simp

lemma newStateStoreComposition_keeps:
  assumes "db_keeps ops J" "J c" "newStateStoreComposition M ops c n cacheSize = Inr (c', cp)"
  shows "J c'"
proof -
  have set: "J d \<Longrightarrow> J (fst (db_Set (comp_view ops n merkleValuePrefix) d rootKey v))" for d v
    using assms(1) by (auto simp: comp_view_simps db_keeps_def)
  show ?thesis
    using assms(3) newStateProof_fill_keeps [OF assms(1,2)] set assms(2)
    by (fastforce simp: newStateStoreComposition_def newStateProof_def split: option.splits sum.splits prod.splits)
qed

lemma comp_view_Iterator:
  assumes "name_ok n" "opn c"
  shows "\<exists>xs. db_Iterator (comp_view ops n b) c None None = Inr xs \<and> sorted_keys xs \<and>
    (\<forall>k v. (k, v) \<in> set xs \<longleftrightarrow> k \<noteq> [] \<and> abs c (region n b k) = Some v)"
proof -
  have "db_rw_prefixed ops abs opn (str_bytes n)"
    using assms(1) by unfold_locales (auto simp: name_ok_def)
  then have rw: "db_rw (prefixed_ops (str_bytes n) ops) (prefixed_abs (str_bytes n) abs) opn"
    by (rule db_rw_prefixed.view_contract)
  show ?thesis
    using db_rw.rp_Iterator [OF rw _ assms(2), of "[b]" None None]
    by (auto simp: comp_view_def prefixed_ops_def prefixed_abs_def region_def)
qed

lemma newStateProof_fill_ok:
  "tree_inv n c0 c \<Longrightarrow>
   \<exists>c' r'. newStateProof_fill M (stateProofDB (comp_view ops n merkleNodePrefix))
     (stateProofDB (comp_view ops n merkleValuePrefix)) items c r = Inr (c', r') \<and> tree_inv n c0 c'"
proof (induction items arbitrary: c r)
  case (Cons kv items)
  obtain k v where kv: "kv = (k, v)" by force
  let ?u = "smt_Update M (stateProofDB (comp_view ops n merkleNodePrefix))
     (stateProofDB (comp_view ops n merkleValuePrefix)) c r k (Some v)"
  obtain c1 r' where u: "?u = (c1, Inr r')"
    using Update_ok [OF tree_inv_stores(1,2,3,3) Cons.prems] by (metis prod.collapse)
  have "tree_inv n c0 c1"
    using Update_keeps [OF tree_inv_stores(1,2) Cons.prems] u by (metis fst_conv)
  from Cons.IH [OF this, of r'] show ?case by (simp add: kv u)
qed simp

text \<open>
  Opening a store writes the root key at most: the root in memory is what the
  values region holds under it, or that of the empty tree when the region is
  empty.
\<close>

lemma newStateStoreComposition_ok:
  assumes "name_ok n" "opn c" "cacheSize > 0"
  obtains c' root where
    "newStateStoreComposition M ops c n cacheSize = Inr (c', \<lparr>cp_name = n, cp_ro = False, cp_root = root\<rparr>)"
    "opn c'"
    "\<forall>key. outside n key \<longrightarrow> abs c' key =
       (if key = region n merkleValuePrefix rootKey then Some root else abs c key)"
    "\<forall>r. abs c (region n merkleValuePrefix rootKey) = Some r \<longrightarrow> root = r"
    "(\<forall>k. abs c (region n merkleValuePrefix k) = None) \<longrightarrow> root = smt_newRoot M"
proof -
  let ?N = "comp_view ops n merkleNodePrefix" and ?V = "comp_view ops n merkleValuePrefix"
  obtain c1 root where c1: "tree_inv n c c1"
    "newStateProof M ?N ?V c = Inr (fst (db_Set ops c1 (region n merkleValuePrefix rootKey) (Some root)), root)"
    "\<forall>r. abs c (region n merkleValuePrefix rootKey) = Some r \<longrightarrow> root = r"
    "(\<forall>k. abs c (region n merkleValuePrefix k) = None) \<longrightarrow> root = smt_newRoot M"
  proof (cases "abs c (region n merkleValuePrefix rootKey)")
    case (Some r)
    show thesis
    proof (rule that)
      show "tree_inv n c c" by (rule tree_inv_refl [OF assms(2)])
      show "newStateProof M ?N ?V c = Inr (fst (db_Set ops c (region n merkleValuePrefix rootKey) (Some r)), r)"
        using Some assms(2) by (simp add: newStateProof_def comp_view_simps Get)
    qed (use Some in auto)
  next
    case None
    obtain items where items: "db_Iterator ?V c None None = Inr items"
      "\<forall>k v. (k, v) \<in> set items \<longleftrightarrow> k \<noteq> [] \<and> abs c (region n merkleValuePrefix k) = Some v"
      using comp_view_Iterator [OF assms(1,2)] by blast
    obtain c' r' where fill: "newStateProof_fill M (stateProofDB ?N) (stateProofDB ?V) items c (smt_newRoot M) = Inr (c', r')"
      "tree_inv n c c'"
      using newStateProof_fill_ok [OF tree_inv_refl [OF assms(2)]] by blast
    have "r' = smt_newRoot M" if "\<forall>k. abs c (region n merkleValuePrefix k) = None"
    proof -
      have "items = []" using items(2) that by (cases items) auto
      then show ?thesis using fill(1) by simp
    qed
    moreover have "newStateProof M ?N ?V c = Inr (fst (db_Set ops c' (region n merkleValuePrefix rootKey) (Some r')), r')"
      using None assms(2) items(1) fill(1) by (simp add: newStateProof_def comp_view_simps Get)
    ultimately show thesis using that [OF fill(2)] None by simp
  qed
  show thesis
  proof (rule that [OF _ _ _ c1(3,4)])
    show "newStateStoreComposition M ops c n cacheSize =
        Inr (fst (db_Set ops c1 (region n merkleValuePrefix rootKey) (Some root)),
          \<lparr>cp_name = n, cp_ro = False, cp_root = root\<rparr>)"
      using c1(2) assms(3) by (simp add: newStateStoreComposition_def newStateData_def)
  qed (use c1(1) in \<open>auto simp: tree_inv_def Set_open Set_abs\<close>)
qed

end

section \<open>The interface of the state layers\<close>

record ('s, 'v) ss_ops =
  SS_Put :: "'s \<Rightarrow> string \<Rightarrow> bytes \<Rightarrow> 'v option \<Rightarrow> 's \<times> error option"
  SS_Delete :: "'s \<Rightarrow> string \<Rightarrow> bytes \<Rightarrow> 's \<times> error option"
  SS_Update :: "'s \<Rightarrow> string \<Rightarrow> bytes \<Rightarrow> 'v option \<Rightarrow> 's \<times> error option"
  SS_Exists :: "'s \<Rightarrow> string \<Rightarrow> bytes \<Rightarrow> error + bool"
  SS_GetStateData :: "'s \<Rightarrow> string \<Rightarrow> bytes \<Rightarrow> error + 'v option"
  SS_GetState :: "'s \<Rightarrow> string \<Rightarrow> bytes \<Rightarrow> 'v option \<times> 'v option \<times> error option"
  SS_GetAllStateData :: "'s \<Rightarrow> string \<Rightarrow> error + (bytes list \<times> 'v list)"
  SS_IterateAllStateDataCB :: "'s \<Rightarrow> string \<Rightarrow> error + (bytes \<times> 'v) list"
  SS_Root :: "'s \<Rightarrow> string \<Rightarrow> error + 'v"

text \<open>
  \<open>IterateAllStateDataCB\<close> is seen through the sequence of calls that it makes to its
  callback. The contract: an open store is one map \<open>data s n\<close> for each name \<open>n\<close> that was
  added; a write changes one key of one map and nothing else, no operation closes
  or adds a store, and reads return what the map holds.
\<close>

locale state_store =
  fixes S :: "('s, 'v) ss_ops"
    and data :: "'s \<Rightarrow> string \<Rightarrow> bytes \<rightharpoonup> 'v"
    and ok :: "'s \<Rightarrow> string \<Rightarrow> bool"
  assumes Put_err: "ok s n \<Longrightarrow> k \<noteq> [] \<Longrightarrow> snd (SS_Put S s n k (Some v)) = None"
    and Put_ok: "ok s n \<Longrightarrow> k \<noteq> [] \<Longrightarrow> ok (fst (SS_Put S s n k (Some v))) n' \<longleftrightarrow> ok s n'"
    and Put_data: "ok s n \<Longrightarrow> k \<noteq> [] \<Longrightarrow> ok s n' \<Longrightarrow>
      data (fst (SS_Put S s n k (Some v))) n' = (if n' = n then (data s n)(k \<mapsto> v) else data s n')"
    and Update_Put: "ok s n \<Longrightarrow> SS_Update S s n k val = SS_Put S s n k val"
    and Delete_err: "ok s n \<Longrightarrow> k \<noteq> [] \<Longrightarrow> snd (SS_Delete S s n k) = None"
    and Delete_ok: "ok s n \<Longrightarrow> k \<noteq> [] \<Longrightarrow> ok (fst (SS_Delete S s n k)) n' \<longleftrightarrow> ok s n'"
    and Delete_data: "ok s n \<Longrightarrow> k \<noteq> [] \<Longrightarrow> ok s n' \<Longrightarrow>
      data (fst (SS_Delete S s n k)) n' = (if n' = n then (data s n)(k := None) else data s n')"
    and Exists: "ok s n \<Longrightarrow> k \<noteq> [] \<Longrightarrow> SS_Exists S s n k = Inr (data s n k \<noteq> None)"
    and GetStateData: "ok s n \<Longrightarrow> k \<noteq> [] \<Longrightarrow> SS_GetStateData S s n k = Inr (data s n k)"
    and GetState: "ok s n \<Longrightarrow> k \<noteq> [] \<Longrightarrow> \<exists>p. SS_GetState S s n k = (data s n k, Some p, None)"
    and GetAllStateData: "ok s n \<Longrightarrow> \<exists>xs. SS_GetAllStateData S s n = Inr (map fst xs, map snd xs) \<and>
      sorted_keys xs \<and> (\<forall>k v. (k, v) \<in> set xs \<longleftrightarrow> data s n k = Some v)"
    and IterateAllStateDataCB: "ok s n \<Longrightarrow> \<exists>xs. SS_IterateAllStateDataCB S s n = Inr xs \<and>
      sorted_keys xs \<and> (\<forall>k v. (k, v) \<in> set xs \<longleftrightarrow> data s n k = Some v)"
    and Root: "ok s n \<Longrightarrow> \<exists>r. SS_Root S s n = Inr r"
begin

lemma Update_err: "ok s n \<Longrightarrow> k \<noteq> [] \<Longrightarrow> snd (SS_Update S s n k (Some v)) = None"
  and Update_ok: "ok s n \<Longrightarrow> k \<noteq> [] \<Longrightarrow> ok (fst (SS_Update S s n k (Some v))) n' \<longleftrightarrow> ok s n'"
  and Update_data: "ok s n \<Longrightarrow> k \<noteq> [] \<Longrightarrow> ok s n' \<Longrightarrow>
      data (fst (SS_Update S s n k (Some v))) n' = (if n' = n then (data s n)(k \<mapsto> v) else data s n')"
  by (simp_all add: Update_Put Put_err Put_ok Put_data)

lemma Put_eq: "ok s n \<Longrightarrow> k \<noteq> [] \<Longrightarrow> SS_Put S s n k (Some v) = (fst (SS_Put S s n k (Some v)), None)"
  by (simp add: Put_err prod_eq_iff)

end

text \<open>Sequences of writes, and the maps that they should leave.\<close>

datatype 'v store_write = WPut string bytes 'v | WUpdate string bytes 'v | WDelete string bytes

fun w_name :: "'v store_write \<Rightarrow> string" where
  "w_name (WPut n k v) = n"
| "w_name (WUpdate n k v) = n"
| "w_name (WDelete n k) = n"

fun w_key :: "'v store_write \<Rightarrow> bytes" where
  "w_key (WPut n k v) = k"
| "w_key (WUpdate n k v) = k"
| "w_key (WDelete n k) = k"

fun w_val :: "'v store_write \<Rightarrow> 'v option" where
  "w_val (WPut n k v) = Some v"
| "w_val (WUpdate n k v) = Some v"
| "w_val (WDelete n k) = None"

fun do_write :: "('s, 'v) ss_ops \<Rightarrow> 's \<Rightarrow> 'v store_write \<Rightarrow> 's \<times> error option" where
  "do_write S s (WPut n k v) = SS_Put S s n k (Some v)"
| "do_write S s (WUpdate n k v) = SS_Update S s n k (Some v)"
| "do_write S s (WDelete n k) = SS_Delete S s n k"

fun do_writes :: "('s, 'v) ss_ops \<Rightarrow> 's \<Rightarrow> 'v store_write list \<Rightarrow> 's \<times> error list" where
  "do_writes S s [] = (s, [])"
| "do_writes S s (w # ws) = (case do_write S s w of (s1, err) \<Rightarrow>
     (case do_writes S s1 ws of (s2, errs) \<Rightarrow> (s2, opt_list err @ errs)))"

fun ref_writes :: "(string \<Rightarrow> bytes \<rightharpoonup> 'v) \<Rightarrow> 'v store_write list \<Rightarrow> string \<Rightarrow> bytes \<rightharpoonup> 'v" where
  "ref_writes f [] = f"
| "ref_writes f (w # ws) = ref_writes (f(w_name w := (f (w_name w))(w_key w := w_val w))) ws"

context state_store
begin

lemma do_write:
  assumes "ok s (w_name w)" "w_key w \<noteq> []" "do_write S s w = (s', err)"
  shows "err = None" "ok s' n \<longleftrightarrow> ok s n"
    "ok s n \<Longrightarrow> data s' n = ((data s)(w_name w := (data s (w_name w))(w_key w := w_val w))) n"
proof -
  have s': "s' = fst (do_write S s w)" "err = snd (do_write S s w)" using assms(3) by simp_all
  show "err = None" "ok s' n \<longleftrightarrow> ok s n"
    "ok s n \<Longrightarrow> data s' n = ((data s)(w_name w := (data s (w_name w))(w_key w := w_val w))) n"
    unfolding s' using assms(1,2)
    by (cases w; simp add: Put_err Put_ok Put_data Update_err Update_ok Update_data Delete_err
        Delete_ok Delete_data)+
qed

lemma do_writes:
  "\<forall>w \<in> set ws. ok s (w_name w) \<and> w_key w \<noteq> [] \<Longrightarrow> do_writes S s ws = (s', errs) \<Longrightarrow>
   \<forall>n. ok s n \<longrightarrow> f n = data s n \<Longrightarrow>
   errs = [] \<and> (\<forall>n. ok s' n \<longleftrightarrow> ok s n) \<and> (\<forall>n. ok s n \<longrightarrow> data s' n = ref_writes f ws n)"
proof (induction ws arbitrary: s f errs)
  case (Cons w ws)
  obtain s1 err where w: "do_write S s w = (s1, err)" by force
  obtain errs' where ws: "do_writes S s1 ws = (s', errs')" "errs = opt_list err @ errs'"
    using Cons.prems(2) w by (auto split: prod.splits)
  have ok: "ok s (w_name w)" "w_key w \<noteq> []" using Cons.prems(1) by auto
  note step = do_write [OF ok w]
  have "errs' = [] \<and> (\<forall>n. ok s' n \<longleftrightarrow> ok s1 n) \<and>
      (\<forall>n. ok s1 n \<longrightarrow> data s' n = ref_writes (f(w_name w := (f (w_name w))(w_key w := w_val w))) ws n)"
    by (rule Cons.IH) (use Cons.prems ws(1) step ok in auto)
  then show ?case using step ws(2) by (auto simp: opt_list_def)
qed auto

end

definition ledger_ops ::
  "('t, 'v) btree_ops \<Rightarrow> ('t, 'v, 'p) memdb_smt \<Rightarrow> (('t, 'v) stateStore, 'v) ss_ops" where
  "ledger_ops B M = \<lparr>SS_Put = ss_Put B M, SS_Delete = ss_Delete B M, SS_Update = ss_Update B M,
     SS_Exists = ss_Exists B, SS_GetStateData = ss_GetStateData B,
     SS_GetState = ss_GetState B M,
     SS_GetAllStateData = ss_GetAllStateData B,
     SS_IterateAllStateDataCB = (\<lambda>s name. ss_IterateAllStateDataCB B s name (\<lambda>xs k v. xs @ [(k, v)]) []),
     SS_Root = ss_Root\<rparr>"

definition ledger_data :: "('t, 'v) btree_ops \<Rightarrow> ('t, 'v) stateStore \<Rightarrow> string \<Rightarrow> bytes \<rightharpoonup> 'v" where
  "ledger_data B s name k = (if k = [] then None else memdb_abs B (st_conn s) (region name stateDataPrefix k))"

definition store_open :: "('t, 'v) btree_ops \<Rightarrow> ('t, 'v) stateStore \<Rightarrow> bool" where
  "store_open B s \<longleftrightarrow> memdb_opn B (st_conn s) \<and> \<not> st_ro s \<and>
     (\<forall>n cp. st_storeMap s n = Some cp \<longrightarrow> cp_name cp = n \<and> \<not> cp_ro cp \<and> name_ok n)"

definition ledger_ok :: "('t, 'v) btree_ops \<Rightarrow> ('t, 'v) stateStore \<Rightarrow> string \<Rightarrow> bool" where
  "ledger_ok B s name \<longleftrightarrow> store_open B s \<and> st_storeMap s name \<noteq> None"

lemma ledger_okE:
  assumes "ledger_ok B s n"
  obtains cp where "st_storeMap s n = Some cp" "cp_name cp = n" "\<not> cp_ro cp" "name_ok n"
    "memdb_opn B (st_conn s)" "\<not> st_ro s"
  using assms by (auto simp: ledger_ok_def store_open_def)

lemma st_conn_put_comp [simp]: "st_conn (st_put_comp s n st) = fst st"
  by (simp add: st_conn_def st_put_comp_def)

lemma st_put_comp_simps [simp]:
  "st_ro (st_put_comp s n st) = st_ro s"
  "st_storeMap (st_put_comp s n st) = (st_storeMap s)(n \<mapsto> snd st)"
  by (simp_all add: st_put_comp_def)

lemma ledger_ok_put_comp:
  assumes "ledger_ok B s n" "st_storeMap s n = Some cp" "memdb_opn B c'"
  shows "ledger_ok B (st_put_comp s n (c', cp\<lparr>cp_root := r\<rparr>)) n' \<longleftrightarrow> ledger_ok B s n'"
  using assms by (auto simp: ledger_ok_def store_open_def)

locale ledger_libs = btree B + smt M
  for B :: "('t, 'v) btree_ops" and M :: "('t, 'v, 'p) memdb_smt"

sublocale ledger_libs \<subseteq> cs: comp_store "memdb_ops B" "memdb_abs B" "memdb_opn B" M
  by unfold_locales

context ledger_libs
begin

lemma ss_Put_open:
  assumes "ledger_ok B s n" "k \<noteq> []" "ss_Put B M s n k (Some v) = (s', err)"
  shows "err = None" "ledger_ok B s' n' \<longleftrightarrow> ledger_ok B s n'"
    "ledger_ok B s n' \<Longrightarrow> ledger_data B s' n' =
       (if n' = n then (ledger_data B s n)(k \<mapsto> v) else ledger_data B s n')"
proof -
  obtain cp where cp: "st_storeMap s n = Some cp" "cp_name cp = n" "\<not> cp_ro cp" "name_ok n"
    "memdb_opn B (st_conn s)" "\<not> st_ro s"
    using assms(1) by (rule ledger_okE)
  obtain c' cp' err' where pt: "comp_Put M (memdb_ops B) (st_conn s, cp) k (Some v) = ((c', cp'), err')"
    by (metis surj_pair)
  note spec = cs.comp_Put [OF cp(5,3) assms(2) pt]
  obtain r where r: "cp' = cp\<lparr>cp_root := r\<rparr>" using spec(3) by blast
  have s': "s' = st_put_comp s n (c', cp')" "err = err'"
    using assms(3) cp pt by (simp_all add: ss_Put_def ss_write_def)
  show "err = None" using spec(1) s'(2) by simp
  show "ledger_ok B s' n' \<longleftrightarrow> ledger_ok B s n'"
    unfolding s'(1) r by (rule ledger_ok_put_comp [OF assms(1) cp(1) spec(2)])
  assume n': "ledger_ok B s n'"
  then have "name_ok n'" by (rule ledger_okE)
  then show "ledger_data B s' n' = (if n' = n then (ledger_data B s n)(k \<mapsto> v) else ledger_data B s n')"
    using spec(4) cp(2,4) assms(2)
    by (auto simp: ledger_data_def s'(1) fun_eq_iff outside_data region_inj)
qed

lemma ss_Delete_open:
  assumes "ledger_ok B s n" "k \<noteq> []" "ss_Delete B M s n k = (s', err)"
  shows "err = None" "ledger_ok B s' n' \<longleftrightarrow> ledger_ok B s n'"
    "ledger_ok B s n' \<Longrightarrow> ledger_data B s' n' =
       (if n' = n then (ledger_data B s n)(k := None) else ledger_data B s n')"
proof -
  obtain cp where cp: "st_storeMap s n = Some cp" "cp_name cp = n" "\<not> cp_ro cp" "name_ok n"
    "memdb_opn B (st_conn s)" "\<not> st_ro s"
    using assms(1) by (rule ledger_okE)
  obtain c' cp' err' where pt: "comp_Delete M (memdb_ops B) (st_conn s, cp) k = ((c', cp'), err')"
    by (metis surj_pair)
  note spec = cs.comp_Delete [OF cp(5,3) assms(2) pt]
  obtain r where r: "cp' = cp\<lparr>cp_root := r\<rparr>" using spec(3) by blast
  have s': "s' = st_put_comp s n (c', cp')" "err = err'"
    using assms(3) cp pt by (simp_all add: ss_Delete_def ss_write_def)
  show "err = None" using spec(1) s'(2) by simp
  show "ledger_ok B s' n' \<longleftrightarrow> ledger_ok B s n'"
    unfolding s'(1) r by (rule ledger_ok_put_comp [OF assms(1) cp(1) spec(2)])
  assume n': "ledger_ok B s n'"
  then have "name_ok n'" by (rule ledger_okE)
  then show "ledger_data B s' n' = (if n' = n then (ledger_data B s n)(k := None) else ledger_data B s n')"
    using spec(4) cp(2,4) assms(2)
    by (auto simp: ledger_data_def s'(1) fun_eq_iff outside_data region_inj)
qed

text \<open>
  The writes of a store leave the database itself and every root key alone.
\<close>

lemma memdb_keeps: "db_keeps (memdb_ops B) (\<lambda>c. fst c = m)"
  by (auto simp: db_keeps_def memdb_ops_def split: prod.splits)

lemma ss_write_frame:
  assumes "ledger_ok B s n" "k \<noteq> []"
  shows "st_db (fst (ss_Put B M s n k (Some v))) = st_db s"
    "st_db (fst (ss_Delete B M s n k)) = st_db s"
    "ledger_ok B s n' \<Longrightarrow> memdb_abs B (st_conn (fst (ss_Put B M s n k (Some v)))) (region n' merkleValuePrefix rootKey)
       = memdb_abs B (st_conn s) (region n' merkleValuePrefix rootKey)"
    "ledger_ok B s n' \<Longrightarrow> memdb_abs B (st_conn (fst (ss_Delete B M s n k))) (region n' merkleValuePrefix rootKey)
       = memdb_abs B (st_conn s) (region n' merkleValuePrefix rootKey)"
proof -
  obtain cp where cp: "st_storeMap s n = Some cp" "cp_name cp = n" "\<not> cp_ro cp" "name_ok n"
    "memdb_opn B (st_conn s)" "\<not> st_ro s"
    using assms(1) by (rule ledger_okE)
  obtain c1 cp1 e1 where p: "comp_Put M (memdb_ops B) (st_conn s, cp) k (Some v) = ((c1, cp1), e1)"
    by (metis surj_pair)
  obtain c2 cp2 e2 where d: "comp_Delete M (memdb_ops B) (st_conn s, cp) k = ((c2, cp2), e2)"
    by (metis surj_pair)
  note ps = cs.comp_Put [OF cp(5,3) assms(2) p] and ds = cs.comp_Delete [OF cp(5,3) assms(2) d]
  have sp: "fst (ss_Put B M s n k (Some v)) = st_put_comp s n (c1, cp1)"
    "fst (ss_Delete B M s n k) = st_put_comp s n (c2, cp2)"
    using cp p d by (simp_all add: ss_Put_def ss_Delete_def ss_write_def)
  have "fst c1 = st_db s" "fst c2 = st_db s"
    using cs.comp_Put_keeps [OF memdb_keeps _ cp(3), of "st_conn s" "st_db s" k "Some v"] p
      cs.comp_Delete_keeps [OF memdb_keeps _ cp(3), of "st_conn s" "st_db s" k] d
    by (simp_all add: st_conn_def)
  then show "st_db (fst (ss_Put B M s n k (Some v))) = st_db s"
    "st_db (fst (ss_Delete B M s n k)) = st_db s"
    by (simp_all add: sp st_put_comp_def)
  assume "ledger_ok B s n'"
  then have "name_ok n'" by (rule ledger_okE)
  then show "memdb_abs B (st_conn (fst (ss_Put B M s n k (Some v)))) (region n' merkleValuePrefix rootKey)
       = memdb_abs B (st_conn s) (region n' merkleValuePrefix rootKey)"
    "memdb_abs B (st_conn (fst (ss_Delete B M s n k))) (region n' merkleValuePrefix rootKey)
       = memdb_abs B (st_conn s) (region n' merkleValuePrefix rootKey)"
    using ps(4) ds(4) cp(2,4) by (simp_all add: sp outside_root region_inj)
qed

lemma ss_Update_open: "ledger_ok B s n \<Longrightarrow> ss_Update B M s n k v = ss_Put B M s n k v"
  by (auto simp: ss_Update_def ss_Put_def ss_write_def comp_Update_def elim!: ledger_okE)

lemma ss_reads_open:
  assumes "ledger_ok B s n" "k \<noteq> []"
  shows "ss_Exists B s n k = Inr (ledger_data B s n k \<noteq> None)"
    "ss_GetStateData B s n k = Inr (ledger_data B s n k)"
proof -
  obtain cp where cp: "st_storeMap s n = Some cp" "cp_name cp = n" "memdb_opn B (st_conn s)"
    using assms(1) by (rule ledger_okE)
  then show "ss_Exists B s n k = Inr (ledger_data B s n k \<noteq> None)"
    "ss_GetStateData B s n k = Inr (ledger_data B s n k)"
    using assms(2)
    by (auto simp: ss_Exists_def ss_GetStateData_def comp_Exists_def comp_GetStateData_def sd_Has_def
        sd_Get_def comp_dataS_def comp_view_simps memdb.Has memdb.Get ledger_data_def)
qed

lemma ss_GetState_open:
  assumes "ledger_ok B s n" "k \<noteq> []"
  shows "\<exists>p. ss_GetState B M s n k = (ledger_data B s n k, Some p, None)"
proof -
  obtain cp where cp: "st_storeMap s n = Some cp" "cp_name cp = n" "\<not> cp_ro cp" "memdb_opn B (st_conn s)"
    using assms(1) by (rule ledger_okE)
  obtain p where p: "smt_Prove M (stateProofDB (comp_view (memdb_ops B) n merkleNodePrefix))
      (stateProofDB (comp_view (memdb_ops B) n merkleValuePrefix)) (st_conn s) (cp_root cp) k = Inr p"
    using Prove_ok [OF cs.tree_inv_stores(3,3) cs.tree_inv_refl [OF cp(4)]] by blast
  obtain d where "gob_Encode M p = Inr d" using Encode_ok by blast
  then have "sp_Proof M (memdb_ops B) (st_conn s, cp) k = Inr d"
    using p cp(2,3) by (simp add: sp_Proof_def cs.comp_stores_rw encodeProof_def)
  moreover have "comp_GetStateData (memdb_ops B) (st_conn s, cp) k = Inr (ledger_data B s n k)"
    using ss_reads_open(2) [OF assms] cp(1) by (simp add: ss_GetStateData_def)
  ultimately show ?thesis using cp(1) by (simp add: ss_GetState_def comp_GetState_def multi_def)
qed

lemma ss_GetAllStateData_open:
  assumes "ledger_ok B s n"
  shows "\<exists>xs. ss_GetAllStateData B s n = Inr (map fst xs, map snd xs) \<and> sorted_keys xs \<and>
    (\<forall>k v. (k, v) \<in> set xs \<longleftrightarrow> ledger_data B s n k = Some v)"
proof -
  obtain cp where cp: "st_storeMap s n = Some cp" "cp_name cp = n" "name_ok n" "memdb_opn B (st_conn s)"
    using assms by (rule ledger_okE)
  obtain xs where "db_Iterator (comp_view (memdb_ops B) n stateDataPrefix) (st_conn s) None None = Inr xs"
    "sorted_keys xs" "\<forall>k v. (k, v) \<in> set xs \<longleftrightarrow> k \<noteq> [] \<and> memdb_abs B (st_conn s) (region n stateDataPrefix k) = Some v"
    using cs.comp_view_Iterator [OF cp(3,4)] by blast
  then show ?thesis using cp(1,2)
    by (auto simp: ss_GetAllStateData_def comp_GetAllStateData_def sd_Iterator_def comp_dataS_def
        ledger_data_def intro!: exI [of _ xs])
qed

lemma ss_IterateAllStateDataCB_open:
  assumes "ledger_ok B s n"
  shows "\<exists>xs. ss_IterateAllStateDataCB B s n (\<lambda>xs k v. xs @ [(k, v)]) [] = Inr xs \<and> sorted_keys xs \<and>
    (\<forall>k v. (k, v) \<in> set xs \<longleftrightarrow> ledger_data B s n k = Some v)"
proof -
  obtain cp where cp: "st_storeMap s n = Some cp" "cp_name cp = n" "name_ok n" "memdb_opn B (st_conn s)"
    using assms by (rule ledger_okE)
  obtain xs where "db_Iterator (comp_view (memdb_ops B) n stateDataPrefix) (st_conn s) None None = Inr xs"
    "sorted_keys xs" "\<forall>k v. (k, v) \<in> set xs \<longleftrightarrow> k \<noteq> [] \<and> memdb_abs B (st_conn s) (region n stateDataPrefix k) = Some v"
    using cs.comp_view_Iterator [OF cp(3,4)] by blast
  moreover have "foldl (\<lambda>acc (k, v). acc @ [(k, v)]) ys xs = ys @ xs" for ys :: "(bytes \<times> 'v) list" and xs
    by (induction xs arbitrary: ys) auto
  ultimately show ?thesis using cp(1,2)
    by (auto simp: ss_IterateAllStateDataCB_def comp_IterateAllStateDataCB_def sd_Iterator_def comp_dataS_def
        ledger_data_def intro!: exI [of _ xs])
qed

end

sublocale ledger_libs \<subseteq> ledger: state_store "ledger_ops B M" "ledger_data B" "ledger_ok B"
proof (unfold_locales, goal_cases)
  case (1 s n k v)
  then show ?case using ss_Put_open(1) by (simp add: ledger_ops_def) (metis prod.collapse)
next
  case (2 s n k v n')
  then show ?case using ss_Put_open(2) by (simp add: ledger_ops_def) (metis prod.collapse)
next
  case (3 s n k n' v)
  then show ?case using ss_Put_open(3) [OF 3(1,2) _ 3(3)] by (simp add: ledger_ops_def) (metis prod.collapse)
next
  case (5 s n k)
  then show ?case using ss_Delete_open(1) by (simp add: ledger_ops_def) (metis prod.collapse)
next
  case (6 s n k n')
  then show ?case using ss_Delete_open(2) by (simp add: ledger_ops_def) (metis prod.collapse)
next
  case (7 s n k n')
  then show ?case using ss_Delete_open(3) [OF 7(1,2) _ 7(3)] by (simp add: ledger_ops_def) (metis prod.collapse)
next
  case (13 s n)
  then show ?case by (auto simp: ledger_ops_def ss_Root_def elim!: ledger_okE)
qed (simp_all add: ledger_ops_def ss_Update_open ss_reads_open ss_GetState_open ss_GetAllStateData_open
    ss_IterateAllStateDataCB_open)

end
