(* ===== verification/Ledger.thy ===== *)
theory Ledger
  imports State_Store
begin

text \<open>
  The ledger (\<open>src/ledger/ledger.go\<close>) creates state stores on one database; this
  theory follows a state store through its life: opened, named stores added,
  written, committed, reopened. Its properties rest on the contract
  \<open>state_store\<close>, which \<open>ledger_libs\<close> proves of the definitions of \<open>State_Store\<close>.
\<close>

section \<open>The ledger\<close>

datatype LedgerState = LedgerState_Uninitialized | LedgerState_Genesis | LedgerState_AutoInc

record 't ledger =
  lg_id :: string
  lg_backendStateDB :: "'t memdb"
  lg_state :: LedgerState

text \<open>A ledger on the in-memory backend.\<close>

definition NewLedger :: "('t, 'v) btree_ops \<Rightarrow> string \<Rightarrow> 't ledger" where
  "NewLedger B id' = \<lparr>lg_id = id', lg_backendStateDB = NewMemDBBackend B, lg_state = LedgerState_Uninitialized\<rparr>"

definition lg_CreateStateStore :: "'t ledger \<Rightarrow> error + ('t, 'v) stateStore" where
  "lg_CreateStateStore l = NewStateStore (lg_backendStateDB l) Flag_ReadWrite"

definition lg_CreateStateStoreReadonly :: "'t ledger \<Rightarrow> error + ('t, 'v) stateStore" where
  "lg_CreateStateStoreReadonly l = NewStateStore (lg_backendStateDB l) Flag_ReadOnly"

definition lg_CreateStateStoreReadonlyAt :: "'t ledger \<Rightarrow> u64 \<Rightarrow> error + ('t, 'v) stateStore" where
  "lg_CreateStateStoreReadonlyAt l version = NewStateStoreAt (lg_backendStateDB l) Flag_ReadOnly version"

definition lg_PendingStateStore :: "'t ledger \<Rightarrow> int" where
  "lg_PendingStateStore l = mdb_PendingTxCount (lg_backendStateDB l)"

definition lg_UpdateState :: "'t ledger \<Rightarrow> LedgerState \<Rightarrow> 't ledger" where
  "lg_UpdateState l st = l\<lparr>lg_state := st\<rparr>"

section \<open>A Merkle tree for closed examples\<close>

text \<open>
  A tree that keeps its values under \<open>00 @ key\<close> in the values store and chains a
  digest \<open>h\<close> of the updates into the root: it satisfies what the code relies on.
\<close>

definition flat_smt :: "('v \<Rightarrow> bytes \<Rightarrow> 'v option \<Rightarrow> 'v) \<Rightarrow> 'v \<Rightarrow> ('c, 'v, 'v) smt_ops" where
  "flat_smt h r0 = \<lparr>
     smt_newRoot = r0,
     smt_Get = (\<lambda>N V c r k. ms_Get V c (0 # k)),
     smt_Has = (\<lambda>N V c r k. case ms_Get V c (0 # k) of Inl e \<Rightarrow> Inl e | Inr x \<Rightarrow> Inr (x \<noteq> None)),
     smt_Update = (\<lambda>N V c r k v. case (case v of None \<Rightarrow> ms_Delete V c (0 # k) | Some x \<Rightarrow> ms_Set V c (0 # k) (Some x)) of
        (c', err) \<Rightarrow> (c', case err of Some e \<Rightarrow> Inl e | None \<Rightarrow> Inr (h r k v))),
     smt_Delete = (\<lambda>N V c r k. case ms_Delete V c (0 # k) of
        (c', err) \<Rightarrow> (c', case err of Some e \<Rightarrow> Inl e | None \<Rightarrow> Inr (h r k None))),
     smt_Prove = (\<lambda>N V c r k. case ms_Get V c (0 # k) of
        Inl e \<Rightarrow> Inl e | Inr None \<Rightarrow> Inr r0 | Inr (Some x) \<Rightarrow> Inr (h x [] None)),
     smt_VerifyProof = (\<lambda>p r k v. case v of None \<Rightarrow> False | Some x \<Rightarrow> h x [] None = p),
     gob_Encode = Inr,
     gob_Decode = Inr\<rparr>"

lemma rootKey_neq_zero: "0 # k \<noteq> rootKey"
proof -
  have "hd rootKey \<noteq> 0" by code_simp
  then show ?thesis by (metis list.sel(1))
qed

lemma flat_store:
  assumes "ms_keeps V {rootKey} I" "I c"
  shows "I (fst (ms_Set V c (0 # k) v))" "I (fst (ms_Delete V c (0 # k)))"
  using assms rootKey_neq_zero [of k] by (auto simp: ms_keeps_def)

interpretation flat: smt "flat_smt h r0" for h r0
proof (unfold_locales, goal_cases)
  case (1 N I V c r k v)
  then show ?case using flat_store [OF 1(2,3)] by (cases v) (simp_all add: flat_smt_def split_beta)
next
  case (2 N I V c r k)
  then show ?case using flat_store [OF 2(2,3)] by (simp add: flat_smt_def split_beta)
next
  case (3 N I V c r k v)
  then have "snd (ms_Set V c (0 # k) (Some x)) = None" "snd (ms_Delete V c (0 # k)) = None" for x
    by (simp_all add: ms_sound_def)
  then show ?case by (cases v) (simp_all add: flat_smt_def split_beta)
next
  case (4 N I V c r k)
  then have "snd (ms_Delete V c (0 # k)) = None" by (simp add: ms_sound_def)
  then show ?case by (auto simp: flat_smt_def split: option.splits prod.splits)
next
  case (5 N I V c r k)
  then have "\<exists>x. ms_Get V c (0 # k) = Inr x" by (simp add: ms_sound_def)
  then show ?case by (auto simp: flat_smt_def split: option.splits)
qed (simp add: flat_smt_def)

interpretation demo: ledger_libs rbt_ops "flat_smt h r0" for h r0
  by unfold_locales

section \<open>Opening and adding stores\<close>

lemma NewStateStore_open:
  assumes "NewStateStore db Flag_ReadWrite = Inr s" "good_tree B (mdb_btree db)"
  shows "store_open B s" "st_storeMap s = Map.empty" "tx_btree (st_txn s) = mdb_btree db"
    "st_db s = db\<lparr>mdb_openWriters := mdb_openWriters db + 1\<rparr>"
  using assms by (auto simp: NewStateStore_def mdb_ReadWriter_def store_open_def memdb_opn_def st_conn_def
      split: option.splits)

lemma NewStateStore_fresh:
  fixes B :: "('t, 'v) btree_ops"
  assumes "btree B"
  shows "\<exists>s :: ('t, 'v) stateStore. NewStateStore (NewMemDBBackend B) Flag_ReadWrite = Inr s \<and> store_open B s"
proof -
  have "\<exists>s :: ('t, 'v) stateStore. NewStateStore (NewMemDBBackend B) Flag_ReadWrite = Inr s"
    by (simp add: NewStateStore_def mdb_ReadWriter_def NewMemDBBackend_def)
  moreover have "good_tree B (mdb_btree (NewMemDBBackend B))"
    using btree.get_new [OF assms] by (simp add: NewMemDBBackend_def good_tree_def)
  ultimately show ?thesis using NewStateStore_open(1) by blast
qed

context ledger_libs
begin

text \<open>
  Adding a named store opens it, keeps the stores that are open, and changes no
  data under any name. The root it starts with is the one under the root key.
\<close>

lemma ss_AddNamed_fresh:
  assumes "store_open B s" "name_ok n" "cacheSize > 0" "st_storeMap s n = None"
  obtains c' root where
    "ss_AddNamedStateStore B M s n cacheSize =
       (st_put_comp s n (c', \<lparr>cp_name = n, cp_ro = False, cp_root = root\<rparr>), None)"
    "memdb_opn B c'"
    "\<forall>key. outside n key \<longrightarrow> memdb_abs B c' key =
       (if key = region n merkleValuePrefix rootKey then Some root else memdb_abs B (st_conn s) key)"
    "\<forall>r. memdb_abs B (st_conn s) (region n merkleValuePrefix rootKey) = Some r \<longrightarrow> root = r"
    "(\<forall>k. memdb_abs B (st_conn s) (region n merkleValuePrefix k) = None) \<longrightarrow> root = smt_newRoot M"
proof -
  have opn: "memdb_opn B (st_conn s)" "\<not> st_ro s" using assms(1) by (auto simp: store_open_def)
  obtain c' root where c': "newStateStoreComposition M (memdb_ops B) (st_conn s) n cacheSize =
      Inr (c', \<lparr>cp_name = n, cp_ro = False, cp_root = root\<rparr>)"
    and rest: "memdb_opn B c'" "\<forall>key. outside n key \<longrightarrow> memdb_abs B c' key =
       (if key = region n merkleValuePrefix rootKey then Some root else memdb_abs B (st_conn s) key)"
    "\<forall>r. memdb_abs B (st_conn s) (region n merkleValuePrefix rootKey) = Some r \<longrightarrow> root = r"
    "(\<forall>k. memdb_abs B (st_conn s) (region n merkleValuePrefix k) = None) \<longrightarrow> root = smt_newRoot M"
    using cs.newStateStoreComposition_ok [OF assms(2) opn(1) assms(3)] by blast
  show thesis
    by (rule that [OF _ rest]) (simp add: ss_AddNamedStateStore_def assms(4) opn(2) c')
qed

lemma ss_AddNamed_open:
  assumes "store_open B s" "name_ok n" "cacheSize > 0"
    and "ss_AddNamedStateStore B M s n cacheSize = (s', err)"
  shows "err = None \<and> ledger_ok B s' n \<and> (\<forall>n'. ledger_ok B s n' \<longrightarrow> ledger_ok B s' n') \<and>
    (\<forall>n'. name_ok n' \<longrightarrow> ledger_data B s' n' = ledger_data B s n')"
proof (cases "st_storeMap s n = None")
  case False
  then have "s' = s" "err = None" using assms(4) by (auto simp: ss_AddNamedStateStore_def)
  then show ?thesis using False assms(1) by (auto simp: ledger_ok_def)
next
  case True
  obtain c' root where s': "s' = st_put_comp s n (c', \<lparr>cp_name = n, cp_ro = False, cp_root = root\<rparr>)" "err = None"
    and opn: "memdb_opn B c'"
    and abs: "\<forall>key. outside n key \<longrightarrow> memdb_abs B c' key =
       (if key = region n merkleValuePrefix rootKey then Some root else memdb_abs B (st_conn s) key)"
    using ss_AddNamed_fresh [OF assms(1-3) True] assms(4) by (metis prod.inject)
  have "ledger_data B s' n' = ledger_data B s n'" if "name_ok n'" for n'
    using that abs assms(2) by (auto simp: ledger_data_def s' fun_eq_iff outside_data region_inj)
  moreover have "store_open B s'"
    using assms(1,2) opn by (auto simp: s' store_open_def)
  ultimately show ?thesis using s' by (auto simp: ledger_ok_def)
qed

lemma ss_AddNamed_db:
  assumes "store_open B s" "name_ok n" "cacheSize > 0"
    and "ss_AddNamedStateStore B M s n cacheSize = (s', err)"
  shows "st_db s' = st_db s"
proof (cases "st_storeMap s n = None")
  case False
  then show ?thesis using assms(4) by (auto simp: ss_AddNamedStateStore_def)
next
  case True
  have "\<not> st_ro s" using assms(1) by (simp add: store_open_def)
  then show ?thesis
    using True assms(4) cs.newStateStoreComposition_keeps [OF memdb_keeps, of "st_conn s" "st_db s" n cacheSize]
    by (auto simp: ss_AddNamedStateStore_def st_conn_def st_put_comp_def split: sum.splits)
qed

lemma comp_contract: "comp_store (memdb_ops B) (memdb_abs B) (memdb_opn B) M"
  by unfold_locales

lemma ledger_contract: "state_store (ledger_ops B M) (ledger_data B) (ledger_ok B)"
  by unfold_locales

lemma do_writes_frame:
  "\<forall>w \<in> set ws. ledger_ok B s (w_name w) \<and> w_key w \<noteq> [] \<Longrightarrow>
   do_writes (ledger_ops B M) s ws = (s', errs) \<Longrightarrow>
   st_db s' = st_db s \<and> (\<forall>n. ledger_ok B s n \<longrightarrow>
     memdb_abs B (st_conn s') (region n merkleValuePrefix rootKey) =
     memdb_abs B (st_conn s) (region n merkleValuePrefix rootKey))"
proof (induction ws arbitrary: s errs)
  case (Cons w ws)
  obtain s1 err where w: "do_write (ledger_ops B M) s w = (s1, err)" by force
  obtain errs' where ws: "do_writes (ledger_ops B M) s1 ws = (s', errs')"
    using Cons.prems(2) w by (auto split: prod.splits)
  have ok: "ledger_ok B s (w_name w)" "w_key w \<noteq> []" using Cons.prems(1) by auto
  have s1: "s1 = fst (do_write (ledger_ops B M) s w)" using w by simp
  have "st_db s1 = st_db s" "\<forall>n. ledger_ok B s n \<longrightarrow>
     memdb_abs B (st_conn s1) (region n merkleValuePrefix rootKey) =
     memdb_abs B (st_conn s) (region n merkleValuePrefix rootKey)"
    unfolding s1 using ok
    by (cases w; simp add: ledger_ops_def ss_Update_open ss_write_frame)+
  moreover have "\<forall>n. ledger_ok B s1 n \<longleftrightarrow> ledger_ok B s n"
    using ledger.do_write(2) [OF ok w] by blast
  ultimately show ?case using Cons.IH [OF _ ws] Cons.prems(1) by simp
qed auto

end

lemma ref_writes_cong:
  "\<forall>w \<in> set ws. w_name w = n \<Longrightarrow> f n = g n \<Longrightarrow> ref_writes f ws n = ref_writes g ws n"
proof (induction ws arbitrary: f g)
  case (Cons w ws)
  show ?case unfolding ref_writes.simps by (rule Cons.IH) (use Cons.prems in auto)
qed simp

section \<open>Commit\<close>

lemma ss_Commit_open:
  assumes "store_open B s" "ss_Commit s = (s', err)"
    and "db_inv B (st_db s)" "mdb_openWriters (st_db s) = 1" "vm_last (mdb_vmgr (st_db s)) \<noteq> - 1"
  shows "err = None" "mdb_btree (st_db s') = tx_btree (st_txn s)"
    "mdb_openWriters (st_db s') = 0" "tx_btree (st_txn s') = None"
    "vm_last (mdb_vmgr (st_db s')) = vm_last (mdb_vmgr (st_db s)) + 1"
    "mdb_ReaderAt (st_db s') (vm_last (mdb_vmgr (st_db s)) + 1) = Inr \<lparr>tx_btree = tx_btree (st_txn s)\<rparr>"
proof -
  let ?last = "vm_last (mdb_vmgr (st_db s))"
  obtain t where t: "tx_btree (st_txn s) = Some t" "bt_get B t [] = None" "\<not> st_ro s"
    using assms(1) by (auto simp: store_open_def memdb_opn_def st_conn_def elim: good_treeE)
  define db where "db = (st_db s)\<lparr>mdb_btree := Some t, mdb_openWriters := 0\<rparr>"
  have s': "s' = s\<lparr>st_db := fst (mdb_SaveVersion db (?last + 1)), st_txn := (st_txn s)\<lparr>tx_btree := None\<rparr>\<rparr>" "err = None"
    using assms(2,4) t by (auto simp: ss_Commit_def writer_Commit_def writer_Discard_def txn_Discard_def db_def Let_def)
  have inv: "db_inv B db" "vm_last (mdb_vmgr db) \<noteq> - 1"
    using assms(3,5) t by (auto simp: db_inv_def db_def good_tree_def)
  have pos: "?last + 1 \<noteq> 0"
    using assms(5) by (metis add_eq_0_iff2 add.commute minus_unique)
  show "err = None" by (fact s'(2))
  from inv have "mdb_btree (st_db s') = Some t \<and> mdb_openWriters (st_db s') = 0 \<and>
    vm_last (mdb_vmgr (st_db s')) = ?last + 1 \<and> mdb_saved (st_db s') (?last + 1) = Some (Some t)"
  proof (cases rule: mdb_save_cases [where v = "?last + 1"])
    case too_low
    then show ?thesis using u64_less_Suc [OF assms(5)] by (auto simp: db_def)
  next
    case (saved v' vm')
    then show ?thesis using pos by (auto simp: s'(1) mdb_SaveVersion_def db_def)
  qed (simp add: db_def)
  then show "mdb_btree (st_db s') = tx_btree (st_txn s)" "mdb_openWriters (st_db s') = 0"
    "vm_last (mdb_vmgr (st_db s')) = ?last + 1"
    "mdb_ReaderAt (st_db s') (?last + 1) = Inr \<lparr>tx_btree = tx_btree (st_txn s)\<rparr>"
    using t by (simp_all add: mdb_ReaderAt_def)
  show "tx_btree (st_txn s') = None" by (simp add: s')
qed

lemma NewStateStore_data:
  "NewStateStore db Flag_ReadWrite = Inr s \<Longrightarrow> mdb_btree db = tx_btree tx \<Longrightarrow>
   memdb_abs B (st_conn s) = memdb_abs B (m, tx)"
  by (auto simp: NewStateStore_def mdb_ReadWriter_def memdb_abs_def st_conn_def split: option.splits)

section \<open>Properties\<close>

text \<open>
  (C4) A state store refines one map per name: after any sequence of \<open>Put\<close>,
  \<open>Update\<close> and \<open>Delete\<close> at non-empty keys of added stores no call reports an error,
  and \<open>GetStateData\<close> and \<open>Exists\<close> answer, for every added store and every key, what
  the maps that the sequence should leave hold. So the stores do not interfere
  with each other, nor do the Merkle trees with the data.
\<close>

theorem state_store_refines_maps:
  assumes "ledger_libs B M" "\<forall>w \<in> set ws. ledger_ok B s (w_name w) \<and> w_key w \<noteq> []"
    and "ledger_ok B s n" "k \<noteq> []"
  shows "case do_writes (ledger_ops B M) s ws of (s', errs) \<Rightarrow> errs = [] \<and>
    ss_GetStateData B s' n k = Inr (ref_writes (ledger_data B s) ws n k) \<and>
    ss_Exists B s' n k = Inr (ref_writes (ledger_data B s) ws n k \<noteq> None)"
proof -
  obtain s' errs where ws: "do_writes (ledger_ops B M) s ws = (s', errs)" by force
  have ss: "state_store (ledger_ops B M) (ledger_data B) (ledger_ok B)"
    by (rule ledger_libs.ledger_contract [OF assms(1)])
  note spec = state_store.do_writes [OF ss assms(2) ws, of "ledger_data B s"]
  then show ?thesis
    using ledger_libs.ss_reads_open [OF assms(1) _ assms(4), of s' n] assms(3) by (simp add: ws)
qed

text \<open>
  Opening several named stores, as the constructors of the state components do; the
  error of \<open>AddNamedStateStore\<close> is dropped there.
\<close>

fun open_named :: "('t, 'v) btree_ops \<Rightarrow> ('t, 'v, 'p) memdb_smt \<Rightarrow> string list \<Rightarrow> ('t, 'v) stateStore \<Rightarrow> ('t, 'v) stateStore" where
  "open_named B M [] s = s"
| "open_named B M (n # ns) s = open_named B M ns (fst (ss_AddNamedStateStore B M s n 1))"

lemma open_named_ok:
  assumes "ledger_libs B M" "store_open B s" "\<forall>n \<in> set ns. name_ok n"
  shows "store_open B (open_named B M ns s)"
    "\<forall>n. n \<in> set ns \<or> ledger_ok B s n \<longrightarrow> ledger_ok B (open_named B M ns s) n"
    "\<forall>n. name_ok n \<longrightarrow> ledger_data B (open_named B M ns s) n = ledger_data B s n"
proof -
  have "store_open B (open_named B M ns s) \<and>
    (\<forall>n. n \<in> set ns \<or> ledger_ok B s n \<longrightarrow> ledger_ok B (open_named B M ns s) n) \<and>
    (\<forall>n. name_ok n \<longrightarrow> ledger_data B (open_named B M ns s) n = ledger_data B s n)"
    using assms(2,3)
  proof (induction ns arbitrary: s)
    case (Cons n ns)
    obtain s1 err where s1: "ss_AddNamedStateStore B M s n 1 = (s1, err)" by force
    have *: "ledger_ok B s1 n" "\<forall>n'. ledger_ok B s n' \<longrightarrow> ledger_ok B s1 n'"
      "\<forall>n'. name_ok n' \<longrightarrow> ledger_data B s1 n' = ledger_data B s n'"
      using ledger_libs.ss_AddNamed_open [OF assms(1) Cons.prems(1) _ _ s1] Cons.prems(2) by auto
    then have "store_open B s1" by (simp add: ledger_ok_def)
    from Cons.IH [OF this] Cons.prems(2) * s1 show ?case by auto
  qed simp
  then show "store_open B (open_named B M ns s)"
    "\<forall>n. n \<in> set ns \<or> ledger_ok B s n \<longrightarrow> ledger_ok B (open_named B M ns s) n"
    "\<forall>n. name_ok n \<longrightarrow> ledger_data B (open_named B M ns s) n = ledger_data B s n"
    by blast+
qed

text \<open>A new store on an empty memory database holds nothing.\<close>

lemma NewStateStore_empty:
  fixes B :: "('t, 'v) btree_ops"
  assumes "btree B"
  obtains s :: "('t, 'v) stateStore" where "NewStateStore (NewMemDBBackend B) Flag_ReadWrite = Inr s" "store_open B s"
    "\<forall>n. ledger_data B s n = Map.empty"
proof -
  obtain s :: "('t, 'v) stateStore" where s: "NewStateStore (NewMemDBBackend B) Flag_ReadWrite = Inr s" "store_open B s"
    using NewStateStore_fresh [OF assms] by blast
  have "ledger_data B s n = Map.empty" for n
    using s(1) btree.get_new [OF assms]
    by (auto simp: fun_eq_iff ledger_data_def NewStateStore_def mdb_ReadWriter_def NewMemDBBackend_def st_conn_def memdb_abs_def)
  with s that show ?thesis by blast
qed

definition mix :: "nat \<Rightarrow> bytes \<Rightarrow> nat option \<Rightarrow> nat" where
  "mix r k v = 31 * r + length k + (case v of None \<Rightarrow> 0 | Some x \<Rightarrow> x)"

abbreviation sample_smt :: "((bytes, nat) rbt memdb \<times> (bytes, nat) rbt dbTxn, nat, nat) smt_ops" where
  "sample_smt \<equiv> flat_smt mix 7"

definition sample_store :: "((bytes, nat) rbt, nat) stateStore" where
  "sample_store = (case NewStateStore (NewMemDBBackend rbt_ops) Flag_ReadWrite of Inr s \<Rightarrow>
     fst (ss_AddNamedStateStore rbt_ops sample_smt
       (fst (ss_AddNamedStateStore rbt_ops sample_smt s ''node'' 1)) ''account'' 1))"

definition sample_writes :: "nat store_write list" where
  "sample_writes = [WPut ''node'' [1] 10, WPut ''account'' [1] 20, WUpdate ''node'' [2] 11, WDelete ''account'' [1]]"

lemma sample_names: "name_ok ''node'' \<and> name_ok ''account''"
  by code_simp

lemma sample_store_ok: "ledger_ok rbt_ops sample_store ''node'' \<and> ledger_ok rbt_ops sample_store ''account''"
proof -
  obtain s :: "((bytes, nat) rbt, nat) stateStore"
    where s: "NewStateStore (NewMemDBBackend rbt_ops) Flag_ReadWrite = Inr s" "store_open rbt_ops s"
    using NewStateStore_fresh [OF rbt.btree_axioms] by blast
  obtain s1 err1 where a1: "ss_AddNamedStateStore rbt_ops sample_smt s ''node'' 1 = (s1, err1)" by force
  obtain s2 err2 where a2: "ss_AddNamedStateStore rbt_ops sample_smt s1 ''account'' 1 = (s2, err2)" by force
  have s1: "ledger_ok rbt_ops s1 ''node''" "store_open rbt_ops s1"
    using demo.ss_AddNamed_open [OF s(2) _ _ a1] sample_names by (simp_all add: ledger_ok_def)
  have "ledger_ok rbt_ops s2 ''account'' \<and> ledger_ok rbt_ops s2 ''node''"
    using demo.ss_AddNamed_open [OF s1(2) _ _ a2] s1(1) sample_names by simp
  moreover have "sample_store = s2" by (simp add: sample_store_def s(1) a1 a2)
  ultimately show ?thesis by simp
qed

theorem state_store_refines_maps_witness:
  "ledger_libs rbt_ops sample_smt \<and>
   (case do_writes (ledger_ops rbt_ops sample_smt) sample_store sample_writes of (s', errs) \<Rightarrow> errs = [] \<and>
     ss_GetStateData rbt_ops s' ''node'' [2] = Inr (Some 11) \<and> ss_Exists rbt_ops s' ''account'' [1] = Inr False)"
proof -
  have w: "\<forall>w \<in> set sample_writes. ledger_ok rbt_ops sample_store (w_name w) \<and> w_key w \<noteq> []"
    using sample_store_ok by (simp add: sample_writes_def)
  have "ledger_libs rbt_ops sample_smt" by unfold_locales
  then show ?thesis
    using state_store_refines_maps [OF _ w, of sample_smt "''node''" "[2]"]
      state_store_refines_maps [OF _ w, of sample_smt "''account''" "[1]"] sample_store_ok
    by (auto simp: sample_writes_def split: prod.splits)
qed

lemma NewStateStore_ex:
  "good_tree B (mdb_btree db) \<Longrightarrow> \<exists>s. NewStateStore db Flag_ReadWrite = Inr s"
  by (auto simp: NewStateStore_def mdb_ReadWriter_def elim: good_treeE)

lemma commit_reopen_state:
  assumes "ledger_libs B M" "db_inv B db" "mdb_openWriters db = 0"
    and "name_ok n" "cacheSize > 0"
    and "\<forall>w \<in> set ws. w_name w = n \<and> w_key w \<noteq> []"
    and "NewStateStore db Flag_ReadWrite = Inr s0"
    and "ss_AddNamedStateStore B M s0 n cacheSize = (s1, err1)"
    and "do_writes (ledger_ops B M) s1 ws = (s2, errs)"
  shows "err1 = None \<and> errs = [] \<and> store_open B s2 \<and> st_db s2 = db\<lparr>mdb_openWriters := 1\<rparr> \<and>
    db_inv B (st_db s2) \<and> ledger_data B s2 n = ref_writes (ledger_data B s0) ws n"
proof -
  note libs = assms(1)
  have s0: "store_open B s0" "st_db s0 = db\<lparr>mdb_openWriters := 1\<rparr>"
    using NewStateStore_open [OF assms(7)] assms(2,3) by (auto simp: db_inv_def)
  note add1 = ledger_libs.ss_AddNamed_open [OF libs s0(1) assms(4,5,8)]
  have w: "\<forall>w \<in> set ws. ledger_ok B s1 (w_name w) \<and> w_key w \<noteq> []" using add1 assms(6) by auto
  note writes = state_store.do_writes [OF ledger_libs.ledger_contract [OF libs] w assms(9), of "ledger_data B s1"]
  have s2: "store_open B s2" "st_db s2 = db\<lparr>mdb_openWriters := 1\<rparr>"
    using writes add1 ledger_libs.do_writes_frame [OF libs w assms(9)] s0(2)
      ledger_libs.ss_AddNamed_db [OF libs s0(1) assms(4,5,8)] by (auto simp: ledger_ok_def)
  have "ref_writes (ledger_data B s1) ws n = ref_writes (ledger_data B s0) ws n"
    using ref_writes_cong [of ws n "ledger_data B s1" "ledger_data B s0"] add1 assms(4,6) by simp
  then show ?thesis using add1 writes s2 assms(2) by (simp add: db_inv_def)
qed

lemma commit_reopen_good:
  assumes "ledger_libs B M" "db_inv B db" "mdb_openWriters db = 0" "vm_last (mdb_vmgr db) \<noteq> - 1"
    and "name_ok n" "cacheSize > 0" "\<forall>w \<in> set ws. w_name w = n \<and> w_key w \<noteq> []"
    and "NewStateStore db Flag_ReadWrite = Inr s0"
    and "ss_AddNamedStateStore B M s0 n cacheSize = (s1, err1)"
    and "do_writes (ledger_ops B M) s1 ws = (s2, errs)"
    and "ss_Commit s2 = (s3, err3)"
  shows "good_tree B (mdb_btree (st_db s3))"
proof -
  note st = commit_reopen_state [OF assms(1-3,5-10)]
  have "mdb_btree (st_db s3) = tx_btree (st_txn s2)"
    by (rule ss_Commit_open(2) [OF _ assms(11)]) (use st assms(4) in auto)
  then show ?thesis using st by (simp add: store_open_def memdb_opn_def st_conn_def)
qed

lemma commit_reopen:
  assumes "ledger_libs B M" "db_inv B db" "mdb_openWriters db = 0" "vm_last (mdb_vmgr db) \<noteq> - 1"
    and "name_ok n" "cacheSize > 0" "k \<noteq> []"
    and "\<forall>w \<in> set ws. w_name w = n \<and> w_key w \<noteq> []"
    and "NewStateStore db Flag_ReadWrite = Inr s0"
    and "ss_AddNamedStateStore B M s0 n cacheSize = (s1, err1)"
    and "do_writes (ledger_ops B M) s1 ws = (s2, errs)"
    and "ss_Commit s2 = (s3, err3)"
    and "NewStateStore (st_db s3) Flag_ReadWrite = Inr s4"
    and "ss_AddNamedStateStore B M s4 n cacheSize = (s5, err5)"
  shows "err1 = None \<and> errs = [] \<and> err3 = None \<and> err5 = None \<and>
    ss_StateLatestVersion s3 = vm_last (mdb_vmgr db) + 1 \<and>
    mdb_PendingTxCount (st_db s3) = 0 \<and>
    ss_GetStateData B s5 n k = Inr (ref_writes (ledger_data B s0) ws n k)"
proof -
  note libs = assms(1)
  note st = commit_reopen_state [OF assms(1-3,5,6,8-11)]
  note good = commit_reopen_good [OF assms(1-6,8-12)]
  have pre: "store_open B s2" "db_inv B (st_db s2)" "mdb_openWriters (st_db s2) = 1"
    "vm_last (mdb_vmgr (st_db s2)) \<noteq> - 1" using st assms(4) by auto
  note cm = ss_Commit_open [OF pre(1) assms(12) pre(2-4)]
  note open4 = NewStateStore_open [OF assms(13) good]
  note add2 = ledger_libs.ss_AddNamed_open [OF libs open4(1) assms(5,6,14)]
  have "ledger_data B s4 n = ledger_data B s2 n"
    using open4(3) cm(2) by (simp add: ledger_data_def memdb_abs_def st_conn_def fun_eq_iff)
  then have "ledger_data B s5 n = ref_writes (ledger_data B s0) ws n"
    using add2 st assms(5) by simp
  then show ?thesis
    using add2 st cm(1,3,5) ledger_libs.ss_reads_open(2) [OF libs _ assms(7), of s5 n]
    by (simp add: ss_StateLatestVersion_def mdb_PendingTxCount_def)
qed

text \<open>
  (C16) What is committed is there after reopening: open a store on a database
  without open writers, add a named store, run writes on it, commit, open a new
  store on the database and add the name again. Nothing reports an error, the
  commit saves exactly the next version, and the new store reads what the old one
  held when it committed: the data that was there before with the writes applied.
\<close>

theorem commit_reopen_roundtrip:
  fixes B :: "('t, 'v) btree_ops"
  assumes "ledger_libs B M" "db_inv B db" "mdb_openWriters db = 0" "vm_last (mdb_vmgr db) \<noteq> - 1"
    and "name_ok n" "cacheSize > 0" "k \<noteq> []"
    and "\<forall>w \<in> set ws. w_name w = n \<and> w_key w \<noteq> []"
  shows "\<exists>s0 s4. NewStateStore db Flag_ReadWrite = Inr s0 \<and>
    (let (s1, err1) = ss_AddNamedStateStore B M s0 n cacheSize;
         (s2, errs) = do_writes (ledger_ops B M) s1 ws;
         (s3, err3) = ss_Commit s2
     in err1 = None \<and> errs = [] \<and> err3 = None \<and>
       ss_StateLatestVersion s3 = vm_last (mdb_vmgr db) + 1 \<and> mdb_PendingTxCount (st_db s3) = 0 \<and>
       NewStateStore (st_db s3) Flag_ReadWrite = Inr s4 \<and>
       (let (s5, err5) = ss_AddNamedStateStore B M s4 n cacheSize
        in err5 = None \<and> ss_GetStateData B s5 n k = Inr (ref_writes (ledger_data B s0) ws n k)))"
proof -
  obtain s0 :: "('t, 'v) stateStore" where s0: "NewStateStore db Flag_ReadWrite = Inr s0"
    using NewStateStore_ex assms(2) by (metis db_inv_def)
  obtain s1 err1 where s1: "ss_AddNamedStateStore B M s0 n cacheSize = (s1, err1)" by force
  obtain s2 errs where s2: "do_writes (ledger_ops B M) s1 ws = (s2, errs)" by force
  obtain s3 err3 where s3: "ss_Commit s2 = (s3, err3)" by force
  note good = commit_reopen_good [OF assms(1-6,8) s0 s1 s2 s3]
  obtain s4 :: "('t, 'v) stateStore" where s4: "NewStateStore (st_db s3) Flag_ReadWrite = Inr s4"
    using NewStateStore_ex [OF good] by blast
  obtain s5 err5 where s5: "ss_AddNamedStateStore B M s4 n cacheSize = (s5, err5)" by force
  show ?thesis
    using commit_reopen [OF assms s0 s1 s2 s3 s4 s5] s0 s1 s2 s3 s4 s5
    by (intro exI [of _ s0] exI [of _ s4]) simp
qed

lemma NewMemDBBackend_inv: "btree B \<Longrightarrow> db_inv B (NewMemDBBackend B)"
  using mdb_init_inv [of B] by (simp add: mdb_inv_def mdb_init_def)

definition sample_node_writes :: "nat store_write list" where
  "sample_node_writes = [WPut ''node'' [1] 10, WPut ''node'' [2] 11, WDelete ''node'' [1]]"

theorem commit_reopen_roundtrip_witness:
  "\<exists>s0 s4. NewStateStore (NewMemDBBackend rbt_ops) Flag_ReadWrite = Inr s0 \<and>
    (let (s1, err1) = ss_AddNamedStateStore rbt_ops sample_smt s0 ''node'' 1;
         (s2, errs) = do_writes (ledger_ops rbt_ops sample_smt) s1 sample_node_writes;
         (s3, err3) = ss_Commit s2
     in ss_StateLatestVersion s3 = 1 \<and> NewStateStore (st_db s3) Flag_ReadWrite = Inr s4 \<and>
       (let (s5, err5) = ss_AddNamedStateStore rbt_ops sample_smt s4 ''node'' 1
        in ss_GetStateData rbt_ops s5 ''node'' [2] = Inr (Some 11)))"
proof -
  have libs: "ledger_libs rbt_ops sample_smt" by unfold_locales
  have db: "mdb_openWriters (NewMemDBBackend rbt_ops) = 0" "vm_last (mdb_vmgr (NewMemDBBackend rbt_ops)) = 0"
    "vm_last (mdb_vmgr (NewMemDBBackend rbt_ops)) \<noteq> - 1"
    by code_simp+
  have w: "\<forall>w \<in> set sample_node_writes. w_name w = ''node'' \<and> w_key w \<noteq> []" by code_simp
  have ref: "ref_writes f sample_node_writes ''node'' [2] = Some 11" for f
    by (simp add: sample_node_writes_def)
  show ?thesis
    using commit_reopen_roundtrip [OF libs NewMemDBBackend_inv [OF rbt.btree_axioms] db(1,3) _ _ _ w,
        of 1 "[2]"] sample_names
    unfolding db(2) ref by (auto simp: Let_def split: prod.splits)
qed

lemma ss_Commit_shared:
  assumes "store_open B s" "mdb_openWriters (st_db s) > 1" "ss_Commit s = (s', err)"
  shows "err = None" "mdb_saved (st_db s') = mdb_saved (st_db s)" "mdb_vmgr (st_db s') = mdb_vmgr (st_db s)"
    "mdb_btree (st_db s') = tx_btree (st_txn s)"
proof -
  obtain t where "tx_btree (st_txn s) = Some t" "\<not> st_ro s"
    using assms(1) by (auto simp: store_open_def memdb_opn_def st_conn_def elim: good_treeE)
  then show "err = None" "mdb_saved (st_db s') = mdb_saved (st_db s)" "mdb_vmgr (st_db s') = mdb_vmgr (st_db s)"
    "mdb_btree (st_db s') = tx_btree (st_txn s)"
    using assms(2,3)
    by (auto simp: ss_Commit_def writer_Commit_def writer_Discard_def mdb_SaveVersion_def mdb_save_def Let_def)
qed

text \<open>
  (C27) A commit while another writer of the database is open reports success but
  saves no version: the error of \<open>SaveVersion\<close> is dropped. The database moves to the
  written tree, the set of versions and the saved trees stay as they were.
\<close>

theorem commit_unsaved_with_open_writer:
  assumes "store_open B s" "mdb_openWriters (st_db s) > 1"
  shows "case ss_Commit s of (s', err) \<Rightarrow> err = None \<and>
    mdb_saved (st_db s') = mdb_saved (st_db s) \<and> ss_StateVersions s' = ss_StateVersions s \<and>
    mdb_btree (st_db s') = tx_btree (st_txn s)"
  using ss_Commit_shared [OF assms] by (auto simp: ss_StateVersions_def split: prod.splits)

definition sample_shared :: "((bytes, nat) rbt, nat) stateStore" where
  "sample_shared = sample_store\<lparr>st_db := (case mdb_ReadWriter (st_db sample_store) of Inr (m, tx) \<Rightarrow> m)\<rparr>"

theorem commit_unsaved_with_open_writer_witness:
  "mdb_openWriters (st_db sample_shared) = 2 \<and> snd (ss_Commit sample_shared) = None \<and>
   ss_StateVersions (fst (ss_Commit sample_shared)) = []"
proof -
  have "store_open rbt_ops sample_shared"
    using sample_store_ok
    by (simp add: sample_shared_def ledger_ok_def store_open_def memdb_opn_def st_conn_def)
  moreover have "mdb_openWriters (st_db sample_shared) = 2" "ss_StateVersions sample_shared = []" by code_simp+
  ultimately show ?thesis using commit_unsaved_with_open_writer [of rbt_ops sample_shared]
    by (auto split: prod.splits)
qed

text \<open>
  \<open>Commit\<close> closes the store: afterwards every read of a named store fails with
  the transaction-closed error and every write reports an error, so a new store
  has to be created.
\<close>

theorem committed_store_closed:
  assumes "store_open B s" "st_storeMap s n = Some cp" "k \<noteq> []"
  shows "case ss_Commit s of (s', err) \<Rightarrow> err = None \<and>
    ss_GetStateData B s' n k = Inl ErrTransactionClosed \<and>
    ss_Exists B s' n k = Inl ErrTransactionClosed \<and>
    snd (ss_Put B M s' n k v) \<noteq> None \<and> snd (ss_Delete B M s' n k) \<noteq> None"
proof -
  obtain t where t: "tx_btree (st_txn s) = Some t" "\<not> st_ro s" "\<not> cp_ro cp"
    using assms(1,2) by (auto simp: store_open_def memdb_opn_def st_conn_def elim: good_treeE)
  obtain s' err where s': "ss_Commit s = (s', err)" by force
  then have c: "tx_btree (st_txn s') = None" "st_storeMap s' = st_storeMap s" "st_ro s' = st_ro s" "err = None"
    using t by (auto simp: ss_Commit_def writer_Commit_def writer_Discard_def txn_Discard_def Let_def)
  then have "snd (ss_Put B M s' n k v) \<noteq> None \<and> snd (ss_Delete B M s' n k) \<noteq> None"
    using t assms(2,3)
    by (auto simp: ss_Put_def ss_Delete_def ss_write_def comp_Put_def comp_Delete_def sd_Set_def sd_Delete_def
        comp_dataS_def comp_view_simps memdb_ops_def writer_Set_def writer_Delete_def st_conn_def
        multi_def opt_list_def split: prod.splits)
  then show ?thesis using c t assms(2,3)
    by (simp add: s' ss_GetStateData_def ss_Exists_def comp_GetStateData_def comp_Exists_def sd_Get_def
        sd_Has_def comp_dataS_def comp_view_simps memdb_ops_def st_conn_def txn_Get_def txn_Has_def)
qed

theorem committed_store_closed_witness:
  "store_open rbt_ops sample_store \<and>
   (case ss_Commit sample_store of (s', err) \<Rightarrow> err = None \<and>
     ss_GetStateData rbt_ops s' ''node'' [1] = Inl ErrTransactionClosed \<and>
     snd (ss_Put rbt_ops sample_smt s' ''node'' [1] (Some 3)) \<noteq> None)"
proof -
  have o: "store_open rbt_ops sample_store" "st_storeMap sample_store ''node'' \<noteq> None"
    using sample_store_ok by (simp_all add: ledger_ok_def)
  then obtain cp where "st_storeMap sample_store ''node'' = Some cp" by blast
  from committed_store_closed [OF o(1) this, of "[1]" sample_smt "Some 3"] o(1)
  show ?thesis by (auto split: prod.splits)
qed

lemma session_rootKey:
  assumes "ledger_libs B M" "name_ok n" "cacheSize > 0" "\<forall>w \<in> set ws. w_name w = n \<and> w_key w \<noteq> []"
    and "store_open B s0" "st_storeMap s0 n = None"
    and "\<forall>k. memdb_abs B (st_conn s0) (region n merkleValuePrefix k) = None"
    and "ss_AddNamedStateStore B M s0 n cacheSize = (s1, err1)"
    and "do_writes (ledger_ops B M) s1 ws = (s2, errs)"
  shows "memdb_abs B (st_conn s2) (region n merkleValuePrefix rootKey) = Some (smt_newRoot M)"
proof -
  note add = ledger_libs.ss_AddNamed_open [OF assms(1,5,2,3,8)]
  obtain c' root where
    "ss_AddNamedStateStore B M s0 n cacheSize =
       (st_put_comp s0 n (c', \<lparr>cp_name = n, cp_ro = False, cp_root = root\<rparr>), None)"
    "\<forall>key. outside n key \<longrightarrow> memdb_abs B c' key =
       (if key = region n merkleValuePrefix rootKey then Some root else memdb_abs B (st_conn s0) key)"
    "(\<forall>k. memdb_abs B (st_conn s0) (region n merkleValuePrefix k) = None) \<longrightarrow> root = smt_newRoot M"
    by (rule ledger_libs.ss_AddNamed_fresh [OF assms(1,5,2,3,6)])
  then have "memdb_abs B (st_conn s1) (region n merkleValuePrefix rootKey) = Some (smt_newRoot M)"
    using outside_root [OF assms(2,2)] assms(7,8) by simp
  moreover have "\<forall>w \<in> set ws. ledger_ok B s1 (w_name w) \<and> w_key w \<noteq> []" using add assms(4) by auto
  ultimately show ?thesis
    using ledger_libs.do_writes_frame [OF assms(1) _ assms(9)] add by simp
qed

text \<open>
  The root of a named store is not kept across a reopening: the root key is
  written when a store is first created, on the empty tree, and no write updates
  it, so a store that is reopened after a commit starts from the root of the empty
  tree, whatever was written.
\<close>

theorem reopened_root_is_empty_root:
  assumes "ledger_libs B M" "name_ok n" "cacheSize > 0"
    and "\<forall>w \<in> set ws. w_name w = n \<and> w_key w \<noteq> []"
    and "NewStateStore (NewMemDBBackend B) Flag_ReadWrite = Inr s0"
    and "ss_AddNamedStateStore B M s0 n cacheSize = (s1, err1)"
    and "do_writes (ledger_ops B M) s1 ws = (s2, errs)"
    and "ss_Commit s2 = (s3, err3)"
    and "NewStateStore (st_db s3) Flag_ReadWrite = Inr s4"
    and "ss_AddNamedStateStore B M s4 n cacheSize = (s5, err5)"
  shows "ss_Root s5 n = Inr (smt_newRoot M)"
proof -
  note libs = assms(1)
  let ?db = "NewMemDBBackend B"
  have btr: "btree B" using libs by (simp add: ledger_libs_def)
  have db: "db_inv B ?db" "mdb_openWriters ?db = 0" "vm_last (mdb_vmgr ?db) \<noteq> - 1"
    using NewMemDBBackend_inv [OF btr] by (simp_all add: NewMemDBBackend_def NewVersionManager_def)
  have good0: "good_tree B (mdb_btree ?db)" using db(1) by (simp add: db_inv_def)
  note open0 = NewStateStore_open [OF assms(5) good0]
  have abs0: "\<forall>k. memdb_abs B (st_conn s0) (region n merkleValuePrefix k) = None"
    using open0(3) btree.get_new [OF btr] by (simp add: memdb_abs_def st_conn_def NewMemDBBackend_def)
  note st = commit_reopen_state [OF libs db(1,2) assms(2-7)]
  have pre: "store_open B s2" "db_inv B (st_db s2)" "mdb_openWriters (st_db s2) = 1"
    "vm_last (mdb_vmgr (st_db s2)) \<noteq> - 1" using st db(3) by auto
  note cm = ss_Commit_open [OF pre(1) assms(8) pre(2-4)]
  have good3: "good_tree B (mdb_btree (st_db s3))"
    by (rule commit_reopen_good [OF libs db assms(2-8)])
  note open4 = NewStateStore_open [OF assms(9) good3]
  have "memdb_abs B (st_conn s2) (region n merkleValuePrefix rootKey) = Some (smt_newRoot M)"
    by (rule session_rootKey [OF libs assms(2-4) open0(1) _ abs0 assms(6,7)]) (simp add: open0(2))
  then have "memdb_abs B (st_conn s4) (region n merkleValuePrefix rootKey) = Some (smt_newRoot M)"
    using open4(3) cm(2) by (simp add: memdb_abs_def st_conn_def)
  moreover have "st_storeMap s4 n = None" by (simp add: open4(2))
  then obtain c' root where
    "ss_AddNamedStateStore B M s4 n cacheSize =
       (st_put_comp s4 n (c', \<lparr>cp_name = n, cp_ro = False, cp_root = root\<rparr>), None)"
    "\<forall>r. memdb_abs B (st_conn s4) (region n merkleValuePrefix rootKey) = Some r \<longrightarrow> root = r"
    by (rule ledger_libs.ss_AddNamed_fresh [OF libs open4(1) assms(2,3)])
  ultimately show ?thesis using assms(10) by (auto simp: ss_Root_def)
qed

theorem reopened_root_is_empty_root_witness:
  "\<exists>s0 s1 s2 s3 s4 s5. NewStateStore (NewMemDBBackend rbt_ops) Flag_ReadWrite = Inr s0 \<and>
     ss_AddNamedStateStore rbt_ops sample_smt s0 ''node'' 1 = (s1, None) \<and>
     do_writes (ledger_ops rbt_ops sample_smt) s1 sample_node_writes = (s2, []) \<and>
     ss_Commit s2 = (s3, None) \<and> NewStateStore (st_db s3) Flag_ReadWrite = Inr s4 \<and>
     ss_AddNamedStateStore rbt_ops sample_smt s4 ''node'' 1 = (s5, None) \<and> ss_Root s5 ''node'' = Inr 7"
proof -
  have libs: "ledger_libs rbt_ops sample_smt" by unfold_locales
  have db: "db_inv rbt_ops (NewMemDBBackend rbt_ops :: (bytes, nat) rbt memdb)"
    "mdb_openWriters (NewMemDBBackend rbt_ops :: (bytes, nat) rbt memdb) = 0"
    "vm_last (mdb_vmgr (NewMemDBBackend rbt_ops :: (bytes, nat) rbt memdb)) \<noteq> - 1"
    using NewMemDBBackend_inv [OF rbt.btree_axioms] by (simp_all add: NewMemDBBackend_def NewVersionManager_def)
  have w: "\<forall>w \<in> set sample_node_writes. w_name w = ''node'' \<and> w_key w \<noteq> []" by code_simp
  have n: "name_ok ''node''" "(0 :: int) < 1" using sample_names by simp_all
  obtain s0 :: "((bytes, nat) rbt, nat) stateStore"
    where s0: "NewStateStore (NewMemDBBackend rbt_ops) Flag_ReadWrite = Inr s0"
    using NewStateStore_fresh [OF rbt.btree_axioms] by blast
  obtain s1 err1 where s1: "ss_AddNamedStateStore rbt_ops sample_smt s0 ''node'' 1 = (s1, err1)" by force
  obtain s2 errs where s2: "do_writes (ledger_ops rbt_ops sample_smt) s1 sample_node_writes = (s2, errs)" by force
  obtain s3 err3 where s3: "ss_Commit s2 = (s3, err3)" by force
  obtain s4 :: "((bytes, nat) rbt, nat) stateStore" where s4: "NewStateStore (st_db s3) Flag_ReadWrite = Inr s4"
    using NewStateStore_ex [OF commit_reopen_good [OF libs db n w s0 s1 s2 s3]] by blast
  obtain s5 err5 where s5: "ss_AddNamedStateStore rbt_ops sample_smt s4 ''node'' 1 = (s5, err5)" by force
  have "err1 = None \<and> errs = [] \<and> err3 = None \<and> err5 = None"
    using commit_reopen [OF libs db n _ w s0 s1 s2 s3 s4 s5, of "[1]"] by simp
  moreover have "ss_Root s5 ''node'' = Inr 7"
    using reopened_root_is_empty_root [OF libs n w s0 s1 s2 s3 s4 s5] by (simp add: flat_smt_def)
  ultimately show ?thesis using s0 s1 s2 s3 s4 s5 by blast
qed

text \<open>
  \<open>GetAllStateData\<close> lists exactly the keys and values of the named store, each
  key once and in ascending order, and none of another store or of a Merkle tree.
\<close>

theorem GetAllStateData_exact:
  assumes "ledger_libs B M" "ledger_ok B s n"
  shows "\<exists>xs. ss_GetAllStateData B s n = Inr (map fst xs, map snd xs) \<and> sorted_keys xs \<and>
    (\<forall>k v. (k, v) \<in> set xs \<longleftrightarrow> k \<noteq> [] \<and> ss_GetStateData B s n k = Inr (Some v))"
proof -
  obtain xs where xs: "ss_GetAllStateData B s n = Inr (map fst xs, map snd xs)" "sorted_keys xs"
    "\<forall>k v. (k, v) \<in> set xs \<longleftrightarrow> ledger_data B s n k = Some v"
    using ledger_libs.ss_GetAllStateData_open [OF assms] by blast
  have "ledger_data B s n k = Some v \<longleftrightarrow> k \<noteq> [] \<and> ss_GetStateData B s n k = Inr (Some v)" for k v
    using ledger_libs.ss_reads_open(2) [OF assms, of k] by (cases "k = []") (simp_all add: ledger_data_def)
  then show ?thesis using xs by blast
qed

theorem GetAllStateData_exact_witness:
  "\<exists>xs. ss_GetAllStateData rbt_ops (fst (ss_Put rbt_ops sample_smt sample_store ''node'' [1] (Some 10))) ''node'' =
     Inr (map fst xs, map snd xs) \<and> ([1], 10) \<in> set xs"
proof -
  have libs: "ledger_libs rbt_ops sample_smt" by unfold_locales
  obtain s' err where s': "ss_Put rbt_ops sample_smt sample_store ''node'' [1] (Some 10) = (s', err)" by force
  have ok: "ledger_ok rbt_ops s' ''node''" "ledger_data rbt_ops s' ''node'' [1] = Some 10"
    using demo.ss_Put_open(2,3) [OF _ _ s'] sample_store_ok by simp_all
  show ?thesis
    using GetAllStateData_exact [OF libs ok(1)] demo.ss_reads_open(2) [OF ok(1), of "[1]"] ok(2)
    by (auto simp: s')
qed

lemma getAllState_loop_values:
  "\<forall>(k, v) \<in> set items. comp_GetStateData ops st k = Inr (Some v) \<Longrightarrow>
   getAllState_loop M ops st items = Inr xs \<Longrightarrow> xs = map (\<lambda>(k, v). (k, v, Some v)) items"
  by (induction items arbitrary: xs)
    (auto simp: comp_GetState_def Let_def split: sum.splits option.splits prod.splits)

text \<open>
  Whenever \<open>GetAllState\<close> succeeds on an open store, the proofs that it returns
  are the values themselves: its loop takes the first result of \<open>GetState\<close>, which
  is the value, for the proof.
\<close>

theorem GetAllState_proofs_are_values:
  assumes "ledger_libs B M" "ledger_ok B s n" "ss_GetAllState B M s n = Inr (ks, vs, proofs)"
  shows "proofs = map Some vs"
proof -
  obtain cp where cp: "st_storeMap s n = Some cp" "cp_name cp = n" "name_ok n" "memdb_opn B (st_conn s)"
    using assms(2) by (rule ledger_okE)
  have rw: "comp_store (memdb_ops B) (memdb_abs B) (memdb_opn B) M"
    by (rule ledger_libs.comp_contract [OF assms(1)])
  obtain items where items: "db_Iterator (comp_view (memdb_ops B) n stateDataPrefix) (st_conn s) None None = Inr items"
    "\<forall>k v. (k, v) \<in> set items \<longleftrightarrow> k \<noteq> [] \<and> memdb_abs B (st_conn s) (region n stateDataPrefix k) = Some v"
    using comp_store.comp_view_Iterator [OF rw cp(3,4)] by blast
  have vals: "\<forall>(k, v) \<in> set items. comp_GetStateData (memdb_ops B) (st_conn s, cp) k = Inr (Some v)"
  proof clarify
    fix k v assume "(k, v) \<in> set items"
    then show "comp_GetStateData (memdb_ops B) (st_conn s, cp) k = Inr (Some v)"
      using items(2) cp(1,2) ledger_libs.ss_reads_open(2) [OF assms(1,2), of k]
      by (simp add: ss_GetStateData_def ledger_data_def)
  qed
  obtain xs where xs: "getAllState_loop M (memdb_ops B) (st_conn s, cp) items = Inr xs"
    "vs = map (fst \<circ> snd) xs" "proofs = map (snd \<circ> snd) xs"
    using assms(3) cp(1,2) items(1)
    by (auto simp: ss_GetAllState_def comp_GetAllState_def sd_Iterator_def comp_dataS_def split: sum.splits)
  have "xs = map (\<lambda>(k, v). (k, v, Some v)) items"
    by (rule getAllState_loop_values [OF vals xs(1)])
  then show ?thesis by (auto simp: xs)
qed

theorem GetAllState_proofs_are_values_witness:
  "\<exists>s' ks vs proofs. ss_Put rbt_ops sample_smt sample_store ''node'' [1] (Some 10) = (s', None) \<and>
     ss_GetAllState rbt_ops sample_smt s' ''node'' = Inr (ks, vs, proofs) \<and>
     ss_GetState rbt_ops sample_smt s' ''node'' [1] = (Some 10, Some 310, None) \<and> proofs = map Some vs"
proof -
  have libs: "ledger_libs rbt_ops sample_smt" by unfold_locales
  let ?s = "fst (ss_Put rbt_ops sample_smt sample_store ''node'' [1] (Some 10))"
  have put: "ss_Put rbt_ops sample_smt sample_store ''node'' [1] (Some 10) = (?s, None)"
    using demo.ss_Put_open(1) [of sample_store "''node''" "[1]"] sample_store_ok
    by (metis list.distinct(1) prod.collapse)
  have ok: "ledger_ok rbt_ops ?s ''node''"
    using demo.ss_Put_open(2) [OF _ _ put] sample_store_ok by simp
  have ev: "\<not> isl (ss_GetAllState rbt_ops sample_smt ?s ''node'')"
    "ss_GetState rbt_ops sample_smt ?s ''node'' [1] = (Some 10, Some 310, None)" by code_simp+
  then obtain ks vs proofs where all: "ss_GetAllState rbt_ops sample_smt ?s ''node'' = Inr (ks, vs, proofs)"
    by (cases "ss_GetAllState rbt_ops sample_smt ?s ''node''") auto
  show ?thesis using GetAllState_proofs_are_values [OF libs ok all] put all ev(2) by blast
qed

end
