(* ===== verification/Go_Map.thy ===== *)
theory Go_Map
  imports Topia_Prelude
begin

text \<open>
  Go maps as association lists that are sorted by key, so that two maps with the same
  entries are equal and every operation computes. The order is that in which
  \<open>encoding/json\<close> prints a map; a loop over a map visits the entries in an order of
  the runtime's choice, which the models that depend on it take as an argument.
  \<open>gm_set\<close> and \<open>gm_del\<close> are \<open>m[k] = v\<close> and \<open>delete(m, k)\<close>, \<open>map_of\<close> is \<open>v, ok := m[k]\<close>;
  the interface is the locale \<open>go_map\<close>.
\<close>

type_synonym ('k, 'v) gomap = "('k \<times> 'v) list"

fun gm_set :: "'k :: linorder \<Rightarrow> 'v \<Rightarrow> ('k, 'v) gomap \<Rightarrow> ('k, 'v) gomap" where
  "gm_set k v [] = [(k, v)]"
| "gm_set k v ((k', v') # m) =
     (if k < k' then (k, v) # (k', v') # m else if k = k' then (k, v) # m else (k', v') # gm_set k v m)"

definition gm_del :: "'k :: linorder \<Rightarrow> ('k, 'v) gomap \<Rightarrow> ('k, 'v) gomap" where
  "gm_del k m = filter (\<lambda>e. fst e \<noteq> k) m"

abbreviation gm_has :: "('k, 'v) gomap \<Rightarrow> 'k \<Rightarrow> bool" where
  "gm_has m k \<equiv> map_of m k \<noteq> None"

section \<open>The contract of a map\<close>

locale go_map =
  fixes get :: "'m \<Rightarrow> 'k \<rightharpoonup> 'v" and upd :: "'k \<Rightarrow> 'v \<Rightarrow> 'm \<Rightarrow> 'm" and del :: "'k \<Rightarrow> 'm \<Rightarrow> 'm"
    and new :: 'm and inv :: "'m \<Rightarrow> bool"
  assumes new: "inv new" "get new k = None"
    and upd: "inv m \<Longrightarrow> inv (upd k v m)" "inv m \<Longrightarrow> get (upd k v m) = (get m)(k \<mapsto> v)"
    and del: "inv m \<Longrightarrow> inv (del k m)" "inv m \<Longrightarrow> get (del k m) = (get m)(k := None)"
begin

text \<open>Writing a list of entries, the last one for a key winning.\<close>

lemma upd_all:
  assumes "inv m"
  shows "inv (foldl (\<lambda>m (k, v). upd k v m) m kvs)"
    "get (foldl (\<lambda>m (k, v). upd k v m) m kvs) = get m ++ map_of (rev kvs)"
  using assms by (induction kvs arbitrary: m) (auto simp: upd map_add_upd_left split: prod.splits)

end

lemma gm_set_keys: "fst ` set (gm_set k v m) = insert k (fst ` set m)"
  by (induction k v m rule: gm_set.induct) auto

lemma gm_set_sorted: "sorted_keys m \<Longrightarrow> sorted_keys (gm_set k v m)"
proof (induction k v m rule: gm_set.induct)
  case (2 k v k' v' m)
  have "\<forall>e \<in> set (gm_set k v m). fst e \<in> insert k (fst ` set m)" using gm_set_keys [of k v m] by blast
  with 2 show ?case by (fastforce simp: split: prod.splits)
qed simp

lemma map_of_gm_set [simp]: "sorted_keys m \<Longrightarrow> map_of (gm_set k v m) = (map_of m)(k \<mapsto> v)"
  by (induction k v m rule: gm_set.induct) (auto simp: fun_eq_iff)

lemma map_of_gm_del [simp]: "map_of (gm_del k m) = (map_of m)(k := None)"
  by (induction m) (auto simp: gm_del_def fun_eq_iff)

lemma gm_del_sorted: "sorted_keys m \<Longrightarrow> sorted_keys (gm_del k m)"
  by (simp add: gm_del_def sorted_keys_filter)

interpretation gomap: go_map map_of gm_set gm_del "[]" sorted_keys
  by unfold_locales (simp_all add: gm_set_sorted gm_del_sorted)

text \<open>A map is determined by what it returns.\<close>

lemma gomap_eqI: "sorted_keys m \<Longrightarrow> sorted_keys m' \<Longrightarrow> map_of m = map_of m' \<Longrightarrow> m = m'"
  by (rule sorted_keys_unique) (auto simp: sorted_keys_mem)

lemma gm_set_mem: "sorted_keys m \<Longrightarrow> e \<in> set (gm_set k v m) \<longleftrightarrow> e = (k, v) \<or> e \<in> set m \<and> fst e \<noteq> k"
  by (cases e) (auto simp: sorted_keys_mem gm_set_sorted)

lemma gm_rebuild: "sorted_keys m \<Longrightarrow> foldl (\<lambda>m (k, v). gm_set k v m) [] m = m"
proof (rule gomap_eqI)
  assume m: "sorted_keys m"
  have "map_of (rev m) = map_of m"
    using m by (intro ext) (metis distinct_rev map_of_eqI rev_map set_rev sorted_keys_distinct map_of_inject_set)
  then show "map_of (foldl (\<lambda>m (k, v). gm_set k v m) [] m) = map_of m"
    using gomap.upd_all(2) [of "[]" m] by simp
qed (use gomap.upd_all(1) [of "[]" m] in auto)

end
