(* ===== verification/Json.thy ===== *)
theory Json
  imports Go_Map
begin

text \<open>
  What the state layers use of Go's \<open>encoding/json\<close> and \<open>encoding/base64\<close>: the
  text that \<open>Marshal\<close> writes for structs, slices, maps, strings and integers, and the
  parser behind \<open>Unmarshal\<close>. A document is a value of \<open>json\<close>; \<open>json_print\<close> is the
  compact text of \<open>Marshal\<close> and \<open>json_parse\<close> reads a text, white space included. The
  main lemma is the round trip \<open>json_parse_print\<close>.

  Strings are byte strings. The printer escapes what \<open>Marshal\<close> escapes among the
  ASCII characters (quote, backslash, controls, and \<open><\<close>, \<open>>\<close>, \<open>&\<close>) and copies other
  bytes, as \<open>Marshal\<close> does for valid UTF-8; the round trip is proved for strings of
  ASCII characters. Numbers with a fraction or an exponent are read but not
  interpreted, since no modelled struct has a floating-point field.
\<close>

section \<open>Documents and their text\<close>

datatype json =
    JNull
  | JBool bool
  | JNum int
  | JFloat string
  | JStr string
  | JArr "json list"
  | JObj "(string \<times> json) list"

definition digit_char :: "nat \<Rightarrow> char" where
  "digit_char d = char_of (48 + d)"

fun dec :: "nat \<Rightarrow> string" where
  "dec n = (if n < 10 then [digit_char n] else dec (n div 10) @ [digit_char (n mod 10)])"

declare dec.simps [simp del]

definition hex_char :: "nat \<Rightarrow> char" where
  "hex_char d = (if d < 10 then char_of (48 + d) else char_of (87 + d))"

text \<open>The codes: quote 34, backslash 92, tab 9, newline 10, return 13, the markup
  characters 38, 60 and 62.\<close>

definition esc_char :: "char \<Rightarrow> string" where
  "esc_char c = (let n = of_char c :: nat in
     if n = 34 then [char_of (92 :: nat), c]
     else if n = 92 then [c, c]
     else if n = 10 then [char_of (92 :: nat), CHR ''n'']
     else if n = 13 then [char_of (92 :: nat), CHR ''r'']
     else if n = 9 then [char_of (92 :: nat), CHR ''t'']
     else if n < 32 \<or> n = 38 \<or> n = 60 \<or> n = 62 then
       [char_of (92 :: nat), CHR ''u'', CHR ''0'', CHR ''0'', hex_char (n div 16), hex_char (n mod 16)]
     else [c])"

definition quote :: char where
  "quote = char_of (34 :: nat)"

definition print_str :: "string \<Rightarrow> string" where
  "print_str s = quote # concat (map esc_char s) @ [quote]"

fun json_print :: "json \<Rightarrow> string" and print_elems :: "json list \<Rightarrow> string"
  and print_members :: "(string \<times> json) list \<Rightarrow> string" where
  "json_print JNull = ''null''"
| "json_print (JBool b) = (if b then ''true'' else ''false'')"
| "json_print (JNum i) = (if i < 0 then CHR ''-'' # dec (nat (- i)) else dec (nat i))"
| "json_print (JFloat s) = s"
| "json_print (JStr s) = print_str s"
| "json_print (JArr js) = CHR ''['' # print_elems js @ '']''"
| "json_print (JObj ms) = CHR ''{'' # print_members ms @ ''}''"
| "print_elems [] = []"
| "print_elems [j] = json_print j"
| "print_elems (j # js) = json_print j @ '','' @ print_elems js"
| "print_members [] = []"
| "print_members [(k, j)] = print_str k @ '':'' @ json_print j"
| "print_members ((k, j) # ms) = print_str k @ '':'' @ json_print j @ '','' @ print_members ms"

section \<open>The parser\<close>

definition is_ws :: "char \<Rightarrow> bool" where
  "is_ws c \<longleftrightarrow> (of_char c :: nat) \<in> {32, 9, 10, 13}"

definition skip_ws :: "string \<Rightarrow> string" where
  "skip_ws s = dropWhile is_ws s"

definition is_digit :: "char \<Rightarrow> bool" where
  "is_digit c \<longleftrightarrow> 48 \<le> (of_char c :: nat) \<and> (of_char c :: nat) \<le> 57"

definition digits_val :: "string \<Rightarrow> nat" where
  "digits_val ds = foldl (\<lambda>n c. 10 * n + (of_char c - 48)) 0 ds"

definition hex_val :: "char \<Rightarrow> nat option" where
  "hex_val c = (let n = of_char c :: nat in
     if 48 \<le> n \<and> n \<le> 57 then Some (n - 48)
     else if 97 \<le> n \<and> n \<le> 102 then Some (n - 87)
     else if 65 \<le> n \<and> n \<le> 70 then Some (n - 55) else None)"

text \<open>The bytes of a code point below \<open>0x10000\<close> in UTF-8; a surrogate is replaced by
  \<open>U+FFFD\<close>.\<close>

definition utf8 :: "nat \<Rightarrow> string" where
  "utf8 n = (let m = (if 0xD800 \<le> n \<and> n < 0xE000 then 0xFFFD else n) in
     if m < 0x80 then [char_of m]
     else if m < 0x800 then [char_of (0xC0 + m div 64), char_of (0x80 + m mod 64)]
     else [char_of (0xE0 + m div 4096), char_of (0x80 + m div 64 mod 64), char_of (0x80 + m mod 64)])"

text \<open>The characters up to the closing quote.\<close>

fun parse_str :: "string \<Rightarrow> (string \<times> string) option" where
  "parse_str [] = None"
| "parse_str (c # cs) =
     (if c = quote then Some ([], cs)
      else if of_char c < (32 :: nat) then None
      else if of_char c = (92 :: nat) then
        (case cs of
           [] \<Rightarrow> None
         | e # cs1 \<Rightarrow>
            if e = CHR ''u'' then
              (case cs1 of
                 a # b # d # f # cs2 \<Rightarrow>
                   (case (hex_val a, hex_val b, hex_val d, hex_val f) of
                      (Some x, Some y, Some z, Some w) \<Rightarrow>
                        map_option (\<lambda>(s, r). (utf8 (4096 * x + 256 * y + 16 * z + w) @ s, r)) (parse_str cs2)
                    | _ \<Rightarrow> None)
               | _ \<Rightarrow> None)
            else
              (case (if e = quote \<or> of_char e = (92 :: nat) \<or> e = CHR ''/'' then Some e
                     else if e = CHR ''n'' then Some (char_of (10 :: nat))
                     else if e = CHR ''r'' then Some (char_of (13 :: nat))
                     else if e = CHR ''t'' then Some (char_of (9 :: nat))
                     else if e = CHR ''b'' then Some (char_of (8 :: nat))
                     else if e = CHR ''f'' then Some (char_of (12 :: nat))
                     else None) of
                 None \<Rightarrow> None
               | Some x \<Rightarrow> map_option (\<lambda>(s, r). (x # s, r)) (parse_str cs1)))
      else map_option (\<lambda>(s, r). (c # s, r)) (parse_str cs))"

text \<open>An integer literal has no leading zero; a fraction or an exponent makes the
  literal one that is not interpreted.\<close>

definition num_tail :: "char \<Rightarrow> bool" where
  "num_tail c \<longleftrightarrow> is_digit c \<or> c \<in> {CHR ''.'', CHR ''e'', CHR ''E'', CHR ''+'', CHR ''-''}"

definition parse_num :: "string \<Rightarrow> (json \<times> string) option" where
  "parse_num s = (let neg = (s \<noteq> [] \<and> hd s = CHR ''-'');
       s1 = (if neg then tl s else s);
       ds = takeWhile is_digit s1;
       rest = dropWhile is_digit s1
     in if ds = [] \<or> (1 < length ds \<and> hd ds = CHR ''0'') then None
        else if rest \<noteq> [] \<and> hd rest \<in> {CHR ''.'', CHR ''e'', CHR ''E''} then
          Some (JFloat ((if neg then ''-'' else []) @ ds @ takeWhile num_tail rest), dropWhile num_tail rest)
        else Some (JNum (if neg then - int (digits_val ds) else int (digits_val ds)), rest))"

definition literal :: "string \<Rightarrow> json \<Rightarrow> string \<Rightarrow> (json \<times> string) option" where
  "literal w j s = (if take (length w) s = w then Some (j, drop (length w) s) else None)"

text \<open>The fuel bounds the nesting and the number of elements; the length of the text
  is enough.\<close>

fun parse_val :: "nat \<Rightarrow> string \<Rightarrow> (json \<times> string) option"
  and parse_elems :: "nat \<Rightarrow> string \<Rightarrow> (json list \<times> string) option"
  and parse_members :: "nat \<Rightarrow> string \<Rightarrow> ((string \<times> json) list \<times> string) option" where
  "parse_val 0 s = None"
| "parse_val (Suc n) s = (case skip_ws s of
     [] \<Rightarrow> None
   | c # cs \<Rightarrow>
      if c = quote then map_option (\<lambda>(x, r). (JStr x, r)) (parse_str cs)
      else if c = CHR ''['' then
        (case skip_ws cs of
           [] \<Rightarrow> None
         | d # ds \<Rightarrow> if d = CHR '']'' then Some (JArr [], ds)
             else map_option (\<lambda>(js, r). (JArr js, r)) (parse_elems n (d # ds)))
      else if c = CHR ''{'' then
        (case skip_ws cs of
           [] \<Rightarrow> None
         | d # ds \<Rightarrow> if d = CHR ''}'' then Some (JObj [], ds)
             else map_option (\<lambda>(ms, r). (JObj ms, r)) (parse_members n (d # ds)))
      else if c = CHR ''n'' then literal ''null'' JNull (c # cs)
      else if c = CHR ''t'' then literal ''true'' (JBool True) (c # cs)
      else if c = CHR ''f'' then literal ''false'' (JBool False) (c # cs)
      else parse_num (c # cs))"
| "parse_elems 0 s = None"
| "parse_elems (Suc n) s = (case parse_val n s of
     None \<Rightarrow> None
   | Some (j, r) \<Rightarrow> (case skip_ws r of
        [] \<Rightarrow> None
      | c # cs \<Rightarrow> if c = CHR '']'' then Some ([j], cs)
          else if c = CHR '','' then map_option (\<lambda>(js, r'). (j # js, r')) (parse_elems n cs)
          else None))"
| "parse_members 0 s = None"
| "parse_members (Suc n) s = (case skip_ws s of
     [] \<Rightarrow> None
   | q # qs \<Rightarrow> if q \<noteq> quote then None else (case parse_str qs of
        None \<Rightarrow> None
      | Some (k, r0) \<Rightarrow> (case skip_ws r0 of
           [] \<Rightarrow> None
         | col # r1 \<Rightarrow> if col \<noteq> CHR '':'' then None else (case parse_val n r1 of
              None \<Rightarrow> None
            | Some (j, r) \<Rightarrow> (case skip_ws r of
                 [] \<Rightarrow> None
               | c # cs \<Rightarrow> if c = CHR ''}'' then Some ([(k, j)], cs)
                   else if c = CHR '','' then
                     map_option (\<lambda>(ms, r'). ((k, j) # ms, r')) (parse_members n cs)
                   else None)))))"

definition json_parse :: "string \<Rightarrow> json option" where
  "json_parse s = (case parse_val (2 * length s) s of
     Some (j, r) \<Rightarrow> if skip_ws r = [] then Some j else None
   | None \<Rightarrow> None)"

section \<open>Strings and numbers are read back\<close>

definition ascii :: "string \<Rightarrow> bool" where
  "ascii s \<longleftrightarrow> (\<forall>c \<in> set s. of_char c < (128 :: nat))"

lemma ascii_simps [simp]: "ascii []" "ascii (c # s) \<longleftrightarrow> of_char c < (128 :: nat) \<and> ascii s"
  by (auto simp: ascii_def)

lemma char_eq_iff: "c = d \<longleftrightarrow> (of_char c :: nat) = of_char d"
  by (metis char_of_char)

lemma of_char_code: "n < 256 \<Longrightarrow> (of_char (char_of n) :: nat) = n"
  by simp

lemma of_char_quote [simp]: "(of_char quote :: nat) = 34"
  by (simp add: quote_def)

lemma hex_val_char: "d < 16 \<Longrightarrow> hex_val (hex_char d) = Some d"
  by (auto simp: hex_val_def hex_char_def Let_def)

lemma utf8_ascii: "n < 128 \<Longrightarrow> utf8 n = [char_of n]"
  by (auto simp: utf8_def Let_def)

lemma hex_val_zero [simp]: "hex_val (CHR ''0'') = Some 0"
  by code_simp

lemma parse_str_esc:
  assumes "of_char c < (128 :: nat)"
  shows "parse_str (esc_char c @ r) = map_option (\<lambda>(s, r'). (c # s, r')) (parse_str r)"
proof -
  define n where "n = (of_char c :: nat)"
  have c: "c = char_of n" and n: "n < 128" using assms by (simp_all add: n_def)
  consider "n = 34" | "n = 92" | "n = 10" | "n = 13" | "n = 9"
    | "n \<notin> {34, 92, 10, 13, 9}" "n < 32 \<or> n = 38 \<or> n = 60 \<or> n = 62"
    | "n \<notin> {34, 92}" "\<not> n < 32" "n \<notin> {38, 60, 62}" by auto
  then show ?thesis
  proof cases
    case 6
    then have "esc_char c = [char_of (92 :: nat), CHR ''u'', CHR ''0'', CHR ''0'', hex_char (n div 16), hex_char (n mod 16)]"
      by (simp add: esc_char_def n_def [symmetric])
    moreover have "16 * (n div 16) + n mod 16 = n" "n div 16 < 16" using n by auto
    ultimately show ?thesis
      using n by (simp add: hex_val_char utf8_ascii c quote_def)
  qed (use n in \<open>auto simp: esc_char_def c quote_def char_eq_iff\<close>)
qed

lemma parse_str_print: "ascii s \<Longrightarrow> parse_str (concat (map esc_char s) @ quote # r) = Some (s, r)"
proof (induction s)
  case (Cons c s)
  then have "parse_str (esc_char c @ (concat (map esc_char s) @ quote # r)) = Some (c # s, r)"
    by (subst parse_str_esc) simp_all
  then show ?case by simp
qed simp

lemma of_char_digit: "d < 10 \<Longrightarrow> (of_char (digit_char d) :: nat) = 48 + d"
  by (simp add: digit_char_def)

lemma is_digit_char: "d < 10 \<Longrightarrow> is_digit (digit_char d)"
  by (simp add: is_digit_def of_char_digit)

lemma dec_digits: "\<forall>c \<in> set (dec n). is_digit c"
proof (induction n rule: dec.induct)
  case (1 n)
  then show ?case by (subst dec.simps) (auto simp: is_digit_char)
qed

lemma dec_Cons: "\<exists>c cs. dec n = c # cs"
  by (subst dec.simps) (auto simp: neq_Nil_conv [symmetric])

lemma dec_hd: "n \<noteq> 0 \<Longrightarrow> hd (dec n) \<noteq> CHR ''0''"
proof (induction n rule: dec.induct)
  case (1 n)
  have "hd (dec (n div 10) @ xs) = hd (dec (n div 10))" for xs
    using dec_Cons [of "n div 10"] by auto
  moreover have "digit_char n \<noteq> CHR ''0''" if "n < 10"
    using that 1 of_char_digit [of n] by (auto simp: char_eq_iff)
  ultimately show ?case using 1 by (subst dec.simps) auto
qed

lemma digits_val_dec: "digits_val (dec n) = n"
proof (induction n rule: dec.induct)
  case (1 n)
  have "digits_val (ds @ [d]) = 10 * digits_val ds + (of_char d - 48)" for ds d
    by (simp add: digits_val_def)
  then show ?case using 1
    by (subst dec.simps) (simp add: of_char_digit digits_val_def)
qed

definition tail_ok :: "string \<Rightarrow> bool" where
  "tail_ok r \<longleftrightarrow> r = [] \<or> hd r \<in> {CHR '','', CHR '']'', CHR ''}''}"

lemma tail_okD: "tail_ok r \<Longrightarrow> takeWhile is_digit r = [] \<and> dropWhile is_digit r = r \<and>
    (r \<noteq> [] \<longrightarrow> hd r \<notin> {CHR ''.'', CHR ''e'', CHR ''E''})"
  by (cases r) (auto simp: tail_ok_def is_digit_def)

lemma parse_num_dec:
  assumes "tail_ok r"
  shows "parse_num (dec n @ r) = Some (JNum (int n), r)"
    "parse_num (CHR ''-'' # dec n @ r) = Some (JNum (- int n), r)"
proof -
  have tw: "takeWhile is_digit (dec n @ r) = dec n" "dropWhile is_digit (dec n @ r) = r"
    using dec_digits [of n] tail_okD [OF assms]
    by (simp_all add: takeWhile_append2 dropWhile_append2)
  obtain c cs where d: "dec n = c # cs" using dec_Cons by blast
  have "is_digit c" using dec_digits [of n] by (simp add: d)
  then have "c \<noteq> CHR ''-''" by (auto simp: is_digit_def)
  then have neg: "(dec n @ r \<noteq> [] \<and> hd (dec n @ r) = CHR ''-'') = False" by (simp add: d)
  have zero: "\<not> (1 < length (dec n) \<and> hd (dec n) = CHR ''0'')"
  proof (cases "n < 10")
    case True
    then show ?thesis by (simp add: dec.simps)
  next
    case False
    then show ?thesis using dec_hd [of n] by simp
  qed
  have ne: "dec n \<noteq> []" by (simp add: d)
  note rest = tail_okD [OF assms]
  show "parse_num (dec n @ r) = Some (JNum (int n), r)"
    unfolding parse_num_def Let_def neg if_False tw using ne zero rest
    by (auto simp: digits_val_dec)
  show "parse_num (CHR ''-'' # dec n @ r) = Some (JNum (- int n), r)"
    unfolding parse_num_def Let_def using ne zero rest tw by (auto simp: digits_val_dec)
qed

section \<open>Documents are read back\<close>

fun json_ok :: "json \<Rightarrow> bool" where
  "json_ok (JFloat s) = False"
| "json_ok (JStr s) = ascii s"
| "json_ok (JArr js) = (\<forall>j \<in> set js. json_ok j)"
| "json_ok (JObj ms) = (\<forall>(k, j) \<in> set ms. ascii k \<and> json_ok j)"
| "json_ok j = True"

fun vfuel :: "json \<Rightarrow> nat" and efuel :: "json list \<Rightarrow> nat" and mfuel :: "(string \<times> json) list \<Rightarrow> nat" where
  "vfuel (JArr js) = Suc (efuel js)"
| "vfuel (JObj ms) = Suc (mfuel ms)"
| "vfuel j = 1"
| "efuel [] = 0"
| "efuel (j # js) = Suc (max (vfuel j) (efuel js))"
| "mfuel [] = 0"
| "mfuel ((k, j) # ms) = Suc (max (vfuel j) (mfuel ms))"

lemma not_ws [simp]:
  "\<not> is_ws (CHR ''['')" "\<not> is_ws (CHR '']'')" "\<not> is_ws (CHR ''{'')" "\<not> is_ws (CHR ''}'')"
  "\<not> is_ws (CHR '','')" "\<not> is_ws (CHR '':'')" "\<not> is_ws quote" "\<not> is_ws (CHR ''n'')"
  "\<not> is_ws (CHR ''t'')" "\<not> is_ws (CHR ''f'')" "\<not> is_ws (CHR ''-'')"
  by (simp_all add: is_ws_def)

lemma quote_neq [simp]:
  "quote \<noteq> CHR ''[''" "quote \<noteq> CHR ''{''" "CHR ''['' \<noteq> quote" "CHR ''{'' \<noteq> quote" "quote \<noteq> CHR '']''"
  "quote \<noteq> CHR ''}''" "CHR ''n'' \<noteq> quote" "CHR ''t'' \<noteq> quote" "CHR ''f'' \<noteq> quote" "CHR ''-'' \<noteq> quote"
  by (simp_all add: char_eq_iff)

lemma print_start:
  "json_ok j \<Longrightarrow> \<exists>c cs. json_print j = c # cs \<and> \<not> is_ws c \<and> c \<noteq> CHR '']'' \<and> c \<noteq> CHR ''}''"
proof (cases j)
  case (JNum i)
  obtain c cs where d: "dec (nat i) = c # cs" using dec_Cons by blast
  have "is_digit c" using dec_digits [of "nat i"] by (simp add: d)
  then have "\<not> is_ws c \<and> c \<noteq> CHR '']'' \<and> c \<noteq> CHR ''}''" by (auto simp: is_digit_def is_ws_def)
  then show ?thesis using d by (auto simp: JNum)
qed (auto simp: print_str_def)

lemma skip_ws_Cons: "\<not> is_ws c \<Longrightarrow> skip_ws (c # cs) = c # cs"
  by (simp add: skip_ws_def)

lemma tail_ok_simps [simp]:
  "tail_ok []" "tail_ok (CHR '','' # r)" "tail_ok (CHR '']'' # r)" "tail_ok (CHR ''}'' # r)"
  by (simp_all add: tail_ok_def)

lemma parse_val_num:
  assumes "is_digit c" "n = Suc m"
  shows "parse_val n (c # cs) = parse_num (c # cs)"
proof -
  have "\<not> is_ws c" "c \<noteq> quote" "c \<notin> {CHR ''['', CHR ''{'', CHR ''n'', CHR ''t'', CHR ''f''}"
    using assms(1) by (auto simp: is_digit_def is_ws_def char_eq_iff)
  then show ?thesis by (simp add: assms(2) skip_ws_Cons)
qed

lemma parse_print_num:
  assumes "tail_ok r"
  shows "parse_val (Suc m) (json_print (JNum i) @ r) = Some (JNum i, r)"
proof (cases "i < 0")
  case True
  then show ?thesis using parse_num_dec(2) [OF assms, of "nat (- i)"] by (simp add: skip_ws_Cons)
next
  case False
  obtain c cs where d: "dec (nat i) = c # cs" using dec_Cons by blast
  have "is_digit c" using dec_digits [of "nat i"] by (simp add: d)
  then show ?thesis
    using False parse_num_dec(1) [OF assms, of "nat i"] parse_val_num [of c "Suc m" m] by (simp add: d)
qed

lemma skip_print: "json_ok j \<Longrightarrow> skip_ws (json_print j @ r) = json_print j @ r"
  using print_start [of j] by (auto simp: skip_ws_Cons)

lemma parse_print:
  "json_ok j \<Longrightarrow> tail_ok r \<Longrightarrow> vfuel j \<le> n \<Longrightarrow> parse_val n (json_print j @ r) = Some (j, r)"
  "js \<noteq> [] \<Longrightarrow> \<forall>j \<in> set js. json_ok j \<Longrightarrow> efuel js \<le> n \<Longrightarrow>
     parse_elems n (print_elems js @ CHR '']'' # r) = Some (js, r)"
  "ms \<noteq> [] \<Longrightarrow> \<forall>(k, j) \<in> set ms. ascii k \<and> json_ok j \<Longrightarrow> mfuel ms \<le> n \<Longrightarrow>
     parse_members n (print_members ms @ CHR ''}'' # r) = Some (ms, r)"
proof (induction j and js and ms arbitrary: n r and n r and n r
    rule: json_print_print_elems_print_members.induct)
  case (3 i)
  then show ?case using parse_print_num by (cases n) auto
next
  case (5 s)
  then show ?case using parse_str_print [of s r]
    by (cases n) (simp_all add: print_str_def skip_ws_Cons)
next
  case (6 js)
  obtain m where m: "n = Suc m" "efuel js \<le> m" using "6.prems" by (cases n) auto
  show ?case
  proof (cases js)
    case Nil
    then show ?thesis by (simp add: m skip_ws_Cons)
  next
    case (Cons j js')
    then have el: "parse_elems m (print_elems js @ CHR '']'' # r) = Some (js, r)"
      using 6 m by simp
    obtain c cs where c: "json_print j = c # cs" "\<not> is_ws c" "c \<noteq> CHR '']''"
      using print_start [of j] "6.prems"(1) Cons by auto
    obtain cs' where "print_elems js = c # cs'"
      using c(1) Cons by (cases js') auto
    then show ?thesis using el c by (simp add: m skip_ws_Cons)
  qed
next
  case (7 ms)
  obtain m where m: "n = Suc m" "mfuel ms \<le> m" using "7.prems" by (cases n) auto
  show ?case
  proof (cases ms)
    case Nil
    then show ?thesis by (simp add: m skip_ws_Cons)
  next
    case (Cons kj ms')
    then have el: "parse_members m (print_members ms @ CHR ''}'' # r) = Some (ms, r)"
      using 7 m by simp
    obtain k j where "kj = (k, j)" by force
    then obtain cs where "print_members ms = quote # cs"
      using Cons by (cases ms') (auto simp: print_str_def)
    then show ?thesis using el by (simp add: m skip_ws_Cons)
  qed
next
  case (9 j)
  then show ?case by (cases n) (auto simp: skip_ws_Cons)
next
  case (10 j v va)
  obtain m where m: "n = Suc m" "vfuel j \<le> m" "efuel (v # va) \<le> m" using "10.prems" by (cases n) auto
  have "parse_val m (json_print j @ CHR '','' # print_elems (v # va) @ CHR '']'' # r)
      = Some (j, CHR '','' # print_elems (v # va) @ CHR '']'' # r)"
    using 10 m by simp
  moreover have "parse_elems m (print_elems (v # va) @ CHR '']'' # r) = Some (v # va, r)"
    using 10 m by simp
  ultimately show ?case by (simp add: m skip_ws_Cons)
next
  case (12 k j)
  obtain m where m: "n = Suc m" "vfuel j \<le> m" using "12.prems" by (cases n) auto
  have v: "parse_val m (json_print j @ CHR ''}'' # r) = Some (j, CHR ''}'' # r)" using 12 m by simp
  have "parse_str (concat (map esc_char k) @ quote # CHR '':'' # json_print j @ CHR ''}'' # r)
      = Some (k, CHR '':'' # json_print j @ CHR ''}'' # r)"
    using parse_str_print 12 by simp
  then show ?case using v by (simp add: m skip_ws_Cons print_str_def)
next
  case (13 k j v va)
  obtain m where m: "n = Suc m" "vfuel j \<le> m" "mfuel (v # va) \<le> m"
    using "13.prems" by (cases n) auto
  let ?rest = "CHR '','' # print_members (v # va) @ CHR ''}'' # r"
  have v: "parse_val m (json_print j @ ?rest) = Some (j, ?rest)" using 13 m by simp
  have "parse_str (concat (map esc_char k) @ quote # CHR '':'' # json_print j @ ?rest)
      = Some (k, CHR '':'' # json_print j @ ?rest)"
    using parse_str_print 13 by simp
  moreover have "parse_members m (print_members (v # va) @ CHR ''}'' # r) = Some (v # va, r)"
    using 13 m by simp
  ultimately show ?case using v by (simp add: m skip_ws_Cons print_str_def)
qed (simp_all add: Suc_le_eq gr0_conv_Suc, auto simp: skip_ws_Cons literal_def)

lemma fuel_length:
  "json_ok j \<Longrightarrow> vfuel j \<le> length (json_print j)"
  "\<forall>j \<in> set js. json_ok j \<Longrightarrow> efuel js \<le> Suc (length (print_elems js))"
  "\<forall>(k, j) \<in> set ms. ascii k \<and> json_ok j \<Longrightarrow> mfuel ms \<le> Suc (length (print_members ms))"
proof (induction j and js and ms rule: json_print_print_elems_print_members.induct)
  case (3 i)
  then show ?case using dec_Cons [of "nat i"] by auto
qed (auto simp: print_str_def)

theorem json_parse_print:
  assumes "json_ok j"
  shows "json_parse (json_print j) = Some j"
proof -
  have "vfuel j \<le> 2 * length (json_print j)" using fuel_length(1) [OF assms] by simp
  then have "parse_val (2 * length (json_print j)) (json_print j @ []) = Some (j, [])"
    using parse_print(1) [OF assms] by (simp del: append_Nil2)
  then show ?thesis by (simp add: json_parse_def skip_ws_def)
qed

section \<open>Byte slices\<close>

text \<open>A byte slice is a base64 string (\<open>base64.StdEncoding\<close>); the decoder skips line
  breaks and ignores the unused bits of the last group.\<close>

definition b64_char :: "nat \<Rightarrow> char" where
  "b64_char n = (if n < 26 then char_of (65 + n) else if n < 52 then char_of (71 + n)
     else if n < 62 then char_of (n - 4) else if n = 62 then CHR ''+'' else CHR ''/'')"

definition b64_val :: "char \<Rightarrow> nat option" where
  "b64_val c = (let n = of_char c :: nat in
     if 65 \<le> n \<and> n \<le> 90 then Some (n - 65)
     else if 97 \<le> n \<and> n \<le> 122 then Some (n - 71)
     else if 48 \<le> n \<and> n \<le> 57 then Some (n + 4)
     else if n = 43 then Some 62 else if n = 47 then Some 63 else None)"

fun b64_enc :: "bytes \<Rightarrow> string" where
  "b64_enc [] = []"
| "b64_enc [a] = (let n = unat a * 65536 in
     [b64_char (n div 262144), b64_char (n div 4096 mod 64), CHR ''='', CHR ''=''])"
| "b64_enc [a, b] = (let n = unat a * 65536 + unat b * 256 in
     [b64_char (n div 262144), b64_char (n div 4096 mod 64), b64_char (n div 64 mod 64), CHR ''=''])"
| "b64_enc (a # b # c # r) = (let n = unat a * 65536 + unat b * 256 + unat c in
     [b64_char (n div 262144), b64_char (n div 4096 mod 64), b64_char (n div 64 mod 64), b64_char (n mod 64)]
     @ b64_enc r)"

fun b64_groups :: "string \<Rightarrow> bytes option" where
  "b64_groups [] = Some []"
| "b64_groups (p # q # r # s # rest) =
     (if s = CHR ''='' then
        (if rest \<noteq> [] then None
         else if r = CHR ''='' then
           (case (b64_val p, b64_val q) of
              (Some x, Some y) \<Rightarrow> Some [word_of_nat ((x * 262144 + y * 4096) div 65536)]
            | _ \<Rightarrow> None)
         else
           (case (b64_val p, b64_val q, b64_val r) of
              (Some x, Some y, Some z) \<Rightarrow> (let n = x * 262144 + y * 4096 + z * 64 in
                Some [word_of_nat (n div 65536), word_of_nat (n div 256 mod 256)])
            | _ \<Rightarrow> None))
      else
        (case (b64_val p, b64_val q, b64_val r, b64_val s) of
           (Some x, Some y, Some z, Some w) \<Rightarrow> (let n = x * 262144 + y * 4096 + z * 64 + w in
             map_option (\<lambda>bs. [word_of_nat (n div 65536), word_of_nat (n div 256 mod 256),
               word_of_nat (n mod 256)] @ bs) (b64_groups rest))
         | _ \<Rightarrow> None))"
| "b64_groups _ = None"

definition b64_dec :: "string \<Rightarrow> bytes option" where
  "b64_dec s = b64_groups (filter (\<lambda>c. (of_char c :: nat) \<notin> {10, 13}) s)"

lemma b64_val_char: "n < 64 \<Longrightarrow> b64_val (b64_char n) = Some n"
  by (auto simp: b64_val_def b64_char_def Let_def)

lemma b64_char_plain:
  "n < 64 \<Longrightarrow> b64_char n \<noteq> CHR ''='' \<and> (of_char (b64_char n) :: nat) < 128 \<and>
     (of_char (b64_char n) :: nat) \<notin> {10, 13}"
  by (auto simp: b64_char_def char_eq_iff)

lemma b64_regroup:
  fixes a b c :: nat
  assumes "a < 256" "b < 256" "c < 256" "n = a * 65536 + b * 256 + c"
  shows "n div 262144 * 262144 + n div 4096 mod 64 * 4096 + n div 64 mod 64 * 64 + n mod 64 = n"
    "n div 65536 = a" "n div 256 mod 256 = b" "n mod 256 = c" "n div 262144 < 64"
proof -
  show "n div 262144 * 262144 + n div 4096 mod 64 * 4096 + n div 64 mod 64 * 64 + n mod 64 = n"
  proof -
    have "n div 64 div 64 = n div 4096" "n div 4096 div 64 = n div 262144"
      by (simp_all add: div_mult2_eq [symmetric])
    then show ?thesis
      using div_mult_mod_eq [of n 64] div_mult_mod_eq [of "n div 64" 64] div_mult_mod_eq [of "n div 4096" 64]
      by linarith
  qed
  have n: "n = (a * 256 + b) * 256 + c" using assms(4) by simp
  show "n div 65536 = a" "n div 262144 < 64" using assms by simp_all
  have d: "n div 256 = a * 256 + b" using n assms(3) by simp
  show "n div 256 mod 256 = b" unfolding d using assms(2) by simp
  have "n mod 256 = n - n div 256 * 256" by (simp add: minus_div_mult_eq_mod)
  then show "n mod 256 = c" unfolding d using n by simp
qed

lemma unat_byte: "unat (b :: byte) < 256"
  by (rule order_less_le_trans [OF unsigned_less]) simp

lemma b64_groups_enc: "b64_groups (b64_enc bs) = Some bs"
proof (induction bs rule: b64_enc.induct)
  case (2 a)
  note g = b64_regroup [OF unat_byte [of a] _ _ refl, of 0 0]
  have "(unat a * 65536 div 262144 * 262144 + unat a * 65536 div 4096 mod 64 * 4096) div 65536 = unat a"
  proof -
    have "unat a * 65536 div 64 mod 64 = 0" "unat a * 65536 mod 64 = 0" by simp_all
    then show ?thesis using g(1,2) by simp
  qed
  then show ?case using g(5) by (simp add: b64_val_char Let_def)
next
  case (3 a b)
  note g = b64_regroup [OF unat_byte [of a] unat_byte [of b] _ refl, of 0]
  let ?n = "unat a * 65536 + unat b * 256"
  have "?n mod 64 = 0" by presburger
  then have "?n div 262144 * 262144 + ?n div 4096 mod 64 * 4096 + ?n div 64 mod 64 * 64 = ?n"
    using g(1) by simp
  moreover have "?n div 65536 = unat a" "?n div 256 mod 256 = unat b" "?n div 262144 < 64"
    using g(2,3,5) by simp_all
  moreover have "b64_char (?n div 64 mod 64) \<noteq> CHR ''=''" using b64_char_plain by simp
  ultimately show ?case by (simp add: b64_val_char Let_def)
next
  case (4 a b c r)
  note g = b64_regroup [OF unat_byte [of a] unat_byte [of b] unat_byte [of c] refl]
  let ?n = "unat a * 65536 + unat b * 256 + unat c"
  have "b64_char (?n mod 64) \<noteq> CHR ''=''" using b64_char_plain by simp
  then show ?case using g 4 by (simp add: b64_val_char Let_def)
qed simp

lemma b64_enc_plain: "c \<in> set (b64_enc bs) \<Longrightarrow> (of_char c :: nat) < 128 \<and> (of_char c :: nat) \<notin> {10, 13}"
proof (induction bs rule: b64_enc.induct)
  case (2 a)
  then show ?case using b64_char_plain b64_regroup(5) [OF unat_byte [of a] _ _ refl, of 0 0]
    by (auto simp: Let_def)
next
  case (3 a b)
  then show ?case using b64_char_plain b64_regroup(5) [OF unat_byte [of a] unat_byte [of b] _ refl, of 0]
    by (auto simp: Let_def)
next
  case (4 a b c r)
  then show ?case
    using b64_char_plain b64_regroup(5) [OF unat_byte [of a] unat_byte [of b] unat_byte [of c] refl]
    by (auto simp: Let_def)
qed simp

lemma b64_dec_enc [simp]: "b64_dec (b64_enc bs) = Some bs"
proof -
  have "filter (\<lambda>c. (of_char c :: nat) \<notin> {10, 13}) (b64_enc bs) = b64_enc bs"
    using b64_enc_plain by (auto simp: filter_id_conv)
  then show ?thesis by (simp add: b64_dec_def b64_groups_enc)
qed

lemma ascii_b64 [simp]: "ascii (b64_enc bs)"
  using b64_enc_plain by (auto simp: ascii_def)

section \<open>Fields of structs\<close>

definition char_of_byte :: "byte \<Rightarrow> char" where
  "char_of_byte b = char_of (unat b)"

definition bytes_str :: "bytes \<Rightarrow> string" where
  "bytes_str bs = map char_of_byte bs"

lemma bytes_str_bytes [simp]: "bytes_str (str_bytes s) = s"
proof -
  have "char_of_byte (byte_of_char c) = c" for c
    by (simp add: char_of_byte_def unat_byte_of_char)
  then show ?thesis by (simp add: bytes_str_def str_bytes_def map_idI)
qed

lemma str_bytes_str [simp]: "str_bytes (bytes_str b) = b"
proof -
  have "byte_of_char (char_of_byte x) = x" for x
    by (simp add: char_of_byte_def byte_of_char_def unat_byte)
  then show ?thesis by (simp add: bytes_str_def str_bytes_def map_idI)
qed

definition Marshal :: "json \<Rightarrow> bytes" where
  "Marshal j = str_bytes (json_print j)"

text \<open>An empty input, and so nil, is not a document.\<close>

definition Unmarshal :: "bytes option \<Rightarrow> error + json" where
  "Unmarshal b = (case json_parse (case b of None \<Rightarrow> [] | Some bs \<Rightarrow> bytes_str bs) of
     None \<Rightarrow> Inl ErrJson | Some j \<Rightarrow> Inr j)"

lemma Unmarshal_Marshal: "json_ok j \<Longrightarrow> Unmarshal (Some (Marshal j)) = Inr j"
  by (simp add: Unmarshal_def Marshal_def json_parse_print)

text \<open>
  A field is found by its name, in any case; the last of several members counts.
  A missing member and null leave the zero value.
\<close>

definition to_lower :: "char \<Rightarrow> char" where
  "to_lower c = (if 65 \<le> (of_char c :: nat) \<and> (of_char c :: nat) \<le> 90 then char_of (of_char c + (32 :: nat)) else c)"

definition field :: "string \<Rightarrow> (string \<times> json) list \<Rightarrow> json" where
  "field name ms = (case map_of (rev (map (\<lambda>(k, j). (map to_lower k, j)) ms)) (map to_lower name) of
     None \<Rightarrow> JNull | Some j \<Rightarrow> j)"

fun un_obj :: "json \<Rightarrow> error + (string \<times> json) list" where
  "un_obj (JObj ms) = Inr ms"
| "un_obj JNull = Inr []"
| "un_obj j = Inl ErrJson"

fun un_str :: "json \<Rightarrow> error + string" where
  "un_str (JStr s) = Inr s"
| "un_str JNull = Inr []"
| "un_str j = Inl ErrJson"

definition un_uint :: "nat \<Rightarrow> json \<Rightarrow> error + nat" where
  "un_uint w j = (case j of
     JNum i \<Rightarrow> if 0 \<le> i \<and> i < 2 ^ w then Inr (nat i) else Inl ErrJson
   | JNull \<Rightarrow> Inr 0
   | _ \<Rightarrow> Inl ErrJson)"

definition un_u64 :: "json \<Rightarrow> error + u64" where
  "un_u64 j = map_sum id word_of_nat (un_uint 64 j)"

definition un_byte :: "json \<Rightarrow> error + byte" where
  "un_byte j = map_sum id word_of_nat (un_uint 8 j)"

fun un_list :: "(json \<Rightarrow> error + 'a) \<Rightarrow> json list \<Rightarrow> error + 'a list" where
  "un_list f [] = Inr []"
| "un_list f (j # js) = (case f j of
     Inl err \<Rightarrow> Inl err
   | Inr x \<Rightarrow> (case un_list f js of Inl err \<Rightarrow> Inl err | Inr xs \<Rightarrow> Inr (x # xs)))"

text \<open>A nil slice is \<open>None\<close>. A byte slice is a base64 string or an array of numbers.\<close>

fun un_slice :: "(json \<Rightarrow> error + 'a) \<Rightarrow> json \<Rightarrow> error + 'a list option" where
  "un_slice f JNull = Inr None"
| "un_slice f (JArr js) = map_sum id Some (un_list f js)"
| "un_slice f j = Inl ErrJson"

fun un_bytes :: "json \<Rightarrow> error + bytes option" where
  "un_bytes (JStr s) = (case b64_dec s of None \<Rightarrow> Inl ErrJson | Some bs \<Rightarrow> Inr (Some bs))"
| "un_bytes j = un_slice un_byte j"

definition j_u64 :: "u64 \<Rightarrow> json" where
  "j_u64 w = JNum (uint w)"

definition j_byte :: "byte \<Rightarrow> json" where
  "j_byte w = JNum (uint w)"

definition j_bytes :: "bytes option \<Rightarrow> json" where
  "j_bytes b = (case b of None \<Rightarrow> JNull | Some bs \<Rightarrow> JStr (b64_enc bs))"

definition j_slice :: "('a \<Rightarrow> json) \<Rightarrow> 'a list option \<Rightarrow> json" where
  "j_slice f xs = (case xs of None \<Rightarrow> JNull | Some ys \<Rightarrow> JArr (map f ys))"

text \<open>Every field is read back.\<close>

lemma un_u64_j [simp]: "un_u64 (j_u64 w) = Inr w"
  using uint_lt2p [of w] by (simp add: un_u64_def j_u64_def un_uint_def)

lemma un_byte_j [simp]: "un_byte (j_byte w) = Inr w"
  using uint_lt2p [of w] by (simp add: un_byte_def j_byte_def un_uint_def)

lemma un_bytes_j [simp]: "un_bytes (j_bytes b) = Inr b"
  by (cases b) (simp_all add: j_bytes_def)

lemma un_list_map: "(\<And>x. x \<in> set xs \<Longrightarrow> f (g x) = Inr x) \<Longrightarrow> un_list f (map g xs) = Inr xs"
  by (induction xs) simp_all

lemma un_slice_j: "(\<And>x. f (g x) = Inr x) \<Longrightarrow> un_slice f (j_slice g xs) = Inr xs"
  by (cases xs) (simp_all add: j_slice_def un_list_map)

lemma json_ok_fields [simp]:
  "json_ok (j_u64 w)" "json_ok (j_byte b)" "json_ok (j_bytes bs)"
  by (auto simp: j_u64_def j_byte_def j_bytes_def split: option.splits)

lemma json_ok_slice: "(\<And>x. x \<in> set (case xs of None \<Rightarrow> [] | Some ys \<Rightarrow> ys) \<Longrightarrow> json_ok (g x)) \<Longrightarrow> json_ok (j_slice g xs)"
  by (auto simp: j_slice_def split: option.splits)

text \<open>
  Signed integers, big integers, pointers (nil is null) and maps with string keys,
  which are printed in the order of the keys and read entry by entry.
\<close>

fun un_int :: "json \<Rightarrow> error + int" where
  "un_int (JNum i) = (if - (2 ^ 63) \<le> i \<and> i < 2 ^ 63 then Inr i else Inl ErrJson)"
| "un_int JNull = Inr 0"
| "un_int j = Inl ErrJson"

fun un_big :: "json \<Rightarrow> error + int" where
  "un_big (JNum i) = Inr i"
| "un_big j = Inl ErrJson"

definition un_ptr :: "(json \<Rightarrow> error + 'a) \<Rightarrow> json \<Rightarrow> error + 'a option" where
  "un_ptr f j = (if j = JNull then Inr None else map_sum id Some (f j))"

definition j_ptr :: "('a \<Rightarrow> json) \<Rightarrow> 'a option \<Rightarrow> json" where
  "j_ptr g x = (case x of None \<Rightarrow> JNull | Some y \<Rightarrow> g y)"

fun un_entries :: "(json \<Rightarrow> error + 'a) \<Rightarrow> (string, 'a) gomap \<Rightarrow> (string \<times> json) list \<Rightarrow> error + (string, 'a) gomap" where
  "un_entries f m [] = Inr m"
| "un_entries f m ((k, j) # ms) = (case f j of Inl err \<Rightarrow> Inl err | Inr x \<Rightarrow> un_entries f (gm_set k x m) ms)"

fun un_map :: "(json \<Rightarrow> error + 'a) \<Rightarrow> json \<Rightarrow> error + (string, 'a) gomap option" where
  "un_map f JNull = Inr None"
| "un_map f (JObj ms) = map_sum id Some (un_entries f [] ms)"
| "un_map f j = Inl ErrJson"

definition j_map :: "('a \<Rightarrow> json) \<Rightarrow> (string, 'a) gomap option \<Rightarrow> json" where
  "j_map g m = (case m of None \<Rightarrow> JNull | Some kvs \<Rightarrow> JObj (map (\<lambda>(k, v). (k, g v)) kvs))"

lemma un_ptr_j: "(\<And>y. x = Some y \<Longrightarrow> f (g y) = Inr y \<and> g y \<noteq> JNull) \<Longrightarrow> un_ptr f (j_ptr g x) = Inr x"
  by (cases x) (auto simp: un_ptr_def j_ptr_def)

lemma un_entries_map:
  "(\<And>v. v \<in> snd ` set kvs \<Longrightarrow> f (g v) = Inr v) \<Longrightarrow>
     un_entries f m (map (\<lambda>(k, v). (k, g v)) kvs) = Inr (foldl (\<lambda>m (k, v). gm_set k v m) m kvs)"
  by (induction kvs arbitrary: m) auto

lemma un_map_j:
  assumes "case m of None \<Rightarrow> True | Some kvs \<Rightarrow> sorted_keys kvs"
    and "\<And>kvs v. m = Some kvs \<Longrightarrow> v \<in> snd ` set kvs \<Longrightarrow> f (g v) = Inr v"
  shows "un_map f (j_map g m) = Inr m"
  using assms by (cases m) (auto simp: j_map_def un_entries_map gm_rebuild)

lemma un_slice_j_mem:
  "(\<And>ys x. xs = Some ys \<Longrightarrow> x \<in> set ys \<Longrightarrow> f (g x) = Inr x) \<Longrightarrow> un_slice f (j_slice g xs) = Inr xs"
  by (cases xs) (simp_all add: j_slice_def un_list_map)

lemma json_ok_ptr: "(\<And>y. x = Some y \<Longrightarrow> json_ok (g y)) \<Longrightarrow> json_ok (j_ptr g x)"
  by (cases x) (simp_all add: j_ptr_def)

lemma json_ok_map:
  "(\<And>kvs k v. m = Some kvs \<Longrightarrow> (k, v) \<in> set kvs \<Longrightarrow> ascii k \<and> json_ok (g v)) \<Longrightarrow> json_ok (j_map g m)"
  by (cases m) (auto simp: j_map_def)

end
