(* ===== verification/Bytes_Store.thy ===== *)
theory Bytes_Store
  imports Ledger Json
begin

text \<open>
  The state store as the state components use it: its values are byte strings, the
  encodings of the components' data. The locale \<open>bytes_store\<close> adds to the contract of
  \<open>State_Store\<close> the rules by which the components' proofs step through writes; it
  holds of the ledger's store over any libraries that meet their contracts
  (\<open>ledger_bytes_store\<close>), and a store on an empty memory database is at hand for the
  witnesses (\<open>sample_open\<close>).
\<close>

text \<open>A step that may fail, and the rest that runs when it did not.\<close>

definition andThen :: "'s \<times> error option \<Rightarrow> ('s \<Rightarrow> 's \<times> error option) \<Rightarrow> 's \<times> error option" where
  "andThen r f = (case r of (s, Some err) \<Rightarrow> (s, Some err) | (s, None) \<Rightarrow> f s)"

lemma andThen_None [simp]: "andThen (s, None) f = f s"
  by (simp add: andThen_def)

locale bytes_store = state_store S data ok
  for S :: "('s, bytes) ss_ops" and data :: "'s \<Rightarrow> string \<Rightarrow> bytes \<rightharpoonup> bytes" and ok :: "'s \<Rightarrow> string \<Rightarrow> bool"
begin

text \<open>\<open>s'\<close> differs from \<open>s\<close> only in the data of the store \<open>n\<close>.\<close>

definition changes :: "'s \<Rightarrow> string \<Rightarrow> 's \<Rightarrow> bool" where
  "changes s n s' \<longleftrightarrow> (\<forall>n'. ok s' n' \<longleftrightarrow> ok s n') \<and> (\<forall>n'. ok s n' \<and> n' \<noteq> n \<longrightarrow> data s' n' = data s n')"

lemma changes_refl: "changes s n s"
  by (simp add: changes_def)

lemma changes_trans: "changes s n s' \<Longrightarrow> changes s' n s'' \<Longrightarrow> changes s n s''"
  by (simp add: changes_def)

lemma changes_ok: "changes s n s' \<Longrightarrow> ok s n' \<Longrightarrow> ok s' n'"
  by (simp add: changes_def)

lemma writeE:
  assumes "ok s n" "k \<noteq> []"
  obtains s' where "SS_Put S s n k (Some v) = (s', None)" "changes s n s'" "data s' n = (data s n)(k \<mapsto> v)"
proof -
  have "changes s n (fst (SS_Put S s n k (Some v)))"
    using assms by (auto simp: changes_def Put_ok Put_data)
  then show thesis
    using that [of "fst (SS_Put S s n k (Some v))"] assms Put_eq [OF assms, of v] Put_data [OF assms assms(1), of v] by simp
qed

lemma updateE:
  assumes "ok s n" "k \<noteq> []"
  obtains s' where "SS_Update S s n k (Some v) = (s', None)" "changes s n s'" "data s' n = (data s n)(k \<mapsto> v)"
  using writeE [OF assms] Update_Put [OF assms(1)] by metis

lemma deleteE:
  assumes "ok s n" "k \<noteq> []"
  obtains s' where "SS_Delete S s n k = (s', None)" "changes s n s'" "data s' n = (data s n)(k := None)"
proof -
  have "changes s n (fst (SS_Delete S s n k))"
    using assms by (auto simp: changes_def Delete_ok Delete_data)
  then show thesis
    using that [of "fst (SS_Delete S s n k)"] assms Delete_err [OF assms] Delete_data [OF assms assms(1)]
    by (simp add: prod_eq_iff)
qed

end

section \<open>Stores of encoded values\<close>

text \<open>The data of a store that holds the encoding of each value of a map under its name.\<close>

definition enc_map :: "('a \<Rightarrow> bytes) \<Rightarrow> (string \<rightharpoonup> 'a) \<Rightarrow> bytes \<rightharpoonup> bytes" where
  "enc_map enc m k = map_option enc (m (bytes_str k))"

lemma enc_map_str [simp]: "enc_map enc m (str_bytes i) = map_option enc (m i)"
  by (simp add: enc_map_def)

lemma enc_map_upd: "(enc_map enc m)(str_bytes i \<mapsto> enc x) = enc_map enc (m(i \<mapsto> x))"
proof
  fix k show "((enc_map enc m)(str_bytes i \<mapsto> enc x)) k = enc_map enc (m(i \<mapsto> x)) k"
    by (auto simp: enc_map_def)
qed

lemma enc_map_empty [simp]: "enc_map enc Map.empty = Map.empty"
  by (simp add: enc_map_def fun_eq_iff)

lemma enc_map_mem: "enc_map enc m k = Some v \<longleftrightarrow> (\<exists>i x. k = str_bytes i \<and> m i = Some x \<and> v = enc x)"
  by (auto simp: enc_map_def) (metis str_bytes_str)

section \<open>The ledger as a store of bytes\<close>

lemma ledger_bytes_store:
  fixes B :: "('t, bytes) btree_ops"
  assumes "ledger_libs B M" shows "bytes_store (ledger_ops B M) (ledger_data B) (ledger_ok B)"
  using ledger_libs.ledger_contract [OF assms] by (simp add: bytes_store_def)

interpretation bytes_ledger: bytes_store "ledger_ops rbt_ops (flat_smt h r0)" "ledger_data rbt_ops" "ledger_ok rbt_ops"
  for h :: "bytes \<Rightarrow> bytes \<Rightarrow> bytes option \<Rightarrow> bytes" and r0 :: bytes
  by (rule ledger_bytes_store) unfold_locales

definition mixb :: "bytes \<Rightarrow> bytes \<Rightarrow> bytes option \<Rightarrow> bytes" where
  "mixb r k v = k @ (case v of None \<Rightarrow> [] | Some x \<Rightarrow> x)"

abbreviation sample_bytes_smt :: "((bytes, bytes) rbt memdb \<times> (bytes, bytes) rbt dbTxn, bytes, bytes) smt_ops" where
  "sample_bytes_smt \<equiv> flat_smt mixb [7]"

definition sample_open :: "string list \<Rightarrow> ((bytes, bytes) rbt, bytes) stateStore" where
  "sample_open names = (case NewStateStore (NewMemDBBackend rbt_ops) Flag_ReadWrite of
     Inr s \<Rightarrow> open_named rbt_ops sample_bytes_smt names s)"

lemma sample_libs: "ledger_libs rbt_ops sample_bytes_smt"
  by unfold_locales

lemma sample_open_ok:
  assumes "\<forall>n \<in> set names. name_ok n"
  shows "\<forall>n \<in> set names. ledger_ok rbt_ops (sample_open names) n \<and> ledger_data rbt_ops (sample_open names) n = Map.empty"
proof -
  obtain s :: "((bytes, bytes) rbt, bytes) stateStore"
    where s: "NewStateStore (NewMemDBBackend rbt_ops) Flag_ReadWrite = Inr s" "store_open rbt_ops s"
      "\<forall>n. ledger_data rbt_ops s n = Map.empty"
    by (rule NewStateStore_empty [OF rbt.btree_axioms])
  show ?thesis using open_named_ok(2,3) [OF sample_libs s(2) assms] s(1,3) assms by (simp add: sample_open_def)
qed

end
