(* ===== verification/Node_State.thy ===== *)
theory Node_State
  imports Bytes_Store
begin

text \<open>
  The registry of nodes (\<open>src/state/node\<close>): a store of nodes with their total
  weight (\<open>common.go\<close>), one for the active executors, the active proposers, the
  active validators and the inactive nodes, and the registry that assigns a node
  to one of them by its role and state (\<open>node.go\<close>).

  Every operation takes the operations \<open>S\<close> of the state store; the lemmas are
  proved in the locale \<open>bytes_store\<close>, from its contract alone.
\<close>

section \<open>Nodes\<close>

abbreviation NodeState_Unknown :: byte where "NodeState_Unknown \<equiv> 0"
abbreviation NodeState_Standby :: byte where "NodeState_Standby \<equiv> 1"
abbreviation NodeState_Active :: byte where "NodeState_Active \<equiv> 2"
abbreviation NodeState_Frozen :: byte where "NodeState_Frozen \<equiv> 3"

abbreviation NodeRole_Executor :: u64 where "NodeRole_Executor \<equiv> 0x01"
abbreviation NodeRole_Proposer :: u64 where "NodeRole_Proposer \<equiv> 0x02"
abbreviation NodeRole_Validator :: u64 where "NodeRole_Validator \<equiv> 0x04"

record NodeInfo =
  ni_NodeID :: string
  ni_Address :: string
  ni_Weight :: u64
  ni_DKGPartPubKey :: string
  ni_DKGPriShare :: "bytes option"
  ni_Role :: u64
  ni_State :: byte

definition j_NodeInfo :: "NodeInfo \<Rightarrow> json" where
  "j_NodeInfo ni = JObj [(''NodeID'', JStr (ni_NodeID ni)), (''Address'', JStr (ni_Address ni)),
     (''Weight'', j_u64 (ni_Weight ni)), (''DKGPartPubKey'', JStr (ni_DKGPartPubKey ni)),
     (''DKGPriShare'', j_bytes (ni_DKGPriShare ni)), (''Role'', j_u64 (ni_Role ni)),
     (''State'', j_byte (ni_State ni))]"

definition un_NodeInfo :: "json \<Rightarrow> error + NodeInfo" where
  "un_NodeInfo j = (case un_obj j of Inl err \<Rightarrow> Inl err | Inr ms \<Rightarrow>
     (case (un_str (field ''NodeID'' ms), un_str (field ''Address'' ms), un_u64 (field ''Weight'' ms),
            un_str (field ''DKGPartPubKey'' ms), un_bytes (field ''DKGPriShare'' ms),
            un_u64 (field ''Role'' ms), un_byte (field ''State'' ms)) of
        (Inr nid, Inr adr, Inr w, Inr pk, Inr ps, Inr r, Inr st) \<Rightarrow>
          Inr \<lparr>ni_NodeID = nid, ni_Address = adr, ni_Weight = w, ni_DKGPartPubKey = pk,
               ni_DKGPriShare = ps, ni_Role = r, ni_State = st\<rparr>
      | _ \<Rightarrow> Inl ErrJson))"

definition marshal_NodeInfo :: "NodeInfo \<Rightarrow> bytes" where
  "marshal_NodeInfo ni = Marshal (j_NodeInfo ni)"

definition unmarshal_NodeInfo :: "bytes option \<Rightarrow> error + NodeInfo" where
  "unmarshal_NodeInfo b = (case Unmarshal b of Inl err \<Rightarrow> Inl err | Inr j \<Rightarrow> un_NodeInfo j)"

definition marshal_strings :: "string list option \<Rightarrow> bytes" where
  "marshal_strings xs = Marshal (j_slice JStr xs)"

definition unmarshal_strings :: "bytes option \<Rightarrow> error + string list option" where
  "unmarshal_strings b = (case Unmarshal b of Inl err \<Rightarrow> Inl err | Inr j \<Rightarrow> un_slice un_str j)"

section \<open>A store of nodes\<close>

text \<open>The name of the store and its two reserved keys.\<close>

record node_cfg =
  nc_name :: string
  nc_ids :: string
  nc_weight :: string

definition isNodeExist :: "('s, bytes) ss_ops \<Rightarrow> 's \<Rightarrow> string \<Rightarrow> string \<Rightarrow> bool" where
  "isNodeExist S s name nodeID = (case SS_Exists S s name (str_bytes nodeID) of
     Inl err \<Rightarrow> False | Inr isExist \<Rightarrow> isExist)"

definition getNode :: "('s, bytes) ss_ops \<Rightarrow> 's \<Rightarrow> string \<Rightarrow> string \<Rightarrow> error + NodeInfo option" where
  "getNode S s name nodeID = (case SS_GetStateData S s name (str_bytes nodeID) of
     Inl err \<Rightarrow> Inl err
   | Inr None \<Rightarrow> Inr None
   | Inr (Some b) \<Rightarrow> map_sum id Some (unmarshal_NodeInfo (Some b)))"

text \<open>\<open>RemoveIfExistString\<close> returns nil when nothing is left.\<close>

definition RemoveIfExistString :: "string \<Rightarrow> string list \<Rightarrow> string list option" where
  "RemoveIfExistString target arr =
     (let rtn = filter (\<lambda>x. x \<noteq> target) arr in if rtn = [] then None else Some rtn)"

definition updateTotalIDs ::
  "('s, bytes) ss_ops \<Rightarrow> 's \<Rightarrow> string \<Rightarrow> string \<Rightarrow> string \<Rightarrow> bool \<Rightarrow> 's \<times> error option" where
  "updateTotalIDs S s name totalIDsKey nodeID isRemove =
     (case SS_GetStateData S s name (str_bytes totalIDsKey) of
        Inl err \<Rightarrow> (s, Some err)
      | Inr b \<Rightarrow> (case unmarshal_strings b of
           Inl err \<Rightarrow> (s, Some err)
         | Inr ids \<Rightarrow>
             let nodeIDs = (case ids of None \<Rightarrow> [] | Some xs \<Rightarrow> xs);
                 nodeIDs' = (if \<not> isRemove then Some (nodeIDs @ [nodeID])
                             else RemoveIfExistString nodeID nodeIDs)
             in SS_Update S s name (str_bytes totalIDsKey) (Some (marshal_strings nodeIDs'))))"

text \<open>
  The sum is taken in \<open>int64\<close>, where it wraps, and a negative result is replaced
  by 0. \<open>Uint64\<close> of the bytes panics on nil.
\<close>

definition updateTotalWeight ::
  "('s, bytes) ss_ops \<Rightarrow> 's \<Rightarrow> string \<Rightarrow> string \<Rightarrow> u64 \<Rightarrow> 's \<times> error option" where
  "updateTotalWeight S s name totalWeightKey deltaWeight =
     (case SS_GetStateData S s name (str_bytes totalWeightKey) of
        Inl err \<Rightarrow> (s, Some err)
      | Inr b \<Rightarrow> (case be_get (case b of None \<Rightarrow> [] | Some bs \<Rightarrow> bs) of
           Inl err \<Rightarrow> (s, Some err)
         | Inr curTotalWeight \<Rightarrow>
             let sum = curTotalWeight + deltaWeight;
                 finalTotalWeight = (if sint sum < 0 then 0 else sum)
             in SS_Update S s name (str_bytes totalWeightKey) (Some (be_put finalTotalWeight))))"

definition addNode ::
  "('s, bytes) ss_ops \<Rightarrow> 's \<Rightarrow> string \<Rightarrow> string \<Rightarrow> string \<Rightarrow> NodeInfo option \<Rightarrow> 's \<times> error option" where
  "addNode S s name totalNodeIDsKey toalWeightKey nodeInfo = (case nodeInfo of
     None \<Rightarrow> (s, Some (ErrNil ''Nil node info''))
   | Some ni \<Rightarrow>
       andThen (SS_Put S s name (str_bytes (ni_NodeID ni)) (Some (marshal_NodeInfo ni))) (\<lambda>s1.
       andThen
         (if isNodeExist S s1 name totalNodeIDsKey
          then updateTotalIDs S s1 name totalNodeIDsKey (ni_NodeID ni) False
          else SS_Put S s1 name (str_bytes totalNodeIDsKey) (Some (marshal_strings (Some [ni_NodeID ni]))))
         (\<lambda>s2.
       if isNodeExist S s2 name toalWeightKey
       then updateTotalWeight S s2 name toalWeightKey (ni_Weight ni)
       else SS_Put S s2 name (str_bytes toalWeightKey) (Some (be_put (ni_Weight ni))))))"

text \<open>A node that is not stored is a nil pointer, which the code dereferences.\<close>

definition updateWeight ::
  "('s, bytes) ss_ops \<Rightarrow> 's \<Rightarrow> string \<Rightarrow> string \<Rightarrow> string \<Rightarrow> u64 \<Rightarrow> 's \<times> error option" where
  "updateWeight S s name nodeID totalWeightKey weight = (case getNode S s name nodeID of
     Inl err \<Rightarrow> (s, Some err)
   | Inr None \<Rightarrow> (s, Some (Panic ''nil pointer dereference''))
   | Inr (Some ni) \<Rightarrow>
       let deltaWeight = weight - ni_Weight ni in
       andThen (SS_Update S s name (str_bytes (ni_NodeID ni)) (Some (marshal_NodeInfo (ni\<lparr>ni_Weight := weight\<rparr>))))
         (\<lambda>s1. updateTotalWeight S s1 name totalWeightKey deltaWeight))"

definition updateDKGPartPubKey ::
  "('s, bytes) ss_ops \<Rightarrow> 's \<Rightarrow> string \<Rightarrow> string \<Rightarrow> string \<Rightarrow> 's \<times> error option" where
  "updateDKGPartPubKey S s name nodeID pubKey = (case getNode S s name nodeID of
     Inl err \<Rightarrow> (s, Some err)
   | Inr None \<Rightarrow> (s, Some (Panic ''nil pointer dereference''))
   | Inr (Some ni) \<Rightarrow>
       SS_Update S s name (str_bytes (ni_NodeID ni)) (Some (marshal_NodeInfo (ni\<lparr>ni_DKGPartPubKey := pubKey\<rparr>))))"

definition updateDKGPriShare ::
  "('s, bytes) ss_ops \<Rightarrow> 's \<Rightarrow> string \<Rightarrow> string \<Rightarrow> bytes option \<Rightarrow> 's \<times> error option" where
  "updateDKGPriShare S s name nodeID priShare = (case getNode S s name nodeID of
     Inl err \<Rightarrow> (s, Some err)
   | Inr None \<Rightarrow> (s, Some (Panic ''nil pointer dereference''))
   | Inr (Some ni) \<Rightarrow>
       SS_Update S s name (str_bytes (ni_NodeID ni)) (Some (marshal_NodeInfo (ni\<lparr>ni_DKGPriShare := priShare\<rparr>))))"

definition removeNode ::
  "('s, bytes) ss_ops \<Rightarrow> 's \<Rightarrow> string \<Rightarrow> string \<Rightarrow> string \<Rightarrow> string \<Rightarrow> u64 \<Rightarrow> 's \<times> error option" where
  "removeNode S s name totalNodeIDsKey toalWeightKey nodeID weight =
     andThen (SS_Delete S s name (str_bytes nodeID)) (\<lambda>s1.
     andThen
       (if isNodeExist S s1 name totalNodeIDsKey
        then updateTotalIDs S s1 name totalNodeIDsKey nodeID True else (s1, None)) (\<lambda>s2.
     if isNodeExist S s2 name toalWeightKey
     then updateTotalWeight S s2 name toalWeightKey (- weight) else (s2, None)))"

section \<open>The operations of one kind of node\<close>

definition ns_Root :: "('s, bytes) ss_ops \<Rightarrow> node_cfg \<Rightarrow> 's \<Rightarrow> error + bytes" where
  "ns_Root S cfg s = SS_Root S s (nc_name cfg)"

definition ns_GetIDs :: "('s, bytes) ss_ops \<Rightarrow> node_cfg \<Rightarrow> 's \<Rightarrow> error + string list option" where
  "ns_GetIDs S cfg s = (case SS_GetStateData S s (nc_name cfg) (str_bytes (nc_ids cfg)) of
     Inl err \<Rightarrow> Inl err
   | Inr None \<Rightarrow> Inr None
   | Inr (Some b) \<Rightarrow> unmarshal_strings (Some b))"

definition ns_GetTotalWeight :: "('s, bytes) ss_ops \<Rightarrow> node_cfg \<Rightarrow> 's \<Rightarrow> error + u64" where
  "ns_GetTotalWeight S cfg s = (case SS_GetStateData S s (nc_name cfg) (str_bytes (nc_weight cfg)) of
     Inl err \<Rightarrow> Inl err
   | Inr None \<Rightarrow> Inr 0
   | Inr (Some b) \<Rightarrow> be_get b)"

fun ns_GetAll_loop :: "node_cfg \<Rightarrow> (bytes \<times> bytes) list \<Rightarrow> error + NodeInfo list" where
  "ns_GetAll_loop cfg [] = Inr []"
| "ns_GetAll_loop cfg ((key, val) # rest) =
     (if key = str_bytes (nc_ids cfg) \<or> key = str_bytes (nc_weight cfg) then ns_GetAll_loop cfg rest
      else case unmarshal_NodeInfo (Some val) of
        Inl err \<Rightarrow> Inl err
      | Inr ni \<Rightarrow> (case ns_GetAll_loop cfg rest of Inl err \<Rightarrow> Inl err | Inr nodes \<Rightarrow> Inr (ni # nodes)))"

definition ns_GetAll :: "('s, bytes) ss_ops \<Rightarrow> node_cfg \<Rightarrow> 's \<Rightarrow> error + NodeInfo list" where
  "ns_GetAll S cfg s = (case SS_GetAllStateData S s (nc_name cfg) of
     Inl err \<Rightarrow> Inl err
   | Inr (keys, vals) \<Rightarrow>
       if length keys \<noteq> length vals then Inl (ErrOther ''Invalid keys' len'')
       else ns_GetAll_loop cfg (zip keys vals))"

definition ns_add :: "('s, bytes) ss_ops \<Rightarrow> node_cfg \<Rightarrow> 's \<Rightarrow> NodeInfo option \<Rightarrow> 's \<times> error option" where
  "ns_add S cfg s ni = addNode S s (nc_name cfg) (nc_ids cfg) (nc_weight cfg) ni"

definition ns_updateWeight :: "('s, bytes) ss_ops \<Rightarrow> node_cfg \<Rightarrow> 's \<Rightarrow> string \<Rightarrow> u64 \<Rightarrow> 's \<times> error option" where
  "ns_updateWeight S cfg s nodeID weight = updateWeight S s (nc_name cfg) nodeID (nc_weight cfg) weight"

text \<open>An error of the lookup ends the removal without an error.\<close>

definition ns_remove :: "('s, bytes) ss_ops \<Rightarrow> node_cfg \<Rightarrow> 's \<Rightarrow> string \<Rightarrow> 's \<times> error option" where
  "ns_remove S cfg s nodeID = (case getNode S s (nc_name cfg) nodeID of
     Inl err \<Rightarrow> (s, None)
   | Inr None \<Rightarrow> (s, None)
   | Inr (Some ni) \<Rightarrow> removeNode S s (nc_name cfg) (nc_ids cfg) (nc_weight cfg) nodeID (ni_Weight ni))"

definition cfg_Executor :: node_cfg where
  "cfg_Executor = \<lparr>nc_name = ''executor'', nc_ids = ''totalaenodeids'', nc_weight = ''totalaeweight''\<rparr>"

definition cfg_Proposer :: node_cfg where
  "cfg_Proposer = \<lparr>nc_name = ''proposer'', nc_ids = ''totalapnodeids'', nc_weight = ''totalapweight''\<rparr>"

definition cfg_Validator :: node_cfg where
  "cfg_Validator = \<lparr>nc_name = ''validator'', nc_ids = ''totalavnodeids'', nc_weight = ''totalavweight''\<rparr>"

definition cfg_Inactive :: node_cfg where
  "cfg_Inactive = \<lparr>nc_name = ''nodeinactive'', nc_ids = ''totalinnodeids'', nc_weight = ''totalinweight''\<rparr>"

section \<open>Nodes are read back\<close>

definition node_ascii :: "NodeInfo \<Rightarrow> bool" where
  "node_ascii ni \<longleftrightarrow> ascii (ni_NodeID ni) \<and> ascii (ni_Address ni) \<and> ascii (ni_DKGPartPubKey ni)"

lemma fields_NodeInfo:
  "field ''NodeID'' [(''NodeID'', a), (''Address'', b), (''Weight'', c), (''DKGPartPubKey'', d), (''DKGPriShare'', e), (''Role'', f), (''State'', g)] = a"
  "field ''Address'' [(''NodeID'', a), (''Address'', b), (''Weight'', c), (''DKGPartPubKey'', d), (''DKGPriShare'', e), (''Role'', f), (''State'', g)] = b"
  "field ''Weight'' [(''NodeID'', a), (''Address'', b), (''Weight'', c), (''DKGPartPubKey'', d), (''DKGPriShare'', e), (''Role'', f), (''State'', g)] = c"
  "field ''DKGPartPubKey'' [(''NodeID'', a), (''Address'', b), (''Weight'', c), (''DKGPartPubKey'', d), (''DKGPriShare'', e), (''Role'', f), (''State'', g)] = d"
  "field ''DKGPriShare'' [(''NodeID'', a), (''Address'', b), (''Weight'', c), (''DKGPartPubKey'', d), (''DKGPriShare'', e), (''Role'', f), (''State'', g)] = e"
  "field ''Role'' [(''NodeID'', a), (''Address'', b), (''Weight'', c), (''DKGPartPubKey'', d), (''DKGPriShare'', e), (''Role'', f), (''State'', g)] = f"
  "field ''State'' [(''NodeID'', a), (''Address'', b), (''Weight'', c), (''DKGPartPubKey'', d), (''DKGPriShare'', e), (''Role'', f), (''State'', g)] = g"
  by (simp_all add: field_def to_lower_def)

lemma un_NodeInfo_j: "un_NodeInfo (j_NodeInfo ni) = Inr ni"
  by (simp add: un_NodeInfo_def j_NodeInfo_def fields_NodeInfo)

lemma unmarshal_NodeInfo_marshal: "node_ascii ni \<Longrightarrow> unmarshal_NodeInfo (Some (marshal_NodeInfo ni)) = Inr ni"
proof -
  assume "node_ascii ni"
  then have "json_ok (j_NodeInfo ni)" by (simp add: j_NodeInfo_def node_ascii_def)
  then show ?thesis
    by (simp add: unmarshal_NodeInfo_def marshal_NodeInfo_def Unmarshal_Marshal un_NodeInfo_j)
qed

lemma unmarshal_strings_marshal:
  "(case xs of None \<Rightarrow> True | Some ys \<Rightarrow> list_all ascii ys) \<Longrightarrow> unmarshal_strings (Some (marshal_strings xs)) = Inr xs"
proof -
  assume "case xs of None \<Rightarrow> True | Some ys \<Rightarrow> list_all ascii ys"
  then have "json_ok (j_slice JStr xs)"
    by (intro json_ok_slice) (auto simp: list_all_iff split: option.splits)
  then show ?thesis
    by (simp add: unmarshal_strings_def marshal_strings_def Unmarshal_Marshal un_slice_j)
qed

lemma sint_u64_of_nat: "n < 2 ^ 63 \<Longrightarrow> sint (word_of_nat n :: u64) = int n"
  by (simp add: signed_of_nat signed_take_bit_int_eq_self_iff)

section \<open>What a store of nodes represents\<close>

definition cfg_ok :: "node_cfg \<Rightarrow> bool" where
  "cfg_ok cfg \<longleftrightarrow> nc_ids cfg \<noteq> [] \<and> nc_weight cfg \<noteq> [] \<and> nc_ids cfg \<noteq> nc_weight cfg"

definition node_ok :: "node_cfg \<Rightarrow> NodeInfo \<Rightarrow> bool" where
  "node_ok cfg ni \<longleftrightarrow> node_ascii ni \<and> ni_NodeID ni \<notin> {[], nc_ids cfg, nc_weight cfg}"

definition total_weight :: "NodeInfo list \<Rightarrow> nat" where
  "total_weight nodes = sum_list (map (unat \<circ> ni_Weight) nodes)"

definition node_repr :: "node_cfg \<Rightarrow> (bytes \<rightharpoonup> bytes) \<Rightarrow> NodeInfo list \<Rightarrow> bool" where
  "node_repr cfg f nodes \<longleftrightarrow>
     distinct (map ni_NodeID nodes) \<and> list_all (node_ok cfg) nodes \<and> total_weight nodes < 2 ^ 63 \<and>
     (\<forall>ni \<in> set nodes. f (str_bytes (ni_NodeID ni)) = Some (marshal_NodeInfo ni)) \<and>
     (\<forall>k. k \<notin> str_bytes ` (ni_NodeID ` set nodes \<union> {nc_ids cfg, nc_weight cfg}) \<longrightarrow> f k = None) \<and>
     (case f (str_bytes (nc_ids cfg)) of
        None \<Rightarrow> nodes = []
      | Some b \<Rightarrow> b = marshal_strings (if nodes = [] then None else Some (map ni_NodeID nodes))) \<and>
     (case f (str_bytes (nc_weight cfg)) of
        None \<Rightarrow> nodes = []
      | Some b \<Rightarrow> b = be_put (word_of_nat (total_weight nodes)))"

lemma total_weight_simps [simp]:
  "total_weight [] = 0" "total_weight (ni # nodes) = unat (ni_Weight ni) + total_weight nodes"
  "total_weight (xs @ ys) = total_weight xs + total_weight ys"
  by (simp_all add: total_weight_def)

text \<open>The nodes of a store with one of them replaced or removed.\<close>

definition replace_node :: "NodeInfo \<Rightarrow> NodeInfo list \<Rightarrow> NodeInfo list" where
  "replace_node ni nodes = map (\<lambda>x. if ni_NodeID x = ni_NodeID ni then ni else x) nodes"

definition drop_node :: "string \<Rightarrow> NodeInfo list \<Rightarrow> NodeInfo list" where
  "drop_node nodeID nodes = filter (\<lambda>x. ni_NodeID x \<noteq> nodeID) nodes"

lemma total_split:
  assumes "distinct (map ni_NodeID nodes)" "ni \<in> set nodes"
  shows "total_weight (drop_node (ni_NodeID ni) nodes) + unat (ni_Weight ni) = total_weight nodes"
    and "total_weight (replace_node (ni\<lparr>ni_Weight := w\<rparr>) nodes) + unat (ni_Weight ni) = total_weight nodes + unat w"
proof -
  obtain xs ys where nodes: "nodes = xs @ ni # ys" using assms(2) by (auto simp: in_set_conv_decomp)
  have other: "ni_NodeID x \<noteq> ni_NodeID ni" if "x \<in> set xs \<union> set ys" for x
    using assms(1) that by (auto simp: nodes rev_image_eqI)
  have id: "filter (\<lambda>x. ni_NodeID x \<noteq> ni_NodeID ni) xs = xs" "filter (\<lambda>x. ni_NodeID x \<noteq> ni_NodeID ni) ys = ys"
    using other by (auto simp: filter_id_conv)
  have "map (\<lambda>x. if ni_NodeID x = ni_NodeID ni then ni\<lparr>ni_Weight := w\<rparr> else x) xs = xs"
    "map (\<lambda>x. if ni_NodeID x = ni_NodeID ni then ni\<lparr>ni_Weight := w\<rparr> else x) ys = ys"
    using other by (auto intro!: map_idI)
  then show "total_weight (drop_node (ni_NodeID ni) nodes) + unat (ni_Weight ni) = total_weight nodes"
    "total_weight (replace_node (ni\<lparr>ni_Weight := w\<rparr>) nodes) + unat (ni_Weight ni) = total_weight nodes + unat w"
    using id by (simp_all add: nodes drop_node_def replace_node_def)
qed

lemma find_distinct:
  "distinct (map ni_NodeID nodes) \<Longrightarrow> ni \<in> set nodes \<Longrightarrow> find (\<lambda>x. ni_NodeID x = ni_NodeID ni) nodes = Some ni"
  by (induction nodes) (auto simp: rev_image_eqI)

lemma ids_replace [simp]: "map ni_NodeID (replace_node ni nodes) = map ni_NodeID nodes"
  by (induction nodes) (simp_all add: replace_node_def)

lemma ids_drop: "map ni_NodeID (drop_node nodeID nodes) = filter (\<lambda>x. x \<noteq> nodeID) (map ni_NodeID nodes)"
  by (induction nodes) (simp_all add: drop_node_def)

lemma set_replace:
  "distinct (map ni_NodeID nodes) \<Longrightarrow> x \<in> set nodes \<Longrightarrow> ni_NodeID x = ni_NodeID ni \<Longrightarrow>
   set (replace_node ni nodes) = insert ni (set nodes - {x})"
  by (force simp: replace_node_def distinct_map inj_on_def)

section \<open>The operations act on the represented nodes\<close>

lemma str_bytes_image: "k \<notin> str_bytes ` A \<longleftrightarrow> bytes_str k \<notin> A"
  by (metis (no_types, lifting) bytes_str_bytes imageE image_eqI str_bytes_str)

lemma node_reprD:
  assumes "node_repr cfg f nodes"
  shows "distinct (map ni_NodeID nodes)" "list_all (node_ok cfg) nodes" "total_weight nodes < 2 ^ 63"
    "ni \<in> set nodes \<Longrightarrow> f (str_bytes (ni_NodeID ni)) = Some (marshal_NodeInfo ni)"
    "nid \<notin> ni_NodeID ` set nodes \<Longrightarrow> nid \<noteq> nc_ids cfg \<Longrightarrow> nid \<noteq> nc_weight cfg \<Longrightarrow> f (str_bytes nid) = None"
    "f (str_bytes (nc_ids cfg)) = Some b \<Longrightarrow>
       b = marshal_strings (if nodes = [] then None else Some (map ni_NodeID nodes))"
    "f (str_bytes (nc_ids cfg)) = None \<Longrightarrow> nodes = []"
    "f (str_bytes (nc_weight cfg)) = Some b \<Longrightarrow> b = be_put (word_of_nat (total_weight nodes))"
    "f (str_bytes (nc_weight cfg)) = None \<Longrightarrow> nodes = []"
  using assms by (auto simp: node_repr_def str_bytes_image split: option.splits)

text \<open>
  A map that agrees with the given nodes, identifiers and weight represents them.
\<close>

lemma node_reprI:
  assumes "distinct (map ni_NodeID nodes)" "list_all (node_ok cfg) nodes" "total_weight nodes < 2 ^ 63"
    and "\<And>ni. ni \<in> set nodes \<Longrightarrow> f (str_bytes (ni_NodeID ni)) = Some (marshal_NodeInfo ni)"
    and "\<And>nid. nid \<notin> ni_NodeID ` set nodes \<Longrightarrow> nid \<noteq> nc_ids cfg \<Longrightarrow> nid \<noteq> nc_weight cfg \<Longrightarrow> f (str_bytes nid) = None"
    and "f (str_bytes (nc_ids cfg)) = Some (marshal_strings (if nodes = [] then None else Some (map ni_NodeID nodes)))
       \<or> f (str_bytes (nc_ids cfg)) = None \<and> nodes = []"
    and "f (str_bytes (nc_weight cfg)) = Some (be_put (word_of_nat (total_weight nodes)))
       \<or> f (str_bytes (nc_weight cfg)) = None \<and> nodes = []"
  shows "node_repr cfg f nodes"
proof -
  have "f k = None" if "k \<notin> str_bytes ` (ni_NodeID ` set nodes \<union> {nc_ids cfg, nc_weight cfg})" for k
    using that assms(5) [of "bytes_str k"] unfolding str_bytes_image by auto
  then show ?thesis using assms(1-4,6,7) by (auto simp: node_repr_def)
qed

lemma node_repr_ids_ascii:
  "node_repr cfg f nodes \<Longrightarrow> list_all ascii (map ni_NodeID nodes)"
  using node_reprD(2) by (fastforce simp: list_all_iff node_ok_def node_ascii_def)

lemma node_repr_unmarshal_ids:
  assumes "node_repr cfg f nodes" "f (str_bytes (nc_ids cfg)) = Some b"
  shows "unmarshal_strings (Some b) = Inr (if nodes = [] then None else Some (map ni_NodeID nodes))"
  using node_reprD(6) [OF assms] node_repr_ids_ascii [OF assms(1)]
  by (simp add: unmarshal_strings_marshal)

context bytes_store
begin

lemma isNodeExist: "ok s n \<Longrightarrow> nid \<noteq> [] \<Longrightarrow> isNodeExist S s n nid \<longleftrightarrow> data s n (str_bytes nid) \<noteq> None"
  by (simp add: isNodeExist_def Exists)

lemma updateTotalIDsE:
  assumes "ok s n" "key \<noteq> []" "data s n (str_bytes key) = Some b" "unmarshal_strings (Some b) = Inr ids"
  obtains s' where "updateTotalIDs S s n key nid isRemove = (s', None)" "changes s n s'"
    "data s' n = (data s n)(str_bytes key \<mapsto> marshal_strings
       (if isRemove then RemoveIfExistString nid (case ids of None \<Rightarrow> [] | Some xs \<Rightarrow> xs)
        else Some ((case ids of None \<Rightarrow> [] | Some xs \<Rightarrow> xs) @ [nid])))"
proof -
  obtain s' where "SS_Update S s n (str_bytes key) (Some (marshal_strings
       (if isRemove then RemoveIfExistString nid (case ids of None \<Rightarrow> [] | Some xs \<Rightarrow> xs)
        else Some ((case ids of None \<Rightarrow> [] | Some xs \<Rightarrow> xs) @ [nid])))) = (s', None)" "changes s n s'"
    "data s' n = (data s n)(str_bytes key \<mapsto> marshal_strings
       (if isRemove then RemoveIfExistString nid (case ids of None \<Rightarrow> [] | Some xs \<Rightarrow> xs)
        else Some ((case ids of None \<Rightarrow> [] | Some xs \<Rightarrow> xs) @ [nid])))"
    using updateE [OF assms(1), of "str_bytes key"] assms(2) by (metis str_bytes_eq_Nil)
  then show thesis using that [of s'] assms
    by (simp add: updateTotalIDs_def GetStateData Let_def split: if_splits)
qed

lemma updateTotalWeightE:
  assumes "ok s n" "key \<noteq> []" "data s n (str_bytes key) = Some (be_put w)" "w + d = word_of_nat t" "t < 2 ^ 63"
  obtains s' where "updateTotalWeight S s n key d = (s', None)" "changes s n s'"
    "data s' n = (data s n)(str_bytes key \<mapsto> be_put (word_of_nat t))"
proof -
  obtain s' where "SS_Update S s n (str_bytes key) (Some (be_put (word_of_nat t))) = (s', None)" "changes s n s'"
    "data s' n = (data s n)(str_bytes key \<mapsto> be_put (word_of_nat t))"
    using updateE [OF assms(1), of "str_bytes key"] assms(2) by (metis str_bytes_eq_Nil)
  then show thesis using that [of s'] assms
    by (simp add: updateTotalWeight_def GetStateData Let_def sint_u64_of_nat)
qed

text \<open>Adding a node that is not stored yet.\<close>

lemma addNode_ids:
  assumes "ok s n" "nc_name cfg = n" "cfg_ok cfg" "node_repr cfg f nodes"
    and "data s n (str_bytes (nc_ids cfg)) = f (str_bytes (nc_ids cfg))"
  obtains s' where
    "(if isNodeExist S s n (nc_ids cfg) then updateTotalIDs S s n (nc_ids cfg) nid False
      else SS_Put S s n (str_bytes (nc_ids cfg)) (Some (marshal_strings (Some [nid])))) = (s', None)"
    "changes s n s'"
    "data s' n = (data s n)(str_bytes (nc_ids cfg) \<mapsto> marshal_strings (Some (map ni_NodeID nodes @ [nid])))"
proof (cases "f (str_bytes (nc_ids cfg))")
  case None
  have ne: "nc_ids cfg \<noteq> []" using assms(3) by (simp add: cfg_ok_def)
  obtain s' where "SS_Put S s n (str_bytes (nc_ids cfg)) (Some (marshal_strings (Some [nid]))) = (s', None)"
    "changes s n s'" "data s' n = (data s n)(str_bytes (nc_ids cfg) \<mapsto> marshal_strings (Some [nid]))"
    using writeE [OF assms(1), of "str_bytes (nc_ids cfg)"] ne by (metis str_bytes_eq_Nil)
  then show thesis
    using that [of s'] None assms(1,5) ne node_reprD(7) [OF assms(4) None] by (simp add: isNodeExist)
next
  case (Some b)
  have ne: "nc_ids cfg \<noteq> []" using assms(3) by (simp add: cfg_ok_def)
  have d: "data s n (str_bytes (nc_ids cfg)) = Some b" using Some assms(5) by simp
  obtain s' where s': "updateTotalIDs S s n (nc_ids cfg) nid False = (s', None)" "changes s n s'"
    "data s' n = (data s n)(str_bytes (nc_ids cfg) \<mapsto> marshal_strings (if False then
        RemoveIfExistString nid (case if nodes = [] then None else Some (map ni_NodeID nodes) of None \<Rightarrow> [] | Some xs \<Rightarrow> xs)
      else Some ((case if nodes = [] then None else Some (map ni_NodeID nodes) of None \<Rightarrow> [] | Some xs \<Rightarrow> xs) @ [nid])))"
    by (rule updateTotalIDsE [OF assms(1) ne d node_repr_unmarshal_ids [OF assms(4) Some]])
  show thesis
    by (rule that [of s']) (use s' d ne assms(1) in \<open>auto simp: isNodeExist\<close>)
qed

lemma addNode_weight:
  assumes "ok s n" "nc_name cfg = n" "cfg_ok cfg" "node_repr cfg f nodes"
    and "data s n (str_bytes (nc_weight cfg)) = f (str_bytes (nc_weight cfg))"
    and "total_weight nodes + unat w < 2 ^ 63"
  obtains s' where
    "(if isNodeExist S s n (nc_weight cfg) then updateTotalWeight S s n (nc_weight cfg) w
      else SS_Put S s n (str_bytes (nc_weight cfg)) (Some (be_put w))) = (s', None)"
    "changes s n s'"
    "data s' n = (data s n)(str_bytes (nc_weight cfg) \<mapsto> be_put (word_of_nat (total_weight nodes + unat w)))"
proof (cases "f (str_bytes (nc_weight cfg))")
  case None
  have ne: "nc_weight cfg \<noteq> []" using assms(3) by (simp add: cfg_ok_def)
  obtain s' where "SS_Put S s n (str_bytes (nc_weight cfg)) (Some (be_put w)) = (s', None)"
    "changes s n s'" "data s' n = (data s n)(str_bytes (nc_weight cfg) \<mapsto> be_put w)"
    using writeE [OF assms(1), of "str_bytes (nc_weight cfg)"] ne by (metis str_bytes_eq_Nil)
  then show thesis
    using that [of s'] None assms(1,5) ne node_reprD(9) [OF assms(4) None] by (simp add: isNodeExist)
next
  case (Some b)
  have ne: "nc_weight cfg \<noteq> []" using assms(3) by (simp add: cfg_ok_def)
  have d: "data s n (str_bytes (nc_weight cfg)) = Some (be_put (word_of_nat (total_weight nodes)))"
    using Some assms(5) node_reprD(8) [OF assms(4) Some] by simp
  obtain s' where s': "updateTotalWeight S s n (nc_weight cfg) w = (s', None)" "changes s n s'"
    "data s' n = (data s n)(str_bytes (nc_weight cfg) \<mapsto> be_put (word_of_nat (total_weight nodes + unat w)))"
    by (rule updateTotalWeightE [OF assms(1) ne d _ assms(6)]) simp
  show thesis
    by (rule that [of s']) (use s' d ne assms(1) in \<open>auto simp: isNodeExist\<close>)
qed

lemma ns_addE:
  assumes "ok s (nc_name cfg)" "cfg_ok cfg" "node_repr cfg (data s (nc_name cfg)) nodes"
    and "node_ok cfg ni" "total_weight nodes + unat (ni_Weight ni) < 2 ^ 63"
  obtains s' where "ns_add S cfg s (Some ni) = (s', None)" "changes s (nc_name cfg) s'"
    "data s' (nc_name cfg) = (data s (nc_name cfg))(str_bytes (ni_NodeID ni) \<mapsto> marshal_NodeInfo ni,
       str_bytes (nc_ids cfg) \<mapsto> marshal_strings (Some (map ni_NodeID nodes @ [ni_NodeID ni])),
       str_bytes (nc_weight cfg) \<mapsto> be_put (word_of_nat (total_weight nodes + unat (ni_Weight ni))))"
proof -
  let ?n = "nc_name cfg" and ?f = "data s (nc_name cfg)"
  have keys: "ni_NodeID ni \<noteq> []" "ni_NodeID ni \<noteq> nc_ids cfg" "ni_NodeID ni \<noteq> nc_weight cfg"
    "nc_ids cfg \<noteq> nc_weight cfg"
    using assms(2,4) by (auto simp: node_ok_def cfg_ok_def)
  obtain s1 where s1: "SS_Put S s ?n (str_bytes (ni_NodeID ni)) (Some (marshal_NodeInfo ni)) = (s1, None)"
    "changes s ?n s1" "data s1 ?n = ?f(str_bytes (ni_NodeID ni) \<mapsto> marshal_NodeInfo ni)"
    using writeE [OF assms(1), of "str_bytes (ni_NodeID ni)"] keys(1) by (metis str_bytes_eq_Nil)
  have ok1: "ok s1 ?n" using changes_ok [OF s1(2) assms(1)] .
  have d1: "data s1 ?n (str_bytes (nc_ids cfg)) = ?f (str_bytes (nc_ids cfg))" using keys by (simp add: s1(3))
  obtain s2 where s2: "(if isNodeExist S s1 ?n (nc_ids cfg) then updateTotalIDs S s1 ?n (nc_ids cfg) (ni_NodeID ni) False
      else SS_Put S s1 ?n (str_bytes (nc_ids cfg)) (Some (marshal_strings (Some [ni_NodeID ni])))) = (s2, None)"
    "changes s1 ?n s2"
    "data s2 ?n = (data s1 ?n)(str_bytes (nc_ids cfg) \<mapsto> marshal_strings (Some (map ni_NodeID nodes @ [ni_NodeID ni])))"
    by (rule addNode_ids [OF ok1 refl assms(2,3) d1])
  have ok2: "ok s2 ?n" using changes_ok [OF s2(2) ok1] .
  have d2: "data s2 ?n (str_bytes (nc_weight cfg)) = ?f (str_bytes (nc_weight cfg))"
    using keys by (simp add: s2(3) s1(3))
  obtain s3 where s3: "(if isNodeExist S s2 ?n (nc_weight cfg) then updateTotalWeight S s2 ?n (nc_weight cfg) (ni_Weight ni)
      else SS_Put S s2 ?n (str_bytes (nc_weight cfg)) (Some (be_put (ni_Weight ni)))) = (s3, None)"
    "changes s2 ?n s3"
    "data s3 ?n = (data s2 ?n)(str_bytes (nc_weight cfg) \<mapsto> be_put (word_of_nat (total_weight nodes + unat (ni_Weight ni))))"
    by (rule addNode_weight [OF ok2 refl assms(2,3) d2 assms(5)])
  have "ns_add S cfg s (Some ni) = (s3, None)"
    using s2(1) s3(1) by (simp add: ns_add_def addNode_def s1(1))
  then show thesis using that changes_trans s1 s2 s3 by metis
qed

lemma ns_add_repr:
  assumes "ok s (nc_name cfg)" "cfg_ok cfg" "node_repr cfg (data s (nc_name cfg)) nodes"
    and "node_ok cfg ni" "ni_NodeID ni \<notin> ni_NodeID ` set nodes" "total_weight nodes + unat (ni_Weight ni) < 2 ^ 63"
  obtains s' where "ns_add S cfg s (Some ni) = (s', None)" "changes s (nc_name cfg) s'"
    "node_repr cfg (data s' (nc_name cfg)) (nodes @ [ni])"
proof -
  have keys: "ni_NodeID ni \<noteq> []" "ni_NodeID ni \<noteq> nc_ids cfg" "ni_NodeID ni \<noteq> nc_weight cfg"
    "nc_ids cfg \<noteq> nc_weight cfg"
    using assms(2,4) by (auto simp: node_ok_def cfg_ok_def)
  obtain s' where s': "ns_add S cfg s (Some ni) = (s', None)" "changes s (nc_name cfg) s'"
    and d: "data s' (nc_name cfg) = (data s (nc_name cfg))(str_bytes (ni_NodeID ni) \<mapsto> marshal_NodeInfo ni,
       str_bytes (nc_ids cfg) \<mapsto> marshal_strings (Some (map ni_NodeID nodes @ [ni_NodeID ni])),
       str_bytes (nc_weight cfg) \<mapsto> be_put (word_of_nat (total_weight nodes + unat (ni_Weight ni))))"
    by (rule ns_addE [OF assms(1-4,6)])
  have other: "ni_NodeID x \<noteq> ni_NodeID ni" if "x \<in> set nodes" for x
    using assms(5) that by (metis image_eqI)
  have "node_repr cfg (data s' (nc_name cfg)) (nodes @ [ni])"
  proof (rule node_reprI)
    fix x assume "x \<in> set (nodes @ [ni])"
    then show "data s' (nc_name cfg) (str_bytes (ni_NodeID x)) = Some (marshal_NodeInfo x)"
      using node_reprD(2,4) [OF assms(3)] other keys
      by (auto simp: d list_all_iff node_ok_def)
  next
    fix nid assume "nid \<notin> ni_NodeID ` set (nodes @ [ni])" "nid \<noteq> nc_ids cfg" "nid \<noteq> nc_weight cfg"
    then show "data s' (nc_name cfg) (str_bytes nid) = None"
      using node_reprD(5) [OF assms(3)] by (simp add: d)
  qed (use node_reprD(1,2) [OF assms(3)] assms(4-6) keys in \<open>simp_all add: d\<close>)
  with s' that show thesis by blast
qed

text \<open>Adding a node again lists its identifier twice and counts its weight twice.\<close>

lemma ns_add_again:
  assumes "ok s (nc_name cfg)" "cfg_ok cfg" "node_repr cfg (data s (nc_name cfg)) nodes"
    and "node_ok cfg ni" "total_weight nodes + unat (ni_Weight ni) < 2 ^ 63"
  obtains s' where "ns_add S cfg s (Some ni) = (s', None)" "changes s (nc_name cfg) s'"
    "ns_GetIDs S cfg s' = Inr (Some (map ni_NodeID nodes @ [ni_NodeID ni]))"
    "ns_GetTotalWeight S cfg s' = Inr (word_of_nat (total_weight nodes + unat (ni_Weight ni)))"
proof -
  obtain s' where s': "ns_add S cfg s (Some ni) = (s', None)" "changes s (nc_name cfg) s'"
    and d: "data s' (nc_name cfg) = (data s (nc_name cfg))(str_bytes (ni_NodeID ni) \<mapsto> marshal_NodeInfo ni,
       str_bytes (nc_ids cfg) \<mapsto> marshal_strings (Some (map ni_NodeID nodes @ [ni_NodeID ni])),
       str_bytes (nc_weight cfg) \<mapsto> be_put (word_of_nat (total_weight nodes + unat (ni_Weight ni))))"
    by (rule ns_addE [OF assms])
  have ok': "ok s' (nc_name cfg)" using changes_ok [OF s'(2) assms(1)] .
  have "list_all ascii (map ni_NodeID nodes @ [ni_NodeID ni])"
    using node_repr_ids_ascii [OF assms(3)] assms(4) by (simp add: node_ok_def node_ascii_def)
  then show thesis using that [OF s'] ok' assms(2)
    by (simp add: ns_GetIDs_def ns_GetTotalWeight_def GetStateData d cfg_ok_def unmarshal_strings_marshal)
qed

text \<open>Reading.\<close>

lemma getNode_repr:
  assumes "ok s (nc_name cfg)" "node_repr cfg (data s (nc_name cfg)) nodes"
    and "nid \<notin> {[], nc_ids cfg, nc_weight cfg}"
  shows "getNode S s (nc_name cfg) nid = Inr (find (\<lambda>x. ni_NodeID x = nid) nodes)"
proof (cases "find (\<lambda>x. ni_NodeID x = nid) nodes")
  case None
  then have "nid \<notin> ni_NodeID ` set nodes" by (auto simp: find_None_iff)
  then have "data s (nc_name cfg) (str_bytes nid) = None" using node_reprD(5) [OF assms(2)] assms(3) by simp
  then show ?thesis using None assms(1,3) by (simp add: getNode_def GetStateData)
next
  case (Some ni)
  then have ni: "ni \<in> set nodes" "ni_NodeID ni = nid" by (auto simp: find_Some_iff)
  have "node_ascii ni" using node_reprD(2) [OF assms(2)] ni(1) by (auto simp: list_all_iff node_ok_def)
  then show ?thesis
    using Some node_reprD(4) [OF assms(2) ni(1)] ni(2) assms(1,3)
    by (simp add: getNode_def GetStateData unmarshal_NodeInfo_marshal)
qed

lemma ns_GetIDs_repr:
  assumes "ok s (nc_name cfg)" "cfg_ok cfg" "node_repr cfg (data s (nc_name cfg)) nodes"
  shows "ns_GetIDs S cfg s = Inr (if nodes = [] then None else Some (map ni_NodeID nodes))"
proof (cases "data s (nc_name cfg) (str_bytes (nc_ids cfg))")
  case None
  then show ?thesis using node_reprD(7) [OF assms(3)] assms(1,2)
    by (simp add: ns_GetIDs_def GetStateData cfg_ok_def)
next
  case (Some b)
  then show ?thesis using node_repr_unmarshal_ids [OF assms(3) Some] assms(1,2)
    by (simp add: ns_GetIDs_def GetStateData cfg_ok_def)
qed

lemma ns_GetTotalWeight_repr:
  assumes "ok s (nc_name cfg)" "cfg_ok cfg" "node_repr cfg (data s (nc_name cfg)) nodes"
  shows "ns_GetTotalWeight S cfg s = Inr (word_of_nat (total_weight nodes))"
proof (cases "data s (nc_name cfg) (str_bytes (nc_weight cfg))")
  case None
  then show ?thesis using node_reprD(9) [OF assms(3)] assms(1,2)
    by (simp add: ns_GetTotalWeight_def GetStateData cfg_ok_def)
next
  case (Some b)
  then show ?thesis using node_reprD(8) [OF assms(3) Some] assms(1,2)
    by (simp add: ns_GetTotalWeight_def GetStateData cfg_ok_def)
qed

text \<open>Updating the weight of a node, or another of its fields.\<close>

lemma node_repr_replace:
  assumes "node_repr cfg f nodes" "ni \<in> set nodes" "ni_NodeID ni' = ni_NodeID ni" "node_ascii ni'"
    and "total_weight (replace_node ni' nodes) < 2 ^ 63"
    and "g (str_bytes (ni_NodeID ni)) = Some (marshal_NodeInfo ni')"
    and "g (str_bytes (nc_ids cfg)) = f (str_bytes (nc_ids cfg))"
    and "g (str_bytes (nc_weight cfg)) = Some (be_put (word_of_nat (total_weight (replace_node ni' nodes))))"
    and "\<And>nid. nid \<notin> {ni_NodeID ni, nc_ids cfg, nc_weight cfg} \<Longrightarrow> g (str_bytes nid) = f (str_bytes nid)"
  shows "node_repr cfg g (replace_node ni' nodes)"
proof -
  note d = node_reprD [OF assms(1)]
  have nodes': "set (replace_node ni' nodes) = insert ni' (set nodes - {ni})"
    using set_replace [OF d(1) assms(2)] assms(3) by simp
  have ids: "map ni_NodeID (replace_node ni' nodes) = map ni_NodeID nodes" by simp
  have ids_set: "ni_NodeID ` set (replace_node ni' nodes) = ni_NodeID ` set nodes"
    using ids by (metis list.set_map)
  have ne: "nodes \<noteq> []" "replace_node ni' nodes \<noteq> []" using assms(2) nodes' by auto
  have ok_ni: "ni_NodeID ni \<notin> {[], nc_ids cfg, nc_weight cfg}"
    using d(2) assms(2) by (auto simp: list_all_iff node_ok_def)
  show ?thesis
  proof (rule node_reprI)
    show "distinct (map ni_NodeID (replace_node ni' nodes))" unfolding ids by (rule d(1))
    show "list_all (node_ok cfg) (replace_node ni' nodes)"
      using d(2) assms(3,4) ok_ni by (auto simp: list_all_iff nodes' node_ok_def)
    show "total_weight (replace_node ni' nodes) < 2 ^ 63" by (rule assms(5))
  next
    fix x assume x: "x \<in> set (replace_node ni' nodes)"
    show "g (str_bytes (ni_NodeID x)) = Some (marshal_NodeInfo x)"
    proof (cases "x = ni'")
      case True
      then show ?thesis using assms(3,6) by simp
    next
      case False
      then have x': "x \<in> set nodes" "x \<noteq> ni" using x nodes' by auto
      then have "ni_NodeID x \<noteq> ni_NodeID ni" using d(1) assms(2) by (auto simp: distinct_map inj_on_def)
      moreover have "ni_NodeID x \<notin> {nc_ids cfg, nc_weight cfg}"
        using d(2) x'(1) by (auto simp: list_all_iff node_ok_def)
      ultimately show ?thesis using assms(9) d(4) [OF x'(1)] by simp
    qed
  next
    fix nid assume "nid \<notin> ni_NodeID ` set (replace_node ni' nodes)" "nid \<noteq> nc_ids cfg" "nid \<noteq> nc_weight cfg"
    then show "g (str_bytes nid) = None"
      using d(5) assms(2,9) unfolding ids_set by (metis image_eqI insertE singletonD)
  next
    show "g (str_bytes (nc_ids cfg)) = Some (marshal_strings (if replace_node ni' nodes = [] then None
        else Some (map ni_NodeID (replace_node ni' nodes)))) \<or>
      g (str_bytes (nc_ids cfg)) = None \<and> replace_node ni' nodes = []"
      using ne d(6,7) assms(7) by (cases "f (str_bytes (nc_ids cfg))") auto
  qed (simp add: assms(8))
qed

lemma ns_updateWeight_repr:
  assumes "ok s (nc_name cfg)" "cfg_ok cfg" "node_repr cfg (data s (nc_name cfg)) nodes"
    and "ni \<in> set nodes" "total_weight (replace_node (ni\<lparr>ni_Weight := w\<rparr>) nodes) < 2 ^ 63"
  obtains s' where "ns_updateWeight S cfg s (ni_NodeID ni) w = (s', None)" "changes s (nc_name cfg) s'"
    "node_repr cfg (data s' (nc_name cfg)) (replace_node (ni\<lparr>ni_Weight := w\<rparr>) nodes)"
proof -
  let ?n = "nc_name cfg" and ?f = "data s (nc_name cfg)" and ?ni = "ni\<lparr>ni_Weight := w\<rparr>"
  note d = node_reprD [OF assms(3)]
  have ok_ni: "ni_NodeID ni \<notin> {[], nc_ids cfg, nc_weight cfg}" "node_ascii ni"
    using d(2) assms(4) by (auto simp: list_all_iff node_ok_def)
  have keys: "nc_ids cfg \<noteq> nc_weight cfg" "nc_weight cfg \<noteq> []" using assms(2) by (auto simp: cfg_ok_def)
  have find: "find (\<lambda>x. ni_NodeID x = ni_NodeID ni) nodes = Some ni"
    by (rule find_distinct [OF d(1) assms(4)])
  obtain s1 where s1: "SS_Update S s ?n (str_bytes (ni_NodeID ni)) (Some (marshal_NodeInfo ?ni)) = (s1, None)"
    "changes s ?n s1" "data s1 ?n = ?f(str_bytes (ni_NodeID ni) \<mapsto> marshal_NodeInfo ?ni)"
    using updateE [OF assms(1), of "str_bytes (ni_NodeID ni)"] ok_ni by (metis insertI1 str_bytes_eq_Nil)
  have ok1: "ok s1 ?n" using changes_ok [OF s1(2) assms(1)] .
  have "?f (str_bytes (nc_weight cfg)) \<noteq> None" using d(9) assms(4) by (metis empty_iff empty_set)
  then have d1: "data s1 ?n (str_bytes (nc_weight cfg)) = Some (be_put (word_of_nat (total_weight nodes)))"
    using d(8) ok_ni by (auto simp: s1(3))
  have "word_of_nat (total_weight nodes) + (w - ni_Weight ni) = (word_of_nat (total_weight (replace_node ?ni nodes)) :: u64)"
    using arg_cong [OF total_split(2) [OF d(1) assms(4), of w], of "word_of_nat :: nat \<Rightarrow> u64"]
    by (simp add: algebra_simps)
  then obtain s2 where s2: "updateTotalWeight S s1 ?n (nc_weight cfg) (w - ni_Weight ni) = (s2, None)"
    "changes s1 ?n s2"
    "data s2 ?n = (data s1 ?n)(str_bytes (nc_weight cfg) \<mapsto> be_put (word_of_nat (total_weight (replace_node ?ni nodes))))"
    using updateTotalWeightE [OF ok1 keys(2) d1 _ assms(5)] by blast
  have "node_repr cfg (data s2 ?n) (replace_node ?ni nodes)"
    by (rule node_repr_replace [OF assms(3,4)])
      (use ok_ni keys assms(5) in \<open>auto simp: s2(3) s1(3) node_ascii_def\<close>)
  moreover have "ns_updateWeight S cfg s (ni_NodeID ni) w = (s2, None)"
    using getNode_repr [OF assms(1,3) ok_ni(1)] find s1(1) s2(1)
    by (simp add: ns_updateWeight_def updateWeight_def)
  ultimately show thesis using that changes_trans s1(2) s2(2) by blast
qed

lemma ns_field_repr:
  assumes "ok s (nc_name cfg)" "node_repr cfg (data s (nc_name cfg)) nodes"
    and "ni \<in> set nodes" "ni_NodeID ni' = ni_NodeID ni" "ni_Weight ni' = ni_Weight ni" "node_ascii ni'"
  obtains s' where "SS_Update S s (nc_name cfg) (str_bytes (ni_NodeID ni)) (Some (marshal_NodeInfo ni')) = (s', None)"
    "changes s (nc_name cfg) s'" "node_repr cfg (data s' (nc_name cfg)) (replace_node ni' nodes)"
proof -
  let ?n = "nc_name cfg" and ?f = "data s (nc_name cfg)"
  note d = node_reprD [OF assms(2)]
  have ok_ni: "ni_NodeID ni \<notin> {[], nc_ids cfg, nc_weight cfg}"
    using d(2) assms(3) by (auto simp: list_all_iff node_ok_def)
  obtain s1 where s1: "SS_Update S s ?n (str_bytes (ni_NodeID ni)) (Some (marshal_NodeInfo ni')) = (s1, None)"
    "changes s ?n s1" "data s1 ?n = ?f(str_bytes (ni_NodeID ni) \<mapsto> marshal_NodeInfo ni')"
    using updateE [OF assms(1), of "str_bytes (ni_NodeID ni)"] ok_ni by (metis insertI1 str_bytes_eq_Nil)
  have "map (unat \<circ> ni_Weight) (replace_node ni' nodes) = map (unat \<circ> ni_Weight) nodes"
    using find_distinct [OF d(1)] d(1) assms(3-5) by (auto simp: replace_node_def distinct_map inj_on_def)
  then have t: "total_weight (replace_node ni' nodes) = total_weight nodes" by (simp add: total_weight_def)
  have "?f (str_bytes (nc_weight cfg)) \<noteq> None" using d(9) assms(3) by (metis empty_iff empty_set)
  then have "?f (str_bytes (nc_weight cfg)) = Some (be_put (word_of_nat (total_weight nodes)))" using d(8) by auto
  then have "node_repr cfg (data s1 ?n) (replace_node ni' nodes)"
    by (intro node_repr_replace [OF assms(2,3)]) (use ok_ni assms(4-6) d(3) t in \<open>auto simp: s1(3)\<close>)
  then show thesis using that s1(1,2) by blast
qed

text \<open>Removing a node.\<close>

lemma ns_remove_repr:
  assumes "ok s (nc_name cfg)" "cfg_ok cfg" "node_repr cfg (data s (nc_name cfg)) nodes" "ni \<in> set nodes"
  obtains s' where "ns_remove S cfg s (ni_NodeID ni) = (s', None)" "changes s (nc_name cfg) s'"
    "node_repr cfg (data s' (nc_name cfg)) (drop_node (ni_NodeID ni) nodes)"
proof -
  let ?n = "nc_name cfg" and ?f = "data s (nc_name cfg)" and ?rest = "drop_node (ni_NodeID ni) nodes"
  note d = node_reprD [OF assms(3)]
  have ok_ni: "ni_NodeID ni \<notin> {[], nc_ids cfg, nc_weight cfg}"
    using d(2) assms(4) by (auto simp: list_all_iff node_ok_def)
  have keys: "nc_ids cfg \<noteq> nc_weight cfg" "nc_ids cfg \<noteq> []" "nc_weight cfg \<noteq> []"
    using assms(2) by (auto simp: cfg_ok_def)
  have ne: "nodes \<noteq> []" using assms(4) by auto
  obtain b1 where b1: "?f (str_bytes (nc_ids cfg)) = Some b1" using d(7) ne by fastforce
  have b2: "?f (str_bytes (nc_weight cfg)) = Some (be_put (word_of_nat (total_weight nodes)))"
    using d(8,9) ne by (cases "?f (str_bytes (nc_weight cfg))") auto
  obtain s1 where s1: "SS_Delete S s ?n (str_bytes (ni_NodeID ni)) = (s1, None)" "changes s ?n s1"
    "data s1 ?n = ?f(str_bytes (ni_NodeID ni) := None)"
    using deleteE [OF assms(1), of "str_bytes (ni_NodeID ni)"] ok_ni by (metis insertI1 str_bytes_eq_Nil)
  have ok1: "ok s1 ?n" using changes_ok [OF s1(2) assms(1)] .
  have d1: "data s1 ?n (str_bytes (nc_ids cfg)) = Some b1" using b1 ok_ni by (auto simp: s1(3))
  have ids: "unmarshal_strings (Some b1) = Inr (Some (map ni_NodeID nodes))"
    using node_repr_unmarshal_ids [OF assms(3) b1] ne by simp
  have rem: "RemoveIfExistString (ni_NodeID ni) (map ni_NodeID nodes) =
      (if ?rest = [] then None else Some (map ni_NodeID ?rest))"
    by (simp add: RemoveIfExistString_def Let_def ids_drop [symmetric])
  obtain s2 where s2: "updateTotalIDs S s1 ?n (nc_ids cfg) (ni_NodeID ni) True = (s2, None)" "changes s1 ?n s2"
    "data s2 ?n = (data s1 ?n)(str_bytes (nc_ids cfg) \<mapsto> marshal_strings
       (if True then RemoveIfExistString (ni_NodeID ni) (case Some (map ni_NodeID nodes) of None \<Rightarrow> [] | Some xs \<Rightarrow> xs)
        else Some ((case Some (map ni_NodeID nodes) of None \<Rightarrow> [] | Some xs \<Rightarrow> xs) @ [ni_NodeID ni])))"
    by (rule updateTotalIDsE [OF ok1 keys(2) d1 ids])
  have f2: "data s2 ?n = (data s1 ?n)(str_bytes (nc_ids cfg) \<mapsto> marshal_strings
      (if ?rest = [] then None else Some (map ni_NodeID ?rest)))" using s2(3) rem by simp
  have ok2: "ok s2 ?n" using changes_ok [OF s2(2) ok1] .
  have d2: "data s2 ?n (str_bytes (nc_weight cfg)) = Some (be_put (word_of_nat (total_weight nodes)))"
    using b2 ok_ni keys by (auto simp: f2 s1(3))
  have t: "total_weight ?rest + unat (ni_Weight ni) = total_weight nodes" by (rule total_split(1) [OF d(1) assms(4)])
  then have t63: "total_weight ?rest < 2 ^ 63" using d(3) by simp
  have "word_of_nat (total_weight nodes) + - ni_Weight ni = (word_of_nat (total_weight ?rest) :: u64)"
    by (simp flip: t)
  then obtain s3 where s3: "updateTotalWeight S s2 ?n (nc_weight cfg) (- ni_Weight ni) = (s3, None)"
    "changes s2 ?n s3" "data s3 ?n = (data s2 ?n)(str_bytes (nc_weight cfg) \<mapsto> be_put (word_of_nat (total_weight ?rest)))"
    using updateTotalWeightE [OF ok2 keys(3) d2 _ t63] by blast
  have "node_repr cfg (data s3 ?n) ?rest"
  proof (rule node_reprI)
    show "distinct (map ni_NodeID ?rest)" using d(1) by (simp add: ids_drop)
    show "list_all (node_ok cfg) ?rest" using d(2) by (auto simp: list_all_iff drop_node_def)
  next
    fix x assume "x \<in> set ?rest"
    then have "x \<in> set nodes" "ni_NodeID x \<noteq> ni_NodeID ni" by (auto simp: drop_node_def)
    then show "data s3 ?n (str_bytes (ni_NodeID x)) = Some (marshal_NodeInfo x)"
      using d(2) d(4) [of x] by (auto simp: s3(3) f2 s1(3) list_all_iff node_ok_def)
  next
    fix nid assume "nid \<notin> ni_NodeID ` set ?rest" "nid \<noteq> nc_ids cfg" "nid \<noteq> nc_weight cfg"
    then show "data s3 ?n (str_bytes nid) = None"
      using d(5) [of nid] by (auto simp: s3(3) f2 s1(3) drop_node_def)
  qed (use t63 keys in \<open>simp_all add: s3(3) f2\<close>)
  moreover have "ns_remove S cfg s (ni_NodeID ni) = (s3, None)"
    using getNode_repr [OF assms(1,3) ok_ni] find_distinct [OF d(1) assms(4)] s1(1) s2(1) s3(1) ok1 ok2 d1 d2 keys
    by (simp add: ns_remove_def removeNode_def isNodeExist)
  ultimately show thesis using that changes_trans s1(2) s2(2) s3(2) by blast
qed

text \<open>Listing all nodes.\<close>

lemma ns_GetAll_repr:
  assumes "ok s (nc_name cfg)" "node_repr cfg (data s (nc_name cfg)) nodes"
  shows "\<exists>xs. ns_GetAll S cfg s = Inr xs \<and> distinct xs \<and> set xs = set nodes"
proof -
  note d = node_reprD [OF assms(2)]
  obtain kvs where kvs: "SS_GetAllStateData S s (nc_name cfg) = Inr (map fst kvs, map snd kvs)" "sorted_keys kvs"
    "\<forall>k v. (k, v) \<in> set kvs \<longleftrightarrow> data s (nc_name cfg) k = Some v"
    using GetAllStateData [OF assms(1)] by blast
  have loop: "\<exists>xs. ns_GetAll_loop cfg kvs' = Inr xs \<and>
      map (str_bytes \<circ> ni_NodeID) xs = filter (\<lambda>k. k \<noteq> str_bytes (nc_ids cfg) \<and> k \<noteq> str_bytes (nc_weight cfg)) (map fst kvs') \<and>
      set xs \<subseteq> set nodes" if "set kvs' \<subseteq> set kvs" for kvs'
    using that
  proof (induction kvs')
    case (Cons kv kvs')
    obtain k v where kv: "kv = (k, v)" by force
    show ?case
    proof (cases "k = str_bytes (nc_ids cfg) \<or> k = str_bytes (nc_weight cfg)")
      case True
      then show ?thesis using Cons by (auto simp: kv)
    next
      case False
      have "data s (nc_name cfg) (str_bytes (bytes_str k)) = Some v" using Cons.prems kvs(3) by (auto simp: kv)
      then obtain ni where ni: "ni \<in> set nodes" "ni_NodeID ni = bytes_str k"
        using d(5) [of "bytes_str k"] False by (metis (no_types, lifting) image_iff option.distinct(1) str_bytes_str)
      then have "v = marshal_NodeInfo ni" "node_ascii ni"
        using d(2) d(4) [OF ni(1)] \<open>data s (nc_name cfg) (str_bytes (bytes_str k)) = Some v\<close>
        by (auto simp: list_all_iff node_ok_def)
      then show ?thesis using Cons False ni by (auto simp: kv unmarshal_NodeInfo_marshal)
    qed
  qed simp
  obtain xs where xs: "ns_GetAll_loop cfg kvs = Inr xs" "set xs \<subseteq> set nodes"
    "map (str_bytes \<circ> ni_NodeID) xs = filter (\<lambda>k. k \<noteq> str_bytes (nc_ids cfg) \<and> k \<noteq> str_bytes (nc_weight cfg)) (map fst kvs)"
    using loop [of kvs] by blast
  have "distinct (map (str_bytes \<circ> ni_NodeID) xs)"
    unfolding xs(3) using kvs(2) by (simp add: sorted_keys_distinct)
  then have "distinct xs" by (simp add: distinct_map)
  moreover have "ni \<in> set xs" if "ni \<in> set nodes" for ni
  proof -
    have "str_bytes (ni_NodeID ni) \<in> set (map fst kvs)"
      using kvs(3) d(4) [OF that] by force
    moreover have "ni_NodeID ni \<notin> {nc_ids cfg, nc_weight cfg}"
      using d(2) that by (auto simp: list_all_iff node_ok_def)
    ultimately have "str_bytes (ni_NodeID ni) \<in> set (map (str_bytes \<circ> ni_NodeID) xs)" unfolding xs(3) by simp
    then obtain x where "x \<in> set xs" "ni_NodeID x = ni_NodeID ni" by auto
    then show ?thesis using xs(2) d(1) that by (auto simp: distinct_map inj_on_def)
  qed
  ultimately show ?thesis using xs kvs(1) by (auto simp: ns_GetAll_def zip_map_fst_snd)
qed

end

end
