(* ===== verification/Node_Registry.thy ===== *)
theory Node_Registry
  imports Node_State
begin

text \<open>
  The four kinds of nodes (\<open>src/state/node/node_executor.go\<close>,
  \<open>node_proposer.go\<close>, \<open>node_validator.go\<close>, \<open>node_inactive.go\<close>) and the registry over
  them (\<open>node.go\<close>). The main lemma is the refinement \<open>registry_refines\<close>: the registry
  behaves as four lists of nodes.
\<close>

section \<open>The four kinds of nodes\<close>

definition GetNodeExecutorRoot :: "('s, bytes) ss_ops \<Rightarrow> 's \<Rightarrow> error + bytes" where
  "GetNodeExecutorRoot S s = ns_Root S cfg_Executor s"

definition IsExistActiveExecutor :: "('s, bytes) ss_ops \<Rightarrow> 's \<Rightarrow> string \<Rightarrow> bool" where
  "IsExistActiveExecutor S s nodeID = isNodeExist S s (nc_name cfg_Executor) nodeID"

definition GetActiveExecutorIDs :: "('s, bytes) ss_ops \<Rightarrow> 's \<Rightarrow> error + string list option" where
  "GetActiveExecutorIDs S s = ns_GetIDs S cfg_Executor s"

definition GetActiveExecutor :: "('s, bytes) ss_ops \<Rightarrow> 's \<Rightarrow> string \<Rightarrow> error + NodeInfo option" where
  "GetActiveExecutor S s nodeID = getNode S s (nc_name cfg_Executor) nodeID"

definition GetActiveExecutorsTotalWeight :: "('s, bytes) ss_ops \<Rightarrow> 's \<Rightarrow> error + u64" where
  "GetActiveExecutorsTotalWeight S s = ns_GetTotalWeight S cfg_Executor s"

definition GetAllActiveExecutors :: "('s, bytes) ss_ops \<Rightarrow> 's \<Rightarrow> error + NodeInfo list" where
  "GetAllActiveExecutors S s = ns_GetAll S cfg_Executor s"

definition addActiveExecutor :: "('s, bytes) ss_ops \<Rightarrow> 's \<Rightarrow> NodeInfo option \<Rightarrow> 's \<times> error option" where
  "addActiveExecutor S s nodeInfo = ns_add S cfg_Executor s nodeInfo"

definition updateActiveExecutorWeight :: "('s, bytes) ss_ops \<Rightarrow> 's \<Rightarrow> string \<Rightarrow> u64 \<Rightarrow> 's \<times> error option" where
  "updateActiveExecutorWeight S s nodeID weight = ns_updateWeight S cfg_Executor s nodeID weight"

definition updateActiveExecutorDKGPartPubKey :: "('s, bytes) ss_ops \<Rightarrow> 's \<Rightarrow> string \<Rightarrow> string \<Rightarrow> 's \<times> error option" where
  "updateActiveExecutorDKGPartPubKey S s nodeID pubKey = updateDKGPartPubKey S s (nc_name cfg_Executor) nodeID pubKey"

definition updateActiveExecutorDKGPriShare :: "('s, bytes) ss_ops \<Rightarrow> 's \<Rightarrow> string \<Rightarrow> bytes option \<Rightarrow> 's \<times> error option" where
  "updateActiveExecutorDKGPriShare S s nodeID priShare = updateDKGPriShare S s (nc_name cfg_Executor) nodeID priShare"

definition removeActiveExecutor :: "('s, bytes) ss_ops \<Rightarrow> 's \<Rightarrow> string \<Rightarrow> 's \<times> error option" where
  "removeActiveExecutor S s nodeID = ns_remove S cfg_Executor s nodeID"

definition GetNodeProposerRoot :: "('s, bytes) ss_ops \<Rightarrow> 's \<Rightarrow> error + bytes" where
  "GetNodeProposerRoot S s = ns_Root S cfg_Proposer s"

definition IsExistActiveProposer :: "('s, bytes) ss_ops \<Rightarrow> 's \<Rightarrow> string \<Rightarrow> bool" where
  "IsExistActiveProposer S s nodeID = isNodeExist S s (nc_name cfg_Proposer) nodeID"

text \<open>The proposers read their identifiers through \<open>GetState\<close>, which builds a proof too.\<close>

definition GetActiveProposerIDs :: "('s, bytes) ss_ops \<Rightarrow> 's \<Rightarrow> error + string list option" where
  "GetActiveProposerIDs S s =
     (case SS_GetState S s (nc_name cfg_Proposer) (str_bytes (nc_ids cfg_Proposer)) of
        (_, _, Some err) \<Rightarrow> Inl err
      | (None, _, None) \<Rightarrow> Inr None
      | (Some b, _, None) \<Rightarrow> unmarshal_strings (Some b))"

definition GetActiveProposer :: "('s, bytes) ss_ops \<Rightarrow> 's \<Rightarrow> string \<Rightarrow> error + NodeInfo option" where
  "GetActiveProposer S s nodeID = getNode S s (nc_name cfg_Proposer) nodeID"

definition GetActiveProposersTotalWeight :: "('s, bytes) ss_ops \<Rightarrow> 's \<Rightarrow> error + u64" where
  "GetActiveProposersTotalWeight S s = ns_GetTotalWeight S cfg_Proposer s"

definition GetAllActiveProposers :: "('s, bytes) ss_ops \<Rightarrow> 's \<Rightarrow> error + NodeInfo list" where
  "GetAllActiveProposers S s = ns_GetAll S cfg_Proposer s"

definition AddActiveProposer :: "('s, bytes) ss_ops \<Rightarrow> 's \<Rightarrow> NodeInfo option \<Rightarrow> 's \<times> error option" where
  "AddActiveProposer S s nodeInfo = ns_add S cfg_Proposer s nodeInfo"

definition updateActiveProposerWeight :: "('s, bytes) ss_ops \<Rightarrow> 's \<Rightarrow> string \<Rightarrow> u64 \<Rightarrow> 's \<times> error option" where
  "updateActiveProposerWeight S s nodeID weight = ns_updateWeight S cfg_Proposer s nodeID weight"

definition updateActiveProposerDKGPartPubKey :: "('s, bytes) ss_ops \<Rightarrow> 's \<Rightarrow> string \<Rightarrow> string \<Rightarrow> 's \<times> error option" where
  "updateActiveProposerDKGPartPubKey S s nodeID pubKey = updateDKGPartPubKey S s (nc_name cfg_Proposer) nodeID pubKey"

definition updateActiveProposerDKGPriShare :: "('s, bytes) ss_ops \<Rightarrow> 's \<Rightarrow> string \<Rightarrow> bytes option \<Rightarrow> 's \<times> error option" where
  "updateActiveProposerDKGPriShare S s nodeID priShare = updateDKGPriShare S s (nc_name cfg_Proposer) nodeID priShare"

definition removeActiveProposer :: "('s, bytes) ss_ops \<Rightarrow> 's \<Rightarrow> string \<Rightarrow> 's \<times> error option" where
  "removeActiveProposer S s nodeID = ns_remove S cfg_Proposer s nodeID"

definition GetNodeValidatorRoot :: "('s, bytes) ss_ops \<Rightarrow> 's \<Rightarrow> error + bytes" where
  "GetNodeValidatorRoot S s = ns_Root S cfg_Validator s"

definition IsExistActiveValidator :: "('s, bytes) ss_ops \<Rightarrow> 's \<Rightarrow> string \<Rightarrow> bool" where
  "IsExistActiveValidator S s nodeID = isNodeExist S s (nc_name cfg_Validator) nodeID"

definition GetActiveValidatorIDs :: "('s, bytes) ss_ops \<Rightarrow> 's \<Rightarrow> error + string list option" where
  "GetActiveValidatorIDs S s = ns_GetIDs S cfg_Validator s"

definition GetActiveValidator :: "('s, bytes) ss_ops \<Rightarrow> 's \<Rightarrow> string \<Rightarrow> error + NodeInfo option" where
  "GetActiveValidator S s nodeID = getNode S s (nc_name cfg_Validator) nodeID"

definition GetActiveValidatorsTotalWeight :: "('s, bytes) ss_ops \<Rightarrow> 's \<Rightarrow> error + u64" where
  "GetActiveValidatorsTotalWeight S s = ns_GetTotalWeight S cfg_Validator s"

definition GetAllActiveValidators :: "('s, bytes) ss_ops \<Rightarrow> 's \<Rightarrow> error + NodeInfo list" where
  "GetAllActiveValidators S s = ns_GetAll S cfg_Validator s"

definition AddActiveValidator :: "('s, bytes) ss_ops \<Rightarrow> 's \<Rightarrow> NodeInfo option \<Rightarrow> 's \<times> error option" where
  "AddActiveValidator S s nodeInfo = ns_add S cfg_Validator s nodeInfo"

definition updateActiveValidatorWeight :: "('s, bytes) ss_ops \<Rightarrow> 's \<Rightarrow> string \<Rightarrow> u64 \<Rightarrow> 's \<times> error option" where
  "updateActiveValidatorWeight S s nodeID weight = ns_updateWeight S cfg_Validator s nodeID weight"

definition updateActiveValidatorDKGPartPubKey :: "('s, bytes) ss_ops \<Rightarrow> 's \<Rightarrow> string \<Rightarrow> string \<Rightarrow> 's \<times> error option" where
  "updateActiveValidatorDKGPartPubKey S s nodeID pubKey = updateDKGPartPubKey S s (nc_name cfg_Validator) nodeID pubKey"

definition updateActiveValidatorDKGPriShare :: "('s, bytes) ss_ops \<Rightarrow> 's \<Rightarrow> string \<Rightarrow> bytes option \<Rightarrow> 's \<times> error option" where
  "updateActiveValidatorDKGPriShare S s nodeID priShare = updateDKGPriShare S s (nc_name cfg_Validator) nodeID priShare"

definition removeActiveValidator :: "('s, bytes) ss_ops \<Rightarrow> 's \<Rightarrow> string \<Rightarrow> 's \<times> error option" where
  "removeActiveValidator S s nodeID = ns_remove S cfg_Validator s nodeID"

definition GetNodeInactiveRoot :: "('s, bytes) ss_ops \<Rightarrow> 's \<Rightarrow> error + bytes" where
  "GetNodeInactiveRoot S s = ns_Root S cfg_Inactive s"

definition IsExistInactiveNode :: "('s, bytes) ss_ops \<Rightarrow> 's \<Rightarrow> string \<Rightarrow> bool" where
  "IsExistInactiveNode S s nodeID = isNodeExist S s (nc_name cfg_Inactive) nodeID"

definition GetInactiveNodeIDs :: "('s, bytes) ss_ops \<Rightarrow> 's \<Rightarrow> error + string list option" where
  "GetInactiveNodeIDs S s = ns_GetIDs S cfg_Inactive s"

definition GetInactiveNode :: "('s, bytes) ss_ops \<Rightarrow> 's \<Rightarrow> string \<Rightarrow> error + NodeInfo option" where
  "GetInactiveNode S s nodeID = getNode S s (nc_name cfg_Inactive) nodeID"

definition GetInactiveNodesTotalWeight :: "('s, bytes) ss_ops \<Rightarrow> 's \<Rightarrow> error + u64" where
  "GetInactiveNodesTotalWeight S s = ns_GetTotalWeight S cfg_Inactive s"

definition GetAllInactiveNodes :: "('s, bytes) ss_ops \<Rightarrow> 's \<Rightarrow> error + NodeInfo list" where
  "GetAllInactiveNodes S s = ns_GetAll S cfg_Inactive s"

definition AddInactiveNode :: "('s, bytes) ss_ops \<Rightarrow> 's \<Rightarrow> NodeInfo option \<Rightarrow> 's \<times> error option" where
  "AddInactiveNode S s nodeInfo = ns_add S cfg_Inactive s nodeInfo"

definition updateInactiveNodeWeight :: "('s, bytes) ss_ops \<Rightarrow> 's \<Rightarrow> string \<Rightarrow> u64 \<Rightarrow> 's \<times> error option" where
  "updateInactiveNodeWeight S s nodeID weight = ns_updateWeight S cfg_Inactive s nodeID weight"

definition updateInactiveNodeDKGPartPubKey :: "('s, bytes) ss_ops \<Rightarrow> 's \<Rightarrow> string \<Rightarrow> string \<Rightarrow> 's \<times> error option" where
  "updateInactiveNodeDKGPartPubKey S s nodeID pubKey = updateDKGPartPubKey S s (nc_name cfg_Inactive) nodeID pubKey"

definition updateInactiveNodeDKGPriShare :: "('s, bytes) ss_ops \<Rightarrow> 's \<Rightarrow> string \<Rightarrow> bytes option \<Rightarrow> 's \<times> error option" where
  "updateInactiveNodeDKGPriShare S s nodeID priShare = updateDKGPriShare S s (nc_name cfg_Inactive) nodeID priShare"

definition removeInactiveNode :: "('s, bytes) ss_ops \<Rightarrow> 's \<Rightarrow> string \<Rightarrow> 's \<times> error option" where
  "removeInactiveNode S s nodeID = ns_remove S cfg_Inactive s nodeID"

lemmas kind_defs = GetNodeExecutorRoot_def IsExistActiveExecutor_def GetActiveExecutorIDs_def GetActiveExecutor_def
  GetActiveExecutorsTotalWeight_def GetAllActiveExecutors_def addActiveExecutor_def updateActiveExecutorWeight_def
  updateActiveExecutorDKGPartPubKey_def updateActiveExecutorDKGPriShare_def removeActiveExecutor_def GetNodeProposerRoot_def
  IsExistActiveProposer_def GetActiveProposerIDs_def GetActiveProposer_def GetActiveProposersTotalWeight_def
  GetAllActiveProposers_def AddActiveProposer_def updateActiveProposerWeight_def updateActiveProposerDKGPartPubKey_def
  updateActiveProposerDKGPriShare_def removeActiveProposer_def GetNodeValidatorRoot_def IsExistActiveValidator_def
  GetActiveValidatorIDs_def GetActiveValidator_def GetActiveValidatorsTotalWeight_def GetAllActiveValidators_def
  AddActiveValidator_def updateActiveValidatorWeight_def updateActiveValidatorDKGPartPubKey_def updateActiveValidatorDKGPriShare_def
  removeActiveValidator_def GetNodeInactiveRoot_def IsExistInactiveNode_def GetInactiveNodeIDs_def
  GetInactiveNode_def GetInactiveNodesTotalWeight_def GetAllInactiveNodes_def AddInactiveNode_def
  updateInactiveNodeWeight_def updateInactiveNodeDKGPartPubKey_def updateInactiveNodeDKGPriShare_def removeInactiveNode_def

section \<open>The registry\<close>

abbreviation StateStore_Name_Node :: string where "StateStore_Name_Node \<equiv> ''node''"

record nodeStateMetaInfo =
  nm_Role :: u64
  nm_State :: byte

definition marshal_meta :: "nodeStateMetaInfo \<Rightarrow> bytes" where
  "marshal_meta m = Marshal (JObj [(''Role'', j_u64 (nm_Role m)), (''State'', j_byte (nm_State m))])"

definition unmarshal_meta :: "bytes option \<Rightarrow> error + nodeStateMetaInfo" where
  "unmarshal_meta b = (case Unmarshal b of Inl err \<Rightarrow> Inl err | Inr j \<Rightarrow>
     (case un_obj j of Inl err \<Rightarrow> Inl err | Inr ms \<Rightarrow>
       (case (un_u64 (field ''Role'' ms), un_byte (field ''State'' ms)) of
          (Inr r, Inr st) \<Rightarrow> Inr \<lparr>nm_Role = r, nm_State = st\<rparr>
        | _ \<Rightarrow> Inl ErrJson)))"

text \<open>The switch on state and role that every operation has.\<close>

datatype node_kind = KExecutor | KProposer | KValidator | KInactive

definition kind_of :: "string \<Rightarrow> u64 \<Rightarrow> byte \<Rightarrow> error + node_kind" where
  "kind_of nodeID role state =
     (if state = NodeState_Active then
        (if role = NodeRole_Executor then Inr KExecutor
         else if role = NodeRole_Proposer then Inr KProposer
         else if role = NodeRole_Validator then Inr KValidator
         else Inl (ErrInvalidNode ''Invalid node role'' nodeID))
      else if state = NodeState_Standby \<or> state = NodeState_Frozen then Inr KInactive
      else Inl (ErrInvalidNode ''Invalid node state'' nodeID))"

text \<open>The meta data of a node, decoded, with the kind that it selects.\<close>

definition node_meta :: "('s, bytes) ss_ops \<Rightarrow> 's \<Rightarrow> string \<Rightarrow> error + node_kind option" where
  "node_meta S s nodeID = (case SS_GetStateData S s StateStore_Name_Node (str_bytes nodeID) of
     Inl err \<Rightarrow> Inl err
   | Inr None \<Rightarrow> Inr None
   | Inr (Some b) \<Rightarrow> (case unmarshal_meta (Some b) of
        Inl err \<Rightarrow> Inl err
      | Inr m \<Rightarrow> map_sum id Some (kind_of nodeID (nm_Role m) (nm_State m))))"

definition GetNodeRoot :: "('s, bytes) ss_ops \<Rightarrow> 's \<Rightarrow> error + bytes" where
  "GetNodeRoot S s = SS_Root S s StateStore_Name_Node"

definition IsNodeExist :: "('s, bytes) ss_ops \<Rightarrow> 's \<Rightarrow> string \<Rightarrow> bool" where
  "IsNodeExist S s nodeID = isNodeExist S s StateStore_Name_Node nodeID"

definition GetAllConsensusNodeIDs :: "('s, bytes) ss_ops \<Rightarrow> 's \<Rightarrow> error + string list" where
  "GetAllConsensusNodeIDs S s = (case GetActiveExecutorIDs S s of Inl err \<Rightarrow> Inl err | Inr a \<Rightarrow>
     (case GetActiveProposerIDs S s of Inl err \<Rightarrow> Inl err | Inr b \<Rightarrow>
     (case GetActiveValidatorIDs S s of Inl err \<Rightarrow> Inl err | Inr c \<Rightarrow>
     (case GetInactiveNodeIDs S s of Inl err \<Rightarrow> Inl err | Inr d \<Rightarrow>
       Inr (concat (map (case_option [] id) [a, b, c, d]))))))"

definition GetNode :: "('s, bytes) ss_ops \<Rightarrow> 's \<Rightarrow> string \<Rightarrow> error + NodeInfo option" where
  "GetNode S s nodeID = (case node_meta S s nodeID of
     Inl err \<Rightarrow> Inl err
   | Inr None \<Rightarrow> Inr None
   | Inr (Some KExecutor) \<Rightarrow> GetActiveExecutor S s nodeID
   | Inr (Some KProposer) \<Rightarrow> GetActiveProposer S s nodeID
   | Inr (Some KValidator) \<Rightarrow> GetActiveValidator S s nodeID
   | Inr (Some KInactive) \<Rightarrow> GetInactiveNode S s nodeID)"

definition GetTotalWeight :: "('s, bytes) ss_ops \<Rightarrow> 's \<Rightarrow> error + u64" where
  "GetTotalWeight S s = (case GetActiveExecutorsTotalWeight S s of Inl err \<Rightarrow> Inl err | Inr a \<Rightarrow>
     (case GetActiveProposersTotalWeight S s of Inl err \<Rightarrow> Inl err | Inr b \<Rightarrow>
     (case GetActiveValidatorsTotalWeight S s of Inl err \<Rightarrow> Inl err | Inr c \<Rightarrow> Inr (a + b + c))))"

definition GetNodeWeight :: "('s, bytes) ss_ops \<Rightarrow> 's \<Rightarrow> string \<Rightarrow> error + u64" where
  "GetNodeWeight S s nodeID = (case GetNode S s nodeID of
     Inl err \<Rightarrow> Inl err | Inr None \<Rightarrow> Inr 0 | Inr (Some ni) \<Rightarrow> Inr (ni_Weight ni))"

definition AddNode :: "('s, bytes) ss_ops \<Rightarrow> 's \<Rightarrow> NodeInfo option \<Rightarrow> 's \<times> error option" where
  "AddNode S s nodeInfo = (case nodeInfo of
     None \<Rightarrow> (s, Some (ErrNil ''Nil node info input''))
   | Some ni \<Rightarrow> (case kind_of (ni_NodeID ni) (ni_Role ni) (ni_State ni) of
        Inl err \<Rightarrow> (s, Some err)
      | Inr k \<Rightarrow>
          andThen (case k of KExecutor \<Rightarrow> addActiveExecutor S s nodeInfo
                   | KProposer \<Rightarrow> AddActiveProposer S s nodeInfo
                   | KValidator \<Rightarrow> AddActiveValidator S s nodeInfo
                   | KInactive \<Rightarrow> AddInactiveNode S s nodeInfo)
            (\<lambda>s1. SS_Put S s1 StateStore_Name_Node (str_bytes (ni_NodeID ni))
               (Some (marshal_meta \<lparr>nm_Role = ni_Role ni, nm_State = ni_State ni\<rparr>)))))"

definition GetDKGPartPubKeysForVerify :: "('s, bytes) ss_ops \<Rightarrow> 's \<Rightarrow> error + (string \<rightharpoonup> string)" where
  "GetDKGPartPubKeysForVerify S s = (case GetAllActiveProposers S s of Inl err \<Rightarrow> Inl err | Inr ps \<Rightarrow>
     (case GetAllActiveValidators S s of Inl err \<Rightarrow> Inl err | Inr vs \<Rightarrow>
       Inr (foldl (\<lambda>m ni. m(ni_NodeID ni \<mapsto> ni_DKGPartPubKey ni)) Map.empty (ps @ vs))))"

definition UpdateWeight :: "('s, bytes) ss_ops \<Rightarrow> 's \<Rightarrow> string \<Rightarrow> u64 \<Rightarrow> 's \<times> error option" where
  "UpdateWeight S s nodeID weight = (case node_meta S s nodeID of
     Inl err \<Rightarrow> (s, Some err)
   | Inr None \<Rightarrow> (s, None)
   | Inr (Some KExecutor) \<Rightarrow> updateActiveExecutorWeight S s nodeID weight
   | Inr (Some KProposer) \<Rightarrow> updateActiveProposerWeight S s nodeID weight
   | Inr (Some KValidator) \<Rightarrow> updateActiveValidatorWeight S s nodeID weight
   | Inr (Some KInactive) \<Rightarrow> updateInactiveNodeWeight S s nodeID weight)"

definition UpdateDKGPartPubKey :: "('s, bytes) ss_ops \<Rightarrow> 's \<Rightarrow> string \<Rightarrow> string \<Rightarrow> 's \<times> error option" where
  "UpdateDKGPartPubKey S s nodeID pubKey = (case node_meta S s nodeID of
     Inl err \<Rightarrow> (s, Some err)
   | Inr None \<Rightarrow> (s, None)
   | Inr (Some KExecutor) \<Rightarrow> updateActiveExecutorDKGPartPubKey S s nodeID pubKey
   | Inr (Some KProposer) \<Rightarrow> updateActiveProposerDKGPartPubKey S s nodeID pubKey
   | Inr (Some KValidator) \<Rightarrow> updateActiveValidatorDKGPartPubKey S s nodeID pubKey
   | Inr (Some KInactive) \<Rightarrow> updateInactiveNodeDKGPartPubKey S s nodeID pubKey)"

definition UpdateDKGPriShare :: "('s, bytes) ss_ops \<Rightarrow> 's \<Rightarrow> string \<Rightarrow> bytes option \<Rightarrow> 's \<times> error option" where
  "UpdateDKGPriShare S s nodeID priShare = (case node_meta S s nodeID of
     Inl err \<Rightarrow> (s, Some err)
   | Inr None \<Rightarrow> (s, None)
   | Inr (Some KExecutor) \<Rightarrow> updateActiveExecutorDKGPriShare S s nodeID priShare
   | Inr (Some KProposer) \<Rightarrow> updateActiveProposerDKGPriShare S s nodeID priShare
   | Inr (Some KValidator) \<Rightarrow> updateActiveValidatorDKGPriShare S s nodeID priShare
   | Inr (Some KInactive) \<Rightarrow> updateInactiveNodeDKGPriShare S s nodeID priShare)"

section \<open>The registry as four lists of nodes\<close>

fun cfg_of :: "node_kind \<Rightarrow> node_cfg" where
  "cfg_of KExecutor = cfg_Executor"
| "cfg_of KProposer = cfg_Proposer"
| "cfg_of KValidator = cfg_Validator"
| "cfg_of KInactive = cfg_Inactive"

definition upd_node :: "string \<Rightarrow> (NodeInfo \<Rightarrow> NodeInfo) \<Rightarrow> NodeInfo list \<Rightarrow> NodeInfo list" where
  "upd_node nid g nodes = map (\<lambda>x. if ni_NodeID x = nid then g x else x) nodes"

datatype reg_op =
    OpAdd NodeInfo
  | OpWeight string u64
  | OpPubKey string string
  | OpPriShare string "bytes option"

fun reg_exec :: "('s, bytes) ss_ops \<Rightarrow> 's \<Rightarrow> reg_op \<Rightarrow> 's \<times> error option" where
  "reg_exec S s (OpAdd ni) = AddNode S s (Some ni)"
| "reg_exec S s (OpWeight nid w) = UpdateWeight S s nid w"
| "reg_exec S s (OpPubKey nid pk) = UpdateDKGPartPubKey S s nid pk"
| "reg_exec S s (OpPriShare nid ps) = UpdateDKGPriShare S s nid ps"

type_synonym registry = "node_kind \<Rightarrow> NodeInfo list"

fun reg_spec :: "registry \<Rightarrow> reg_op \<Rightarrow> registry" where
  "reg_spec R (OpAdd ni) = (case kind_of (ni_NodeID ni) (ni_Role ni) (ni_State ni) of
     Inl err \<Rightarrow> R | Inr k \<Rightarrow> R(k := R k @ [ni]))"
| "reg_spec R (OpWeight nid w) = (\<lambda>k. upd_node nid (ni_Weight_update (\<lambda>_. w)) (R k))"
| "reg_spec R (OpPubKey nid pk) = (\<lambda>k. upd_node nid (ni_DKGPartPubKey_update (\<lambda>_. pk)) (R k))"
| "reg_spec R (OpPriShare nid ps) = (\<lambda>k. upd_node nid (ni_DKGPriShare_update (\<lambda>_. ps)) (R k))"

text \<open>
  What the callers have to respect: a node is added once, with a proper identifier,
  role and state, strings are ASCII, and the weights of a kind sum below \<open>2\<^sup>6\<^sup>3\<close>.
\<close>

fun op_ok :: "registry \<Rightarrow> reg_op \<Rightarrow> bool" where
  "op_ok R (OpAdd ni) \<longleftrightarrow> (\<forall>k. ni_NodeID ni \<notin> ni_NodeID ` set (R k)) \<and>
     (case kind_of (ni_NodeID ni) (ni_Role ni) (ni_State ni) of
        Inl err \<Rightarrow> False
      | Inr k \<Rightarrow> node_ok (cfg_of k) ni \<and> total_weight (R k) + unat (ni_Weight ni) < 2 ^ 63)"
| "op_ok R (OpWeight nid w) \<longleftrightarrow> nid \<noteq> [] \<and>
     (\<forall>k. total_weight (upd_node nid (ni_Weight_update (\<lambda>_. w)) (R k)) < 2 ^ 63)"
| "op_ok R (OpPubKey nid pk) \<longleftrightarrow> nid \<noteq> [] \<and> ascii pk"
| "op_ok R (OpPriShare nid ps) \<longleftrightarrow> nid \<noteq> []"

fun reg_run :: "('s, bytes) ss_ops \<Rightarrow> 's \<Rightarrow> reg_op list \<Rightarrow> 's \<times> error list" where
  "reg_run S s [] = (s, [])"
| "reg_run S s (op # ops) = (case reg_exec S s op of (s1, err) \<Rightarrow>
     (case reg_run S s1 ops of (s2, errs) \<Rightarrow> (s2, opt_list err @ errs)))"

fun ops_ok :: "registry \<Rightarrow> reg_op list \<Rightarrow> bool" where
  "ops_ok R [] \<longleftrightarrow> True"
| "ops_ok R (op # ops) \<longleftrightarrow> op_ok R op \<and> ops_ok (reg_spec R op) ops"

definition meta_of :: "NodeInfo \<Rightarrow> nodeStateMetaInfo" where
  "meta_of ni = \<lparr>nm_Role = ni_Role ni, nm_State = ni_State ni\<rparr>"

definition reg_repr :: "(string \<Rightarrow> bytes \<rightharpoonup> bytes) \<Rightarrow> registry \<Rightarrow> bool" where
  "reg_repr f R \<longleftrightarrow> (\<forall>k. node_repr (cfg_of k) (f (nc_name (cfg_of k))) (R k)) \<and>
     (\<forall>k. \<forall>ni \<in> set (R k). kind_of (ni_NodeID ni) (ni_Role ni) (ni_State ni) = Inr k \<and>
        f StateStore_Name_Node (str_bytes (ni_NodeID ni)) = Some (marshal_meta (meta_of ni))) \<and>
     (\<forall>nid. (\<forall>k. nid \<notin> ni_NodeID ` set (R k)) \<longrightarrow> f StateStore_Name_Node (str_bytes nid) = None)"

lemma cfg_names:
  "nc_name (cfg_of k) = nc_name (cfg_of k') \<longleftrightarrow> k = k'" "nc_name (cfg_of k) \<noteq> StateStore_Name_Node"
  "cfg_ok (cfg_of k)" "name_ok (nc_name (cfg_of k))"
proof -
  show "nc_name (cfg_of k) = nc_name (cfg_of k') \<longleftrightarrow> k = k'"
    by (cases k; cases k'; simp add: cfg_Executor_def cfg_Proposer_def cfg_Validator_def cfg_Inactive_def)
  show "nc_name (cfg_of k) \<noteq> StateStore_Name_Node" "cfg_ok (cfg_of k)"
    by (cases k; simp add: cfg_Executor_def cfg_Proposer_def cfg_Validator_def cfg_Inactive_def cfg_ok_def)+
  show "name_ok (nc_name (cfg_of k))" by (cases k; simp only: cfg_of.simps; code_simp)
qed

definition reg_names :: "string list" where
  "reg_names = [''nodeinactive'', ''executor'', ''proposer'', ''validator'', ''node'']"

lemma cfg_of_name: "nc_name (cfg_of k) = (case k of KExecutor \<Rightarrow> ''executor'' | KProposer \<Rightarrow> ''proposer''
    | KValidator \<Rightarrow> ''validator'' | KInactive \<Rightarrow> ''nodeinactive'')"
  by (cases k) (simp_all add: cfg_Executor_def cfg_Proposer_def cfg_Validator_def cfg_Inactive_def)

lemma reg_repr_empty: "\<forall>n \<in> set reg_names. f n = Map.empty \<Longrightarrow> reg_repr f (\<lambda>_. [])"
proof -
  assume "\<forall>n \<in> set reg_names. f n = Map.empty"
  then have "f StateStore_Name_Node = Map.empty" "f (nc_name (cfg_of k)) = Map.empty" for k
    by (auto simp: reg_names_def cfg_of_name split: node_kind.splits)
  then show ?thesis by (simp add: reg_repr_def node_repr_def total_weight_def)
qed

lemma unmarshal_meta_marshal: "unmarshal_meta (Some (marshal_meta m)) = Inr m"
proof -
  have "field ''Role'' [(''Role'', a), (''State'', b)] = a" "field ''State'' [(''Role'', a), (''State'', b)] = b" for a b
    by (simp_all add: field_def to_lower_def)
  moreover have "json_ok (JObj [(''Role'', j_u64 (nm_Role m)), (''State'', j_byte (nm_State m))])" by simp
  ultimately show ?thesis by (simp add: unmarshal_meta_def marshal_meta_def Unmarshal_Marshal)
qed

text \<open>An identifier occurs in one kind only.\<close>

lemma reg_repr_kind:
  assumes "reg_repr f R" "ni \<in> set (R k)" "ni' \<in> set (R k')" "ni_NodeID ni = ni_NodeID ni'"
  shows "k = k'"
proof -
  have "marshal_meta (meta_of ni) = marshal_meta (meta_of ni')" "kind_of (ni_NodeID ni) (ni_Role ni) (ni_State ni) = Inr k"
    "kind_of (ni_NodeID ni') (ni_Role ni') (ni_State ni') = Inr k'"
    using assms unfolding reg_repr_def by (metis option.inject)+
  then show ?thesis
    using unmarshal_meta_marshal [of "meta_of ni"] unmarshal_meta_marshal [of "meta_of ni'"] assms(4)
    by (simp add: meta_of_def)
qed

lemma reg_repr_distinct:
  assumes "reg_repr f R"
  shows "distinct (map ni_NodeID (concat (map R [KExecutor, KProposer, KValidator, KInactive])))"
proof -
  have d: "distinct (map ni_NodeID (R k))" for k using assms by (simp add: reg_repr_def node_repr_def)
  have "ni_NodeID ` set (R k) \<inter> ni_NodeID ` set (R k') = {}" if "k \<noteq> k'" for k k'
    using reg_repr_kind [OF assms] that by blast
  then show ?thesis using d by (simp add: Int_Un_distrib)
qed

lemma upd_node_absent: "nid \<notin> ni_NodeID ` set nodes \<Longrightarrow> upd_node nid g nodes = nodes"
  by (auto simp: upd_node_def image_iff intro!: map_idI)

lemma upd_node_replace:
  assumes "distinct (map ni_NodeID nodes)" "ni \<in> set nodes" "ni_NodeID (g ni) = ni_NodeID ni"
  shows "upd_node (ni_NodeID ni) g nodes = replace_node (g ni) nodes"
  using assms by (auto simp: upd_node_def replace_node_def distinct_map inj_on_def)

text \<open>Each operation of the registry is the operation of the kind that it selects.\<close>

lemma dispatch:
  "AddNode S s (Some ni) = (case kind_of (ni_NodeID ni) (ni_Role ni) (ni_State ni) of
     Inl err \<Rightarrow> (s, Some err)
   | Inr k \<Rightarrow> andThen (ns_add S (cfg_of k) s (Some ni)) (\<lambda>s1.
       SS_Put S s1 StateStore_Name_Node (str_bytes (ni_NodeID ni)) (Some (marshal_meta (meta_of ni)))))"
  "GetNode S s nid = (case node_meta S s nid of
     Inl err \<Rightarrow> Inl err | Inr None \<Rightarrow> Inr None | Inr (Some k) \<Rightarrow> getNode S s (nc_name (cfg_of k)) nid)"
  "UpdateWeight S s nid w = (case node_meta S s nid of
     Inl err \<Rightarrow> (s, Some err) | Inr None \<Rightarrow> (s, None) | Inr (Some k) \<Rightarrow> ns_updateWeight S (cfg_of k) s nid w)"
  "UpdateDKGPartPubKey S s nid pk = (case node_meta S s nid of
     Inl err \<Rightarrow> (s, Some err) | Inr None \<Rightarrow> (s, None)
   | Inr (Some k) \<Rightarrow> updateDKGPartPubKey S s (nc_name (cfg_of k)) nid pk)"
  "UpdateDKGPriShare S s nid ps = (case node_meta S s nid of
     Inl err \<Rightarrow> (s, Some err) | Inr None \<Rightarrow> (s, None)
   | Inr (Some k) \<Rightarrow> updateDKGPriShare S s (nc_name (cfg_of k)) nid ps)"
  by (auto simp: AddNode_def GetNode_def UpdateWeight_def UpdateDKGPartPubKey_def UpdateDKGPriShare_def kind_defs
      meta_of_def split: sum.splits option.splits node_kind.splits)

context bytes_store
begin

definition reg_open :: "'s \<Rightarrow> bool" where
  "reg_open s \<longleftrightarrow> ok s StateStore_Name_Node \<and> (\<forall>k. ok s (nc_name (cfg_of k)))"

lemma reg_openI: "\<forall>n \<in> set reg_names. ok s n \<Longrightarrow> reg_open s"
  by (auto simp: reg_open_def reg_names_def cfg_of_name split: node_kind.splits)

lemma node_meta_repr:
  assumes "reg_open s" "reg_repr (data s) R" "nid \<noteq> []"
  shows "ni \<in> set (R k) \<Longrightarrow> nid = ni_NodeID ni \<Longrightarrow> node_meta S s nid = Inr (Some k)"
    "\<forall>k. nid \<notin> ni_NodeID ` set (R k) \<Longrightarrow> node_meta S s nid = Inr None"
  using assms by (auto simp: node_meta_def reg_open_def reg_repr_def GetStateData unmarshal_meta_marshal meta_of_def)

lemma node_id_ok:
  assumes "reg_repr (data s) R" "ni \<in> set (R k)"
  shows "ni_NodeID ni \<notin> {[], nc_ids (cfg_of k), nc_weight (cfg_of k)}" "node_ascii ni"
  using assms unfolding reg_repr_def node_repr_def by (fastforce simp: list_all_iff node_ok_def)+

text \<open>A change of one kind that keeps identifiers, roles and states.\<close>

lemma reg_repr_change:
  assumes "reg_open s" "reg_repr (data s) R" "changes s (nc_name (cfg_of k)) s'"
    and "node_repr (cfg_of k) (data s' (nc_name (cfg_of k))) (upd_node nid g (R k))"
    and "\<And>x. ni_NodeID (g x) = ni_NodeID x \<and> ni_Role (g x) = ni_Role x \<and> ni_State (g x) = ni_State x"
    and "ni \<in> set (R k)" "nid = ni_NodeID ni"
  shows "reg_open s'" "reg_repr (data s') (\<lambda>k. upd_node nid g (R k))"
proof -
  show "reg_open s'" using assms(1,3) by (auto simp: reg_open_def changes_def)
  have other: "upd_node nid g (R k') = R k'" if "k' \<noteq> k" for k'
    using reg_repr_kind [OF assms(2), of ni k _ k'] assms(6,7) that by (intro upd_node_absent) (metis image_iff)
  have same: "data s' n = data s n" if "n = StateStore_Name_Node \<or> (\<exists>k'. k' \<noteq> k \<and> n = nc_name (cfg_of k'))" for n
    using assms(1,3) that cfg_names(1,2) by (metis changes_def reg_open_def)
  have meta: "meta_of (g x) = meta_of x" for x using assms(5) by (simp add: meta_of_def)
  have elem: "\<exists>x \<in> set (R k'). ni_NodeID y = ni_NodeID x \<and> ni_Role y = ni_Role x \<and> ni_State y = ni_State x \<and> meta_of y = meta_of x"
    if "y \<in> set (upd_node nid g (R k'))" for y k'
    using that assms(5) meta by (auto simp: upd_node_def split: if_splits)
  have ids: "ni_NodeID ` set (upd_node nid g (R k')) = ni_NodeID ` set (R k')" for k'
    unfolding upd_node_def set_map image_image using assms(5) by (intro image_cong) auto
  show "reg_repr (data s') (\<lambda>k. upd_node nid g (R k))"
    unfolding reg_repr_def
  proof (intro conjI allI ballI)
    fix k'
    show "node_repr (cfg_of k') (data s' (nc_name (cfg_of k'))) (upd_node nid g (R k'))"
      using assms(2,4) other [of k'] same [of "nc_name (cfg_of k')"] unfolding reg_repr_def
      by (cases "k' = k") metis+
  next
    fix k' y assume y: "y \<in> set (upd_node nid g (R k'))"
    obtain x where "x \<in> set (R k')" "ni_NodeID y = ni_NodeID x" "ni_Role y = ni_Role x" "ni_State y = ni_State x"
      "meta_of y = meta_of x" using elem [OF y] by blast
    then show "kind_of (ni_NodeID y) (ni_Role y) (ni_State y) = Inr k'"
      "data s' StateStore_Name_Node (str_bytes (ni_NodeID y)) = Some (marshal_meta (meta_of y))"
      using assms(2) same [of StateStore_Name_Node] by (simp_all add: reg_repr_def)
  next
    fix nid' show "(\<forall>k'. nid' \<notin> ni_NodeID ` set (upd_node nid g (R k'))) \<longrightarrow> data s' StateStore_Name_Node (str_bytes nid') = None"
      using assms(2) same [of StateStore_Name_Node] by (simp add: ids reg_repr_def)
  qed
qed

lemma reg_kind:
  assumes "reg_open s" "reg_repr (data s) R"
  shows "ok s (nc_name (cfg_of k))" "node_repr (cfg_of k) (data s (nc_name (cfg_of k))) (R k)"
    "distinct (map ni_NodeID (R k))"
  using assms by (auto simp: reg_open_def reg_repr_def node_repr_def)

text \<open>
  The three updates look the node up through its meta data; an unknown node is
  left alone, without an error.
\<close>

lemma reg_update:
  assumes "reg_open s" "reg_repr (data s) R" "nid \<noteq> []"
    and g: "\<And>x. ni_NodeID (g x) = ni_NodeID x \<and> ni_Role (g x) = ni_Role x \<and> ni_State (g x) = ni_State x"
    and none: "node_meta S s nid = Inr None \<Longrightarrow> r = (s, None)"
    and some: "\<And>k ni. node_meta S s nid = Inr (Some k) \<Longrightarrow> ni \<in> set (R k) \<Longrightarrow> ni_NodeID ni = nid \<Longrightarrow>
      \<exists>s'. r = (s', None) \<and> changes s (nc_name (cfg_of k)) s' \<and>
        node_repr (cfg_of k) (data s' (nc_name (cfg_of k))) (replace_node (g ni) (R k))"
  shows "snd r = None \<and> reg_open (fst r) \<and> reg_repr (data (fst r)) (\<lambda>k. upd_node nid g (R k))"
proof (cases "\<exists>k. nid \<in> ni_NodeID ` set (R k)")
  case False
  then have "upd_node nid g (R k) = R k" for k by (intro upd_node_absent) auto
  then show ?thesis using node_meta_repr(2) [OF assms(1-3)] False none assms(1,2) by simp
next
  case True
  then obtain k ni where ni: "ni \<in> set (R k)" "ni_NodeID ni = nid" by auto
  have "node_meta S s nid = Inr (Some k)" using node_meta_repr(1) [OF assms(1-3) ni(1)] ni(2) by simp
  then obtain s' where s': "r = (s', None)" "changes s (nc_name (cfg_of k)) s'"
    "node_repr (cfg_of k) (data s' (nc_name (cfg_of k))) (replace_node (g ni) (R k))"
    using some [OF _ ni] by blast
  moreover have "replace_node (g ni) (R k) = upd_node nid g (R k)"
    using upd_node_replace [OF reg_kind(3) [OF assms(1,2)] ni(1), of g] g ni(2) by simp
  ultimately show ?thesis using reg_repr_change [OF assms(1,2) s'(2) _ g ni(1) ni(2) [symmetric]] by simp
qed

lemma find_in_kind:
  assumes "reg_open s" "reg_repr (data s) R" "ni \<in> set (R k)"
  shows "getNode S s (nc_name (cfg_of k)) (ni_NodeID ni) = Inr (Some ni)"
  using getNode_repr [OF reg_kind(1,2) [OF assms(1,2)] node_id_ok(1) [OF assms(2,3)]]
    find_distinct [OF reg_kind(3) [OF assms(1,2)] assms(3)] by simp

lemma UpdateWeight_repr:
  assumes "reg_open s" "reg_repr (data s) R" "op_ok R (OpWeight nid w)"
  shows "snd (UpdateWeight S s nid w) = None \<and> reg_open (fst (UpdateWeight S s nid w)) \<and>
    reg_repr (data (fst (UpdateWeight S s nid w))) (reg_spec R (OpWeight nid w))"
  unfolding reg_spec.simps
proof (rule reg_update [OF assms(1,2)])
  fix k ni assume a: "node_meta S s nid = Inr (Some k)" and ni: "ni \<in> set (R k)" "ni_NodeID ni = nid"
  have "total_weight (replace_node (ni\<lparr>ni_Weight := w\<rparr>) (R k)) < 2 ^ 63"
    using assms(3) upd_node_replace [OF reg_kind(3) [OF assms(1,2)] ni(1), of "ni_Weight_update (\<lambda>_. w)"] ni(2)
    by (auto dest: spec [of _ k])
  from ns_updateWeight_repr [OF reg_kind(1) [OF assms(1,2)] cfg_names(3) reg_kind(2) [OF assms(1,2)] ni(1) this]
  show "\<exists>s'. UpdateWeight S s nid w = (s', None) \<and> changes s (nc_name (cfg_of k)) s' \<and>
      node_repr (cfg_of k) (data s' (nc_name (cfg_of k))) (replace_node (ni\<lparr>ni_Weight := w\<rparr>) (R k))"
    unfolding dispatch a using ni(2) by (metis (no_types, lifting) option.simps(5) sum.simps(6))
qed (use assms(3) in \<open>auto simp: dispatch\<close>)

lemma UpdateDKGPartPubKey_repr:
  assumes "reg_open s" "reg_repr (data s) R" "nid \<noteq> []" "ascii pk"
  shows "snd (UpdateDKGPartPubKey S s nid pk) = None \<and> reg_open (fst (UpdateDKGPartPubKey S s nid pk)) \<and>
    reg_repr (data (fst (UpdateDKGPartPubKey S s nid pk))) (reg_spec R (OpPubKey nid pk))"
  unfolding reg_spec.simps
proof (rule reg_update [OF assms(1-3)])
  fix k ni assume a: "node_meta S s nid = Inr (Some k)" and ni: "ni \<in> set (R k)" "ni_NodeID ni = nid"
  have "node_ascii (ni\<lparr>ni_DKGPartPubKey := pk\<rparr>)"
    using node_id_ok(2) [OF assms(2) ni(1)] assms(4) by (simp add: node_ascii_def)
  from ns_field_repr [OF reg_kind(1,2) [OF assms(1,2)] ni(1) _ _ this]
  show "\<exists>s'. UpdateDKGPartPubKey S s nid pk = (s', None) \<and> changes s (nc_name (cfg_of k)) s' \<and>
      node_repr (cfg_of k) (data s' (nc_name (cfg_of k))) (replace_node (ni\<lparr>ni_DKGPartPubKey := pk\<rparr>) (R k))"
    unfolding dispatch a using find_in_kind [OF assms(1,2) ni(1)] ni(2)
    by (auto simp: updateDKGPartPubKey_def)
qed (auto simp: dispatch)

lemma UpdateDKGPriShare_repr:
  assumes "reg_open s" "reg_repr (data s) R" "nid \<noteq> []"
  shows "snd (UpdateDKGPriShare S s nid ps) = None \<and> reg_open (fst (UpdateDKGPriShare S s nid ps)) \<and>
    reg_repr (data (fst (UpdateDKGPriShare S s nid ps))) (reg_spec R (OpPriShare nid ps))"
  unfolding reg_spec.simps
proof (rule reg_update [OF assms(1-3)])
  fix k ni assume a: "node_meta S s nid = Inr (Some k)" and ni: "ni \<in> set (R k)" "ni_NodeID ni = nid"
  have "node_ascii (ni\<lparr>ni_DKGPriShare := ps\<rparr>)"
    using node_id_ok(2) [OF assms(2) ni(1)] by (simp add: node_ascii_def)
  from ns_field_repr [OF reg_kind(1,2) [OF assms(1,2)] ni(1) _ _ this]
  show "\<exists>s'. UpdateDKGPriShare S s nid ps = (s', None) \<and> changes s (nc_name (cfg_of k)) s' \<and>
      node_repr (cfg_of k) (data s' (nc_name (cfg_of k))) (replace_node (ni\<lparr>ni_DKGPriShare := ps\<rparr>) (R k))"
    unfolding dispatch a using find_in_kind [OF assms(1,2) ni(1)] ni(2)
    by (auto simp: updateDKGPriShare_def)
qed (auto simp: dispatch)

lemma AddNode_repr:
  assumes "reg_open s" "reg_repr (data s) R" "op_ok R (OpAdd ni)"
  shows "snd (AddNode S s (Some ni)) = None \<and> reg_open (fst (AddNode S s (Some ni))) \<and>
    reg_repr (data (fst (AddNode S s (Some ni)))) (reg_spec R (OpAdd ni))"
proof -
  let ?id = "str_bytes (ni_NodeID ni)"
  obtain k where k: "kind_of (ni_NodeID ni) (ni_Role ni) (ni_State ni) = Inr k" "node_ok (cfg_of k) ni"
    "total_weight (R k) + unat (ni_Weight ni) < 2 ^ 63"
    using assms(3) by (auto split: sum.splits)
  have fresh: "ni_NodeID ni \<notin> ni_NodeID ` set (R k')" for k' using assms(3) by simp
  let ?n = "nc_name (cfg_of k)"
  obtain s1 where s1: "ns_add S (cfg_of k) s (Some ni) = (s1, None)" "changes s ?n s1"
    "node_repr (cfg_of k) (data s1 ?n) (R k @ [ni])"
    by (rule ns_add_repr [OF reg_kind(1) [OF assms(1,2)] cfg_names(3) reg_kind(2) [OF assms(1,2)] k(2) fresh k(3)])
  have open1: "reg_open s1" using assms(1) s1(2) by (simp add: reg_open_def changes_def)
  obtain s2 where s2: "SS_Put S s1 StateStore_Name_Node ?id (Some (marshal_meta (meta_of ni))) = (s2, None)"
    "changes s1 StateStore_Name_Node s2"
    "data s2 StateStore_Name_Node = (data s1 StateStore_Name_Node)(?id \<mapsto> marshal_meta (meta_of ni))"
    using writeE [of s1 StateStore_Name_Node ?id] open1 k(2) by (auto simp: reg_open_def node_ok_def)
  have kinds: "data s2 (nc_name (cfg_of k')) = data s1 (nc_name (cfg_of k'))" for k'
    using s2(2) open1 cfg_names(2) by (auto simp: changes_def reg_open_def)
  have same: "data s1 n = data s n" if "n = StateStore_Name_Node \<or> (\<exists>k'. k' \<noteq> k \<and> n = nc_name (cfg_of k'))" for n
    using assms(1) s1(2) that cfg_names(1,2) by (metis changes_def reg_open_def)
  have meta: "data s2 StateStore_Name_Node = (data s StateStore_Name_Node)(?id \<mapsto> marshal_meta (meta_of ni))"
    using s2(3) same [of StateStore_Name_Node] by simp
  have "reg_repr (data s2) (R(k := R k @ [ni]))"
    unfolding reg_repr_def
  proof (intro conjI allI ballI)
    fix k' show "node_repr (cfg_of k') (data s2 (nc_name (cfg_of k'))) ((R(k := R k @ [ni])) k')"
      using s1(3) reg_kind(2) [OF assms(1,2), of k'] same [of "nc_name (cfg_of k')"] kinds [of k']
      by (cases "k' = k") (simp, metis fun_upd_other)
  next
    fix k' x assume x: "x \<in> set ((R(k := R k @ [ni])) k')"
    have "x \<in> set (R k') \<and> ni_NodeID x \<noteq> ni_NodeID ni \<or> x = ni \<and> k' = k"
      using x fresh [of k'] by (cases "k' = k") (auto simp: image_iff)
    then show "kind_of (ni_NodeID x) (ni_Role x) (ni_State x) = Inr k'"
      "data s2 StateStore_Name_Node (str_bytes (ni_NodeID x)) = Some (marshal_meta (meta_of x))"
      using assms(2) k(1) by (auto simp: meta reg_repr_def)
  next
    fix nid show "(\<forall>k'. nid \<notin> ni_NodeID ` set ((R(k := R k @ [ni])) k')) \<longrightarrow>
      data s2 StateStore_Name_Node (str_bytes nid) = None"
      using assms(2) by (force simp: meta reg_repr_def split: if_splits)
  qed
  then show ?thesis using k(1) s1(1) s2(1,2) open1 by (auto simp: dispatch reg_open_def changes_def)
qed

lemma reg_exec_repr:
  assumes "reg_open s" "reg_repr (data s) R" "op_ok R op"
  shows "snd (reg_exec S s op) = None \<and> reg_open (fst (reg_exec S s op)) \<and>
    reg_repr (data (fst (reg_exec S s op))) (reg_spec R op)"
  using assms AddNode_repr UpdateWeight_repr UpdateDKGPartPubKey_repr UpdateDKGPriShare_repr
  by (cases op; simp only: reg_exec.simps op_ok.simps; blast)

lemma reg_run_repr:
  assumes "reg_open s" "reg_repr (data s) R" "ops_ok R ops"
  shows "snd (reg_run S s ops) = [] \<and> reg_open (fst (reg_run S s ops)) \<and>
    reg_repr (data (fst (reg_run S s ops))) (foldl reg_spec R ops)"
  using assms
proof (induction ops arbitrary: s R)
  case (Cons op ops)
  obtain s1 where s1: "reg_exec S s op = (s1, None)" "reg_open s1" "reg_repr (data s1) (reg_spec R op)"
    using reg_exec_repr [OF Cons.prems(1,2), of op] Cons.prems(3) by (cases "reg_exec S s op") auto
  show ?case using Cons.IH [OF s1(2,3)] Cons.prems(3) s1(1) by (auto simp: opt_list_def split: prod.splits)
qed simp

section \<open>What the queries return\<close>

lemma GetNode_repr:
  assumes "reg_open s" "reg_repr (data s) R" "nid \<noteq> []"
  shows "GetNode S s nid = Inr (find (\<lambda>x. ni_NodeID x = nid) (concat (map R [KExecutor, KProposer, KValidator, KInactive])))"
    (is "_ = Inr (find ?P ?xs)")
proof (cases "find ?P ?xs")
  case None
  then have "\<forall>x \<in> set ?xs. ni_NodeID x \<noteq> nid" by (auto simp: find_None_iff)
  then have "nid \<notin> ni_NodeID ` set (R k)" for k by (cases k) auto
  then show ?thesis using None node_meta_repr(2) [OF assms] by (simp add: dispatch)
next
  case (Some ni)
  then have "ni \<in> set ?xs" "ni_NodeID ni = nid" unfolding find_Some_iff by (metis nth_mem)+
  then obtain k where k: "ni \<in> set (R k)" "ni_NodeID ni = nid" by auto
  then show ?thesis
    using Some node_meta_repr(1) [OF assms k(1)] find_in_kind [OF assms(1,2) k(1)] by (simp add: dispatch)
qed

lemma GetTotalWeight_repr:
  assumes "reg_open s" "reg_repr (data s) R"
  shows "GetTotalWeight S s = Inr (word_of_nat (total_weight (R KExecutor @ R KProposer @ R KValidator)))"
  using ns_GetTotalWeight_repr [OF reg_kind(1) [OF assms] cfg_names(3) reg_kind(2) [OF assms], of KExecutor]
    ns_GetTotalWeight_repr [OF reg_kind(1) [OF assms] cfg_names(3) reg_kind(2) [OF assms], of KProposer]
    ns_GetTotalWeight_repr [OF reg_kind(1) [OF assms] cfg_names(3) reg_kind(2) [OF assms], of KValidator]
  by (simp add: GetTotalWeight_def kind_defs total_weight_def)

lemma GetAllConsensusNodeIDs_repr:
  assumes "reg_open s" "reg_repr (data s) R"
  shows "GetAllConsensusNodeIDs S s = Inr (map ni_NodeID (concat (map R [KExecutor, KProposer, KValidator, KInactive])))"
proof -
  have ids: "ns_GetIDs S (cfg_of k) s = Inr (if R k = [] then None else Some (map ni_NodeID (R k)))" for k
    by (rule ns_GetIDs_repr [OF reg_kind(1) [OF assms] cfg_names(3) reg_kind(2) [OF assms]])
  have pids: "GetActiveProposerIDs S s = ns_GetIDs S (cfg_of KProposer) s"
    using GetState [OF reg_kind(1) [OF assms, of KProposer], of "str_bytes (nc_ids cfg_Proposer)"]
      GetStateData [OF reg_kind(1) [OF assms, of KProposer], of "str_bytes (nc_ids cfg_Proposer)"] cfg_names(3) [of KProposer]
    by (auto simp: kind_defs ns_GetIDs_def cfg_ok_def split: option.splits)
  show ?thesis unfolding GetAllConsensusNodeIDs_def pids using ids [of KExecutor] ids [of KProposer] ids [of KValidator] ids [of KInactive]
    by (auto simp: kind_defs)
qed

text \<open>A second addition of a known node of the same kind.\<close>

lemma AddNode_again:
  assumes "reg_open s" "reg_repr (data s) R" "kind_of (ni_NodeID ni) (ni_Role ni) (ni_State ni) = Inr k"
    and "node_ok (cfg_of k) ni" "total_weight (R k) + unat (ni_Weight ni) < 2 ^ 63"
  shows "snd (AddNode S s (Some ni)) = None"
    "ns_GetIDs S (cfg_of k) (fst (AddNode S s (Some ni))) = Inr (Some (map ni_NodeID (R k) @ [ni_NodeID ni]))"
    "ns_GetTotalWeight S (cfg_of k) (fst (AddNode S s (Some ni))) =
       Inr (word_of_nat (total_weight (R k) + unat (ni_Weight ni)))"
proof -
  let ?id = "str_bytes (ni_NodeID ni)" and ?n = "nc_name (cfg_of k)"
  obtain s1 where s1: "ns_add S (cfg_of k) s (Some ni) = (s1, None)" "changes s ?n s1"
    "ns_GetIDs S (cfg_of k) s1 = Inr (Some (map ni_NodeID (R k) @ [ni_NodeID ni]))"
    "ns_GetTotalWeight S (cfg_of k) s1 = Inr (word_of_nat (total_weight (R k) + unat (ni_Weight ni)))"
    by (rule ns_add_again [OF reg_kind(1) [OF assms(1,2)] cfg_names(3) reg_kind(2) [OF assms(1,2)] assms(4,5)])
  have open1: "ok s1 StateStore_Name_Node" "ok s1 ?n" using assms(1) s1(2) by (simp_all add: reg_open_def changes_def)
  obtain s2 where s2: "SS_Put S s1 StateStore_Name_Node ?id (Some (marshal_meta (meta_of ni))) = (s2, None)"
    "changes s1 StateStore_Name_Node s2"
    using writeE [OF open1(1), of ?id] assms(4) by (auto simp: node_ok_def)
  have ok2: "ok s2 ?n" using changes_ok [OF s2(2) open1(2)] .
  have keep: "data s2 ?n = data s1 ?n" using s2(2) open1 cfg_names(2) by (auto simp: changes_def)
  have "AddNode S s (Some ni) = (s2, None)" using s1(1) s2(1) assms(3) by (simp add: dispatch)
  moreover have "ns_GetIDs S (cfg_of k) s2 = ns_GetIDs S (cfg_of k) s1"
    "ns_GetTotalWeight S (cfg_of k) s2 = ns_GetTotalWeight S (cfg_of k) s1"
    using keep ok2 open1(2) cfg_names(3) [of k] by (simp_all add: ns_GetIDs_def ns_GetTotalWeight_def GetStateData cfg_ok_def)
  ultimately show "snd (AddNode S s (Some ni)) = None"
    "ns_GetIDs S (cfg_of k) (fst (AddNode S s (Some ni))) = Inr (Some (map ni_NodeID (R k) @ [ni_NodeID ni]))"
    "ns_GetTotalWeight S (cfg_of k) (fst (AddNode S s (Some ni))) =
       Inr (word_of_nat (total_weight (R k) + unat (ni_Weight ni)))"
    using s1(3,4) by simp_all
qed

end

section \<open>The registry on the ledger\<close>

text \<open>A run on empty stores, as the registry sees it.\<close>

lemma ledger_reg_run:
  fixes B :: "('t, bytes) btree_ops"
  assumes "ledger_libs B M" "\<forall>n \<in> set reg_names. ledger_ok B s n \<and> ledger_data B s n = Map.empty"
    and "ops_ok (\<lambda>_. []) ops" "reg_run (ledger_ops B M) s ops = (s', errs)"
  shows "errs = []" "bytes_store.reg_open (ledger_ok B) s'" "reg_repr (ledger_data B s') (foldl reg_spec (\<lambda>_. []) ops)"
proof -
  note l = ledger_bytes_store [OF assms(1)]
  have "bytes_store.reg_open (ledger_ok B) s" using bytes_store.reg_openI [OF l] assms(2) by simp
  moreover have "reg_repr (ledger_data B s) (\<lambda>_. [])" using assms(2) by (intro reg_repr_empty) simp
  ultimately show "errs = []" "bytes_store.reg_open (ledger_ok B) s'"
    "reg_repr (ledger_data B s') (foldl reg_spec (\<lambda>_. []) ops)"
    using bytes_store.reg_run_repr [OF l _ _ assms(3)] assms(4) by fastforce+
qed

text \<open>
  (C5) The node registry refines four lists of nodes: starting on empty stores, any
  sequence of additions and updates within the callers' obligations succeeds, and
  afterwards looking a node up by its identifier finds the node with its latest
  values, the list of all identifiers has every node once, and the total weight is
  the sum (modulo \<open>2\<^sup>6\<^sup>4\<close>) of the weights of the active nodes.
\<close>

theorem registry_refines:
  fixes B :: "('t, bytes) btree_ops"
  assumes "ledger_libs B M" "\<forall>n \<in> set reg_names. ledger_ok B s n \<and> ledger_data B s n = Map.empty"
    and "ops_ok (\<lambda>_. []) ops" "reg_run (ledger_ops B M) s ops = (s', errs)"
  shows "let R = foldl reg_spec (\<lambda>_. []) ops; all_nodes = concat (map R [KExecutor, KProposer, KValidator, KInactive])
     in errs = [] \<and> distinct (map ni_NodeID all_nodes) \<and>
       (\<forall>nid. nid \<noteq> [] \<longrightarrow> GetNode (ledger_ops B M) s' nid = Inr (find (\<lambda>x. ni_NodeID x = nid) all_nodes)) \<and>
       GetAllConsensusNodeIDs (ledger_ops B M) s' = Inr (map ni_NodeID all_nodes) \<and>
       GetTotalWeight (ledger_ops B M) s' = Inr (word_of_nat (total_weight (R KExecutor @ R KProposer @ R KValidator)))"
proof -
  note l = ledger_bytes_store [OF assms(1)] and r = ledger_reg_run [OF assms]
  show ?thesis
    using r(1) bytes_store.GetNode_repr [OF l r(2,3)] bytes_store.GetAllConsensusNodeIDs_repr [OF l r(2,3)]
      bytes_store.GetTotalWeight_repr [OF l r(2,3)] reg_repr_distinct [OF r(3)]
    unfolding Let_def by blast
qed

definition sample_node :: "string \<Rightarrow> u64 \<Rightarrow> u64 \<Rightarrow> NodeInfo" where
  "sample_node nid w role = \<lparr>ni_NodeID = nid, ni_Address = ''a'', ni_Weight = w, ni_DKGPartPubKey = [],
     ni_DKGPriShare = None, ni_Role = role, ni_State = NodeState_Active\<rparr>"

definition sample_reg_ops :: "reg_op list" where
  "sample_reg_ops = [OpAdd (sample_node ''n1'' 10 NodeRole_Executor), OpAdd (sample_node ''n2'' 20 NodeRole_Proposer),
     OpWeight ''n1'' 13, OpPubKey ''n2'' ''pk'']"

lemma reg_names_ok: "\<forall>n \<in> set reg_names. name_ok n"
  by code_simp

lemma sample_reg_ops_ok: "ops_ok (\<lambda>_. []) sample_reg_ops"
  by (auto simp: sample_reg_ops_def sample_node_def kind_of_def upd_node_def total_weight_def node_ok_def node_ascii_def
      cfg_Executor_def cfg_Proposer_def)

lemma sample_reg_result:
  "foldl reg_spec (\<lambda>_. []) sample_reg_ops KExecutor = [sample_node ''n1'' 13 NodeRole_Executor]"
  "map ni_Weight (foldl reg_spec (\<lambda>_. []) sample_reg_ops KProposer) = [20]"
  "foldl reg_spec (\<lambda>_. []) sample_reg_ops KValidator = []"
  by code_simp+

theorem registry_refines_witness:
  "case reg_run (ledger_ops rbt_ops sample_bytes_smt) (sample_open reg_names) sample_reg_ops of (s', errs) \<Rightarrow> errs = [] \<and>
     GetTotalWeight (ledger_ops rbt_ops sample_bytes_smt) s' = Inr 33 \<and>
     GetNode (ledger_ops rbt_ops sample_bytes_smt) s' ''n1'' = Inr (Some (sample_node ''n1'' 13 NodeRole_Executor))"
proof -
  obtain s' errs where r: "reg_run (ledger_ops rbt_ops sample_bytes_smt) (sample_open reg_names) sample_reg_ops = (s', errs)" by force
  show ?thesis
    using registry_refines [OF sample_libs sample_open_ok [OF reg_names_ok] sample_reg_ops_ok r] r sample_reg_result
    by (auto simp: Let_def total_weight_def sample_node_def map_eq_Cons_conv)
qed

text \<open>
  Adding an executor that is already registered is accepted: its identifier is
  then listed twice and its weight is counted on top of the old total.
\<close>

theorem AddNode_twice:
  fixes B :: "('t, bytes) btree_ops"
  assumes "ledger_libs B M" "\<forall>n \<in> set reg_names. ledger_ok B s n \<and> ledger_data B s n = Map.empty"
    and "ops_ok (\<lambda>_. []) ops" "reg_run (ledger_ops B M) s ops = (s', errs)"
    and "ni \<in> set (foldl reg_spec (\<lambda>_. []) ops KExecutor)"
    and "total_weight (foldl reg_spec (\<lambda>_. []) ops KExecutor) + unat (ni_Weight ni) < 2 ^ 63"
  shows "let nodes = foldl reg_spec (\<lambda>_. []) ops KExecutor; (s'', err) = AddNode (ledger_ops B M) s' (Some ni) in
    err = None \<and> GetActiveExecutorIDs (ledger_ops B M) s'' = Inr (Some (map ni_NodeID nodes @ [ni_NodeID ni])) \<and>
    \<not> distinct (map ni_NodeID nodes @ [ni_NodeID ni]) \<and>
    GetActiveExecutorsTotalWeight (ledger_ops B M) s'' = Inr (word_of_nat (total_weight nodes + unat (ni_Weight ni)))"
proof -
  note l = ledger_bytes_store [OF assms(1)] and r = ledger_reg_run [OF assms(1-4)]
  have kind: "kind_of (ni_NodeID ni) (ni_Role ni) (ni_State ni) = Inr KExecutor" "node_ok (cfg_of KExecutor) ni"
    using r(3) assms(5) unfolding reg_repr_def node_repr_def list_all_iff by blast+
  show ?thesis
    using bytes_store.AddNode_again [OF l r(2,3) kind assms(6)] assms(5)
    by (auto simp: Let_def kind_defs split: prod.splits)
qed

theorem AddNode_twice_witness:
  "case reg_run (ledger_ops rbt_ops sample_bytes_smt) (sample_open reg_names) sample_reg_ops of (s', errs) \<Rightarrow>
     (case AddNode (ledger_ops rbt_ops sample_bytes_smt) s' (Some (sample_node ''n1'' 13 NodeRole_Executor)) of
        (s'', err) \<Rightarrow> err = None \<and> GetActiveExecutorIDs (ledger_ops rbt_ops sample_bytes_smt) s'' = Inr (Some [''n1'', ''n1'']) \<and>
          GetActiveExecutorsTotalWeight (ledger_ops rbt_ops sample_bytes_smt) s'' = Inr 26)"
proof -
  obtain s' errs where r: "reg_run (ledger_ops rbt_ops sample_bytes_smt) (sample_open reg_names) sample_reg_ops = (s', errs)" by force
  show ?thesis
    using AddNode_twice [OF sample_libs sample_open_ok [OF reg_names_ok] sample_reg_ops_ok r,
        of "sample_node ''n1'' 13 NodeRole_Executor"] r sample_reg_result(1)
    by (auto simp: Let_def total_weight_def sample_node_def split: prod.splits)
qed

end
