(* ===== verification/Domain_State.thy ===== *)
theory Domain_State
  imports Bytes_Store
begin

text \<open>
  The node domains (\<open>src/state/domain\<close>): a domain is stored as JSON under its
  identifier in the store of its type (\<open>domain_execute.go\<close>, \<open>domain_consensus.go\<close>), and
  a third store records the type (\<open>domain.go\<close>). The main lemmas are the round trip of
  the encoding and \<open>domains_refine\<close>: after any additions a lookup returns the latest
  domain of an identifier, and the active domains of a height are exactly those whose
  range of heights contains it.
\<close>

section \<open>Domains and their encoding\<close>

abbreviation DomainType_Execute :: byte where "DomainType_Execute \<equiv> 1"
abbreviation DomainType_Consensus :: byte where "DomainType_Consensus \<equiv> 2"

definition EpochSpan :: u64 where "EpochSpan = 300"

record NodeDomainMember =
  dm_NodeID :: string
  dm_NodeRole :: u64
  dm_Weight :: u64

record NodeConsensusDomain =
  cd_Threshold :: int
  cd_NParticipant :: int
  cd_PublicKey :: "bytes option"
  cd_PubShares :: "bytes option list option"
  cd_Members :: "NodeDomainMember option list option"

record NodeExecuteDomain =
  ed_Members :: "string list option"

record NodeDomainInfo =
  nd_ID :: string
  nd_Type :: byte
  nd_ValidHeightStart :: u64
  nd_ValidHeightEnd :: u64
  nd_CSDomainData :: "NodeConsensusDomain option"
  nd_ExeDomainData :: "NodeExecuteDomain option"

definition NodeIDs :: "NodeDomainMember list \<Rightarrow> string list" where
  "NodeIDs nodeM = foldl (\<lambda>nIDs nodeMember. nIDs @ [dm_NodeID nodeMember]) [] nodeM"

definition j_member :: "NodeDomainMember \<Rightarrow> json" where
  "j_member x = JObj [(''NodeID'', JStr (dm_NodeID x)), (''NodeRole'', j_u64 (dm_NodeRole x)), (''Weight'', j_u64 (dm_Weight x))]"

definition un_member :: "json \<Rightarrow> error + NodeDomainMember" where
  "un_member j = (case un_obj j of Inl err \<Rightarrow> Inl err | Inr ms \<Rightarrow>
     (case (un_str (field ''NodeID'' ms), un_u64 (field ''NodeRole'' ms), un_u64 (field ''Weight'' ms)) of
        (Inr i, Inr r, Inr w) \<Rightarrow> Inr \<lparr>dm_NodeID = i, dm_NodeRole = r, dm_Weight = w\<rparr>
      | _ \<Rightarrow> Inl ErrJson))"

definition j_cs :: "NodeConsensusDomain \<Rightarrow> json" where
  "j_cs x = JObj [(''Threshold'', JNum (cd_Threshold x)), (''NParticipant'', JNum (cd_NParticipant x)),
     (''PublicKey'', j_bytes (cd_PublicKey x)), (''PubShares'', j_slice j_bytes (cd_PubShares x)),
     (''Members'', j_slice (j_ptr j_member) (cd_Members x))]"

definition un_cs :: "json \<Rightarrow> error + NodeConsensusDomain" where
  "un_cs j = (case un_obj j of Inl err \<Rightarrow> Inl err | Inr ms \<Rightarrow>
     (case (un_int (field ''Threshold'' ms), un_int (field ''NParticipant'' ms), un_bytes (field ''PublicKey'' ms),
            un_slice un_bytes (field ''PubShares'' ms), un_slice (un_ptr un_member) (field ''Members'' ms)) of
        (Inr t, Inr n, Inr pk, Inr ps, Inr mem) \<Rightarrow>
          Inr \<lparr>cd_Threshold = t, cd_NParticipant = n, cd_PublicKey = pk, cd_PubShares = ps, cd_Members = mem\<rparr>
      | _ \<Rightarrow> Inl ErrJson))"

definition j_exe :: "NodeExecuteDomain \<Rightarrow> json" where
  "j_exe x = JObj [(''Members'', j_slice JStr (ed_Members x))]"

definition un_exe :: "json \<Rightarrow> error + NodeExecuteDomain" where
  "un_exe j = (case un_obj j of Inl err \<Rightarrow> Inl err | Inr ms \<Rightarrow>
     (case un_slice un_str (field ''Members'' ms) of Inr mem \<Rightarrow> Inr \<lparr>ed_Members = mem\<rparr> | Inl err \<Rightarrow> Inl err))"

definition j_domain :: "NodeDomainInfo \<Rightarrow> json" where
  "j_domain d = JObj [(''ID'', JStr (nd_ID d)), (''Type'', j_byte (nd_Type d)),
     (''ValidHeightStart'', j_u64 (nd_ValidHeightStart d)), (''ValidHeightEnd'', j_u64 (nd_ValidHeightEnd d)),
     (''CSDomainData'', j_ptr j_cs (nd_CSDomainData d)), (''ExeDomainData'', j_ptr j_exe (nd_ExeDomainData d))]"

definition un_domain :: "json \<Rightarrow> error + NodeDomainInfo" where
  "un_domain j = (case un_obj j of Inl err \<Rightarrow> Inl err | Inr ms \<Rightarrow>
     (case (un_str (field ''ID'' ms), un_byte (field ''Type'' ms), un_u64 (field ''ValidHeightStart'' ms),
            un_u64 (field ''ValidHeightEnd'' ms), un_ptr un_cs (field ''CSDomainData'' ms),
            un_ptr un_exe (field ''ExeDomainData'' ms)) of
        (Inr i, Inr t, Inr hs, Inr he, Inr cs, Inr ex) \<Rightarrow>
          Inr \<lparr>nd_ID = i, nd_Type = t, nd_ValidHeightStart = hs, nd_ValidHeightEnd = he,
               nd_CSDomainData = cs, nd_ExeDomainData = ex\<rparr>
      | _ \<Rightarrow> Inl ErrJson))"

definition marshal_domain :: "NodeDomainInfo \<Rightarrow> bytes" where
  "marshal_domain d = Marshal (j_domain d)"

definition unmarshal_domain :: "bytes option \<Rightarrow> error + NodeDomainInfo" where
  "unmarshal_domain b = (case Unmarshal b of Inl err \<Rightarrow> Inl err | Inr j \<Rightarrow> un_domain j)"

text \<open>The values whose encoding is read back: ASCII strings, 64-bit integers.\<close>

definition int64 :: "int \<Rightarrow> bool" where
  "int64 i \<longleftrightarrow> - (2 ^ 63) \<le> i \<and> i < 2 ^ 63"

definition slice :: "'a list option \<Rightarrow> 'a list" where
  "slice xs = (case xs of None \<Rightarrow> [] | Some ys \<Rightarrow> ys)"

definition domain_ok :: "NodeDomainInfo \<Rightarrow> bool" where
  "domain_ok d \<longleftrightarrow> ascii (nd_ID d) \<and> nd_ID d \<noteq> [] \<and>
     (case nd_CSDomainData d of None \<Rightarrow> True | Some c \<Rightarrow> int64 (cd_Threshold c) \<and> int64 (cd_NParticipant c) \<and>
        list_all (\<lambda>x. case x of None \<Rightarrow> True | Some m \<Rightarrow> ascii (dm_NodeID m)) (slice (cd_Members c))) \<and>
     (case nd_ExeDomainData d of None \<Rightarrow> True | Some e \<Rightarrow> list_all ascii (slice (ed_Members e)))"

lemma un_member_j: "un_member (j_member x) = Inr x"
  by (simp add: un_member_def j_member_def field_def to_lower_def)

lemma fields_cs:
  "field ''Threshold'' [(''Threshold'', a), (''NParticipant'', b), (''PublicKey'', c), (''PubShares'', d), (''Members'', e)] = a"
  "field ''NParticipant'' [(''Threshold'', a), (''NParticipant'', b), (''PublicKey'', c), (''PubShares'', d), (''Members'', e)] = b"
  "field ''PublicKey'' [(''Threshold'', a), (''NParticipant'', b), (''PublicKey'', c), (''PubShares'', d), (''Members'', e)] = c"
  "field ''PubShares'' [(''Threshold'', a), (''NParticipant'', b), (''PublicKey'', c), (''PubShares'', d), (''Members'', e)] = d"
  "field ''Members'' [(''Threshold'', a), (''NParticipant'', b), (''PublicKey'', c), (''PubShares'', d), (''Members'', e)] = e"
  by (simp_all add: field_def to_lower_def)

lemma un_cs_j: "int64 (cd_Threshold x) \<Longrightarrow> int64 (cd_NParticipant x) \<Longrightarrow> un_cs (j_cs x) = Inr x"
proof -
  assume "int64 (cd_Threshold x)" "int64 (cd_NParticipant x)"
  moreover have "un_slice (un_ptr un_member) (j_slice (j_ptr j_member) (cd_Members x)) = Inr (cd_Members x)"
    by (rule un_slice_j) (rule un_ptr_j, simp add: un_member_j, simp add: j_member_def)
  moreover have "un_slice un_bytes (j_slice j_bytes (cd_PubShares x)) = Inr (cd_PubShares x)"
    by (rule un_slice_j) simp
  ultimately show ?thesis by (simp add: un_cs_def j_cs_def fields_cs int64_def)
qed

lemma un_exe_j: "un_exe (j_exe x) = Inr x"
  using un_slice_j [of un_str JStr "ed_Members x"] by (simp add: un_exe_def j_exe_def field_def)

lemma fields_domain:
  "field ''ID'' [(''ID'', a), (''Type'', b), (''ValidHeightStart'', c), (''ValidHeightEnd'', d), (''CSDomainData'', e), (''ExeDomainData'', f)] = a"
  "field ''Type'' [(''ID'', a), (''Type'', b), (''ValidHeightStart'', c), (''ValidHeightEnd'', d), (''CSDomainData'', e), (''ExeDomainData'', f)] = b"
  "field ''ValidHeightStart'' [(''ID'', a), (''Type'', b), (''ValidHeightStart'', c), (''ValidHeightEnd'', d), (''CSDomainData'', e), (''ExeDomainData'', f)] = c"
  "field ''ValidHeightEnd'' [(''ID'', a), (''Type'', b), (''ValidHeightStart'', c), (''ValidHeightEnd'', d), (''CSDomainData'', e), (''ExeDomainData'', f)] = d"
  "field ''CSDomainData'' [(''ID'', a), (''Type'', b), (''ValidHeightStart'', c), (''ValidHeightEnd'', d), (''CSDomainData'', e), (''ExeDomainData'', f)] = e"
  "field ''ExeDomainData'' [(''ID'', a), (''Type'', b), (''ValidHeightStart'', c), (''ValidHeightEnd'', d), (''CSDomainData'', e), (''ExeDomainData'', f)] = f"
  by (simp_all add: field_def to_lower_def)

lemma un_domain_j: "domain_ok d \<Longrightarrow> un_domain (j_domain d) = Inr d"
proof -
  assume ok: "domain_ok d"
  have "un_ptr un_cs (j_ptr j_cs (nd_CSDomainData d)) = Inr (nd_CSDomainData d)"
    using ok by (intro un_ptr_j conjI un_cs_j) (auto simp: domain_ok_def j_cs_def)
  moreover have "un_ptr un_exe (j_ptr j_exe (nd_ExeDomainData d)) = Inr (nd_ExeDomainData d)"
    by (intro un_ptr_j conjI un_exe_j) (simp add: j_exe_def)
  ultimately show ?thesis by (simp add: un_domain_def j_domain_def fields_domain)
qed

lemma json_ok_domain: "domain_ok d \<Longrightarrow> json_ok (j_domain d)"
proof -
  assume ok: "domain_ok d"
  have "json_ok (j_ptr j_cs (nd_CSDomainData d))"
  proof (rule json_ok_ptr)
    fix c assume c: "nd_CSDomainData d = Some c"
    have "json_ok (j_slice (j_ptr j_member) (cd_Members c))"
      using ok c by (intro json_ok_slice json_ok_ptr)
        (force simp: domain_ok_def slice_def list_all_iff j_member_def split: option.splits)
    moreover have "json_ok (j_slice j_bytes (cd_PubShares c))" by (rule json_ok_slice) simp
    ultimately show "json_ok (j_cs c)" by (simp add: j_cs_def)
  qed
  moreover have "json_ok (j_ptr j_exe (nd_ExeDomainData d))"
  proof (rule json_ok_ptr)
    fix e assume e: "nd_ExeDomainData d = Some e"
    have "json_ok (j_slice JStr (ed_Members e))"
      using ok e by (intro json_ok_slice) (simp add: domain_ok_def slice_def list_all_iff)
    then show "json_ok (j_exe e)" by (simp add: j_exe_def)
  qed
  ultimately show ?thesis using ok by (simp add: j_domain_def domain_ok_def)
qed

lemma unmarshal_domain_marshal: "domain_ok d \<Longrightarrow> unmarshal_domain (Some (marshal_domain d)) = Inr d"
  by (simp add: unmarshal_domain_def marshal_domain_def Unmarshal_Marshal json_ok_domain un_domain_j)

section \<open>The stores of domains\<close>

definition isNodeDomainExist :: "('s, bytes) ss_ops \<Rightarrow> 's \<Rightarrow> string \<Rightarrow> string \<Rightarrow> bool" where
  "isNodeDomainExist S s name i = (case SS_Exists S s name (str_bytes i) of Inl err \<Rightarrow> False | Inr b \<Rightarrow> b)"

definition getNodeDomain :: "('s, bytes) ss_ops \<Rightarrow> 's \<Rightarrow> string \<Rightarrow> string \<Rightarrow> error + NodeDomainInfo option" where
  "getNodeDomain S s name i = (case SS_GetStateData S s name (str_bytes i) of
     Inl err \<Rightarrow> Inl err
   | Inr None \<Rightarrow> Inr None
   | Inr (Some b) \<Rightarrow> map_sum id Some (unmarshal_domain (Some b)))"

definition addNodeDomain :: "('s, bytes) ss_ops \<Rightarrow> 's \<Rightarrow> string \<Rightarrow> NodeDomainInfo option \<Rightarrow> 's \<times> error option" where
  "addNodeDomain S s name domainInfo = (case domainInfo of
     None \<Rightarrow> (s, Some (ErrNil ''Nil node domain info''))
   | Some d \<Rightarrow> SS_Put S s name (str_bytes (nd_ID d)) (Some (marshal_domain d)))"

text \<open>
  The filter of the active domains. Its last conjunct compares an unsigned
  difference with 0. A value that is not a domain is skipped.
\<close>

definition domain_active :: "u64 \<Rightarrow> NodeDomainInfo \<Rightarrow> bool" where
  "domain_active height d \<longleftrightarrow> height \<ge> nd_ValidHeightStart d \<and> height < nd_ValidHeightEnd d \<and>
     nd_ValidHeightEnd d - EpochSpan \<ge> 0"

definition active_cb :: "u64 \<Rightarrow> NodeDomainInfo list \<Rightarrow> bytes \<times> bytes \<Rightarrow> NodeDomainInfo list" where
  "active_cb height domains kv = (case unmarshal_domain (Some (snd kv)) of
     Inl err \<Rightarrow> domains
   | Inr d \<Rightarrow> if domain_active height d then domains @ [d] else domains)"

definition activeDomains :: "('s, bytes) ss_ops \<Rightarrow> 's \<Rightarrow> string \<Rightarrow> u64 \<Rightarrow> error + NodeDomainInfo list" where
  "activeDomains S s name height = (case SS_IterateAllStateDataCB S s name of
     Inl err \<Rightarrow> Inl err
   | Inr kvs \<Rightarrow> Inr (foldl (active_cb height) [] kvs))"

abbreviation StateStore_Name_NodeExecuteDomain :: string where "StateStore_Name_NodeExecuteDomain \<equiv> ''nodeexecutedomain''"
abbreviation StateStore_Name_NodeConsensusDomain :: string where "StateStore_Name_NodeConsensusDomain \<equiv> ''nodeconsensusdomain''"
abbreviation StateStore_Name_NodeDomain :: string where "StateStore_Name_NodeDomain \<equiv> ''nodedomain''"

definition GetNodeExecuteDomainRoot :: "('s, bytes) ss_ops \<Rightarrow> 's \<Rightarrow> error + bytes" where
  "GetNodeExecuteDomainRoot S s = SS_Root S s StateStore_Name_NodeExecuteDomain"

definition IsExistNodeExecuteDomain :: "('s, bytes) ss_ops \<Rightarrow> 's \<Rightarrow> string \<Rightarrow> bool" where
  "IsExistNodeExecuteDomain S s i = isNodeDomainExist S s StateStore_Name_NodeExecuteDomain i"

definition getNodeExecuteDomain :: "('s, bytes) ss_ops \<Rightarrow> 's \<Rightarrow> string \<Rightarrow> error + NodeDomainInfo option" where
  "getNodeExecuteDomain S s i = getNodeDomain S s StateStore_Name_NodeExecuteDomain i"

definition GetAllActiveNodeExecuteDomains :: "('s, bytes) ss_ops \<Rightarrow> 's \<Rightarrow> u64 \<Rightarrow> error + NodeDomainInfo list" where
  "GetAllActiveNodeExecuteDomains S s height = activeDomains S s StateStore_Name_NodeExecuteDomain height"

definition addNodeExecuteDomain :: "('s, bytes) ss_ops \<Rightarrow> 's \<Rightarrow> NodeDomainInfo option \<Rightarrow> 's \<times> error option" where
  "addNodeExecuteDomain S s d = addNodeDomain S s StateStore_Name_NodeExecuteDomain d"

definition GetNodeConsensusDomainRoot :: "('s, bytes) ss_ops \<Rightarrow> 's \<Rightarrow> error + bytes" where
  "GetNodeConsensusDomainRoot S s = SS_Root S s StateStore_Name_NodeConsensusDomain"

definition IsExistNodeConsensusDomain :: "('s, bytes) ss_ops \<Rightarrow> 's \<Rightarrow> string \<Rightarrow> bool" where
  "IsExistNodeConsensusDomain S s i = isNodeDomainExist S s StateStore_Name_NodeConsensusDomain i"

definition getNodeConsensusDomain :: "('s, bytes) ss_ops \<Rightarrow> 's \<Rightarrow> string \<Rightarrow> error + NodeDomainInfo option" where
  "getNodeConsensusDomain S s i = getNodeDomain S s StateStore_Name_NodeConsensusDomain i"

definition GetAllActiveNodeConsensusDomains :: "('s, bytes) ss_ops \<Rightarrow> 's \<Rightarrow> u64 \<Rightarrow> error + NodeDomainInfo list" where
  "GetAllActiveNodeConsensusDomains S s height = activeDomains S s StateStore_Name_NodeConsensusDomain height"

definition addNodeConsensusDomain :: "('s, bytes) ss_ops \<Rightarrow> 's \<Rightarrow> NodeDomainInfo option \<Rightarrow> 's \<times> error option" where
  "addNodeConsensusDomain S s d = addNodeDomain S s StateStore_Name_NodeConsensusDomain d"

section \<open>All domains\<close>

definition marshal_dmeta :: "byte \<Rightarrow> bytes" where
  "marshal_dmeta t = Marshal (JObj [(''DomainType'', j_byte t)])"

definition unmarshal_dmeta :: "bytes option \<Rightarrow> error + byte" where
  "unmarshal_dmeta b = (case Unmarshal b of Inl err \<Rightarrow> Inl err | Inr j \<Rightarrow>
     (case un_obj j of Inl err \<Rightarrow> Inl err | Inr ms \<Rightarrow> un_byte (field ''DomainType'' ms)))"

definition GetNodeDomainRoot :: "('s, bytes) ss_ops \<Rightarrow> 's \<Rightarrow> error + bytes" where
  "GetNodeDomainRoot S s = SS_Root S s StateStore_Name_NodeDomain"

definition IsNodeDomainExist :: "('s, bytes) ss_ops \<Rightarrow> 's \<Rightarrow> string \<Rightarrow> bool" where
  "IsNodeDomainExist S s i = isNodeDomainExist S s StateStore_Name_NodeDomain i"

definition GetNodeDomain :: "('s, bytes) ss_ops \<Rightarrow> 's \<Rightarrow> string \<Rightarrow> error + NodeDomainInfo option" where
  "GetNodeDomain S s i = (case SS_GetStateData S s StateStore_Name_NodeDomain (str_bytes i) of
     Inl err \<Rightarrow> Inl err
   | Inr None \<Rightarrow> Inr None
   | Inr (Some b) \<Rightarrow> (case unmarshal_dmeta (Some b) of
        Inl err \<Rightarrow> Inl err
      | Inr t \<Rightarrow> if t = DomainType_Execute then getNodeExecuteDomain S s i
                 else if t = DomainType_Consensus then getNodeConsensusDomain S s i
                 else Inl (ErrInvalidNode ''Invalid domain type'' i)))"

definition GetAllActiveNodeDomains :: "('s, bytes) ss_ops \<Rightarrow> 's \<Rightarrow> u64 \<Rightarrow> error + NodeDomainInfo list" where
  "GetAllActiveNodeDomains S s height = (case GetAllActiveNodeExecuteDomains S s height of
     Inl err \<Rightarrow> Inl err
   | Inr exe \<Rightarrow> (case GetAllActiveNodeConsensusDomains S s height of
        Inl err \<Rightarrow> Inl err
      | Inr cs \<Rightarrow> Inr (exe @ cs)))"

definition AddNodeDomain :: "('s, bytes) ss_ops \<Rightarrow> 's \<Rightarrow> NodeDomainInfo option \<Rightarrow> 's \<times> error option" where
  "AddNodeDomain S s domainInfo = (case domainInfo of
     None \<Rightarrow> (s, Some (ErrNil ''Nil domain info input''))
   | Some d \<Rightarrow>
       if nd_Type d \<notin> {DomainType_Execute, DomainType_Consensus}
       then (s, Some (ErrInvalidNode ''Invalid domain type'' (nd_ID d)))
       else andThen (if nd_Type d = DomainType_Execute then addNodeExecuteDomain S s domainInfo
                     else addNodeConsensusDomain S s domainInfo)
              (\<lambda>s1. SS_Put S s1 StateStore_Name_NodeDomain (str_bytes (nd_ID d)) (Some (marshal_dmeta (nd_Type d)))))"

section \<open>What the stores hold after a list of additions\<close>

fun add_domains :: "('s, bytes) ss_ops \<Rightarrow> 's \<Rightarrow> NodeDomainInfo list \<Rightarrow> 's \<times> error list" where
  "add_domains S s [] = (s, [])"
| "add_domains S s (d # ds) = (case AddNodeDomain S s (Some d) of (s1, err) \<Rightarrow>
     (case add_domains S s1 ds of (s2, errs) \<Rightarrow> (s2, opt_list err @ errs)))"

text \<open>The latest domain of an identifier, of one type and of any type.\<close>

definition latest_of :: "byte \<Rightarrow> NodeDomainInfo list \<Rightarrow> string \<rightharpoonup> NodeDomainInfo" where
  "latest_of t ds i = find (\<lambda>d. nd_ID d = i \<and> nd_Type d = t) (rev ds)"

definition latest :: "NodeDomainInfo list \<Rightarrow> string \<rightharpoonup> NodeDomainInfo" where
  "latest ds i = find (\<lambda>d. nd_ID d = i) (rev ds)"

definition domain_names :: "string list" where
  "domain_names = [StateStore_Name_NodeExecuteDomain, StateStore_Name_NodeConsensusDomain, StateStore_Name_NodeDomain]"

definition dom_repr :: "(string \<Rightarrow> bytes \<rightharpoonup> bytes) \<Rightarrow> NodeDomainInfo list \<Rightarrow> bool" where
  "dom_repr f ds \<longleftrightarrow> f StateStore_Name_NodeExecuteDomain = enc_map marshal_domain (latest_of DomainType_Execute ds) \<and>
     f StateStore_Name_NodeConsensusDomain = enc_map marshal_domain (latest_of DomainType_Consensus ds) \<and>
     f StateStore_Name_NodeDomain = enc_map marshal_dmeta (map_option nd_Type \<circ> latest ds)"

definition domains_ok :: "NodeDomainInfo list \<Rightarrow> bool" where
  "domains_ok ds \<longleftrightarrow> list_all (\<lambda>d. domain_ok d \<and> nd_Type d \<in> {DomainType_Execute, DomainType_Consensus}) ds"

lemma latest_of_snoc: "latest_of t (ds @ [d]) = (if nd_Type d = t then (latest_of t ds)(nd_ID d \<mapsto> d) else latest_of t ds)"
  by (auto simp: latest_of_def fun_eq_iff)

lemma latest_snoc: "latest (ds @ [d]) = (latest ds)(nd_ID d \<mapsto> d)"
  by (auto simp: latest_def fun_eq_iff)

lemma latest_type: "latest ds i = Some d \<Longrightarrow> latest_of (nd_Type d) ds i = Some d"
proof (induction ds rule: rev_induct)
  case (snoc x ds)
  then show ?case by (auto simp: latest_snoc latest_of_snoc split: if_splits)
qed (simp add: latest_def)

lemma latest_of_mem: "latest_of t ds i = Some d \<Longrightarrow> d \<in> set ds \<and> nd_ID d = i \<and> nd_Type d = t"
  by (auto simp: latest_of_def find_Some_iff) (metis nth_mem set_rev length_rev)

lemma latest_mem: "latest ds i = Some d \<Longrightarrow> d \<in> set ds \<and> nd_ID d = i"
  using latest_type latest_of_mem by blast

lemma unmarshal_dmeta_marshal: "unmarshal_dmeta (Some (marshal_dmeta t)) = Inr t"
  by (simp add: unmarshal_dmeta_def marshal_dmeta_def Unmarshal_Marshal field_def)

lemma domain_active_iff: "domain_active height d \<longleftrightarrow> nd_ValidHeightStart d \<le> height \<and> height < nd_ValidHeightEnd d"
  by (simp add: domain_active_def)

lemma foldl_active:
  "\<forall>(k, v) \<in> set kvs. unmarshal_domain (Some v) = Inr (g k) \<Longrightarrow>
     foldl (active_cb height) acc kvs = acc @ filter (domain_active height) (map (g \<circ> fst) kvs)"
proof (induction kvs arbitrary: acc)
  case (Cons kv kvs)
  then show ?case by (cases kv) (simp add: active_cb_def)
qed simp

context bytes_store
begin

lemma activeDomains_repr:
  assumes "ok s n" "data s n = enc_map marshal_domain m"
    and m: "\<forall>i d. m i = Some d \<longrightarrow> domain_ok d \<and> nd_ID d = i"
  obtains xs where "activeDomains S s n height = Inr xs" "sorted_wrt (<) (map (str_bytes \<circ> nd_ID) xs)"
    "set xs = {d. m (nd_ID d) = Some d \<and> domain_active height d}"
proof -
  obtain kvs where kvs: "SS_IterateAllStateDataCB S s n = Inr kvs" "sorted_keys kvs"
    "\<forall>k v. (k, v) \<in> set kvs \<longleftrightarrow> enc_map marshal_domain m k = Some v"
    using IterateAllStateDataCB [OF assms(1)] assms(2) by auto
  let ?g = "\<lambda>k. the (m (bytes_str k))" and ?ds = "map (\<lambda>kv. the (m (bytes_str (fst kv)))) kvs"
  have elem: "\<exists>d. m (bytes_str k) = Some d \<and> v = marshal_domain d \<and> nd_ID d = bytes_str k \<and> domain_ok d"
    if "(k, v) \<in> set kvs" for k v
    using that kvs(3) m by (auto simp: enc_map_mem)
  have "\<forall>(k, v) \<in> set kvs. unmarshal_domain (Some v) = Inr (?g k)"
    using elem unmarshal_domain_marshal by force
  then have "activeDomains S s n height = Inr (filter (domain_active height) ?ds)"
    using kvs(1) foldl_active [of kvs ?g height "[]"] by (simp add: activeDomains_def comp_def)
  moreover have "map (str_bytes \<circ> nd_ID) ?ds = map fst kvs"
    using elem by force
  then have "sorted_wrt (<) (map (str_bytes \<circ> nd_ID) ?ds)" using kvs(2) unfolding sorted_keys_def by metis
  then have "sorted_wrt (<) (map (str_bytes \<circ> nd_ID) (filter (domain_active height) ?ds))"
    by (simp add: sorted_wrt_map sorted_wrt_filter)
  moreover have "set (filter (domain_active height) ?ds) = {d. m (nd_ID d) = Some d \<and> domain_active height d}"
  proof (intro set_eqI iffI)
    fix d assume d: "d \<in> {d. m (nd_ID d) = Some d \<and> domain_active height d}"
    then have "(str_bytes (nd_ID d), marshal_domain d) \<in> set kvs" using kvs(3) by (auto simp: enc_map_mem)
    then show "d \<in> set (filter (domain_active height) ?ds)" using d by (force intro: rev_image_eqI)
  next
    fix d assume "d \<in> set (filter (domain_active height) ?ds)"
    then show "d \<in> {d. m (nd_ID d) = Some d \<and> domain_active height d}" using elem by fastforce
  qed
  ultimately show thesis by (rule that)
qed

definition dom_open :: "'s \<Rightarrow> bool" where
  "dom_open s \<longleftrightarrow> (\<forall>n \<in> set domain_names. ok s n)"

lemma AddNodeDomain_repr:
  assumes "dom_open s" "dom_repr (data s) ds" "domain_ok d" "nd_Type d \<in> {DomainType_Execute, DomainType_Consensus}"
  obtains s' where "AddNodeDomain S s (Some d) = (s', None)" "dom_open s'" "dom_repr (data s') (ds @ [d])"
proof -
  let ?n = "if nd_Type d = DomainType_Execute then StateStore_Name_NodeExecuteDomain else StateStore_Name_NodeConsensusDomain"
  let ?k = "str_bytes (nd_ID d)"
  have k: "?k \<noteq> []" and n: "ok s ?n" "ok s StateStore_Name_NodeDomain"
    using assms(1,3) by (auto simp: domain_ok_def dom_open_def domain_names_def)
  obtain s1 where s1: "SS_Put S s ?n ?k (Some (marshal_domain d)) = (s1, None)" "changes s ?n s1"
    "data s1 ?n = (data s ?n)(?k \<mapsto> marshal_domain d)"
    by (rule writeE [OF n(1) k])
  have o1: "dom_open s1" using assms(1) s1(2) by (simp add: dom_open_def changes_def)
  obtain s2 where s2: "SS_Put S s1 StateStore_Name_NodeDomain ?k (Some (marshal_dmeta (nd_Type d))) = (s2, None)"
    "changes s1 StateStore_Name_NodeDomain s2"
    "data s2 StateStore_Name_NodeDomain = (data s1 StateStore_Name_NodeDomain)(?k \<mapsto> marshal_dmeta (nd_Type d))"
    using writeE [of s1 StateStore_Name_NodeDomain ?k] k o1 by (auto simp: dom_open_def domain_names_def)
  have frame: "data s1 n = data s n" if "n \<in> set domain_names" "n \<noteq> ?n" for n
    using s1(2) assms(1) that unfolding changes_def dom_open_def by blast
  have frame2: "data s2 n = data s1 n" if "n \<in> set domain_names" "n \<noteq> StateStore_Name_NodeDomain" for n
    using s2(2) o1 that unfolding changes_def dom_open_def by blast
  have "data s2 StateStore_Name_NodeDomain = enc_map marshal_dmeta (map_option nd_Type \<circ> latest (ds @ [d]))"
    using s2(3) frame [of StateStore_Name_NodeDomain] assms(2)
    by (auto simp: domain_names_def dom_repr_def enc_map_upd latest_snoc split: if_splits intro!: arg_cong [of _ _ "enc_map marshal_dmeta"])
  then have "dom_repr (data s2) (ds @ [d])"
    using assms(2,4) s1(3) frame [of StateStore_Name_NodeExecuteDomain] frame [of StateStore_Name_NodeConsensusDomain]
      frame2 [of StateStore_Name_NodeExecuteDomain] frame2 [of StateStore_Name_NodeConsensusDomain]
    by (auto simp: domain_names_def dom_repr_def enc_map_upd latest_of_snoc)
  moreover have "AddNodeDomain S s (Some d) = (s2, None)"
    using s1(1) s2(1) assms(4)
    by (auto simp: AddNodeDomain_def addNodeExecuteDomain_def addNodeConsensusDomain_def addNodeDomain_def)
  moreover have "dom_open s2" using o1 s2(2) by (simp add: dom_open_def changes_def)
  ultimately show thesis using that by blast
qed

lemma add_domains_repr:
  assumes "dom_open s" "dom_repr (data s) ds0" "domains_ok ds"
  shows "snd (add_domains S s ds) = [] \<and> dom_open (fst (add_domains S s ds)) \<and>
    dom_repr (data (fst (add_domains S s ds))) (ds0 @ ds)"
  using assms
proof (induction ds arbitrary: s ds0)
  case (Cons d ds)
  obtain s1 where s1: "AddNodeDomain S s (Some d) = (s1, None)" "dom_open s1" "dom_repr (data s1) (ds0 @ [d])"
    using AddNodeDomain_repr [OF Cons.prems(1,2), of d] Cons.prems(3) by (auto simp: domains_ok_def)
  from Cons.IH [OF s1(2,3)] Cons.prems(3) s1(1) show ?case
    by (auto simp: domains_ok_def opt_list_def split: prod.splits)
qed simp

lemma GetNodeDomain_repr:
  assumes "dom_open s" "dom_repr (data s) ds" "domains_ok ds" "i \<noteq> []"
  shows "GetNodeDomain S s i = Inr (latest ds i)"
proof (cases "latest ds i")
  case None
  then show ?thesis using assms
    by (simp add: GetNodeDomain_def GetStateData dom_open_def domain_names_def dom_repr_def)
next
  case (Some d)
  note t = latest_type [OF Some] and mem = latest_mem [OF Some]
  have "domain_ok d" "nd_Type d \<in> {DomainType_Execute, DomainType_Consensus}"
    using assms(3) mem by (auto simp: domains_ok_def list_all_iff)
  then show ?thesis using assms Some t
    by (auto simp: GetNodeDomain_def GetStateData dom_open_def domain_names_def dom_repr_def unmarshal_dmeta_marshal
        getNodeExecuteDomain_def getNodeConsensusDomain_def getNodeDomain_def unmarshal_domain_marshal)
qed

end

lemma ledger_domains:
  fixes B :: "('t, bytes) btree_ops"
  assumes "ledger_libs B M" "\<forall>n \<in> set domain_names. ledger_ok B s n \<and> ledger_data B s n = Map.empty"
    and "domains_ok ds" "add_domains (ledger_ops B M) s ds = (s', errs)"
  shows "errs = []" "bytes_store.dom_open (ledger_ok B) s'" "dom_repr (ledger_data B s') ds"
proof -
  note l = ledger_bytes_store [OF assms(1)]
  have "bytes_store.dom_open (ledger_ok B) s" using bytes_store.dom_open_def [OF l] assms(2) by simp
  moreover have "dom_repr (ledger_data B s) []"
    using assms(2) by (simp add: domain_names_def dom_repr_def latest_of_def latest_def enc_map_def fun_eq_iff)
  ultimately show "errs = []" "bytes_store.dom_open (ledger_ok B) s'" "dom_repr (ledger_data B s') ds"
    using bytes_store.add_domains_repr [OF l _ _ assms(3)] assms(4) by fastforce+
qed

text \<open>
  (C15) Node domains on empty stores: any list of well-formed domains is added without
  an error; afterwards a lookup returns the domain that was added last under the
  identifier, and the active domains of a height are exactly the latest domains of
  either type whose range \<open>[ValidHeightStart, ValidHeightEnd)\<close> contains the height,
  the execution domains first, each type in the order of the identifiers.
\<close>

theorem domains_refine:
  fixes B :: "('t, bytes) btree_ops"
  assumes "ledger_libs B M" "\<forall>n \<in> set domain_names. ledger_ok B s n \<and> ledger_data B s n = Map.empty"
    and "domains_ok ds" "add_domains (ledger_ops B M) s ds = (s', errs)"
  shows "errs = [] \<and> (\<forall>i. i \<noteq> [] \<longrightarrow> GetNodeDomain (ledger_ops B M) s' i = Inr (latest ds i)) \<and>
    (\<exists>exe cs. GetAllActiveNodeDomains (ledger_ops B M) s' height = Inr (exe @ cs) \<and>
       sorted_wrt (<) (map (str_bytes \<circ> nd_ID) exe) \<and> sorted_wrt (<) (map (str_bytes \<circ> nd_ID) cs) \<and>
       set exe = {d. latest_of DomainType_Execute ds (nd_ID d) = Some d \<and>
                    nd_ValidHeightStart d \<le> height \<and> height < nd_ValidHeightEnd d} \<and>
       set cs = {d. latest_of DomainType_Consensus ds (nd_ID d) = Some d \<and>
                    nd_ValidHeightStart d \<le> height \<and> height < nd_ValidHeightEnd d})"
proof -
  note l = ledger_bytes_store [OF assms(1)] and r = ledger_domains [OF assms]
  have ok: "ledger_ok B s' n" if "n \<in> set domain_names" for n
    using r(2) that by (simp add: bytes_store.dom_open_def [OF l])
  have m: "\<forall>i d. latest_of t ds i = Some d \<longrightarrow> domain_ok d \<and> nd_ID d = i" for t
    using latest_of_mem assms(3) by (metis (no_types, lifting) domains_ok_def list_all_iff)
  obtain exe where exe: "activeDomains (ledger_ops B M) s' StateStore_Name_NodeExecuteDomain height = Inr exe"
    "sorted_wrt (<) (map (str_bytes \<circ> nd_ID) exe)"
    "set exe = {d. latest_of DomainType_Execute ds (nd_ID d) = Some d \<and> domain_active height d}"
    using bytes_store.activeDomains_repr [OF l ok _ m, of StateStore_Name_NodeExecuteDomain DomainType_Execute height] r(3)
    by (auto simp: domain_names_def dom_repr_def)
  obtain cs where cs: "activeDomains (ledger_ops B M) s' StateStore_Name_NodeConsensusDomain height = Inr cs"
    "sorted_wrt (<) (map (str_bytes \<circ> nd_ID) cs)"
    "set cs = {d. latest_of DomainType_Consensus ds (nd_ID d) = Some d \<and> domain_active height d}"
    using bytes_store.activeDomains_repr [OF l ok _ m, of StateStore_Name_NodeConsensusDomain DomainType_Consensus height] r(3)
    by (auto simp: domain_names_def dom_repr_def)
  have "GetAllActiveNodeDomains (ledger_ops B M) s' height = Inr (exe @ cs)"
    using exe(1) cs(1)
    by (simp add: GetAllActiveNodeDomains_def GetAllActiveNodeExecuteDomains_def GetAllActiveNodeConsensusDomains_def)
  then show ?thesis
    using r(1) bytes_store.GetNodeDomain_repr [OF l r(2,3) assms(3)] exe(2,3) cs(2,3) unfolding domain_active_iff by blast
qed

definition sample_domain :: "string \<Rightarrow> byte \<Rightarrow> u64 \<Rightarrow> u64 \<Rightarrow> NodeDomainInfo" where
  "sample_domain i t hs he = \<lparr>nd_ID = i, nd_Type = t, nd_ValidHeightStart = hs, nd_ValidHeightEnd = he,
     nd_CSDomainData = None, nd_ExeDomainData = Some \<lparr>ed_Members = Some [''n1'']\<rparr>\<rparr>"

definition sample_domains :: "NodeDomainInfo list" where
  "sample_domains = [sample_domain ''d1'' DomainType_Execute 0 10, sample_domain ''d2'' DomainType_Consensus 5 20,
     sample_domain ''d1'' DomainType_Execute 10 600]"

theorem domains_refine_witness:
  "case add_domains (ledger_ops rbt_ops sample_bytes_smt) (sample_open domain_names) sample_domains of (s', errs) \<Rightarrow>
     errs = [] \<and> GetNodeDomain (ledger_ops rbt_ops sample_bytes_smt) s' ''d1'' =
       Inr (Some (sample_domain ''d1'' DomainType_Execute 10 600))"
proof -
  obtain s' errs where r: "add_domains (ledger_ops rbt_ops sample_bytes_smt) (sample_open domain_names) sample_domains = (s', errs)"
    by force
  have names: "\<forall>n \<in> set domain_names. name_ok n" and ok: "domains_ok sample_domains" by code_simp+
  have "latest sample_domains ''d1'' = Some (sample_domain ''d1'' DomainType_Execute 10 600)" by code_simp
  then show ?thesis using domains_refine [OF sample_libs sample_open_ok [OF names] ok r] r by auto
qed

end
