(* ===== verification/Common_Util.thy ===== *)
theory Common_Util
  imports Json "HOL-Library.Multiset"
begin

text \<open>
  The helpers of \<open>src/common\<close>: hexadecimal strings, the membership test by sorting and
  binary search, checked arithmetic, random numbers and readers, and the names of node
  roles and network types. \<open>sort.Strings\<close> and \<open>sort.SearchStrings\<close> are modelled with the
  loop of \<open>sort.Search\<close>; the random sources and SHA-256 are parameters.
\<close>

unbundle bit_operations_syntax

section \<open>Bytes and hexadecimal strings\<close>

text \<open>\<open>hex.EncodeToString\<close> and \<open>hex.DecodeString\<close> of the standard library.\<close>

definition hex_encode :: "bytes \<Rightarrow> string" where
  "hex_encode bs = concat (map (\<lambda>b. [hex_char (unat b div 16), hex_char (unat b mod 16)]) bs)"

fun hex_decode :: "string \<Rightarrow> error + bytes" where
  "hex_decode [] = Inr []"
| "hex_decode [c] = Inl (ErrOther ''encoding/hex: odd length hex string'')"
| "hex_decode (c # d # s) = (case (hex_val c, hex_val d) of
     (Some x, Some y) \<Rightarrow> (case hex_decode s of Inl e \<Rightarrow> Inl e | Inr bs \<Rightarrow> Inr (word_of_nat (16 * x + y) # bs))
   | _ \<Rightarrow> Inl (ErrOther ''encoding/hex: invalid byte''))"

lemma length_hex_encode [simp]: "length (hex_encode bs) = 2 * length bs"
  by (induction bs) (auto simp: hex_encode_def)

lemma hex_decode_encode [simp]: "hex_decode (hex_encode bs) = Inr bs"
proof (induction bs)
  case (Cons b bs)
  have "unat b < 256" using unsigned_less [of b] by simp
  then show ?case
    using Cons by (simp add: hex_encode_def hex_val_char del: word_of_nat_eq_0_iff)
qed (simp add: hex_encode_def)

text \<open>\<open>nil\<close> is \<open>None\<close>.\<close>

definition BytesCopy :: "bytes option \<Rightarrow> bytes option" where
  "BytesCopy src = (case src of None \<Rightarrow> None | Some s \<Rightarrow> Some s)"

definition CloneSlice :: "bytes option list \<Rightarrow> bytes option list" where
  "CloneSlice a = map BytesCopy a"

definition Uint64ToBytes :: "u64 \<Rightarrow> bytes" where
  "Uint64ToBytes v = be_put v"

definition BytesToUint64 :: "bytes \<Rightarrow> error + u64" where
  "BytesToUint64 d = be_get d"

definition Has0xPrefix :: "string \<Rightarrow> bool" where
  "Has0xPrefix str \<longleftrightarrow> length str \<ge> 2 \<and> str ! 0 = CHR ''0'' \<and> (str ! 1 = CHR ''x'' \<or> str ! 1 = CHR ''X'')"

definition IsHexCharacter :: "char \<Rightarrow> bool" where
  "IsHexCharacter c \<longleftrightarrow> CHR ''0'' \<le> c \<and> c \<le> CHR ''9'' \<or> CHR ''a'' \<le> c \<and> c \<le> CHR ''f'' \<or> CHR ''A'' \<le> c \<and> c \<le> CHR ''F''"

definition IsHex :: "string \<Rightarrow> bool" where
  "IsHex str \<longleftrightarrow> length str mod 2 = 0 \<and> list_all IsHexCharacter str"

lemma IsHexCharacter_val: "IsHexCharacter c \<longleftrightarrow> hex_val c \<noteq> None"
  by (auto simp: IsHexCharacter_def hex_val_def Let_def less_eq_char_def)

text \<open>\<open>IsHex\<close> accepts exactly the strings that \<open>hex.DecodeString\<close> decodes.\<close>

lemma IsHex_decodes: "IsHex s \<longleftrightarrow> (\<exists>bs. hex_decode s = Inr bs)"
proof (induction s rule: hex_decode.induct)
  case (3 c d s)
  then show ?case by (auto simp: IsHex_def IsHexCharacter_val split: option.splits sum.splits)
qed (auto simp: IsHex_def)

section \<open>Membership by binary search\<close>

text \<open>
  \<open>sort.Search(n, f)\<close> returns the least index at which \<open>f\<close> holds, if \<open>f\<close> is monotone.
\<close>

function go_search :: "(nat \<Rightarrow> bool) \<Rightarrow> nat \<Rightarrow> nat \<Rightarrow> nat" where
  "go_search f i j = (if i < j then
     (let h = (i + j) div 2 in if \<not> f h then go_search f (h + 1) j else go_search f i h) else i)"
  by pat_completeness auto
termination by (relation "measure (\<lambda>(f, i, j). j - i)") auto

declare go_search.simps [simp del]

definition SearchStrings :: "string list \<Rightarrow> string \<Rightarrow> nat" where
  "SearchStrings a x = go_search (\<lambda>i. a ! i \<ge> x) 0 (length a)"

text \<open>The slice is sorted in place; its new contents are the second result.\<close>

definition IsContainString :: "string \<Rightarrow> string list \<Rightarrow> bool \<times> string list" where
  "IsContainString target str_array =
     (let a = sort str_array; index = SearchStrings a target in
      (index < length a \<and> a ! index = target, a))"

lemma go_search_least:
  assumes "i \<le> j" "j \<le> n" "\<forall>k < i. \<not> f k" "\<forall>k. j \<le> k \<and> k < n \<longrightarrow> f k" "\<forall>k l. k \<le> l \<and> l < n \<and> f k \<longrightarrow> f l"
  shows "go_search f i j \<le> n \<and> (\<forall>k < go_search f i j. \<not> f k) \<and> (\<forall>k. go_search f i j \<le> k \<and> k < n \<longrightarrow> f k)"
  using assms
proof (induction f i j rule: go_search.induct)
  case (1 f i j)
  show ?case
  proof (cases "i < j")
    case True
    let ?h = "(i + j) div 2"
    have h: "i \<le> ?h" "?h < j" using True by auto
    show ?thesis
    proof (cases "f ?h")
      case False
      have e: "go_search f i j = go_search f (?h + 1) j"
        by (subst go_search.simps) (simp add: True False Let_def)
      have "\<not> f k" if "k < ?h + 1" for k
        using that False h 1(4,7) by (metis Suc_eq_plus1 less_Suc_eq_le less_le_trans)
      then show ?thesis unfolding e using h 1(4-) by (intro 1(1) [OF True refl False]) auto
    next
      case t: True
      have e: "go_search f i j = go_search f i ?h"
        by (subst go_search.simps) (simp add: True t Let_def)
      have "f k" if "?h \<le> k" "k < n" for k using that t 1(7) by blast
      then show ?thesis unfolding e using h t 1(3-) by (intro 1(2) [OF True refl]) auto
    qed
  next
    case False
    then have e: "go_search f i j = i" by (subst go_search.simps) simp
    show ?thesis unfolding e using False 1(3-) by auto
  qed
qed

text \<open>
  The membership test is correct: sorting the slice and searching it by bisection
  finds the target if and only if it was an element, and the slice is left as a sorted
  permutation of what it was.
\<close>

theorem IsContainString_correct:
  "fst (IsContainString target str_array) = (target \<in> set str_array) \<and>
   sorted (snd (IsContainString target str_array)) \<and> mset (snd (IsContainString target str_array)) = mset str_array"
proof -
  define a where "a = sort str_array"
  define r where "r = SearchStrings a target"
  have "sorted a" by (simp add: a_def)
  then have "\<forall>k l. k \<le> l \<and> l < length a \<and> a ! k \<ge> target \<longrightarrow> a ! l \<ge> target"
    by (meson order_trans sorted_nth_mono)
  then have "r \<le> length a \<and> (\<forall>k < r. \<not> a ! k \<ge> target) \<and> (\<forall>k. r \<le> k \<and> k < length a \<longrightarrow> a ! k \<ge> target)"
    unfolding r_def SearchStrings_def by (intro go_search_least; (assumption | simp; fail | (intro allI impI, linarith)))
  then have r: "\<And>k. k < r \<Longrightarrow> \<not> a ! k \<ge> target" "\<And>k. r \<le> k \<Longrightarrow> k < length a \<Longrightarrow> a ! k \<ge> target"
    by blast+
  have "r < length a \<and> a ! r = target" if m: "target \<in> set a"
  proof -
    obtain k where k: "k < length a" "a ! k = target" using m by (auto simp: in_set_conv_nth)
    with r(1) [of k] have "r \<le> k" by (cases "k < r") auto
    with k have "r < length a" "a ! r \<le> target" using sorted_nth_mono [OF \<open>sorted a\<close>, of r k] by auto
    with r(2) [of r] show ?thesis by simp
  qed
  moreover have "target \<in> set a" if "r < length a \<and> a ! r = target" using that nth_mem by blast
  moreover have a: "set a = set str_array" "mset a = mset str_array" by (simp_all add: a_def)
  ultimately have "(r < length a \<and> a ! r = target) = (target \<in> set str_array)" by metis
  then show ?thesis
    unfolding IsContainString_def Let_def a_def [symmetric] r_def [symmetric] using a \<open>sorted a\<close> by simp
qed

section \<open>Checked arithmetic\<close>

definition SafeMul :: "u64 \<Rightarrow> u64 \<Rightarrow> int" where
  "SafeMul a b = uint a * uint b"

definition SafeSubUint64 :: "u64 \<Rightarrow> u64 \<Rightarrow> error + u64" where
  "SafeSubUint64 a b = (if a < b then Inl (ErrOther ''Substrate overflow'') else Inr (a - b))"

definition SafeAddUint64 :: "u64 \<Rightarrow> u64 \<Rightarrow> error + u64" where
  "SafeAddUint64 a b = (let s = a + b in if s \<ge> a \<and> s \<ge> b then Inr s else Inl (ErrOther ''Add overflow''))"

definition MinUint64 :: "u64 \<Rightarrow> u64 \<Rightarrow> u64" where
  "MinUint64 x y = (if x > y then y else x)"

definition MinInt64 :: "64 word \<Rightarrow> 64 word \<Rightarrow> 64 word" where
  "MinInt64 x y = (if sint x > sint y then y else x)"

text \<open>
  The checked addition and subtraction return a result exactly when the result
  over the integers fits into 64 bits, and it is then the exact one; otherwise they
  return an error.
\<close>

theorem safe_arithmetic:
  "SafeAddUint64 a b = (if uint a + uint b < 2 ^ 64 then Inr (word_of_int (uint a + uint b)) else Inl (ErrOther ''Add overflow'')) \<and>
   SafeSubUint64 a b = (if uint a - uint b \<ge> 0 then Inr (word_of_int (uint a - uint b)) else Inl (ErrOther ''Substrate overflow''))"
proof -
  have "a \<le> a + b \<and> b \<le> a + b \<longleftrightarrow> uint a + uint b < 2 ^ 64"
  proof -
    have "uint (a + b) = (if uint a + uint b < 2 ^ 64 then uint a + uint b else uint a + uint b - 2 ^ 64)"
      by (simp add: uint_plus_if')
    moreover have "0 \<le> uint a" "uint a < 2 ^ 64" "0 \<le> uint b" "uint b < 2 ^ 64"
      using unsigned_less [of a] unsigned_less [of b] by simp_all
    ultimately show ?thesis by (simp add: word_le_def split: if_splits)
  qed
  then show ?thesis
    by (auto simp: SafeAddUint64_def SafeSubUint64_def Let_def word_less_def)
qed

section \<open>Random numbers\<close>

text \<open>
  \<open>GenerateRandomNumber\<close> draws from a source until it has \<open>count\<close> different numbers. The
  source is a parameter: \<open>intn n k\<close> is the answer to the \<open>k\<close>-th call of \<open>Intn(n)\<close>. The
  loop need not end for every source, so its value is \<open>None\<close> when it does not.
\<close>

partial_function (option) drawLoop :: "(nat \<Rightarrow> int) \<Rightarrow> int \<Rightarrow> int \<Rightarrow> nat \<Rightarrow> int list \<Rightarrow> int list option" where
  "drawLoop draw start cnt k nums =
     (if int (length nums) < cnt then
        (let num = draw k + start in
         if num \<in> set nums then drawLoop draw start cnt (Suc k) nums
         else drawLoop draw start cnt (Suc k) (nums @ [num]))
      else Some nums)"

text \<open>\<open>nil\<close> and the empty slice are both \<open>[]\<close> here.\<close>

definition GenerateRandomNumber :: "(int \<Rightarrow> nat \<Rightarrow> int) \<Rightarrow> int \<Rightarrow> int \<Rightarrow> int \<Rightarrow> int list option" where
  "GenerateRandomNumber intn start end' cnt =
     (if end' < start \<or> end' - start < cnt then Some []
      else drawLoop (intn (end' - start)) start cnt 0 [])"

lemma drawLoop_ends:
  assumes "k \<le> K" "distinct nums" "set nums = (\<lambda>j. draw j + start) ` {..<k}" "int (length nums) \<le> cnt"
    "cnt \<le> int (card ((\<lambda>j. draw j + start) ` {..<K}))"
  shows "\<exists>r. drawLoop draw start cnt k nums = Some r \<and> int (length r) = cnt \<and> distinct r \<and>
    set r \<subseteq> range (\<lambda>j. draw j + start)"
  using assms
proof (induction "K - k" arbitrary: k nums)
  case 0
  then have "set nums = (\<lambda>j. draw j + start) ` {..<K}" by simp
  with 0(3,5,6) have "int (length nums) = cnt" by (simp flip: distinct_card)
  with 0 show ?case by (subst drawLoop.simps) auto
next
  case (Suc d)
  show ?case
  proof (cases "int (length nums) < cnt")
    case True
    let ?num = "draw k + start"
    have k: "{..<Suc k} = insert k {..<k}" by auto
    show ?thesis
    proof (cases "?num \<in> set nums")
      case mem: True
      have "\<exists>r. drawLoop draw start cnt (Suc k) nums = Some r \<and> int (length r) = cnt \<and> distinct r \<and>
          set r \<subseteq> range (\<lambda>j. draw j + start)"
        using Suc(2-) mem by (intro Suc(1)) (auto simp: k)
      then show ?thesis by (subst drawLoop.simps) (simp add: True mem)
    next
      case new: False
      have "\<exists>r. drawLoop draw start cnt (Suc k) (nums @ [?num]) = Some r \<and> int (length r) = cnt \<and> distinct r \<and>
          set r \<subseteq> range (\<lambda>j. draw j + start)"
        using Suc(2-) new True by (intro Suc(1)) (auto simp: k)
      then show ?thesis by (subst drawLoop.simps) (simp add: True new)
    qed
  next
    case False
    with Suc(4-) show ?thesis by (subst drawLoop.simps) auto
  qed
qed

lemma all_drawn:
  fixes draw :: "nat \<Rightarrow> int"
  assumes "\<forall>v. 0 \<le> v \<and> v < n \<longrightarrow> (\<exists>k. draw k = v)"
  obtains K where "n \<le> int (card ((\<lambda>j. draw j + start) ` {..<K}))"
proof -
  obtain at where at: "\<And>v. 0 \<le> v \<Longrightarrow> v < n \<Longrightarrow> draw (at v) = v" using assms by metis
  define K where "K = Suc (Max (insert 0 (at ` {0..<n})))"
  have "(\<lambda>v. v + start) ` {0..<n} \<subseteq> (\<lambda>j. draw j + start) ` {..<K}"
  proof
    fix x assume "x \<in> (\<lambda>v. v + start) ` {0..<n}"
    then obtain v where v: "v \<in> {0..<n}" "x = v + start" by blast
    then have "at v < K" by (auto simp: K_def less_Suc_eq_le intro!: Max_ge)
    with v at [of v] show "x \<in> (\<lambda>j. draw j + start) ` {..<K}" by force
  qed
  then have "card ((\<lambda>v. v + start) ` {0..<n}) \<le> card ((\<lambda>j. draw j + start) ` {..<K})" by (intro card_mono) auto
  moreover have "card ((\<lambda>v. v + start) ` {0..<n}) = nat n" by (subst card_image) (auto simp: inj_on_def)
  ultimately show thesis by (intro that [of K]) linarith
qed

text \<open>
  \<open>GenerateRandomNumber\<close> ends and is right for every source whose \<open>Intn(n)\<close> answers
  numbers below \<open>n\<close> and answers each of them at some call: it returns \<open>count\<close> different
  numbers of \<open>[start, end)\<close>, whenever the range has that many.
\<close>

theorem GenerateRandomNumber_ends:
  assumes range: "\<forall>n k. 0 < n \<longrightarrow> 0 \<le> intn n k \<and> intn n k < n"
    and fair: "\<forall>n v. 0 \<le> v \<and> v < n \<longrightarrow> (\<exists>k. intn n k = v)"
    and cnt: "0 \<le> cnt" "cnt \<le> end' - start"
  shows "\<exists>nums. GenerateRandomNumber intn start end' cnt = Some nums \<and> int (length nums) = cnt \<and>
    distinct nums \<and> (\<forall>x \<in> set nums. start \<le> x \<and> x < end')"
proof (cases "cnt = 0")
  case True
  then have "drawLoop (intn (end' - start)) start cnt 0 [] = Some []" by (subst drawLoop.simps) simp
  with True cnt show ?thesis by (auto simp: GenerateRandomNumber_def)
next
  case False
  obtain K where "end' - start \<le> int (card ((\<lambda>j. intn (end' - start) j + start) ` {..<K}))"
    using all_drawn [of "end' - start" "intn (end' - start)" start] fair by blast
  with cnt have "\<exists>r. drawLoop (intn (end' - start)) start cnt 0 [] = Some r \<and> int (length r) = cnt \<and> distinct r \<and>
      set r \<subseteq> range (\<lambda>j. intn (end' - start) j + start)"
    by (intro drawLoop_ends [where K = K]) auto
  then obtain r where r: "drawLoop (intn (end' - start)) start cnt 0 [] = Some r" "int (length r) = cnt" "distinct r"
    "set r \<subseteq> range (\<lambda>j. intn (end' - start) j + start)" by blast
  have "start \<le> x \<and> x < end'" if x: "x \<in> set r" for x
  proof -
    obtain j where "x = intn (end' - start) j + start" using x r(4) by blast
    with range [rule_format, of "end' - start" j] False cnt show ?thesis by auto
  qed
  with r cnt show ?thesis by (auto simp: GenerateRandomNumber_def)
qed

theorem GenerateRandomNumber_ends_witness:
  "\<exists>nums. GenerateRandomNumber (\<lambda>n k. int k mod n) 5 8 2 = Some nums \<and> int (length nums) = 2 \<and>
    distinct nums \<and> (\<forall>x \<in> set nums. 5 \<le> x \<and> x < 8)"
proof (rule GenerateRandomNumber_ends)
  show "\<forall>n k. 0 < n \<longrightarrow> 0 \<le> int k mod n \<and> int k mod n < n" by simp
  show "\<forall>n v. 0 \<le> v \<and> v < n \<longrightarrow> (\<exists>k. int k mod n = v)"
  proof (intro allI impI)
    fix n v :: int assume "0 \<le> v \<and> v < n"
    then have "int (nat v) mod n = v" by simp
    then show "\<exists>k. int k mod n = v" by blast
  qed
qed simp_all

text \<open>
  The seeded reader: \<open>sha256\<close> and \<open>randRead seed n\<close>, the first \<open>n\<close> bytes of \<open>math/rand\<close>
  from a seed, are parameters, as is \<open>cryRead n\<close>, the answer of \<open>crypto/rand\<close>. A reader
  is \<open>Some seed\<close>, or \<open>None\<close> for the system's.
\<close>

definition NewSeedRandReader :: "(bytes \<Rightarrow> bytes) \<Rightarrow> bytes \<Rightarrow> error + u64" where
  "NewSeedRandReader sha256 seed =
     (if length seed = 0 then Inl (ErrOther ''seed buf size 0'') else be_get (sha256 seed))"

definition SeedRandReader_Read :: "(u64 \<Rightarrow> nat \<Rightarrow> bytes) \<Rightarrow> u64 \<Rightarrow> nat \<Rightarrow> error + bytes" where
  "SeedRandReader_Read randRead seedNumber n =
     (if n = 0 then Inl (ErrOther ''buf size 0'') else Inr (randRead seedNumber n))"

definition NewRandReader :: "(bytes \<Rightarrow> bytes) \<Rightarrow> string \<Rightarrow> error + u64 option" where
  "NewRandReader sha256 seed =
     (if length seed = 0 then Inr None else map_sum id Some (NewSeedRandReader sha256 (str_bytes seed)))"

definition CreateDomainID ::
  "(bytes \<Rightarrow> bytes) \<Rightarrow> (u64 \<Rightarrow> nat \<Rightarrow> bytes) \<Rightarrow> (nat \<Rightarrow> error + bytes) \<Rightarrow> string \<Rightarrow> error + string" where
  "CreateDomainID sha256 randRead cryRead seed =
     (case NewRandReader sha256 seed of
        Inl e \<Rightarrow> Inl e
      | Inr rd \<Rightarrow>
          (case (case rd of None \<Rightarrow> cryRead 10 | Some sn \<Rightarrow> SeedRandReader_Read randRead sn 10) of
             Inl e \<Rightarrow> Inr [] | Inr r \<Rightarrow> Inr (hex_encode r)))"

text \<open>Domains created from the same seed have the same identifier, of 20 characters.\<close>

lemma CreateDomainID_seeded:
  assumes "seed \<noteq> []" "\<And>bs. length (sha256 bs) = 32" "\<And>sn n. length (randRead sn n) = n"
  obtains did where "length did = 20" "\<And>cryRead. CreateDomainID sha256 randRead cryRead seed = Inr did"
proof -
  obtain sn where "be_get (sha256 (str_bytes seed)) = Inr sn" using assms(2) by (simp add: be_get_def)
  with assms show thesis
    by (intro that [of "hex_encode (randRead sn 10)"])
      (auto simp: CreateDomainID_def NewRandReader_def NewSeedRandReader_def SeedRandReader_Read_def str_bytes_def)
qed

section \<open>Roles and networks\<close>

definition NetworkType_String :: "byte \<Rightarrow> string" where
  "NetworkType_String n = (if n = 1 then ''Mainnet'' else if n = 2 then ''Testnet'' else ''Unknown'')"

definition NetworkType_Value :: "char \<Rightarrow> byte" where
  "NetworkType_Value netType = (if netType = CHR ''m'' then 1 else if netType = CHR ''t'' then 2 else 0)"

definition NodeRole_String :: "u64 \<Rightarrow> string" where
  "NodeRole_String n =
     (if n AND 1 = 1 then ''executor'' else if n AND 2 = 2 then ''proposer''
      else if n AND 4 = 4 then ''validator'' else ''Unknown'')"

definition NodeRole_Value :: "string \<Rightarrow> u64" where
  "NodeRole_Value role =
     (if role = ''executor'' then 1 else if role = ''proposer'' then 2
      else if role = ''validator'' then 4 else if role = ''archiver'' then 8 else 0)"

text \<open>A role that is named is read back, except the archiver, which is printed as unknown.\<close>

lemma NodeRole_roundtrip:
  "r \<in> {1, 2, 4} \<Longrightarrow> NodeRole_Value (NodeRole_String r) = r"
  "NodeRole_Value (NodeRole_String (NodeRole_Value ''archiver'')) = 0"
  by (auto simp: NodeRole_Value_def NodeRole_String_def)

end
