(* ===== verification/Address.thy ===== *)
theory Address
  imports Common_Util
begin

text \<open>
  Addresses (\<open>src/crypt/types/address.go\<close>, \<open>contract_address.go\<close>, \<open>types.go\<close>): a network
  letter, a digit for the kind of key, and the payload followed by its checksum in
  base 32 without padding. \<open>encoding/base32\<close> is modelled by digits of numbers; the
  BLAKE2b hashes of 4 and 32 bytes are the parameters \<open>blake4\<close> and \<open>blake32\<close>.
\<close>

section \<open>Digits\<close>

fun to_base :: "nat \<Rightarrow> nat \<Rightarrow> nat \<Rightarrow> nat list" where
  "to_base b 0 n = []"
| "to_base b (Suc k) n = to_base b k (n div b) @ [n mod b]"

definition of_base :: "nat \<Rightarrow> nat list \<Rightarrow> nat" where
  "of_base b ds = foldl (\<lambda>n d. n * b + d) 0 ds"

lemma of_base_snoc [simp]: "of_base b (ds @ [d]) = of_base b ds * b + d"
  by (simp add: of_base_def)

lemma length_to_base [simp]: "length (to_base b k n) = k"
  by (induction k arbitrary: n) auto

lemma to_base_digits: "0 < b \<Longrightarrow> d \<in> set (to_base b k n) \<Longrightarrow> d < b"
  by (induction k arbitrary: n) auto

lemma of_to_base: "0 < b \<Longrightarrow> of_base b (to_base b k n) = n mod b ^ k"
proof (induction k arbitrary: n)
  case (Suc k)
  then show ?case by (simp add: mod_mult2_eq mult.commute add.commute)
qed (simp add: of_base_def)

lemma to_of_base: "list_all (\<lambda>d. d < b) ds \<Longrightarrow> to_base b (length ds) (of_base b ds) = ds"
  by (induction ds rule: rev_induct) (auto simp: list_all_iff)

lemma take_to_base: "k \<le> n \<Longrightarrow> take k (to_base b n v) = to_base b k (v div b ^ (n - k))"
proof (induction n arbitrary: v)
  case (Suc n)
  show ?case
  proof (cases "k = Suc n")
    case False
    with Suc have "take k (to_base b n (v div b)) = to_base b k (v div b div b ^ (n - k))" by simp
    with False Suc(2) show ?thesis by (simp add: Suc_diff_le div_mult2_eq)
  qed simp
qed simp

lemma of_base_zeros: "of_base b (ds @ replicate m 0) = of_base b ds * b ^ m"
proof (induction m)
  case (Suc m)
  have "ds @ replicate (Suc m) 0 = (ds @ replicate m 0) @ [0]" by (simp add: replicate_append_same)
  then show ?case using Suc by (simp only: of_base_snoc) simp
qed simp

lemma of_base_bound: "list_all (\<lambda>d. d < b) ds \<Longrightarrow> of_base b ds < b ^ length ds"
proof (induction ds rule: rev_induct)
  case (snoc d ds)
  then have "of_base b ds \<le> b ^ length ds - 1" "d < b" by auto
  then have "of_base b ds * b + d < (b ^ length ds - 1) * b + b" by (metis add_le_less_mono mult_le_mono1)
  also have "\<dots> \<le> b ^ length (ds @ [d])"
    using \<open>d < b\<close> by (simp add: algebra_simps diff_mult_distrib2)
  finally show ?case by simp
qed (simp add: of_base_def)

section \<open>Base 32\<close>

definition encodeStd :: string where
  "encodeStd = ''topianewrkbcdfghjlmqsuvxyz123456''"

definition b32_char :: "nat \<Rightarrow> char" where
  "b32_char d = encodeStd ! d"

definition b32_val :: "char \<Rightarrow> nat option" where
  "b32_val c = (let i = length (takeWhile (\<lambda>x. x \<noteq> c) encodeStd) in if i < 32 then Some i else None)"

text \<open>The characters for a group of up to 5 bytes, and the bytes for up to 8 characters.\<close>

definition enc_len :: "nat \<Rightarrow> nat" where
  "enc_len m = [0, 2, 4, 5, 7, 8] ! m"

definition dec_len :: "nat \<Rightarrow> nat" where
  "dec_len k = (if k = 8 then 5 else if k = 7 then 4 else if k = 5 then 3 else if k = 4 then 2 else if k = 2 then 1 else 0)"

definition enc_group :: "bytes \<Rightarrow> nat list" where
  "enc_group bs = take (enc_len (length bs)) (to_base 32 8 (of_base 256 (map unat bs @ replicate (5 - length bs) 0)))"

definition dec_group :: "nat list \<Rightarrow> bytes" where
  "dec_group ds = map word_of_nat (take (dec_len (length ds)) (to_base 256 5 (of_base 32 (ds @ replicate (8 - length ds) 0))))"

function b32_digits :: "bytes \<Rightarrow> nat list" where
  "b32_digits bs = (if bs = [] then [] else enc_group (take 5 bs) @ b32_digits (drop 5 bs))"
  by pat_completeness auto
termination by (relation "measure length") auto

function b32_bytes :: "nat list \<Rightarrow> bytes" where
  "b32_bytes ds = (if ds = [] then [] else dec_group (take 8 ds) @ b32_bytes (drop 8 ds))"
  by pat_completeness auto
termination by (relation "measure length") auto

declare b32_digits.simps [simp del] b32_bytes.simps [simp del]

text \<open>\<open>EncodeToString\<close>, and \<open>DecodeString\<close>, which leaves out line breaks before it decodes.\<close>

definition b32_EncodeToString :: "bytes \<Rightarrow> string" where
  "b32_EncodeToString bs = map b32_char (b32_digits bs)"

definition b32_DecodeString :: "string \<Rightarrow> error + bytes" where
  "b32_DecodeString s =
     (case those (map b32_val (filter (\<lambda>c. (of_char c :: nat) \<notin> {10, 13}) s)) of
        None \<Rightarrow> Inl (ErrOther ''illegal base32 data'')
      | Some ds \<Rightarrow> Inr (b32_bytes ds))"

lemma b32_val_char: "d < 32 \<Longrightarrow> b32_val (b32_char d) = Some d \<and> (of_char (b32_char d) :: nat) \<notin> {10, 13}"
proof -
  have "\<forall>d \<in> set [0..<32]. b32_val (b32_char d) = Some d \<and> (of_char (b32_char d) :: nat) \<notin> {10, 13}" by code_simp
  then show "d < 32 \<Longrightarrow> b32_val (b32_char d) = Some d \<and> (of_char (b32_char d) :: nat) \<notin> {10, 13}" by simp
qed

lemma group_roundtrip:
  assumes "0 < length bs" "length bs \<le> 5"
  shows "dec_group (enc_group bs) = bs" "length (enc_group bs) = enc_len (length bs)"
proof -
  let ?m = "length bs" and ?z = "map unat bs @ replicate (5 - length bs) 0"
  define N where "N = of_base 256 ?z"
  have bytes: "list_all (\<lambda>d. d < 256) ?z" by (auto simp: list_all_iff unat_byte)
  have m: "?m = 1 \<or> ?m = 2 \<or> ?m = 3 \<or> ?m = 4 \<or> ?m = 5" using assms by linarith
  then have e: "enc_len ?m \<le> 8" "dec_len (enc_len ?m) = ?m" by (auto simp: enc_len_def dec_len_def)
  then show "length (enc_group bs) = enc_len ?m" by (simp add: enc_group_def)
  have dvd: "32 ^ (8 - enc_len ?m) dvd N"
  proof -
    have "N = of_base 256 (map unat bs) * 256 ^ (5 - ?m)" by (simp add: N_def of_base_zeros)
    moreover have "(32 :: nat) ^ (8 - enc_len ?m) dvd 256 ^ (5 - ?m)" using m by (auto simp: enc_len_def)
    ultimately show ?thesis by simp
  qed
  have "N < 256 ^ 5" using of_base_bound [OF bytes] assms(2) by (simp add: N_def)
  then have small: "N div 32 ^ (8 - enc_len ?m) < 32 ^ enc_len ?m"
    using e(1) by (subst less_mult_imp_div_less) (simp_all flip: power_add)
  have "enc_group bs = to_base 32 (enc_len ?m) (N div 32 ^ (8 - enc_len ?m))"
    unfolding enc_group_def N_def by (rule take_to_base [OF e(1)])
  then have "of_base 32 (enc_group bs @ replicate (8 - enc_len ?m) 0) = N"
    using dvd small by (simp add: of_base_zeros of_to_base)
  then have "dec_group (enc_group bs) = map word_of_nat (take ?m (to_base 256 5 N))"
    using e by (simp add: dec_group_def enc_group_def)
  also have "to_base 256 5 N = ?z" using to_of_base [OF bytes] assms(2) by (simp add: N_def)
  finally show "dec_group (enc_group bs) = bs" by (simp add: comp_def)
qed

lemma enc_group_full: "length bs = 5 \<Longrightarrow> length (enc_group bs) = 8"
  using group_roundtrip(2) [of bs] by (simp add: enc_len_def)

lemma b32_bytes_digits: "b32_bytes (b32_digits bs) = bs"
proof (induction bs rule: b32_digits.induct)
  case (1 bs)
  show ?case
  proof (cases "bs = []")
    case False
    then have t: "0 < length (take 5 bs)" "length (take 5 bs) \<le> 5" by auto
    let ?g = "enc_group (take 5 bs)"
    have g: "dec_group ?g = take 5 bs" "?g \<noteq> []"
      using group_roundtrip [OF t] t by (auto simp: dec_group_def dec_len_def)
    have "b32_digits bs = ?g @ b32_digits (drop 5 bs)" using False by (subst b32_digits.simps) simp
    moreover have "b32_bytes (?g @ b32_digits (drop 5 bs)) = dec_group ?g @ drop 5 bs"
    proof (cases "drop 5 bs = []")
      case True
      have "length ?g \<le> 8" by (simp add: enc_group_def)
      with True g show ?thesis by (subst b32_digits.simps, subst b32_bytes.simps) (simp add: b32_bytes.simps)
    next
      case d: False
      then have "length ?g = 8" by (intro enc_group_full) simp
      with 1 [OF False] g show ?thesis by (subst b32_bytes.simps) simp
    qed
    ultimately show ?thesis using g by simp
  qed (simp add: b32_digits.simps b32_bytes.simps)
qed

lemma b32_digits_small: "d \<in> set (b32_digits bs) \<Longrightarrow> d < 32"
proof (induction bs rule: b32_digits.induct)
  case (1 bs)
  have "d < 32" if "d \<in> set (enc_group (take 5 bs))"
    using that to_base_digits [of 32 d 8] by (auto simp: enc_group_def dest: in_set_takeD)
  with 1 show ?case by (subst (asm) (2) b32_digits.simps) (auto split: if_splits)
qed

lemma b32_chars_vals: "list_all (\<lambda>d. d < 32) ds \<Longrightarrow>
  those (map b32_val (filter (\<lambda>c. (of_char c :: nat) \<notin> {10, 13}) (map b32_char ds))) = Some ds"
  by (induction ds) (use b32_val_char in auto)

lemma b32_roundtrip [simp]: "b32_DecodeString (b32_EncodeToString bs) = Inr bs"
  using b32_chars_vals [of "b32_digits bs"] b32_digits_small [of _ bs]
  by (simp add: b32_DecodeString_def b32_EncodeToString_def list_all_iff b32_bytes_digits)

section \<open>Addresses\<close>

abbreviation CryptType_Unknown :: byte where "CryptType_Unknown \<equiv> 0"
abbreviation CryptType_BLS12381 :: byte where "CryptType_BLS12381 \<equiv> 1"
abbreviation CryptType_Secp256 :: byte where "CryptType_Secp256 \<equiv> 2"
abbreviation CryptType_Ed25519 :: byte where "CryptType_Ed25519 \<equiv> 3"
abbreviation NetworkType_Unknown :: byte where "NetworkType_Unknown \<equiv> 0"
abbreviation NetworkType_Mainnet :: byte where "NetworkType_Mainnet \<equiv> 1"
abbreviation NetworkType_Testnet :: byte where "NetworkType_Testnet \<equiv> 2"

definition CryptType_String :: "byte \<Rightarrow> string" where
  "CryptType_String c = (if c = CryptType_BLS12381 then ''BLS12381'' else if c = CryptType_Secp256 then ''Secp256''
     else if c = CryptType_Ed25519 then ''Ed25519'' else ''Unknown'')"

definition CryptType_Value :: "string \<Rightarrow> byte" where
  "CryptType_Value s = (if s = ''BLS12381'' then CryptType_BLS12381 else if s = ''Secp256'' then CryptType_Secp256
     else if s = ''Ed25519'' then CryptType_Ed25519 else CryptType_Unknown)"

definition AddressLen_ETH :: nat where "AddressLen_ETH = 20"
definition AddressLen_Secp256 :: nat where "AddressLen_Secp256 = 20"
definition AddressLen_BLS12381 :: nat where "AddressLen_BLS12381 = 48"
definition AddressLen_ED25519 :: nat where "AddressLen_ED25519 = 32"

lemmas address_len_defs = AddressLen_ETH_def AddressLen_Secp256_def AddressLen_BLS12381_def AddressLen_ED25519_def

definition checksumHashLength :: nat where "checksumHashLength = 4"

definition UndefAddress :: string where "UndefAddress = ''<empty>''"

definition CurrentNetworkType :: byte where "CurrentNetworkType = NetworkType_Testnet"

definition checksum :: "(bytes \<Rightarrow> bytes) \<Rightarrow> bytes \<Rightarrow> bytes" where
  "checksum blake4 data = blake4 data"

definition validateChecksum :: "(bytes \<Rightarrow> bytes) \<Rightarrow> bytes \<Rightarrow> bytes \<Rightarrow> bool" where
  "validateChecksum blake4 data expect \<longleftrightarrow> checksum blake4 data = expect"

definition network_prefix :: "byte \<Rightarrow> string option" where
  "network_prefix network = (if network = NetworkType_Mainnet then Some ''m''
     else if network = NetworkType_Testnet then Some ''t'' else None)"

text \<open>The address that comes with an error is \<open>UndefAddress\<close> everywhere.\<close>

definition encode :: "(bytes \<Rightarrow> bytes) \<Rightarrow> byte \<Rightarrow> byte \<Rightarrow> bytes \<Rightarrow> error + string" where
  "encode blake4 network cryptType payload =
     (if length payload = 0 then Inl (ErrOther ''Invalid payload: len 0'')
      else (case network_prefix network of
              None \<Rightarrow> Inl (ErrOther ''Unknown network type'')
            | Some ntwPrefix \<Rightarrow>
                if cryptType \<in> {CryptType_BLS12381, CryptType_Secp256, CryptType_Ed25519} then
                  (let cksm = checksum blake4 (cryptType # payload) in
                   Inr (ntwPrefix @ dec (unat cryptType) @ b32_EncodeToString (payload @ cksm)))
                else Inl (ErrOther ''Unknown crypt type'')))"

text \<open>The payload is \<open>None\<close> for nil.\<close>

definition decode :: "(bytes \<Rightarrow> bytes) \<Rightarrow> string \<Rightarrow> error + byte \<times> byte \<times> bytes option" where
  "decode blake4 a =
     (if length a = 0 \<or> a = UndefAddress then Inr (NetworkType_Unknown, CryptType_Unknown, None)
      else if a ! 0 \<noteq> CHR ''m'' \<and> a ! 0 \<noteq> CHR ''t'' then Inl (ErrOther ''Unknown network type'')
      else if length a < 2 then Inl (Panic ''index out of range'')
      else if a ! 1 \<notin> {CHR ''1'', CHR ''2'', CHR ''3''} then Inl (ErrOther ''Unknown crypt type'')
      else
        (let cryptType = (if a ! 1 = CHR ''1'' then CryptType_BLS12381 else if a ! 1 = CHR ''2'' then CryptType_Secp256
                          else CryptType_Ed25519) in
         case b32_DecodeString (drop 2 a) of
           Inl e \<Rightarrow> Inl e
         | Inr payloadcksm \<Rightarrow>
             if length payloadcksm < checksumHashLength then Inl (ErrOther ''Invalid checksum'')
             else
               (let n = length payloadcksm - checksumHashLength; payload = take n payloadcksm; cksm = drop n payloadcksm in
                if cryptType = CryptType_Secp256 \<and> length payload \<noteq> AddressLen_Secp256 \<or>
                   cryptType = CryptType_BLS12381 \<and> length payload \<noteq> AddressLen_BLS12381 \<or>
                   cryptType = CryptType_Ed25519 \<and> length payload \<noteq> AddressLen_ED25519
                then Inl (ErrOther ''Invalid payload'')
                else if \<not> validateChecksum blake4 (cryptType # payload) cksm then Inl (ErrOther ''Invalid checksum'')
                else Inr (NetworkType_Value (a ! 0), cryptType, Some payload))))"

definition NewAddress :: "(bytes \<Rightarrow> bytes) \<Rightarrow> byte \<Rightarrow> bytes \<Rightarrow> error + string" where
  "NewAddress blake4 cryptType payload = encode blake4 CurrentNetworkType cryptType payload"

text \<open>A panic in \<open>decode\<close> is one of the caller.\<close>

definition is_panic :: "error \<Rightarrow> bool" where
  "is_panic e = (case e of Panic _ \<Rightarrow> True | _ \<Rightarrow> False)"

definition NewFromString :: "(bytes \<Rightarrow> bytes) \<Rightarrow> string \<Rightarrow> error + string" where
  "NewFromString blake4 addr = (case decode blake4 addr of
     Inl e \<Rightarrow> if is_panic e then Inl e else Inr UndefAddress | Inr _ \<Rightarrow> Inr addr)"

definition NewFromBytes :: "bytes \<Rightarrow> string" where
  "NewFromBytes addr = bytes_str addr"

definition addr_NetworkType :: "(bytes \<Rightarrow> bytes) \<Rightarrow> string \<Rightarrow> error + byte" where
  "addr_NetworkType blake4 a = (if length a = 0 then Inl (ErrOther ''Invalid address: len 0'')
     else map_sum id fst (decode blake4 a))"

definition addr_CryptType :: "(bytes \<Rightarrow> bytes) \<Rightarrow> string \<Rightarrow> error + byte" where
  "addr_CryptType blake4 a = (if length a = 0 then Inl (ErrOther ''Invalid address: len 0'')
     else map_sum id (fst \<circ> snd) (decode blake4 a))"

definition IsHexs :: "string \<Rightarrow> bool" where
  "IsHexs a = (let t = (if Has0xPrefix a then drop 2 a else a); hexSize = length t in
     (hexSize = 2 * AddressLen_ETH \<or> hexSize = 2 * AddressLen_Secp256 \<or> hexSize = AddressLen_BLS12381) \<and> IsHex t)"

definition HexString :: "string \<Rightarrow> error + string" where
  "HexString a =
     (if \<not> IsHexs a then
        (if length a < 2 then Inl (Panic ''index out of range'')
         else Inr (dec (of_char (a ! 0)) @ dec (of_char (a ! 1)) @ hex_encode (str_bytes (drop 2 a))))
      else Inr a)"

definition IsValid :: "(bytes \<Rightarrow> bytes) \<Rightarrow> string \<Rightarrow> byte \<Rightarrow> error + bool" where
  "IsValid blake4 a netType = (case decode blake4 a of
     Inl e \<Rightarrow> if is_panic e then Inl e else Inr False | Inr (nType, _, _) \<Rightarrow> Inr (nType = netType))"

definition Payload :: "(bytes \<Rightarrow> bytes) \<Rightarrow> string \<Rightarrow> error + bytes option" where
  "Payload blake4 a = (if length a = 0 then Inl (ErrOther ''Invalid address: len 0'')
     else map_sum id (snd \<circ> snd) (decode blake4 a))"

definition addr_Bytes :: "string \<Rightarrow> bytes" where
  "addr_Bytes a = str_bytes a"

definition IsEth :: "string \<Rightarrow> bool" where
  "IsEth a = (let t = (if Has0xPrefix a then drop 2 a else a) in
     length t = 2 * AddressLen_ETH \<and> IsHex t \<or> length t = AddressLen_ETH)"

text \<open>\<open>hex.DecodeString\<close> returns the bytes before the first bad pair along with its error.\<close>

fun hex_prefix :: "string \<Rightarrow> bytes" where
  "hex_prefix (c # d # s) = (case (hex_val c, hex_val d) of
     (Some x, Some y) \<Rightarrow> word_of_nat (16 * x + y) # hex_prefix s | _ \<Rightarrow> [])"
| "hex_prefix _ = []"

definition TopiaAddressFromEth :: "(bytes \<Rightarrow> bytes) \<Rightarrow> string \<Rightarrow> error + string" where
  "TopiaAddressFromEth blake4 a =
     (if length a < AddressLen_ETH then Inl (ErrOther ''Invalid eth address len'')
      else
        (let tBytes = (if Has0xPrefix a then
               (let t = drop 2 a; t' = (if length t mod 2 = 1 then CHR ''0'' # t else t) in hex_prefix t')
             else str_bytes a) in
         NewAddress blake4 CryptType_Secp256 tBytes))"

definition EthAddressFromTopia :: "(bytes \<Rightarrow> bytes) \<Rightarrow> string \<Rightarrow> error + bytes option" where
  "EthAddressFromTopia blake4 a = (case decode blake4 a of
     Inl e \<Rightarrow> Inl e
   | Inr (_, cType, pLoad) \<Rightarrow>
       if cType \<noteq> CryptType_Secp256 then Inl (ErrOther ''Invalid crypt address type'') else Inr pLoad)"

subsection \<open>Contract addresses\<close>

definition CreateNativeContractAddress :: "u64 \<Rightarrow> string" where
  "CreateNativeContractAddress id' = (case network_prefix CurrentNetworkType of
     None \<Rightarrow> UndefAddress
   | Some ntwPrefix \<Rightarrow> ntwPrefix @ ''0'' @ b32_EncodeToString (replicate 12 0 @ be_put id'))"

definition NativeContractAddr_Account :: string where
  "NativeContractAddr_Account = CreateNativeContractAddress 1"

definition IsPayable :: "string \<Rightarrow> bool" where
  "IsPayable a \<longleftrightarrow> a \<noteq> NativeContractAddr_Account"

definition IsNativeContractAddress :: "string \<Rightarrow> bool" where
  "IsNativeContractAddress contractAddr = (if contractAddr = NativeContractAddr_Account then True else False)"

definition CreateUserContractAddress :: "(bytes \<Rightarrow> bytes) \<Rightarrow> (bytes \<Rightarrow> bytes) \<Rightarrow> string \<Rightarrow> u64 \<Rightarrow> error + string" where
  "CreateUserContractAddress blake4 blake32 fromAddr nonce =
     (if fromAddr = [] \<or> fromAddr = UndefAddress then Inl (Panic ''Invalid address'')
      else (case Payload blake4 fromAddr of
              Inl e \<Rightarrow> if is_panic e then Inl e
                       else Inr (case NewAddress blake4 CryptType_Ed25519 (blake32 (be_put nonce)) of Inl _ \<Rightarrow> UndefAddress | Inr a \<Rightarrow> a)
            | Inr p \<Rightarrow>
                Inr (case NewAddress blake4 CryptType_Ed25519 (blake32 ((case p of None \<Rightarrow> [] | Some bs \<Rightarrow> bs) @ be_put nonce)) of
                       Inl _ \<Rightarrow> UndefAddress | Inr a \<Rightarrow> a)))"

section \<open>Round trips\<close>

definition payload_len :: "byte \<Rightarrow> nat" where
  "payload_len ct = (if ct = CryptType_Secp256 then AddressLen_Secp256 else if ct = CryptType_BLS12381 then AddressLen_BLS12381
     else AddressLen_ED25519)"

lemma dec_small: "dec (Suc 0) = ''1''" "dec 1 = ''1''" "dec 2 = ''2''" "dec 3 = ''3''"
  by code_simp+

lemma decode_raw:
  assumes "p = CHR ''m'' \<or> p = CHR ''t''" "b32_DecodeString raw = Inr (payload @ cksm)" "length cksm = 4"
    and "(d, ct) = (CHR ''1'', CryptType_BLS12381) \<or> (d, ct) = (CHR ''2'', CryptType_Secp256) \<or> (d, ct) = (CHR ''3'', CryptType_Ed25519)"
    and "length payload = payload_len ct" "checksum blake4 (ct # payload) = cksm"
  shows "decode blake4 (p # d # raw) = Inr (NetworkType_Value p, ct, Some payload)"
proof -
  have "p # d # raw \<noteq> UndefAddress" using assms(1) by (auto simp: UndefAddress_def)
  then have "decode blake4 (p # d # raw) = (case b32_DecodeString raw of
      Inl e \<Rightarrow> Inl e
    | Inr payloadcksm \<Rightarrow>
        if length payloadcksm < checksumHashLength then Inl (ErrOther ''Invalid checksum'')
        else
          (let n = length payloadcksm - checksumHashLength; payload = take n payloadcksm; cksm = drop n payloadcksm in
           if ct = CryptType_Secp256 \<and> length payload \<noteq> AddressLen_Secp256 \<or>
              ct = CryptType_BLS12381 \<and> length payload \<noteq> AddressLen_BLS12381 \<or>
              ct = CryptType_Ed25519 \<and> length payload \<noteq> AddressLen_ED25519
           then Inl (ErrOther ''Invalid payload'')
           else if \<not> validateChecksum blake4 (ct # payload) cksm then Inl (ErrOther ''Invalid checksum'')
           else Inr (NetworkType_Value ((p # d # raw) ! 0), ct, Some payload)))"
    using assms(1,4) unfolding decode_def by (elim disjE; clarsimp)
  moreover have "\<not> (ct = CryptType_Secp256 \<and> length payload \<noteq> AddressLen_Secp256 \<or>
      ct = CryptType_BLS12381 \<and> length payload \<noteq> AddressLen_BLS12381 \<or>
      ct = CryptType_Ed25519 \<and> length payload \<noteq> AddressLen_ED25519)"
    using assms(5) by (auto simp: payload_len_def)
  ultimately show ?thesis
    using assms(2,3,6) by (simp add: checksumHashLength_def validateChecksum_def del: de_Morgan_conj de_Morgan_disj)
qed

lemma decode_encoded:
  assumes "\<And>bs. length (blake4 bs) = 4" and nets: "net \<in> {NetworkType_Mainnet, NetworkType_Testnet}"
    and ct: "ct \<in> {CryptType_BLS12381, CryptType_Secp256, CryptType_Ed25519}" and len: "length payload = payload_len ct"
    and b32: "b32_DecodeString raw = Inr (payload @ checksum blake4 (ct # payload))"
  shows "decode blake4 (the (network_prefix net) @ dec (unat ct) @ raw) = Inr (net, ct, Some payload)"
proof -
  define p where "p = (if net = NetworkType_Mainnet then CHR ''m'' else CHR ''t'')"
  have p: "p = CHR ''m'' \<or> p = CHR ''t''" "the (network_prefix net) = [p]" "NetworkType_Value p = net"
    using nets by (auto simp: p_def network_prefix_def NetworkType_Value_def)
  define d where "d = (if ct = CryptType_BLS12381 then CHR ''1'' else if ct = CryptType_Secp256 then CHR ''2'' else CHR ''3'')"
  have d: "(d, ct) = (CHR ''1'', CryptType_BLS12381) \<or> (d, ct) = (CHR ''2'', CryptType_Secp256) \<or> (d, ct) = (CHR ''3'', CryptType_Ed25519)"
    "dec (unat ct) = [d]"
    using ct by (auto simp: d_def dec_small)
  have "length (checksum blake4 (ct # payload)) = 4" by (simp add: checksum_def assms(1))
  from decode_raw [OF p(1) b32 this d(1) len refl] show ?thesis by (simp add: p d)
qed

lemma encode_decode:
  assumes "\<forall>bs. length (blake4 bs) = 4" "net \<in> {NetworkType_Mainnet, NetworkType_Testnet}"
    and "ct \<in> {CryptType_BLS12381, CryptType_Secp256, CryptType_Ed25519}" "length payload = payload_len ct"
  shows "\<exists>a. encode blake4 net ct payload = Inr a \<and> decode blake4 a = Inr (net, ct, Some payload)"
proof -
  let ?a = "the (network_prefix net) @ dec (unat ct) @ b32_EncodeToString (payload @ checksum blake4 (ct # payload))"
  have "encode blake4 net ct payload = Inr ?a"
    using assms(2-) by (auto simp: encode_def network_prefix_def payload_len_def address_len_defs)
  moreover have "decode blake4 ?a = Inr (net, ct, Some payload)"
    using assms by (intro decode_encoded) auto
  ultimately show ?thesis by blast
qed

text \<open>
  (C21) Encoding an address and decoding it gives back the network, the kind of key and
  the payload, for every payload of the length of its kind.
\<close>

theorem address_roundtrip:
  assumes "\<forall>bs. length (blake4 bs) = 4" "net \<in> {NetworkType_Mainnet, NetworkType_Testnet}"
    and "ct \<in> {CryptType_BLS12381, CryptType_Secp256, CryptType_Ed25519}" "length payload = payload_len ct"
  shows "\<exists>a. encode blake4 net ct payload = Inr a \<and> decode blake4 a = Inr (net, ct, Some payload) \<and> IsValid blake4 a net = Inr True"
  using encode_decode [OF assms] by (auto simp: IsValid_def)

theorem address_roundtrip_witness:
  "\<exists>a. encode (\<lambda>_. [1, 2, 3, 4]) NetworkType_Testnet CryptType_Secp256 (replicate 20 7) = Inr a \<and>
     decode (\<lambda>_. [1, 2, 3, 4]) a = Inr (NetworkType_Testnet, CryptType_Secp256, Some (replicate 20 7)) \<and>
     IsValid (\<lambda>_. [1, 2, 3, 4]) a NetworkType_Testnet = Inr True"
  by (rule address_roundtrip) (simp_all add: payload_len_def address_len_defs)

text \<open>
  Decoding is not injective: a line break at the end of a valid address is ignored,
  so two different strings, which name two different accounts, are valid addresses with
  the same payload.
\<close>

theorem address_line_break:
  assumes "\<forall>bs. length (blake4 bs) = 4" "net \<in> {NetworkType_Mainnet, NetworkType_Testnet}"
    and "ct \<in> {CryptType_BLS12381, CryptType_Secp256, CryptType_Ed25519}" "length payload = payload_len ct"
    and "encode blake4 net ct payload = Inr a"
  shows "a @ [char_of (10 :: nat)] \<noteq> a \<and> decode blake4 (a @ [char_of (10 :: nat)]) = decode blake4 a \<and>
    NewFromString blake4 (a @ [char_of (10 :: nat)]) = Inr (a @ [char_of (10 :: nat)])"
proof -
  let ?raw = "b32_EncodeToString (payload @ checksum blake4 (ct # payload))"
  have a: "a = the (network_prefix net) @ dec (unat ct) @ ?raw"
    using assms(2-) by (auto simp: encode_def network_prefix_def payload_len_def address_len_defs)
  have raw: "b32_DecodeString (s @ [char_of (10 :: nat)]) = b32_DecodeString s" for s
    by (simp add: b32_DecodeString_def)
  have d: "decode blake4 a = Inr (net, ct, Some payload)"
    unfolding a using assms(1-4) by (intro decode_encoded) auto
  have "decode blake4 (the (network_prefix net) @ dec (unat ct) @ ?raw @ [char_of (10 :: nat)]) = Inr (net, ct, Some payload)"
    using assms(1-4) by (intro decode_encoded) (auto simp: raw)
  with d show ?thesis by (simp add: a NewFromString_def)
qed

theorem address_line_break_witness:
  "\<exists>a. encode (\<lambda>_. [1, 2, 3, 4]) NetworkType_Testnet CryptType_Secp256 (replicate 20 7) = Inr a \<and>
     decode (\<lambda>_. [1, 2, 3, 4]) (a @ [char_of (10 :: nat)]) = decode (\<lambda>_. [1, 2, 3, 4]) a"
proof -
  obtain a where a: "encode (\<lambda>_. [1, 2, 3, 4]) NetworkType_Testnet CryptType_Secp256 (replicate 20 7) = Inr a"
    by (simp add: encode_def network_prefix_def)
  with address_line_break [OF _ _ _ _ this] show ?thesis by (auto simp: payload_len_def address_len_defs)
qed

text \<open>The address of the native contract is not one that decodes, since its kind is 0.\<close>

lemma native_not_decodable: "decode blake4 (CreateNativeContractAddress id') = Inl (ErrOther ''Unknown crypt type'')"
  by (simp add: CreateNativeContractAddress_def CurrentNetworkType_def network_prefix_def decode_def UndefAddress_def)

text \<open>A one-letter string that starts like an address makes the decoder panic.\<close>

lemma decode_short_panics: "NewFromString blake4 ''m'' = Inl (Panic ''index out of range'')"
  by (simp add: NewFromString_def decode_def UndefAddress_def is_panic_def)

text \<open>The addresses of user contracts are valid addresses of the current network.\<close>

lemma CreateUserContractAddress_valid:
  assumes "\<And>bs. length (blake4 bs) = 4" "\<And>bs. length (blake32 bs) = 32" "Payload blake4 fromAddr = Inr p"
    "fromAddr \<noteq> []" "fromAddr \<noteq> UndefAddress"
  obtains a where "CreateUserContractAddress blake4 blake32 fromAddr nonce = Inr a" "IsValid blake4 a CurrentNetworkType = Inr True"
proof -
  let ?h = "blake32 ((case p of None \<Rightarrow> [] | Some bs \<Rightarrow> bs) @ be_put nonce)"
  let ?raw = "b32_EncodeToString (?h @ checksum blake4 (CryptType_Ed25519 # ?h))"
  let ?a = "the (network_prefix CurrentNetworkType) @ dec (unat CryptType_Ed25519) @ ?raw"
  have "?h \<noteq> []" using assms(2) [of "(case p of None \<Rightarrow> [] | Some bs \<Rightarrow> bs) @ be_put nonce"] by auto
  then have "CreateUserContractAddress blake4 blake32 fromAddr nonce = Inr ?a"
    using assms(3-) by (simp add: CreateUserContractAddress_def NewAddress_def encode_def network_prefix_def CurrentNetworkType_def Let_def)
  moreover have "decode blake4 ?a = Inr (CurrentNetworkType, CryptType_Ed25519, Some ?h)"
    using assms(1,2) by (intro decode_encoded) (auto simp: CurrentNetworkType_def payload_len_def address_len_defs)
  ultimately show thesis by (intro that [of ?a]) (auto simp: IsValid_def)
qed

end
