(* ===== verification/Account.thy ===== *)
theory Account
  imports Address
begin

text \<open>
  Accounts (\<open>src/account\<close>): balances, nonce, name, and the token with its permission, and
  their JSON form, which the account state stores. A nil map or pointer is \<open>None\<close>; using
  one where Go dereferences it or writes to it is a panic.
\<close>

section \<open>Permissions\<close>

abbreviation PermissionModel_Unknown :: int where "PermissionModel_Unknown \<equiv> 0"
abbreviation PermissionModel_ROOT :: int where "PermissionModel_ROOT \<equiv> 1"
abbreviation PermissionModel_ContractMethod :: int where "PermissionModel_ContractMethod \<equiv> 2"

definition PermissionModel_String :: "int \<Rightarrow> string" where
  "PermissionModel_String model = (if model = PermissionModel_ROOT then ''ROOT''
     else if model = PermissionModel_ContractMethod then ''ContractMethod'' else ''Unknown'')"

definition PermissionModel_Value :: "string \<Rightarrow> int" where
  "PermissionModel_Value ms = (if ms = ''ROOT'' then PermissionModel_ROOT
     else if ms = ''ContractMethod'' then PermissionModel_ContractMethod else PermissionModel_Unknown)"

text \<open>The two implementations of the interface \<open>Permission\<close>.\<close>

datatype Permission =
    PermissionRoot
  | PermissionContractMethod (pm_GasLimit: u64) (pm_MethodsMap: "(string, string list option) gomap option")

definition NewPermissionRoot :: Permission where
  "NewPermissionRoot = PermissionRoot"

definition NewPermissionContractMethod :: "u64 \<Rightarrow> Permission" where
  "NewPermissionContractMethod gasLimit = PermissionContractMethod gasLimit (Some [])"

definition perm_IsRoot :: "Permission \<Rightarrow> bool" where
  "perm_IsRoot p = (case p of PermissionRoot \<Rightarrow> True | PermissionContractMethod _ _ \<Rightarrow> False)"

definition methods_of :: "(string, string list option) gomap option \<Rightarrow> string \<Rightarrow> string list option option" where
  "methods_of mm addrStr = (case mm of None \<Rightarrow> None | Some m \<Rightarrow> map_of m addrStr)"

text \<open>
  \<open>IsContainString\<close> sorts the slice of methods, which is the one in the map. The slice
  that \<open>append\<close> returns is not stored.
\<close>

definition contain_method ::
  "Permission \<Rightarrow> string \<Rightarrow> string \<Rightarrow> error + bool \<times> Permission" where
  "contain_method p contractAddr method = (case p of
     PermissionRoot \<Rightarrow> Inr (True, p)
   | PermissionContractMethod gl mm \<Rightarrow>
       (case HexString contractAddr of
          Inl e \<Rightarrow> Inl e
        | Inr addrStr \<Rightarrow>
            (case methods_of mm addrStr of
               None \<Rightarrow> Inr (False, p)
             | Some None \<Rightarrow> Inr (False, p)
             | Some (Some methods) \<Rightarrow>
                 (case IsContainString method methods of (found, sorted') \<Rightarrow>
                    Inr (found, PermissionContractMethod gl (map_option (gm_set addrStr (Some sorted')) mm))))))"

definition perm_AddMethod :: "Permission \<Rightarrow> string \<Rightarrow> string \<Rightarrow> error + Permission" where
  "perm_AddMethod p contractAddr method = (case p of
     PermissionRoot \<Rightarrow> Inr p
   | PermissionContractMethod gl mm \<Rightarrow>
       if method = [] then Inr p else map_sum id snd (contain_method p contractAddr method))"

text \<open>The array that \<open>RemoveIfExistString\<close> returns is not stored either.\<close>

definition perm_RemoveMethod :: "Permission \<Rightarrow> string \<Rightarrow> string \<Rightarrow> error + Permission" where
  "perm_RemoveMethod p contractAddr method = (case p of
     PermissionRoot \<Rightarrow> Inr p
   | PermissionContractMethod gl mm \<Rightarrow> (case HexString contractAddr of Inl e \<Rightarrow> Inl e | Inr addrStr \<Rightarrow> Inr p))"

definition perm_HasMethodPerm :: "Permission \<Rightarrow> string \<Rightarrow> string \<Rightarrow> error + bool \<times> Permission" where
  "perm_HasMethodPerm p contractAddr method = contain_method p contractAddr method"

definition perm_SamePerm :: "Permission \<Rightarrow> Permission \<Rightarrow> bool" where
  "perm_SamePerm p other = (case p of
     PermissionRoot \<Rightarrow> perm_IsRoot other
   | PermissionContractMethod gl mm \<Rightarrow>
       (case other of PermissionRoot \<Rightarrow> False | PermissionContractMethod gl' mm' \<Rightarrow> mm = mm'))"

datatype perm_op = PAdd string string | PRemove string string

fun perm_step :: "error + Permission \<Rightarrow> perm_op \<Rightarrow> error + Permission" where
  "perm_step (Inl e) op = Inl e"
| "perm_step (Inr p) (PAdd a m) = perm_AddMethod p a m"
| "perm_step (Inr p) (PRemove a m) = perm_RemoveMethod p a m"

lemma HexString_total: "length a \<ge> 2 \<Longrightarrow> \<exists>h. HexString a = Inr h"
  by (simp add: HexString_def)

text \<open>
  (C30) A contract permission never permits anything: whatever methods are added to a new
  one, for addresses of at least two characters, it is as it was, and it denies every
  method of every contract, the added ones included.
\<close>

theorem permission_never_granted:
  assumes "\<forall>op \<in> set ops. case op of PAdd a m \<Rightarrow> length a \<ge> 2 | PRemove a m \<Rightarrow> length a \<ge> 2" "length addr \<ge> 2"
  shows "foldl perm_step (Inr (NewPermissionContractMethod gl)) ops = Inr (NewPermissionContractMethod gl) \<and>
    perm_HasMethodPerm (NewPermissionContractMethod gl) addr method = Inr (False, NewPermissionContractMethod gl)"
proof -
  let ?p = "NewPermissionContractMethod gl"
  have c: "contain_method ?p a m = Inr (False, ?p)" if "length a \<ge> 2" for a m
    using HexString_total [OF that] by (auto simp: contain_method_def NewPermissionContractMethod_def methods_of_def)
  have s: "perm_step (Inr ?p) op = Inr ?p" if "case op of PAdd a m \<Rightarrow> length a \<ge> 2 | PRemove a m \<Rightarrow> length a \<ge> 2" for op
  proof (cases op)
    case (PAdd a m)
    with that c [of a m] show ?thesis by (simp add: perm_AddMethod_def NewPermissionContractMethod_def)
  next
    case (PRemove a m)
    with that obtain h where "HexString a = Inr h" using HexString_total by auto
    with PRemove show ?thesis by (simp add: perm_RemoveMethod_def NewPermissionContractMethod_def)
  qed
  have "foldl perm_step (Inr ?p) ops = Inr ?p" using assms(1) by (induction ops) (simp_all add: s)
  with c [OF assms(2)] show ?thesis by (simp add: perm_HasMethodPerm_def)
qed

theorem permission_never_granted_witness:
  "foldl perm_step (Inr (NewPermissionContractMethod 9)) [PAdd ''t2abc'' ''run''] = Inr (NewPermissionContractMethod 9) \<and>
   perm_HasMethodPerm (NewPermissionContractMethod 9) ''t2abc'' ''run'' = Inr (False, NewPermissionContractMethod 9)"
  by (rule permission_never_granted) simp_all

section \<open>Accounts\<close>

record AccountToken =
  at_Nonce :: u64
  at_permMode :: int
  at_Permission :: "Permission option"

record Account =
  ac_Addr :: string
  ac_Nonce :: u64
  ac_Name :: string
  ac_Token :: "AccountToken option"
  ac_Balances :: "(string, int option) gomap option"
  ac_CodeHash :: string
  ac_Version :: u64

definition NewAccountToken :: "Permission \<Rightarrow> AccountToken" where
  "NewAccountToken perm = \<lparr>at_Nonce = 0,
     at_permMode = (if perm_IsRoot perm then PermissionModel_ROOT else PermissionModel_ContractMethod), at_Permission = Some perm\<rparr>"

definition AccountName_IsValid :: "string \<Rightarrow> bool" where
  "AccountName_IsValid an \<longleftrightarrow> True"

definition AccountName_IsChild :: "string \<Rightarrow> string \<Rightarrow> bool" where
  "AccountName_IsChild an other = (if \<not> AccountName_IsValid other then False else suffix an other)"

definition NewDefaultAccount :: "string \<Rightarrow> Account" where
  "NewDefaultAccount addr = \<lparr>ac_Addr = addr, ac_Nonce = 0, ac_Name = [], ac_Token = Some (NewAccountToken NewPermissionRoot),
     ac_Balances = Some [], ac_CodeHash = [], ac_Version = 1\<rparr>"

definition NewContractControlAccount :: "string \<Rightarrow> string \<Rightarrow> u64 \<Rightarrow> error + Account" where
  "NewContractControlAccount addr name gasLimit =
     (if \<not> AccountName_IsValid name then Inl (Panic (''Invalid account name'' @ name))
      else Inr \<lparr>ac_Addr = addr, ac_Nonce = 0, ac_Name = name,
        ac_Token = Some (NewAccountToken (NewPermissionContractMethod gasLimit)),
        ac_Balances = Some [], ac_CodeHash = [], ac_Version = 1\<rparr>)"

definition BindName :: "Account \<Rightarrow> string \<Rightarrow> Account" where
  "BindName a name = a\<lparr>ac_Name := name\<rparr>"

definition balance :: "Account \<Rightarrow> string \<Rightarrow> int option option" where
  "balance a symbol = (case ac_Balances a of None \<Rightarrow> None | Some m \<Rightarrow> map_of m symbol)"

abbreviation nil_map :: error where "nil_map \<equiv> Panic ''assignment to entry in nil map''"
abbreviation nil_ptr :: error where "nil_ptr \<equiv> Panic ''nil pointer dereference''"

definition set_balance :: "Account \<Rightarrow> string \<Rightarrow> int \<Rightarrow> error + Account" where
  "set_balance a symbol v = (case ac_Balances a of
     None \<Rightarrow> Inl nil_map | Some m \<Rightarrow> Inr (a\<lparr>ac_Balances := Some (gm_set symbol (Some v) m)\<rparr>))"

definition BalanceIncrease :: "Account \<Rightarrow> string \<Rightarrow> int \<Rightarrow> error + Account" where
  "BalanceIncrease a symbol value = (case balance a symbol of
     None \<Rightarrow> set_balance a symbol (0 + value)
   | Some None \<Rightarrow> Inl nil_ptr
   | Some (Some symbolValue) \<Rightarrow> set_balance a symbol (symbolValue + value))"

definition BalanceDecrease :: "Account \<Rightarrow> string \<Rightarrow> int \<Rightarrow> error + Account" where
  "BalanceDecrease a symbol value = (case balance a symbol of
     None \<Rightarrow> Inl (ErrInsufficient symbol)
   | Some None \<Rightarrow> Inl nil_ptr
   | Some (Some symbolValue) \<Rightarrow>
       if symbolValue < value then Inl (ErrInsufficient symbol) else set_balance a symbol (symbolValue - value))"

definition NonceIncrease :: "Account \<Rightarrow> Account" where
  "NonceIncrease a = a\<lparr>ac_Nonce := ac_Nonce a + 1\<rparr>"

text \<open>What an account has of a currency.\<close>

definition bal :: "Account \<Rightarrow> string \<Rightarrow> int" where
  "bal a symbol = (case balance a symbol of Some (Some v) \<Rightarrow> v | _ \<Rightarrow> 0)"

definition bal_ok :: "Account \<Rightarrow> bool" where
  "bal_ok a \<longleftrightarrow> (case ac_Balances a of None \<Rightarrow> False | Some m \<Rightarrow> sorted_keys m \<and> (\<forall>(k, v) \<in> set m. v \<noteq> None))"

lemma bal_okD:
  assumes "bal_ok a"
  shows "balance a s \<noteq> Some None" "\<exists>a'. set_balance a s v = Inr a' \<and> bal_ok a' \<and> bal a' = (bal a)(s := v) \<and>
    a' = a\<lparr>ac_Balances := ac_Balances a'\<rparr>"
proof -
  obtain m where m: "ac_Balances a = Some m" "sorted_keys m" "\<forall>(k, v) \<in> set m. v \<noteq> None"
    using assms by (auto simp: bal_ok_def split: option.splits)
  show "balance a s \<noteq> Some None" using m by (auto simp: balance_def dest: map_of_SomeD)
  have "\<forall>(k, v') \<in> set (gm_set s (Some v) m). v' \<noteq> None" using m(2,3) by (auto simp: gm_set_mem)
  then show "\<exists>a'. set_balance a s v = Inr a' \<and> bal_ok a' \<and> bal a' = (bal a)(s := v) \<and> a' = a\<lparr>ac_Balances := ac_Balances a'\<rparr>"
    using m(1,2) by (auto simp: set_balance_def bal_ok_def bal_def balance_def fun_eq_iff gm_set_sorted)
qed

lemma BalanceIncrease_ok:
  assumes "bal_ok a"
  obtains a' where "BalanceIncrease a s v = Inr a'" "bal_ok a'" "bal a' = (bal a)(s := bal a s + v)"
    "a' = a\<lparr>ac_Balances := ac_Balances a'\<rparr>"
proof -
  have "BalanceIncrease a s v = set_balance a s (bal a s + v)"
    using bal_okD(1) [OF assms, of s] by (auto simp: BalanceIncrease_def bal_def split: option.splits)
  with bal_okD(2) [OF assms, of s "bal a s + v"] that show thesis by auto
qed

lemma BalanceDecrease_cases:
  assumes "bal_ok a"
  shows "if balance a s \<noteq> None \<and> v \<le> bal a s
    then \<exists>a'. BalanceDecrease a s v = Inr a' \<and> bal_ok a' \<and> bal a' = (bal a)(s := bal a s - v) \<and> a' = a\<lparr>ac_Balances := ac_Balances a'\<rparr>
    else BalanceDecrease a s v = Inl (ErrInsufficient s)"
proof -
  have "BalanceDecrease a s v =
      (if balance a s \<noteq> None \<and> v \<le> bal a s then set_balance a s (bal a s - v) else Inl (ErrInsufficient s))"
    using bal_okD(1) [OF assms, of s] by (auto simp: BalanceDecrease_def bal_def split: option.splits)
  with bal_okD(2) [OF assms, of s "bal a s - v"] show ?thesis by auto
qed

section \<open>JSON\<close>

definition j_perm :: "Permission \<Rightarrow> json" where
  "j_perm p = (case p of
     PermissionRoot \<Rightarrow> JObj []
   | PermissionContractMethod gl mm \<Rightarrow> JObj [(''GasLimit'', j_u64 gl), (''MethodsMap'', j_map (j_slice JStr) mm)])"

definition perm_MarshalJSON :: "Permission \<Rightarrow> bytes" where
  "perm_MarshalJSON p = Marshal (j_perm p)"

definition root_UnmarshalJSON :: "bytes option \<Rightarrow> error + Permission" where
  "root_UnmarshalJSON data = (case Unmarshal data of
     Inl e \<Rightarrow> Inl e | Inr j \<Rightarrow> map_sum id (\<lambda>_. PermissionRoot) (un_obj j))"

definition method_UnmarshalJSON :: "bytes option \<Rightarrow> error + Permission" where
  "method_UnmarshalJSON data = (case Unmarshal data of
     Inl e \<Rightarrow> Inl e
   | Inr j \<Rightarrow> (case un_obj j of
        Inl e \<Rightarrow> Inl e
      | Inr ms \<Rightarrow>
          (case (un_u64 (field ''GasLimit'' ms), un_map (un_slice un_str) (field ''MethodsMap'' ms)) of
             (Inr gl, Inr mm) \<Rightarrow> Inr (PermissionContractMethod gl mm) | _ \<Rightarrow> Inl ErrJson)))"

text \<open>A token without a permission dereferences nil when it is marshaled.\<close>

definition j_token :: "AccountToken \<Rightarrow> error + json" where
  "j_token t = (case at_Permission t of
     None \<Rightarrow> Inl nil_ptr
   | Some p \<Rightarrow> Inr (JObj [(''Nonce'', j_u64 (at_Nonce t)), (''PermMode'', JNum (at_permMode t)),
                         (''PermissionData'', j_bytes (Some (perm_MarshalJSON p)))]))"

definition un_token :: "json \<Rightarrow> error + AccountToken" where
  "un_token j = (case un_obj j of Inl e \<Rightarrow> Inl e | Inr ms \<Rightarrow>
     (case (un_u64 (field ''Nonce'' ms), un_int (field ''PermMode'' ms), un_bytes (field ''PermissionData'' ms)) of
        (Inr n, Inr mode, Inr data) \<Rightarrow>
          (if mode = PermissionModel_ROOT then
             map_sum id (\<lambda>p. \<lparr>at_Nonce = n, at_permMode = mode, at_Permission = Some p\<rparr>) (root_UnmarshalJSON data)
           else if mode = PermissionModel_ContractMethod then
             map_sum id (\<lambda>p. \<lparr>at_Nonce = n, at_permMode = mode, at_Permission = Some p\<rparr>) (method_UnmarshalJSON data)
           else Inl (Panic ''Invalid permission mode''))
      | _ \<Rightarrow> Inl ErrJson))"

definition j_account :: "Account \<Rightarrow> error + json" where
  "j_account a =
     (case (case ac_Token a of None \<Rightarrow> Inr JNull | Some t \<Rightarrow> j_token t) of
        Inl e \<Rightarrow> Inl e
      | Inr tok \<Rightarrow> Inr (JObj [(''Addr'', JStr (ac_Addr a)), (''Nonce'', j_u64 (ac_Nonce a)), (''Name'', JStr (ac_Name a)),
          (''Token'', tok), (''Balances'', j_map (j_ptr JNum) (ac_Balances a)), (''CodeHash'', JStr (ac_CodeHash a)),
          (''Version'', j_u64 (ac_Version a))]))"

definition un_account :: "json \<Rightarrow> error + Account" where
  "un_account j = (case un_obj j of Inl e \<Rightarrow> Inl e | Inr ms \<Rightarrow>
     (case (un_str (field ''Addr'' ms), un_u64 (field ''Nonce'' ms), un_str (field ''Name'' ms), un_ptr un_token (field ''Token'' ms),
            un_map (un_ptr un_big) (field ''Balances'' ms), un_str (field ''CodeHash'' ms), un_u64 (field ''Version'' ms)) of
        (Inr ad, Inr n, Inr nm, Inr tok, Inr bs, Inr ch, Inr v) \<Rightarrow>
          Inr \<lparr>ac_Addr = ad, ac_Nonce = n, ac_Name = nm, ac_Token = tok, ac_Balances = bs, ac_CodeHash = ch, ac_Version = v\<rparr>
      | (_, _, _, Inl (Panic m), _, _, _) \<Rightarrow> Inl (Panic m)
      | _ \<Rightarrow> Inl ErrJson))"

definition marshal_account :: "Account \<Rightarrow> error + bytes" where
  "marshal_account a = map_sum id Marshal (j_account a)"

definition unmarshal_account :: "bytes option \<Rightarrow> error + Account" where
  "unmarshal_account b = (case Unmarshal b of Inl e \<Rightarrow> Inl e | Inr j \<Rightarrow> un_account j)"

text \<open>The accounts whose encoding is read back: ASCII strings, and a token whose mode fits its permission.\<close>

definition perm_ok :: "Permission \<Rightarrow> bool" where
  "perm_ok p = (case p of
     PermissionRoot \<Rightarrow> True
   | PermissionContractMethod gl mm \<Rightarrow>
       (case mm of None \<Rightarrow> True | Some m \<Rightarrow> sorted_keys m \<and>
          (\<forall>(k, v) \<in> set m. ascii k \<and> (case v of None \<Rightarrow> True | Some xs \<Rightarrow> list_all ascii xs))))"

definition token_ok :: "AccountToken \<Rightarrow> bool" where
  "token_ok t = (case at_Permission t of
     None \<Rightarrow> False
   | Some p \<Rightarrow> perm_ok p \<and> at_permMode t = (if perm_IsRoot p then PermissionModel_ROOT else PermissionModel_ContractMethod))"

definition account_ok :: "Account \<Rightarrow> bool" where
  "account_ok a \<longleftrightarrow> ac_Addr a \<noteq> [] \<and> ascii (ac_Addr a) \<and> ascii (ac_Name a) \<and> ascii (ac_CodeHash a) \<and>
     (case ac_Token a of None \<Rightarrow> True | Some t \<Rightarrow> token_ok t) \<and>
     (case ac_Balances a of None \<Rightarrow> True | Some m \<Rightarrow> sorted_keys m \<and> (\<forall>(k, v) \<in> set m. ascii k))"

lemma un_perm_j:
  assumes "perm_ok p"
  shows "(if perm_IsRoot p then root_UnmarshalJSON (Some (perm_MarshalJSON p)) else method_UnmarshalJSON (Some (perm_MarshalJSON p))) = Inr p"
proof (cases p)
  case PermissionRoot
  then show ?thesis by (simp add: perm_IsRoot_def root_UnmarshalJSON_def perm_MarshalJSON_def j_perm_def Unmarshal_Marshal)
next
  case (PermissionContractMethod gl mm)
  have "un_slice un_str (j_slice JStr v) = Inr v" for v by (rule un_slice_j) simp
  then have "un_map (un_slice un_str) (j_map (j_slice JStr) mm) = Inr mm"
    using assms by (intro un_map_j) (auto simp: perm_ok_def PermissionContractMethod split: option.splits)
  moreover have "json_ok (j_map (j_slice JStr) mm)"
    using assms by (intro json_ok_map conjI json_ok_slice)
      (auto simp: perm_ok_def PermissionContractMethod list_all_iff split: option.splits)
  ultimately show ?thesis
    by (simp add: PermissionContractMethod perm_IsRoot_def method_UnmarshalJSON_def perm_MarshalJSON_def j_perm_def
        Unmarshal_Marshal field_def to_lower_def)
qed

lemma un_token_j:
  assumes "token_ok t"
  shows "\<exists>j. j_token t = Inr j \<and> un_ptr un_token j = Inr (Some t) \<and> json_ok j"
proof -
  obtain p where p: "at_Permission t = Some p" "perm_ok p"
    "at_permMode t = (if perm_IsRoot p then PermissionModel_ROOT else PermissionModel_ContractMethod)"
    using assms by (auto simp: token_ok_def split: option.splits)
  define j where "j = JObj [(''Nonce'', j_u64 (at_Nonce t)), (''PermMode'', JNum (at_permMode t)),
    (''PermissionData'', j_bytes (Some (perm_MarshalJSON p)))]"
  have "un_token j = Inr t"
    using un_perm_j [OF p(2)] p by (cases t) (auto simp: un_token_def j_def field_def to_lower_def split: if_splits)
  then have "un_ptr un_token j = Inr (Some t)" by (simp add: un_ptr_def j_def)
  moreover have "j_token t = Inr j" using p(1) by (simp add: j_token_def j_def)
  moreover have "json_ok j" by (simp add: j_def)
  ultimately show ?thesis by blast
qed

lemma fields_account:
  "field ''Addr'' [(''Addr'', a), (''Nonce'', b), (''Name'', c), (''Token'', d), (''Balances'', e), (''CodeHash'', f), (''Version'', g)] = a"
  "field ''Nonce'' [(''Addr'', a), (''Nonce'', b), (''Name'', c), (''Token'', d), (''Balances'', e), (''CodeHash'', f), (''Version'', g)] = b"
  "field ''Name'' [(''Addr'', a), (''Nonce'', b), (''Name'', c), (''Token'', d), (''Balances'', e), (''CodeHash'', f), (''Version'', g)] = c"
  "field ''Token'' [(''Addr'', a), (''Nonce'', b), (''Name'', c), (''Token'', d), (''Balances'', e), (''CodeHash'', f), (''Version'', g)] = d"
  "field ''Balances'' [(''Addr'', a), (''Nonce'', b), (''Name'', c), (''Token'', d), (''Balances'', e), (''CodeHash'', f), (''Version'', g)] = e"
  "field ''CodeHash'' [(''Addr'', a), (''Nonce'', b), (''Name'', c), (''Token'', d), (''Balances'', e), (''CodeHash'', f), (''Version'', g)] = f"
  "field ''Version'' [(''Addr'', a), (''Nonce'', b), (''Name'', c), (''Token'', d), (''Balances'', e), (''CodeHash'', f), (''Version'', g)] = g"
  by (simp_all add: field_def to_lower_def)

lemma account_roundtrip:
  assumes "account_ok a"
  shows "\<exists>b. marshal_account a = Inr b \<and> unmarshal_account (Some b) = Inr a"
proof -
  have "\<exists>tok. (case ac_Token a of None \<Rightarrow> Inr JNull | Some t \<Rightarrow> j_token t) = Inr tok \<and> un_ptr un_token tok = Inr (ac_Token a) \<and> json_ok tok"
    using assms un_token_j by (cases "ac_Token a") (auto simp: account_ok_def un_ptr_def)
  then obtain tok where tok: "(case ac_Token a of None \<Rightarrow> Inr JNull | Some t \<Rightarrow> j_token t) = Inr tok"
    "un_ptr un_token tok = Inr (ac_Token a)" "json_ok tok" by blast
  have p: "un_ptr un_big (j_ptr JNum v) = Inr v" for v by (rule un_ptr_j) simp
  have b: "un_map (un_ptr un_big) (j_map (j_ptr JNum) (ac_Balances a)) = Inr (ac_Balances a)"
    using assms p by (intro un_map_j) (auto simp: account_ok_def split: option.splits)
  have "json_ok (j_map (j_ptr JNum) (ac_Balances a))"
    using assms by (intro json_ok_map conjI json_ok_ptr) (auto simp: account_ok_def)
  with tok b assms show ?thesis
    by (simp add: marshal_account_def unmarshal_account_def j_account_def un_account_def Unmarshal_Marshal fields_account account_ok_def)
qed

definition acc_bytes :: "Account \<Rightarrow> bytes" where
  "acc_bytes a = (case marshal_account a of Inl _ \<Rightarrow> [] | Inr b \<Rightarrow> b)"

lemma acc_bytes_ok:
  assumes "account_ok a" shows "marshal_account a = Inr (acc_bytes a)" "unmarshal_account (Some (acc_bytes a)) = Inr a"
  using account_roundtrip [OF assms] by (auto simp: acc_bytes_def)

lemma un_account_nil: "unmarshal_account None = Inl ErrJson"
  by (simp add: unmarshal_account_def Unmarshal_def json_parse_def)

end
