(* ===== verification/Account_State.thy ===== *)
theory Account_State
  imports Bytes_Store Account
begin

text \<open>
  The account state (\<open>src/state/account/account.go\<close>): accounts in the named store
  \<open>account\<close>, under the bytes of their address. The operations are defined over any state
  store; the refinement shows that they keep a book of accounts.
\<close>

abbreviation StateStore_Name_Account :: string where "StateStore_Name_Account \<equiv> ''account''"

definition GetAccountRoot :: "('s, bytes) ss_ops \<Rightarrow> 's \<Rightarrow> error + bytes" where
  "GetAccountRoot S s = SS_Root S s StateStore_Name_Account"

definition GetAccountProof :: "('s, bytes) ss_ops \<Rightarrow> 's \<Rightarrow> string \<Rightarrow> bytes option \<times> error option" where
  "GetAccountProof S s addr = (case SS_GetState S s StateStore_Name_Account (addr_Bytes addr) of (_, proof', err) \<Rightarrow> (proof', err))"

definition IsAccountExist :: "('s, bytes) ss_ops \<Rightarrow> 's \<Rightarrow> string \<Rightarrow> bool" where
  "IsAccountExist S s addr = (case SS_Exists S s StateStore_Name_Account (addr_Bytes addr) of Inl _ \<Rightarrow> False | Inr b \<Rightarrow> b)"

definition GetAccount :: "('s, bytes) ss_ops \<Rightarrow> 's \<Rightarrow> string \<Rightarrow> error + Account" where
  "GetAccount S s addr = (case SS_GetStateData S s StateStore_Name_Account (addr_Bytes addr) of
     Inl err \<Rightarrow> Inl err | Inr accBytes \<Rightarrow> unmarshal_account accBytes)"

definition GetNonce :: "('s, bytes) ss_ops \<Rightarrow> 's \<Rightarrow> string \<Rightarrow> error + u64" where
  "GetNonce S s addr = map_sum id ac_Nonce (GetAccount S s addr)"

definition GetBalance :: "('s, bytes) ss_ops \<Rightarrow> 's \<Rightarrow> string \<Rightarrow> string \<Rightarrow> error + int option" where
  "GetBalance S s addr symbol = (case GetAccount S s addr of
     Inl err \<Rightarrow> Inl err
   | Inr acc \<Rightarrow> (case balance acc symbol of Some balVal \<Rightarrow> Inr balVal | None \<Rightarrow> Inl (ErrNoSymbol symbol)))"

fun unmarshal_accounts :: "bytes list \<Rightarrow> error + Account list" where
  "unmarshal_accounts [] = Inr []"
| "unmarshal_accounts (val # vals) = (case unmarshal_account (Some val) of
     Inl err \<Rightarrow> Inl err
   | Inr acc \<Rightarrow> map_sum id (\<lambda>accs. acc # accs) (unmarshal_accounts vals))"

definition GetAllAccounts :: "('s, bytes) ss_ops \<Rightarrow> 's \<Rightarrow> error + Account list" where
  "GetAllAccounts S s = (case SS_GetAllStateData S s StateStore_Name_Account of
     Inl err \<Rightarrow> Inl err
   | Inr (keys, vals) \<Rightarrow>
       if length keys \<noteq> length vals then Inl (ErrOther ''Invalid keys' len and vals' len'') else unmarshal_accounts vals)"

definition AddAccount :: "('s, bytes) ss_ops \<Rightarrow> 's \<Rightarrow> Account \<Rightarrow> 's \<times> error option" where
  "AddAccount S s acc =
     (if IsAccountExist S s (ac_Addr acc) then (s, Some (ErrExists (ac_Addr acc)))
      else (case marshal_account acc of
              Inl err \<Rightarrow> (s, Some err)
            | Inr accBytes \<Rightarrow> SS_Put S s StateStore_Name_Account (addr_Bytes (ac_Addr acc)) (Some accBytes)))"

definition UpdateAccount :: "('s, bytes) ss_ops \<Rightarrow> 's \<Rightarrow> Account \<Rightarrow> 's \<times> error option" where
  "UpdateAccount S s account = (case marshal_account account of
     Inl err \<Rightarrow> (s, Some err)
   | Inr accBytes \<Rightarrow> SS_Update S s StateStore_Name_Account (addr_Bytes (ac_Addr account)) (Some accBytes))"

definition UpdateNonce :: "('s, bytes) ss_ops \<Rightarrow> 's \<Rightarrow> string \<Rightarrow> u64 \<Rightarrow> 's \<times> error option" where
  "UpdateNonce S s addr nonce = (case GetAccount S s addr of
     Inl err \<Rightarrow> (s, Some err) | Inr acc \<Rightarrow> UpdateAccount S s (acc\<lparr>ac_Nonce := nonce\<rparr>))"

text \<open>Setting the number that a nil pointer should point to, and writing to a nil map, panic.\<close>

definition put_balance :: "Account \<Rightarrow> string \<Rightarrow> int \<Rightarrow> error + Account" where
  "put_balance acc symbol value = (case balance acc symbol of
     Some None \<Rightarrow> Inl nil_ptr | Some (Some _) \<Rightarrow> set_balance acc symbol value | None \<Rightarrow> set_balance acc symbol value)"

definition UpdateBalance :: "('s, bytes) ss_ops \<Rightarrow> 's \<Rightarrow> string \<Rightarrow> string \<Rightarrow> int \<Rightarrow> 's \<times> error option" where
  "UpdateBalance S s addr symbol value = (case GetAccount S s addr of
     Inl err \<Rightarrow> (s, Some err)
   | Inr acc \<Rightarrow> (case put_balance acc symbol value of Inl err \<Rightarrow> (s, Some err) | Inr acc' \<Rightarrow> UpdateAccount S s acc'))"

definition UpdateName :: "('s, bytes) ss_ops \<Rightarrow> 's \<Rightarrow> string \<Rightarrow> string \<Rightarrow> 's \<times> error option" where
  "UpdateName S s addr name = (case GetAccount S s addr of
     Inl err \<Rightarrow> (s, Some err) | Inr acc \<Rightarrow> UpdateAccount S s (acc\<lparr>ac_Name := name\<rparr>))"

section \<open>The book of accounts\<close>

datatype acc_op =
    OAdd Account | OUpdate Account | ONonce string u64 | OBalance string string int | OName string string

fun acc_do :: "('s, bytes) ss_ops \<Rightarrow> 's \<Rightarrow> acc_op \<Rightarrow> 's \<times> error option" where
  "acc_do S s (OAdd a) = AddAccount S s a"
| "acc_do S s (OUpdate a) = UpdateAccount S s a"
| "acc_do S s (ONonce ad n) = UpdateNonce S s ad n"
| "acc_do S s (OBalance ad symb v) = UpdateBalance S s ad symb v"
| "acc_do S s (OName ad nm) = UpdateName S s ad nm"

fun acc_run :: "('s, bytes) ss_ops \<Rightarrow> 's \<Rightarrow> acc_op list \<Rightarrow> 's \<times> error option list" where
  "acc_run S s [] = (s, [])"
| "acc_run S s (op # ops) = (case acc_do S s op of (s', e) \<Rightarrow> (case acc_run S s' ops of (s'', es) \<Rightarrow> (s'', e # es)))"

type_synonym acc_book = "string \<rightharpoonup> Account"

definition change :: "acc_book \<Rightarrow> string \<Rightarrow> (Account \<Rightarrow> error + Account) \<Rightarrow> acc_book \<times> error option" where
  "change m ad f = (case m ad of
     None \<Rightarrow> (m, Some ErrJson)
   | Some a \<Rightarrow> (case f a of Inl err \<Rightarrow> (m, Some err) | Inr a' \<Rightarrow> (m(ad \<mapsto> a'), None)))"

fun acc_spec :: "acc_book \<Rightarrow> acc_op \<Rightarrow> acc_book \<times> error option" where
  "acc_spec m (OAdd a) = (if m (ac_Addr a) \<noteq> None then (m, Some (ErrExists (ac_Addr a))) else (m(ac_Addr a \<mapsto> a), None))"
| "acc_spec m (OUpdate a) = (m(ac_Addr a \<mapsto> a), None)"
| "acc_spec m (ONonce ad n) = change m ad (\<lambda>a. Inr (a\<lparr>ac_Nonce := n\<rparr>))"
| "acc_spec m (OBalance ad symb v) = change m ad (\<lambda>a. put_balance a symb v)"
| "acc_spec m (OName ad nm) = change m ad (\<lambda>a. Inr (a\<lparr>ac_Name := nm\<rparr>))"

fun acc_spec_run :: "acc_book \<Rightarrow> acc_op list \<Rightarrow> acc_book \<times> error option list" where
  "acc_spec_run m [] = (m, [])"
| "acc_spec_run m (op # ops) = (case acc_spec m op of (m', e) \<Rightarrow> (case acc_spec_run m' ops of (m'', es) \<Rightarrow> (m'', e # es)))"

fun acc_op_ok :: "acc_op \<Rightarrow> bool" where
  "acc_op_ok (OAdd a) = account_ok a"
| "acc_op_ok (OUpdate a) = account_ok a"
| "acc_op_ok (ONonce ad n) = (ad \<noteq> [])"
| "acc_op_ok (OBalance ad symb v) = (ad \<noteq> [] \<and> ascii symb)"
| "acc_op_ok (OName ad nm) = (ad \<noteq> [] \<and> ascii nm)"

definition acc_repr :: "(bytes \<rightharpoonup> bytes) \<Rightarrow> acc_book \<Rightarrow> bool" where
  "acc_repr d m \<longleftrightarrow> d = enc_map acc_bytes m \<and> (\<forall>ad a. m ad = Some a \<longrightarrow> account_ok a \<and> ac_Addr a = ad)"

lemma put_balance_ok:
  assumes "account_ok a" "ascii symb" "put_balance a symb v = Inr a'"
  shows "account_ok a'" "ac_Addr a' = ac_Addr a"
proof -
  obtain m where m: "ac_Balances a = Some m" "a' = a\<lparr>ac_Balances := Some (gm_set symb (Some v) m)\<rparr>"
    using assms(3) by (auto simp: put_balance_def set_balance_def split: option.splits)
  then have "sorted_keys m" "\<forall>(k, v) \<in> set m. ascii k" using assms(1) by (auto simp: account_ok_def)
  then have "\<forall>(k, v) \<in> set (gm_set symb (Some v) m). ascii k" using assms(2) by (fastforce simp: gm_set_mem)
  then show "account_ok a'" using assms(1) m \<open>sorted_keys m\<close> by (simp add: account_ok_def gm_set_sorted)
  show "ac_Addr a' = ac_Addr a" by (simp add: m)
qed

context bytes_store
begin

lemma GetAccount_repr:
  assumes "ok s StateStore_Name_Account" "acc_repr (data s StateStore_Name_Account) m" "ad \<noteq> []"
  shows "GetAccount S s ad = (case m ad of None \<Rightarrow> Inl ErrJson | Some a \<Rightarrow> Inr a)"
    "IsAccountExist S s ad = (m ad \<noteq> None)"
  using assms
  by (auto simp: GetAccount_def IsAccountExist_def GetStateData Exists acc_repr_def addr_Bytes_def un_account_nil
      acc_bytes_ok split: option.splits)

lemma UpdateAccount_repr:
  assumes "ok s StateStore_Name_Account" "acc_repr (data s StateStore_Name_Account) m" "account_ok a"
  shows "\<exists>s'. UpdateAccount S s a = (s', None) \<and> changes s StateStore_Name_Account s' \<and>
    acc_repr (data s' StateStore_Name_Account) (m(ac_Addr a \<mapsto> a))"
proof -
  have k: "addr_Bytes (ac_Addr a) \<noteq> []" using assms(3) by (simp add: addr_Bytes_def account_ok_def)
  obtain s' where s': "SS_Update S s StateStore_Name_Account (addr_Bytes (ac_Addr a)) (Some (acc_bytes a)) = (s', None)"
    "changes s StateStore_Name_Account s'"
    "data s' StateStore_Name_Account = (data s StateStore_Name_Account)(addr_Bytes (ac_Addr a) \<mapsto> acc_bytes a)"
    by (rule updateE [OF assms(1) k])
  moreover have "UpdateAccount S s a = (s', None)"
    using s'(1) by (simp add: UpdateAccount_def acc_bytes_ok [OF assms(3)])
  ultimately show ?thesis using assms(2,3) by (auto simp: acc_repr_def addr_Bytes_def enc_map_upd)
qed

lemma AddAccount_repr:
  assumes "ok s StateStore_Name_Account" "acc_repr (data s StateStore_Name_Account) m" "account_ok a" "m (ac_Addr a) = None"
  shows "\<exists>s'. AddAccount S s a = (s', None) \<and> changes s StateStore_Name_Account s' \<and>
    acc_repr (data s' StateStore_Name_Account) (m(ac_Addr a \<mapsto> a))"
proof -
  have k: "addr_Bytes (ac_Addr a) \<noteq> []" "ac_Addr a \<noteq> []" using assms(3) by (simp_all add: addr_Bytes_def account_ok_def)
  obtain s' where s': "SS_Put S s StateStore_Name_Account (addr_Bytes (ac_Addr a)) (Some (acc_bytes a)) = (s', None)"
    "changes s StateStore_Name_Account s'"
    "data s' StateStore_Name_Account = (data s StateStore_Name_Account)(addr_Bytes (ac_Addr a) \<mapsto> acc_bytes a)"
    by (rule writeE [OF assms(1) k(1)])
  moreover have "AddAccount S s a = (s', None)"
    using s'(1) GetAccount_repr(2) [OF assms(1,2) k(2)] assms(4) by (simp add: AddAccount_def acc_bytes_ok [OF assms(3)])
  ultimately show ?thesis using assms(2,3) by (auto simp: acc_repr_def addr_Bytes_def enc_map_upd)
qed

text \<open>An update of one account: look it up, change it, store it.\<close>

lemma change_repr:
  assumes "ok s StateStore_Name_Account" "acc_repr (data s StateStore_Name_Account) m" "ad \<noteq> []"
    and f: "\<And>a a'. account_ok a \<Longrightarrow> f a = Inr a' \<Longrightarrow> account_ok a' \<and> ac_Addr a' = ac_Addr a"
  shows "\<exists>s' m' e. (case GetAccount S s ad of
      Inl err \<Rightarrow> (s, Some err)
    | Inr acc \<Rightarrow> (case f acc of Inl err \<Rightarrow> (s, Some err) | Inr acc' \<Rightarrow> UpdateAccount S s acc')) = (s', e) \<and>
    change m ad f = (m', e) \<and> changes s StateStore_Name_Account s' \<and> acc_repr (data s' StateStore_Name_Account) m'"
proof (cases "m ad")
  case None
  then show ?thesis using GetAccount_repr(1) [OF assms(1-3)] assms(2) changes_refl by (auto simp: change_def)
next
  case (Some a)
  then have a: "account_ok a" "ac_Addr a = ad" using assms(2) by (auto simp: acc_repr_def)
  show ?thesis
  proof (cases "f a")
    case (Inl e)
    then show ?thesis using GetAccount_repr(1) [OF assms(1-3)] Some assms(2) changes_refl by (auto simp: change_def)
  next
    case (Inr a')
    with f [OF a(1)] a have a': "account_ok a'" "ac_Addr a' = ad" by auto
    from UpdateAccount_repr [OF assms(1,2) a'(1)] Some Inr a'(2) show ?thesis
      using GetAccount_repr(1) [OF assms(1-3)] by (auto simp: change_def)
  qed
qed

lemma acc_do_repr:
  assumes "ok s StateStore_Name_Account" "acc_repr (data s StateStore_Name_Account) m" "acc_op_ok op"
  shows "\<exists>s' m' e. acc_do S s op = (s', e) \<and> acc_spec m op = (m', e) \<and> changes s StateStore_Name_Account s' \<and>
    acc_repr (data s' StateStore_Name_Account) m'"
proof (cases op)
  case (OAdd a)
  then have a: "account_ok a" "ac_Addr a \<noteq> []" using assms(3) by (simp_all add: account_ok_def)
  show ?thesis
  proof (cases "m (ac_Addr a)")
    case None
    from AddAccount_repr [OF assms(1,2) a(1) None] None OAdd show ?thesis by auto
  next
    case (Some x)
    with GetAccount_repr(2) [OF assms(1,2) a(2)] OAdd assms(2) changes_refl show ?thesis by (auto simp: AddAccount_def)
  qed
next
  case (OUpdate a)
  with UpdateAccount_repr [OF assms(1,2)] assms(3) show ?thesis by auto
next
  case (ONonce ad n)
  have "account_ok a' \<and> ac_Addr a' = ac_Addr a" if "account_ok a" "Inr (a\<lparr>ac_Nonce := n\<rparr>) = (Inr a' :: error + Account)" for a a'
    using that by (auto simp: account_ok_def)
  from change_repr [where ad = ad and f = "\<lambda>a. Inr (a\<lparr>ac_Nonce := n\<rparr>)", OF assms(1,2) _ this] ONonce assms(3)
  show ?thesis by (auto simp: UpdateNonce_def split: sum.splits)
next
  case (OBalance ad symb v)
  have "account_ok a' \<and> ac_Addr a' = ac_Addr a" if "account_ok a" "put_balance a symb v = Inr a'" for a a'
    using put_balance_ok [OF that(1) _ that(2)] OBalance assms(3) by simp
  from change_repr [where ad = ad and f = "\<lambda>a. put_balance a symb v", OF assms(1,2) _ this] OBalance assms(3)
  show ?thesis by (auto simp: UpdateBalance_def)
next
  case (OName ad nm)
  have "account_ok a' \<and> ac_Addr a' = ac_Addr a" if "account_ok a" "Inr (a\<lparr>ac_Name := nm\<rparr>) = (Inr a' :: error + Account)" for a a'
    using that OName assms(3) by (auto simp: account_ok_def)
  from change_repr [where ad = ad and f = "\<lambda>a. Inr (a\<lparr>ac_Name := nm\<rparr>)", OF assms(1,2) _ this] OName assms(3)
  show ?thesis by (auto simp: UpdateName_def split: sum.splits)
qed

lemma acc_run_repr:
  assumes "ok s StateStore_Name_Account" "acc_repr (data s StateStore_Name_Account) m" "list_all acc_op_ok ops"
  shows "\<exists>s' m' es. acc_run S s ops = (s', es) \<and> acc_spec_run m ops = (m', es) \<and> changes s StateStore_Name_Account s' \<and>
    acc_repr (data s' StateStore_Name_Account) m'"
  using assms
proof (induction ops arbitrary: s m)
  case Nil
  then show ?case using changes_refl by auto
next
  case (Cons op ops)
  obtain s1 m1 e where 1: "acc_do S s op = (s1, e)" "acc_spec m op = (m1, e)" "changes s StateStore_Name_Account s1"
    "acc_repr (data s1 StateStore_Name_Account) m1"
    using acc_do_repr [OF Cons(2,3), of op] Cons(4) by auto
  have "ok s1 StateStore_Name_Account" using changes_ok [OF 1(3)] Cons(2) by simp
  from Cons(1) [OF this 1(4)] Cons(4) 1 show ?case by (auto intro: changes_trans)
qed

lemma unmarshal_accounts_map: "list_all account_ok as \<Longrightarrow> unmarshal_accounts (map acc_bytes as) = Inr as"
  by (induction as) (simp_all add: acc_bytes_ok)

lemma GetAllAccounts_repr:
  assumes "ok s StateStore_Name_Account" "acc_repr (data s StateStore_Name_Account) m"
  shows "\<exists>accs. GetAllAccounts S s = Inr accs \<and> set accs = ran m \<and> distinct accs"
proof -
  obtain xs where xs: "SS_GetAllStateData S s StateStore_Name_Account = Inr (map fst xs, map snd xs)" "sorted_keys xs"
    "\<forall>k v. (k, v) \<in> set xs \<longleftrightarrow> data s StateStore_Name_Account k = Some v"
    using GetAllStateData [OF assms(1)] by blast
  define accs where "accs = map (\<lambda>(k, v). the (m (bytes_str k))) xs"
  have x: "\<exists>a. m (bytes_str k) = Some a \<and> v = acc_bytes a \<and> account_ok a \<and> ac_Addr a = bytes_str k" if "(k, v) \<in> set xs" for k v
    using that xs(3) assms(2) by (auto simp: acc_repr_def enc_map_def)
  have "map snd xs = map acc_bytes accs" using x by (force simp: accs_def)
  moreover have "list_all account_ok accs" using x by (force simp: accs_def list_all_iff)
  moreover have "length accs = length xs" by (simp add: accs_def)
  ultimately have "GetAllAccounts S s = Inr accs" by (simp add: GetAllAccounts_def xs(1) unmarshal_accounts_map)
  moreover have "set accs = ran m"
  proof -
    have "a \<in> set accs" if "m ad = Some a" for ad a
    proof -
      have "(str_bytes ad, acc_bytes a) \<in> set xs" using that xs(3) assms(2) by (simp add: acc_repr_def)
      then show ?thesis using that by (force simp: accs_def)
    qed
    moreover have "a \<in> ran m" if "a \<in> set accs" for a using that x by (force simp: accs_def ran_def)
    ultimately show ?thesis by (auto simp: ran_def)
  qed
  moreover have "distinct accs"
  proof -
    have "map (str_bytes \<circ> ac_Addr) accs = map fst xs" using x by (force simp: accs_def)
    then show ?thesis using sorted_keys_distinct [OF xs(2)] by (metis distinct_map)
  qed
  ultimately show ?thesis by blast
qed

end

text \<open>A store whose lookups answer as a book does.\<close>

definition acc_answers :: "('s, bytes) ss_ops \<Rightarrow> 's \<Rightarrow> acc_book \<Rightarrow> bool" where
  "acc_answers S s book \<longleftrightarrow>
    (\<forall>ad. ad \<noteq> [] \<longrightarrow> GetAccount S s ad = (case book ad of None \<Rightarrow> Inl ErrJson | Some a \<Rightarrow> Inr a) \<and>
      IsAccountExist S s ad = (book ad \<noteq> None) \<and>
      (\<forall>a. book ad = Some a \<longrightarrow> GetNonce S s ad = Inr (ac_Nonce a) \<and>
        (\<forall>symb v. balance a symb = Some v \<longrightarrow> GetBalance S s ad symb = Inr v))) \<and>
    (\<exists>accs. GetAllAccounts S s = Inr accs \<and> set accs = ran book \<and> distinct accs)"

context bytes_store
begin

lemma acc_answers_repr:
  assumes "ok s StateStore_Name_Account" "acc_repr (data s StateStore_Name_Account) book"
  shows "acc_answers S s book"
proof -
  have g: "GetAccount S s ad = (case book ad of None \<Rightarrow> Inl ErrJson | Some a \<Rightarrow> Inr a)"
    "IsAccountExist S s ad = (book ad \<noteq> None)" if "ad \<noteq> []" for ad
    using GetAccount_repr [of s book ad] assms that by simp_all
  have all: "\<exists>accs. GetAllAccounts S s = Inr accs \<and> set accs = ran book \<and> distinct accs"
    using GetAllAccounts_repr [of s book] assms by simp
  show ?thesis
    unfolding acc_answers_def using all by (simp add: g GetNonce_def GetBalance_def)
qed

end

text \<open>
  (C14) The account state refines a book of accounts: any sequence of additions and
  updates on an empty store returns, call by call, the errors of the book (adding an
  account twice, updating one that is not there), and afterwards the lookups, nonces,
  balances and the list of all accounts are those of the book.
\<close>

theorem accounts_refine:
  fixes B :: "('t, bytes) btree_ops"
  assumes "ledger_libs B M" "ledger_ok B s StateStore_Name_Account \<and> ledger_data B s StateStore_Name_Account = Map.empty"
    and "list_all acc_op_ok ops" "acc_run (ledger_ops B M) s ops = (s', errs)"
  shows "\<exists>book. acc_spec_run Map.empty ops = (book, errs) \<and> acc_answers (ledger_ops B M) s' book"
proof -
  note l = ledger_bytes_store [OF assms(1)]
  have "acc_repr (ledger_data B s StateStore_Name_Account) Map.empty" using assms(2) by (simp add: acc_repr_def)
  then obtain book where b: "acc_spec_run Map.empty ops = (book, errs)"
    "bytes_store.changes (ledger_data B) (ledger_ok B) s StateStore_Name_Account s'"
    "acc_repr (ledger_data B s' StateStore_Name_Account) book"
    using bytes_store.acc_run_repr [OF l _ _ assms(3), of s Map.empty] assms(2,4) by auto
  have ok: "ledger_ok B s' StateStore_Name_Account" using bytes_store.changes_ok [OF l b(2)] assms(2) by blast
  with b(1,3) show ?thesis using bytes_store.acc_answers_repr [OF l, of s' book] by simp
qed

definition sample_acc_ops :: "acc_op list" where
  "sample_acc_ops = [OAdd (NewDefaultAccount ''t1x''), OBalance ''t1x'' ''TPA'' 100, OAdd (NewDefaultAccount ''t1x''), ONonce ''t1x'' 4,
     OName ''t1y'' ''bob'']"

theorem accounts_refine_witness:
  "case acc_run (ledger_ops rbt_ops sample_bytes_smt) (sample_open [''account'']) sample_acc_ops of (s', errs) \<Rightarrow>
     errs = [None, None, Some (ErrExists ''t1x''), None, Some ErrJson] \<and>
     GetBalance (ledger_ops rbt_ops sample_bytes_smt) s' ''t1x'' ''TPA'' = Inr (Some 100) \<and>
     GetNonce (ledger_ops rbt_ops sample_bytes_smt) s' ''t1x'' = Inr 4"
proof -
  obtain s' errs where r: "acc_run (ledger_ops rbt_ops sample_bytes_smt) (sample_open [''account'']) sample_acc_ops = (s', errs)" by force
  have n: "\<forall>n \<in> set [''account'']. name_ok n" by code_simp
  have ops: "list_all acc_op_ok sample_acc_ops" by code_simp
  have spec: "snd (acc_spec_run Map.empty sample_acc_ops) = [None, None, Some (ErrExists ''t1x''), None, Some ErrJson] \<and>
      map_option (\<lambda>a. (balance a ''TPA'', ac_Nonce a)) (fst (acc_spec_run Map.empty sample_acc_ops) ''t1x'') = Some (Some (Some 100), 4)"
    by code_simp
  have s: "ledger_ok rbt_ops (sample_open [''account'']) ''account'' \<and> ledger_data rbt_ops (sample_open [''account'']) ''account'' = Map.empty"
    using sample_open_ok [OF n] by simp
  obtain book where b: "acc_spec_run Map.empty sample_acc_ops = (book, errs)" and g: "acc_answers (ledger_ops rbt_ops sample_bytes_smt) s' book"
    using accounts_refine [OF sample_libs s ops r] by (elim exE conjE)
  from spec b obtain a where a: "errs = [None, None, Some (ErrExists ''t1x''), None, Some ErrJson]" "book ''t1x'' = Some a"
    "balance a ''TPA'' = Some (Some 100)" "ac_Nonce a = 4" by auto
  with g have "GetNonce (ledger_ops rbt_ops sample_bytes_smt) s' ''t1x'' = Inr 4"
    "GetBalance (ledger_ops rbt_ops sample_bytes_smt) s' ''t1x'' ''TPA'' = Inr (Some 100)"
    unfolding acc_answers_def by auto
  with a r show ?thesis by simp
qed

end
