(* ===== verification/Proto_Wire.thy ===== *)
theory Proto_Wire
  imports Topia_Prelude
begin

text \<open>
  The protobuf wire format, as the generated code of the repository writes and reads
  it (the \<open>Marshal\<close>, \<open>Size\<close> and \<open>Unmarshal\<close> methods of the \<open>.pb.go\<close> files, which are
  instances of the same templates): varints, tags, length-delimited fields, repeated
  byte strings and sub-messages. A message type is the list of the kinds of its
  fields, numbered from 1; a message is the list of their values and the bytes of the
  fields that the type does not know.

  The main lemmas are \<open>length_enc\<close>, that \<open>Size\<close> is the length of the encoding, and
  \<open>pb_dec_enc\<close>, that decoding the encoding of a message gives the message.
\<close>

unbundle bit_operations_syntax

section \<open>Varints\<close>

lemma unat_drop7: "unat (drop_bit 7 (x :: u64)) = unat x div 128"
  by (simp add: drop_bit_eq_div unat_div)

function encodeVarint :: "u64 \<Rightarrow> bytes" where
  "encodeVarint v = (if v \<ge> 128 then ucast (v AND 0x7f OR 0x80) # encodeVarint (drop_bit 7 v) else [ucast v])"
  by pat_completeness auto
termination
proof (relation "measure unat")
  fix v :: u64 assume "v \<ge> 128"
  then have "unat v \<ge> 128" by (simp add: word_le_nat_alt)
  then show "(drop_bit 7 v, v) \<in> measure unat"
    by (simp add: unat_drop7)
qed simp

declare encodeVarint.simps [simp del]

text \<open>The number of bytes of a varint, \<open>(bits.Len64(x | 1) + 6) / 7\<close>.\<close>

definition top_bit :: "(nat \<Rightarrow> bool) \<Rightarrow> nat \<Rightarrow> nat" where
  "top_bit f n = length (dropWhile Not (map f (rev [0..<n])))"

definition bits_Len64 :: "u64 \<Rightarrow> nat" where
  "bits_Len64 x = top_bit (bit x) 64"

definition sov :: "u64 \<Rightarrow> nat" where
  "sov x = (bits_Len64 (x OR 1) + 6) div 7"

fun dec_varint :: "nat \<Rightarrow> u64 \<Rightarrow> bytes \<Rightarrow> error + (u64 \<times> bytes)" where
  "dec_varint sh acc [] = Inl ErrProto"
| "dec_varint sh acc (b # bs) = (if sh \<ge> 64 then Inl ErrProto
     else let acc' = acc OR push_bit sh (ucast (b AND 0x7F))
          in if b < 0x80 then Inr (acc', bs) else dec_varint (sh + 7) acc' bs)"

lemma dec_varint_shorter: "dec_varint sh acc bs = Inr (w, r) \<Longrightarrow> length r < length bs"
  by (induction sh acc bs rule: dec_varint.induct) (auto simp: Let_def split: if_splits)

lemma bit_127: "bit (127 :: int) k \<longleftrightarrow> k < 7"
proof -
  have "(127 :: int) = mask 7" by (simp add: mask_eq_exp_minus_1)
  then show ?thesis by (simp only: bit_mask_iff) simp
qed

lemma bit_128: "bit (128 :: int) k \<longleftrightarrow> k = 7"
proof -
  have "(128 :: int) = 2 ^ 7" by simp
  then show ?thesis by (simp only: bit_exp_iff) auto
qed

lemma push_bit_split: "push_bit sh (w AND 127) OR push_bit (sh + 7) (drop_bit 7 w) = push_bit sh (w :: u64)"
proof (rule bit_word_eqI)
  fix n assume "n < LENGTH(64)"
  then show "bit (push_bit sh (w AND 127) OR push_bit (sh + 7) (drop_bit 7 w)) n \<longleftrightarrow> bit (push_bit sh w) n"
    by (cases "sh + 7 \<le> n") (auto simp: bit_simps bit_127)
qed

lemma bit_7_ge: "bit (c :: byte) 7 \<Longrightarrow> \<not> c < 0x80"
proof
  assume b: "bit c 7" and "c < 0x80"
  then have "\<not> bit (unat c) 7" by (simp add: word_less_nat_alt bit_iff_odd)
  with b show False by (simp add: bit_unsigned_iff)
qed

lemma first_byte:
  fixes w :: u64
  defines "b \<equiv> ucast (w AND 0x7f OR 0x80) :: byte"
  shows "\<not> b < 0x80" "ucast (b AND 0x7F) = w AND 127"
proof -
  show "\<not> b < 0x80" by (rule bit_7_ge) (simp add: b_def bit_simps bit_127 bit_128)
  show "ucast (b AND 0x7F) = w AND 127"
    by (rule bit_word_eqI) (auto simp: b_def bit_simps bit_127 bit_128)
qed

lemma last_byte:
  fixes w :: u64
  assumes "w < 128"
  shows "(ucast w :: byte) < 0x80" "ucast ((ucast w :: byte) AND 0x7F) = w"
proof -
  have u: "unat w < 128" using assms by (simp add: word_less_nat_alt)
  then show "(ucast w :: byte) < 0x80" by (simp add: word_less_nat_alt unsigned_ucast_eq take_bit_eq_mod)
  have "n < 7" if "bit w n" for n
  proof (rule ccontr)
    assume "\<not> n < 7"
    then have that': "7 \<le> n" by simp
    have "(2 :: nat) ^ 7 \<le> 2 ^ n" using that' by (intro power_increasing) simp_all
    then have "\<not> bit (unat w) n" using u by (simp add: bit_iff_odd)
    then show False using that by (simp add: bit_unsigned_iff)
  qed
  then show "ucast ((ucast w :: byte) AND 0x7F) = w"
    by (intro bit_word_eqI) (fastforce simp: bit_simps bit_127)
qed

lemma dec_encodeVarint_gen:
  "sh < 64 \<Longrightarrow> unat w < 2 ^ (64 - sh) \<Longrightarrow> dec_varint sh acc (encodeVarint w @ r) = Inr (acc OR push_bit sh w, r)"
proof (induction w arbitrary: sh acc rule: encodeVarint.induct)
  case (1 w)
  show ?case
  proof (cases "w \<ge> 128")
    case True
    then have ge: "unat w \<ge> 128" by (simp add: word_le_nat_alt)
    then have "(2 :: nat) ^ 7 < 2 ^ (64 - sh)" using 1(3) by simp
    then have "7 < 64 - sh" using power_less_imp_less_exp [of "2 :: nat" 7 "64 - sh"] by linarith
    then have sh: "sh + 7 < 64" by simp
    have "64 - sh = (64 - (sh + 7)) + 7" using sh by simp
    then have "(2 :: nat) ^ (64 - sh) = 2 ^ (64 - (sh + 7)) * 2 ^ 7" by (metis power_add)
    then have "unat w < 2 ^ (64 - (sh + 7)) * 128" using 1(3) by simp
    then have "unat (drop_bit 7 w) < 2 ^ (64 - (sh + 7))"
      by (simp add: unat_drop7 less_mult_imp_div_less)
    from "1.IH" [OF True sh this] True first_byte [of w] 1(2) show ?thesis
      by (subst encodeVarint.simps) (simp add: Let_def push_bit_split or.assoc del: push_bit_and)
  next
    case False
    then show ?thesis using last_byte [of w] 1(2)
      by (subst encodeVarint.simps) (simp add: Let_def)
  qed
qed

lemma dec_encodeVarint: "dec_varint 0 0 (encodeVarint w @ r) = Inr (w, r)"
  using dec_encodeVarint_gen [of 0 w 0 r] unsigned_less [of w] by simp

lemma encodeVarint_neq_Nil [simp]: "encodeVarint w \<noteq> []"
  by (subst encodeVarint.simps) simp

text \<open>The number of bytes.\<close>

lemma top_bit: "top_bit f n = (if \<exists>k < n. f k then Suc (Max {k. k < n \<and> f k}) else 0)"
proof (induction n)
  case (Suc n)
  show ?case
  proof (cases "f n")
    case True
    then have "Max {k. k < Suc n \<and> f k} = n" by (intro Max_eqI) auto
    with True show ?thesis by (auto simp: top_bit_def)
  next
    case False
    then have "{k. k < Suc n \<and> f k} = {k. k < n \<and> f k}" "(\<exists>k < Suc n. f k) \<longleftrightarrow> (\<exists>k < n. f k)"
      using less_Suc_eq by auto
    with False Suc show ?thesis by (simp add: top_bit_def)
  qed
qed (simp add: top_bit_def)

lemma bits_Len64_drop: "bits_Len64 x > 7 \<Longrightarrow> bits_Len64 (drop_bit 7 x) = bits_Len64 x - 7"
proof -
  assume len: "bits_Len64 x > 7"
  let ?S = "{k. k < 64 \<and> bit x k}" and ?T = "{k. k < 64 \<and> bit (drop_bit 7 x) k}"
  have lenx: "bits_Len64 x = Suc (Max ?S)" "?S \<noteq> {}"
    using len top_bit [of "bit x" 64] unfolding bits_Len64_def by (auto split: if_splits)
  have ge: "Max ?S \<ge> 7" "Max ?S \<in> ?S" using len lenx Max_in [of ?S] by auto
  have "Max ?T = Max ?S - 7"
  proof (rule Max_eqI)
    fix k assume "k \<in> ?T"
    then have "k + 7 \<in> ?S" by (auto simp: bit_drop_bit_eq add.commute dest: bit_imp_le_length)
    then have "k + 7 \<le> Max ?S" by (intro Max_ge) auto
    then show "k \<le> Max ?S - 7" by simp
  qed (use ge in \<open>auto simp: bit_drop_bit_eq\<close>)
  moreover have "Max ?S - 7 \<in> ?T" using ge by (auto simp: bit_drop_bit_eq)
  ultimately show ?thesis
    using top_bit [of "bit (drop_bit 7 x)" 64] lenx(1) ge(1) unfolding bits_Len64_def by auto
qed

lemma bits_Len64_small: "x < 128 \<Longrightarrow> bits_Len64 x \<le> 7"
proof -
  assume "x < 128"
  then have "unat x < 128" by (simp add: word_less_nat_alt)
  then have "\<not> bit (unat x) k" if "k \<ge> 7" for k
    using power_increasing [of 7 k "2 :: nat"] that by (simp add: bit_iff_odd)
  then have "k < 7" if "bit x k" for k using that by (metis bit_unsigned_iff not_less semiring_bit_operations_class.bit_push_bit_iff possible_bit_nat)
  then show ?thesis using Max_in [of "{k. k < 64 \<and> bit x k}"] top_bit [of "bit x" 64]
    unfolding bits_Len64_def by (fastforce split: if_splits)
qed

lemma bits_Len64_big: "x \<ge> 128 \<Longrightarrow> bits_Len64 x > 7"
proof -
  assume "x \<ge> 128"
  then have "unat x \<ge> 128" by (simp add: word_le_nat_alt)
  then have "unat (drop_bit 7 x) \<noteq> 0" by (simp add: unat_drop7)
  then have "drop_bit 7 x \<noteq> 0" by auto
  then obtain k where "bit (drop_bit 7 x) k" by (metis bit_word_eqI bit_0_eq bot_apply bot_bool_def)
  then have "bit x (k + 7)" "k + 7 < 64" by (auto simp: bit_drop_bit_eq add.commute dest: bit_imp_le_length)
  then have "\<exists>k < 64. bit x k" "k + 7 \<le> Max {k. k < 64 \<and> bit x k}" by (blast, intro Max_ge) auto
  then show ?thesis using top_bit [of "bit x" 64] unfolding bits_Len64_def by simp
qed

lemma drop_or_1: "drop_bit 7 (x OR 1) = drop_bit 7 (x :: u64)"
  by (rule bit_word_eqI) (auto simp: bit_simps)

lemma or_1_bounds: "(x :: u64) \<ge> 128 \<longleftrightarrow> x OR 1 \<ge> 128"
proof -
  have "y \<ge> 128 \<longleftrightarrow> drop_bit 7 y \<noteq> 0" for y :: u64
  proof -
    have "y \<ge> 128 \<longleftrightarrow> unat (drop_bit 7 y) \<noteq> 0"
      by (simp add: unat_drop7 word_le_nat_alt div_eq_0_iff not_less)
    then show ?thesis by (metis unat_eq_zero)
  qed
  from this [of x] this [of "x OR 1"] drop_or_1 [of x] show ?thesis by simp
qed

lemma bits_Len64_or_1: "y \<noteq> 0 \<Longrightarrow> bits_Len64 (y OR 1) = bits_Len64 y"
proof -
  assume "y \<noteq> 0"
  then obtain k where k: "bit y k" by (metis bit_word_eqI bit_0_eq bot_apply bot_bool_def)
  then have k64: "k < 64" by (auto dest: bit_imp_le_length)
  have max: "Max {k. k < 64 \<and> bit (y OR 1) k} = Max {k. k < 64 \<and> bit y k}"
  proof (rule Max_eqI)
    have "Max {k. k < 64 \<and> bit y k} \<in> {k. k < 64 \<and> bit y k}" using k k64 by (intro Max_in) auto
    then show "Max {k. k < 64 \<and> bit y k} \<in> {k. k < 64 \<and> bit (y OR 1) k}" by (auto simp: bit_simps)
    fix n assume "n \<in> {k. k < 64 \<and> bit (y OR 1) k}"
    then show "n \<le> Max {k. k < 64 \<and> bit y k}" by (cases n) (auto simp: bit_simps intro!: Max_ge)
  qed simp
  have "\<exists>k < 64. bit y k" "\<exists>k < 64. bit (y OR 1) k" using k k64 by (auto simp: bit_simps)
  then show ?thesis using top_bit [of "bit y" 64] top_bit [of "bit (y OR 1)" 64] max
    unfolding bits_Len64_def by simp
qed

lemma length_encodeVarint_Len: "length (encodeVarint x) = (bits_Len64 (x OR 1) + 6) div 7"
proof (induction x rule: encodeVarint.induct)
  case (1 x)
  show ?case
  proof (cases "x \<ge> 128")
    case True
    then have big: "bits_Len64 (x OR 1) > 7" using bits_Len64_big or_1_bounds by blast
    have "bits_Len64 (drop_bit 7 x) = bits_Len64 (x OR 1) - 7"
      using bits_Len64_drop [OF big] drop_or_1 by simp
    moreover have "drop_bit 7 x \<noteq> 0" using big calculation(1) 
      by (metis bits_Len64_def bit_0_eq bot_apply bot_bool_def top_bit zero_less_diff not_less_zero)
    ultimately have "length (encodeVarint (drop_bit 7 x)) = (bits_Len64 (x OR 1) - 7 + 6) div 7"
      using "1.IH" [OF True] bits_Len64_or_1 by simp
    with True big show ?thesis by (subst encodeVarint.simps) simp
  next
    case False
    then have "bits_Len64 (x OR 1) \<le> 7" using bits_Len64_small or_1_bounds by (meson not_le)
    moreover have "bits_Len64 (x OR 1) > 0"
      using top_bit [of "bit (x OR 1)" 64] unfolding bits_Len64_def by (auto simp: bit_simps intro!: exI [of _ 0])
    ultimately show ?thesis using False by (subst encodeVarint.simps) simp
  qed
qed

lemma length_encodeVarint: "length (encodeVarint x) = sov x"
  by (simp add: length_encodeVarint_Len sov_def)

section \<open>Messages\<close>

datatype pkind = KU64 | KU32 | KEnum | KBytes | KRep | KMsg "pkind list"

datatype pval = PNum u64 | PBytes bytes | PRep "bytes list" | PMsg "pmsg option"
  and pmsg = Msg (vals: "pval list") (unrecognized: bytes)

fun zero_val :: "pkind \<Rightarrow> pval" where
  "zero_val KBytes = PBytes []"
| "zero_val KRep = PRep []"
| "zero_val (KMsg sch) = PMsg None"
| "zero_val k = PNum 0"

definition zero_msg :: "pkind list \<Rightarrow> pmsg" where
  "zero_msg sch = Msg (map zero_val sch) []"

section \<open>Writing\<close>

text \<open>
  The buffer is filled from its end, the unknown fields first and then the fields in
  descending order; the result has them in ascending order. A zero number, an empty
  byte string and a missing sub-message are not written.
\<close>

definition enc_tag :: "nat \<Rightarrow> nat \<Rightarrow> bytes" where
  "enc_tag n wt = encodeVarint (word_of_nat (8 * n + wt))"

definition enc_bytes :: "nat \<Rightarrow> bytes \<Rightarrow> bytes" where
  "enc_bytes n bs = enc_tag n 2 @ encodeVarint (word_of_nat (length bs)) @ bs"

fun enc_val :: "nat \<Rightarrow> pval \<Rightarrow> bytes" and enc_vals :: "nat \<Rightarrow> pval list \<Rightarrow> bytes" and enc_msg :: "pmsg \<Rightarrow> bytes" where
  "enc_val n (PNum w) = (if w = 0 then [] else enc_tag n 0 @ encodeVarint w)"
| "enc_val n (PBytes bs) = (if bs = [] then [] else enc_bytes n bs)"
| "enc_val n (PRep bss) = concat (map (enc_bytes n) bss)"
| "enc_val n (PMsg None) = []"
| "enc_val n (PMsg (Some m)) = enc_bytes n (enc_msg m)"
| "enc_vals n [] = []"
| "enc_vals n (v # vs) = enc_val n v @ enc_vals (Suc n) vs"
| "enc_msg (Msg vs u) = enc_vals 1 vs @ u"

text \<open>\<open>Size\<close> counts the bytes before they are written; the buffer is allocated with it.\<close>

definition size_bytes :: "nat \<Rightarrow> nat \<Rightarrow> nat" where
  "size_bytes n l = sov (word_of_nat (8 * n + 2)) + l + sov (word_of_nat l)"

fun size_val :: "nat \<Rightarrow> pval \<Rightarrow> nat" and size_vals :: "nat \<Rightarrow> pval list \<Rightarrow> nat" and size_msg :: "pmsg \<Rightarrow> nat" where
  "size_val n (PNum w) = (if w \<noteq> 0 then sov (word_of_nat (8 * n)) + sov w else 0)"
| "size_val n (PBytes bs) = (if length bs > 0 then size_bytes n (length bs) else 0)"
| "size_val n (PRep bss) = sum_list (map (\<lambda>b. size_bytes n (length b)) bss)"
| "size_val n (PMsg None) = 0"
| "size_val n (PMsg (Some m)) = size_bytes n (size_msg m)"
| "size_vals n [] = 0"
| "size_vals n (v # vs) = size_val n v + size_vals (Suc n) vs"
| "size_msg (Msg vs u) = size_vals 1 vs + length u"

lemma length_enc_bytes: "length (enc_bytes n bs) = size_bytes n (length bs)"
  by (simp add: enc_bytes_def size_bytes_def enc_tag_def length_encodeVarint)

lemma length_enc:
  "length (enc_val n v) = size_val n v"
  "length (enc_vals n vs) = size_vals n vs"
  "length (enc_msg m) = size_msg m"
proof (induction n v and n vs and m rule: enc_val_enc_vals_enc_msg.induct)
  case (3 n bss)
  then show ?case by (induction bss) (simp_all add: length_enc_bytes)
qed (simp_all add: length_enc_bytes enc_tag_def length_encodeVarint)

section \<open>Reading\<close>

text \<open>
  A length is read as an \<open>int\<close>; a negative one is an error, as is one beyond the end.
  \<open>skip\<close> returns the number of bytes of the field at the start of its argument, which
  may exceed the bytes that are left.
\<close>

definition dec_length :: "bytes \<Rightarrow> error + (nat \<times> bytes)" where
  "dec_length bs = (case dec_varint 0 0 bs of
     Inl err \<Rightarrow> Inl err
   | Inr (w, r) \<Rightarrow> if sint w < 0 then Inl ErrProto else Inr (unat w, r))"

definition skip_field :: "bytes \<Rightarrow> nat \<Rightarrow> nat \<Rightarrow> error + (nat \<times> nat)" where
  "skip_field dAtA iNdEx depth = (case dec_varint 0 0 (drop iNdEx dAtA) of
     Inl err \<Rightarrow> Inl err
   | Inr (wire, r) \<Rightarrow>
       let i = length dAtA - length r; wireType = unat (wire AND 7) in
       if wireType = 0 then (case dec_varint 0 0 r of
            Inl err \<Rightarrow> Inl err | Inr (w, r') \<Rightarrow> Inr (length dAtA - length r', depth))
       else if wireType = 1 then Inr (i + 8, depth)
       else if wireType = 2 then (case dec_length r of
            Inl err \<Rightarrow> Inl err
          | Inr (len, r') \<Rightarrow>
              let j = length dAtA - length r' + len in if j \<ge> 2 ^ 63 then Inl ErrProto else Inr (j, depth))
       else if wireType = 3 then Inr (i, Suc depth)
       else if wireType = 4 then (if depth = 0 then Inl ErrProto else Inr (i, depth - 1))
       else if wireType = 5 then Inr (i + 4, depth)
       else Inl ErrProto)"

lemma skip_field_advances: "skip_field dAtA i depth = Inr (j, depth') \<Longrightarrow> i < j"
  by (auto simp: skip_field_def dec_length_def Let_def split: sum.splits prod.splits if_splits
      dest!: dec_varint_shorter)

function skip_loop :: "bytes \<Rightarrow> nat \<Rightarrow> nat \<Rightarrow> error + nat" where
  "skip_loop dAtA iNdEx depth = (if iNdEx < length dAtA then
     (case skip_field dAtA iNdEx depth of
        Inl err \<Rightarrow> Inl err
      | Inr (j, depth') \<Rightarrow> if depth' = 0 then Inr j else skip_loop dAtA j depth')
     else Inl ErrProto)"
  by pat_completeness auto
termination
  by (relation "measure (\<lambda>(dAtA, i, d). length dAtA - i)") (auto dest: skip_field_advances)

declare skip_loop.simps [simp del]

definition skip :: "bytes \<Rightarrow> error + nat" where
  "skip dAtA = skip_loop dAtA 0 0"

lemma skip_pos: "skip dAtA = Inr n \<Longrightarrow> n > 0"
proof -
  have "skip_loop dAtA i d = Inr n \<Longrightarrow> n > 0" for i d
    by (induction dAtA i d rule: skip_loop.induct)
      (subst (asm) (2) skip_loop.simps, auto split: sum.splits if_splits dest: skip_field_advances)
  then show "skip dAtA = Inr n \<Longrightarrow> n > 0" by (simp add: skip_def)
qed

definition tag_field :: "u64 \<Rightarrow> int" where
  "tag_field wire = sint (ucast (drop_bit 3 wire) :: 32 word)"

definition tag_type :: "u64 \<Rightarrow> nat" where
  "tag_type wire = unat (wire AND 7)"

definition dec_num :: "pkind \<Rightarrow> u64 \<Rightarrow> u64" where
  "dec_num k w = (case k of KU32 \<Rightarrow> ucast (ucast w :: 32 word) | KEnum \<Rightarrow> scast (ucast w :: 32 word) | _ \<Rightarrow> w)"

text \<open>
  One field of the message: the bytes that follow it and the new value. The decoder of
  a sub-message is an argument; it adds to the message that is already there.
\<close>

definition dec_field :: "(pkind list \<Rightarrow> pmsg \<Rightarrow> bytes \<Rightarrow> error + pmsg) \<Rightarrow> pkind \<Rightarrow> pval \<Rightarrow> nat \<Rightarrow> bytes
    \<Rightarrow> error + (pval \<times> bytes)" where
  "dec_field sub k old wireType bs = (if k \<in> {KU64, KU32, KEnum} then
       (if wireType \<noteq> 0 then Inl ErrProto
        else case dec_varint 0 0 bs of Inl err \<Rightarrow> Inl err | Inr (w, r) \<Rightarrow> Inr (PNum (dec_num k w), r))
     else if wireType \<noteq> 2 then Inl ErrProto
     else case dec_length bs of
       Inl err \<Rightarrow> Inl err
     | Inr (len, r) \<Rightarrow>
         if len > length r then Inl ErrProto
         else (case (k, old) of
             (KRep, PRep bss) \<Rightarrow> Inr (PRep (bss @ [take len r]), drop len r)
           | (KMsg sch, PMsg m) \<Rightarrow>
               (case sub sch (case m of None \<Rightarrow> zero_msg sch | Some m' \<Rightarrow> m') (take len r) of
                  Inl err \<Rightarrow> Inl err
                | Inr m' \<Rightarrow> Inr (PMsg (Some m'), drop len r))
           | _ \<Rightarrow> Inr (PBytes (take len r), drop len r)))"

lemma dec_field_cong [fundef_cong]:
  assumes "k = k'" "old = old'" "wt = wt'" "bs = bs'"
    and "\<And>sch m pre. length pre < length bs' \<Longrightarrow> sub sch m pre = sub' sch m pre"
  shows "dec_field sub k old wt bs = dec_field sub' k' old' wt' bs'"
proof -
  have "sub sch m (take len r) = sub' sch m (take len r)" if "dec_length bs' = Inr (len, r)" for sch m len r
    using that by (intro assms(5)) (auto simp: dec_length_def split: sum.splits prod.splits if_splits dest!: dec_varint_shorter)
  then show ?thesis using assms(1-4)
    by (auto simp: dec_field_def split: sum.splits prod.splits pkind.splits pval.splits)
qed

lemma dec_field_shorter: "dec_field sub k old wt bs = Inr (v, r) \<Longrightarrow> length r < length bs"
  by (auto simp: dec_field_def dec_length_def split: sum.splits prod.splits if_splits pkind.splits pval.splits
      dest!: dec_varint_shorter)

function pb_dec :: "pkind list \<Rightarrow> pmsg \<Rightarrow> bytes \<Rightarrow> error + pmsg" where
  "pb_dec sch m dAtA = (if dAtA = [] then Inr m
     else case dec_varint 0 0 dAtA of
       Inl err \<Rightarrow> Inl err
     | Inr (wire, r) \<Rightarrow>
         let fieldNum = tag_field wire; wireType = tag_type wire in
         if wireType = 4 then Inl ErrProto
         else if fieldNum \<le> 0 then Inl ErrProto
         else if nat fieldNum \<le> length sch then
           (let i = nat fieldNum - 1 in
            case dec_field pb_dec (sch ! i) (vals m ! i) wireType r of
              Inl err \<Rightarrow> Inl err
            | Inr (v, r') \<Rightarrow> pb_dec sch (Msg ((vals m)[i := v]) (unrecognized m)) r')
         else
           (case skip dAtA of
              Inl err \<Rightarrow> Inl err
            | Inr n \<Rightarrow> if n > length dAtA then Inl ErrProto
                else pb_dec sch (Msg (vals m) (unrecognized m @ take n dAtA)) (drop n dAtA)))"
  by pat_completeness auto
termination
proof (relation "measure (\<lambda>(sch, m, bs). length bs)", goal_cases)
  case 2
  then show ?case by (auto dest!: dec_varint_shorter)
next
  case 3
  then show ?case by (auto dest!: dec_varint_shorter dec_field_shorter)
next
  case 4
  then show ?case by (auto dest!: skip_pos)
qed simp

declare pb_dec.simps [simp del]

text \<open>\<open>MarshalProto.Unmarshal\<close> resets the message before it decodes.\<close>

definition pb_Unmarshal :: "pkind list \<Rightarrow> bytes \<Rightarrow> error + pmsg" where
  "pb_Unmarshal sch buff = pb_dec sch (zero_msg sch) buff"

section \<open>Round trip\<close>

text \<open>The messages of a type, without unknown fields.\<close>

inductive conf :: "pkind \<Rightarrow> pval \<Rightarrow> bool" where
  u64: "conf KU64 (PNum w)"
| u32: "unat w < 2 ^ 32 \<Longrightarrow> conf KU32 (PNum w)"
| enum: "scast (ucast w :: 32 word) = w \<Longrightarrow> conf KEnum (PNum w)"
| bytes: "conf KBytes (PBytes bs)"
| rep: "conf KRep (PRep bss)"
| absent: "conf (KMsg sch) (PMsg None)"
| present: "list_all2 conf sch vs \<Longrightarrow> conf (KMsg sch) (PMsg (Some (Msg vs [])))"
monos list_all2_mono

lemma conf_num: "conf k (PNum w) \<Longrightarrow> k \<in> {KU64, KU32, KEnum} \<and> dec_num k w = w"
proof (induction k "PNum w" rule: conf.induct)
  case u32
  then have "take_bit 32 w = w" by (simp add: word_unat_eq_iff unsigned_take_bit_eq take_bit_nat_eq_self)
  moreover have "ucast (ucast w :: 32 word) = take_bit 32 w" by (rule bit_word_eqI) (auto simp: bit_simps)
  ultimately show ?case by (simp add: dec_num_def)
qed (simp_all add: dec_num_def)

lemma tag_roundtrip:
  assumes "0 < n" "n < 2 ^ 28" "wt < 8"
  shows "tag_field (word_of_nat (8 * n + wt)) = int n" "tag_type (word_of_nat (8 * n + wt)) = wt"
proof -
  define t where "t = 8 * n + wt"
  have t: "t < 2 ^ 64" "t div 8 = n" "t mod 8 = wt" using assms by (simp_all add: t_def)
  then have u: "unat (word_of_nat t :: u64) = t" by (simp add: unat_of_nat)
  let ?w = "word_of_nat t :: u64"
  have "unat (drop_bit 3 ?w) = n" using t(2) u by (simp add: drop_bit_eq_div unat_div)
  then have "drop_bit 3 ?w = word_of_nat n" by (auto simp flip: \<open>unat (drop_bit 3 ?w) = n\<close>)
  then have "(ucast (drop_bit 3 ?w) :: 32 word) = word_of_nat n"
    using assms(2) by (simp add: unsigned_of_nat take_bit_nat_eq_self)
  then have "tag_field ?w = int n"
    using assms(2) by (simp add: tag_field_def signed_of_nat signed_take_bit_int_eq_self_iff)
  moreover have "?w AND 7 = take_bit 3 ?w" by (simp add: take_bit_eq_mask mask_eq_exp_minus_1)
  then have "tag_type ?w = wt" using t(3) u by (simp add: tag_type_def take_bit_eq_mod unat_mod)
  ultimately show "tag_field (word_of_nat (8 * n + wt)) = int n" "tag_type (word_of_nat (8 * n + wt)) = wt"
    unfolding t_def by blast+
qed

lemma dec_length_enc:
  assumes "length bs < 2 ^ 63"
  shows "dec_length (encodeVarint (word_of_nat (length bs)) @ r) = Inr (length bs, r)"
proof -
  have "sint (word_of_nat (length bs) :: u64) = int (length bs)"
    using assms by (simp add: signed_of_nat signed_take_bit_int_eq_self_iff)
  moreover have "unat (word_of_nat (length bs) :: u64) = length bs"
    using assms by (simp add: unat_of_nat)
  ultimately show ?thesis by (simp add: dec_length_def dec_encodeVarint)
qed

lemma pb_dec_field:
  assumes "0 < n" "n \<le> length sch" "n < 2 ^ 28" "wt \<in> {0, 2}"
    and "dec_field pb_dec (sch ! (n - 1)) (vals m ! (n - 1)) wt (payload @ r) = Inr (v, r)"
  shows "pb_dec sch m (enc_tag n wt @ payload @ r) = pb_dec sch (Msg ((vals m)[n - 1 := v]) (unrecognized m)) r"
proof -
  have "tag_field (word_of_nat (8 * n + wt)) = int n" "tag_type (word_of_nat (8 * n + wt)) = wt"
    using tag_roundtrip [of n wt] assms(1,3,4) by auto
  then show ?thesis using assms
    by (subst pb_dec.simps) (auto simp: enc_tag_def dec_encodeVarint Let_def simp del: of_nat_add)
qed

lemma dec_field_bytes:
  assumes "length bs < 2 ^ 63"
  shows "dec_field sub KBytes old 2 (encodeVarint (word_of_nat (length bs)) @ bs @ r) = Inr (PBytes bs, r)"
    "dec_field sub KRep (PRep bss) 2 (encodeVarint (word_of_nat (length bs)) @ bs @ r) = Inr (PRep (bss @ [bs]), r)"
    "sub sch (zero_msg sch) bs = Inr m' \<Longrightarrow>
       dec_field sub (KMsg sch) (PMsg None) 2 (encodeVarint (word_of_nat (length bs)) @ bs @ r) = Inr (PMsg (Some m'), r)"
  using assms by (simp_all add: dec_field_def dec_length_enc)

text \<open>
  Reading back one field, and then all the fields after those that are already read.
\<close>

lemma upd_same: "vs ! i = v \<Longrightarrow> vs[i := v] = vs"
  by auto

definition reads_back :: "pkind \<Rightarrow> pval \<Rightarrow> bool" where
  "reads_back k v \<longleftrightarrow> (\<forall>n sch vs u r. 0 < n \<and> n \<le> length sch \<and> n < 2 ^ 28 \<and> sch ! (n - 1) = k \<and>
     length vs = length sch \<and> vs ! (n - 1) = zero_val k \<and> length (enc_val n v) < 2 ^ 63 \<longrightarrow>
     pb_dec sch (Msg vs u) (enc_val n v @ r) = pb_dec sch (Msg (vs[n - 1 := v]) u) r)"

lemma reads_back_vals:
  assumes "list_all2 reads_back sch vs" "length sch < 2 ^ 28" "length (enc_vals 1 vs) < 2 ^ 63"
  shows "pb_dec sch (zero_msg sch) (enc_vals 1 vs @ r) = pb_dec sch (Msg vs []) r"
proof -
  have len: "length vs = length sch" using assms(1) by (simp add: list_all2_lengthD)
  have "k \<le> length vs \<Longrightarrow> length (enc_vals (Suc k) (drop k vs)) < 2 ^ 63 \<Longrightarrow>
      pb_dec sch (Msg (take k vs @ drop k (map zero_val sch)) []) (enc_vals (Suc k) (drop k vs) @ r) = pb_dec sch (Msg vs []) r" for k
  proof (induction "length vs - k" arbitrary: k)
    case 0
    then show ?case using len by simp
  next
    case (Suc d)
    then have k: "k < length vs" by simp
    let ?ws = "take k vs @ drop k (map zero_val sch)"
    have drop: "drop k vs = vs ! k # drop (Suc k) vs" using k by (simp add: Cons_nth_drop_Suc)
    have z: "drop k (map zero_val sch) = zero_val (sch ! k) # drop (Suc k) (map zero_val sch)"
      using k len by (simp add: Cons_nth_drop_Suc [symmetric] drop_map)
    have "reads_back (sch ! k) (vs ! k)" using assms(1) k by (simp add: list_all2_nthD2)
    moreover have "?ws ! k = zero_val (sch ! k)" using k len by (simp add: nth_append)
    ultimately have "pb_dec sch (Msg ?ws []) (enc_val (Suc k) (vs ! k) @ enc_vals (Suc (Suc k)) (drop (Suc k) vs) @ r)
        = pb_dec sch (Msg (?ws[k := vs ! k]) []) (enc_vals (Suc (Suc k)) (drop (Suc k) vs) @ r)"
      using k len assms(2) Suc.prems(2) drop unfolding reads_back_def by auto
    moreover have "?ws[k := vs ! k] = take (Suc k) vs @ drop (Suc k) (map zero_val sch)"
      using k len z by (simp add: list_update_append take_Suc_conv_app_nth)
    ultimately show ?case using Suc.hyps(1) [of "Suc k"] Suc.hyps(2) Suc.prems(2) k drop by simp
  qed
  from this [of 0] assms(3) show ?thesis by (simp add: zero_msg_def)
qed

fun small_kind :: "pkind \<Rightarrow> bool" where
  "small_kind (KMsg sch) \<longleftrightarrow> length sch < 2 ^ 28 \<and> list_all small_kind sch"
| "small_kind k \<longleftrightarrow> True"

lemma num_reads_back: "conf k (PNum w) \<Longrightarrow> reads_back k (PNum w)"
  unfolding reads_back_def
proof (intro allI impI, elim conjE)
  fix n :: nat and sch vs u r
  assume c: "conf k (PNum w)"
    and a: "0 < n" "n \<le> length sch" "n < 2 ^ 28" "sch ! (n - 1) = k" "length vs = length sch"
    "vs ! (n - 1) = zero_val k" "length (enc_val n (PNum w)) < 2 ^ 63"
  note k = conf_num [OF c]
  show "pb_dec sch (Msg vs u) (enc_val n (PNum w) @ r) = pb_dec sch (Msg (vs[n - 1 := PNum w]) u) r"
  proof (cases "w = 0")
    case True
    then show ?thesis using a(6) k by (auto simp: upd_same)
  next
    case False
    have "dec_field pb_dec k (zero_val k) 0 (encodeVarint w @ r) = Inr (PNum w, r)"
      using k by (simp add: dec_field_def dec_encodeVarint)
    then show ?thesis using pb_dec_field [of n sch 0 "Msg vs u" "encodeVarint w"] a False by simp
  qed
qed

lemma conf_reads_back: "conf k v \<Longrightarrow> small_kind k \<Longrightarrow> reads_back k v"
proof (induction rule: conf.induct)
  case (rep bss)
  have "pb_dec sch (Msg vs u) (concat (map (enc_bytes n) bss) @ r) = pb_dec sch (Msg (vs[n - 1 := PRep (pre @ bss)]) u) r"
    if "0 < n" "n \<le> length sch" "n < 2 ^ 28" "sch ! (n - 1) = KRep" "length vs = length sch" "vs ! (n - 1) = PRep pre"
      "length (concat (map (enc_bytes n) bss)) < 2 ^ 63" for n sch vs u r pre
    using that
  proof (induction bss arbitrary: vs pre)
    case (Cons bs bss)
    have l: "length bs < 2 ^ 63" using Cons.prems(7) by (simp add: enc_bytes_def)
    have "pb_dec sch (Msg vs u) (enc_bytes n bs @ concat (map (enc_bytes n) bss) @ r) =
        pb_dec sch (Msg (vs[n - 1 := PRep (pre @ [bs])]) u) (concat (map (enc_bytes n) bss) @ r)"
      using pb_dec_field [of n sch 2 "Msg vs u" "encodeVarint (word_of_nat (length bs)) @ bs"] Cons.prems dec_field_bytes(2) [OF l]
      by (simp add: enc_bytes_def)
    with Cons.IH [of "vs[n - 1 := PRep (pre @ [bs])]" "pre @ [bs]"] Cons.prems show ?case by simp
  qed (simp add: upd_same)
  from this [where pre = "[]"] show ?case by (simp add: reads_back_def)
next
  case (u64 w)
  then show ?case using conf.u64 [of w] by (intro num_reads_back)
next
  case (u32 w)
  then show ?case using conf.u32 [of w] by (intro num_reads_back)
next
  case (enum w)
  then show ?case using conf.enum [of w] by (intro num_reads_back)
next
  case (bytes bs)
  show ?case unfolding reads_back_def
  proof (intro allI impI, elim conjE)
    fix n :: nat and sch vs u r
    assume a: "0 < n" "n \<le> length sch" "n < 2 ^ 28" "sch ! (n - 1) = KBytes" "length vs = length sch"
      "vs ! (n - 1) = zero_val KBytes" "length (enc_val n (PBytes bs)) < 2 ^ 63"
    show "pb_dec sch (Msg vs u) (enc_val n (PBytes bs) @ r) = pb_dec sch (Msg (vs[n - 1 := PBytes bs]) u) r"
    proof (cases "bs = []")
      case True
      then show ?thesis using a(6) by (simp add: upd_same)
    next
      case False
      then have "length bs < 2 ^ 63" using a(7) by (simp add: enc_bytes_def)
      from dec_field_bytes(1) [OF this] a False show ?thesis
        using pb_dec_field [of n sch 2 "Msg vs u" "encodeVarint (word_of_nat (length bs)) @ bs"]
        by (simp add: enc_bytes_def)
    qed
  qed
next
  case (absent sch)
  then show ?case by (auto simp: reads_back_def upd_same)
next
  case (present sub vs)
  have all: "list_all2 reads_back sub vs"
    using present by (auto simp: list_all2_conv_all_nth list_all_length)
  show ?case unfolding reads_back_def
  proof (intro allI impI, elim conjE)
    fix n :: nat and sch ws u r
    let ?m = "enc_msg (Msg vs [])"
    assume a: "0 < n" "n \<le> length sch" "n < 2 ^ 28" "sch ! (n - 1) = KMsg sub" "length ws = length sch"
      "ws ! (n - 1) = zero_val (KMsg sub)" "length (enc_val n (PMsg (Some (Msg vs [])))) < 2 ^ 63"
    have l: "length ?m < 2 ^ 63" using a(7) by (simp add: enc_bytes_def)
    have "pb_dec sub (zero_msg sub) ?m = pb_dec sub (Msg vs []) []"
      using reads_back_vals [OF all, of "[]"] present.prems l by simp
    then have "pb_dec sub (zero_msg sub) ?m = Inr (Msg vs [])" by (simp add: pb_dec.simps [of _ _ "[]"])
    from dec_field_bytes(3) [of ?m pb_dec sub, OF l this] a
    show "pb_dec sch (Msg ws u) (enc_val n (PMsg (Some (Msg vs []))) @ r) =
        pb_dec sch (Msg (ws[n - 1 := PMsg (Some (Msg vs []))]) u) r"
      using pb_dec_field [of n sch 2 "Msg ws u" "encodeVarint (word_of_nat (length ?m)) @ ?m"]
      by (simp add: enc_bytes_def)
  qed
qed

theorem pb_dec_enc:
  assumes "list_all2 conf sch vs" "list_all small_kind sch" "length sch < 2 ^ 28"
    and "length (enc_msg (Msg vs [])) < 2 ^ 63"
  shows "pb_Unmarshal sch (enc_msg (Msg vs [])) = Inr (Msg vs [])"
proof -
  have "list_all2 reads_back sch vs"
    using assms(1,2) conf_reads_back by (auto simp: list_all2_conv_all_nth list_all_length)
  from reads_back_vals [OF this assms(3), of "[]"] assms(4) show ?thesis
    by (simp add: pb_Unmarshal_def pb_dec.simps [of _ _ "[]"])
qed

section \<open>Typed messages\<close>

text \<open>The fields of a decoded message, by kind.\<close>

fun pb_num :: "pval \<Rightarrow> u64" where
  "pb_num (PNum w) = w"
| "pb_num v = 0"

fun pb_bytes :: "pval \<Rightarrow> bytes" where
  "pb_bytes (PBytes bs) = bs"
| "pb_bytes v = []"

fun pb_rep :: "pval \<Rightarrow> bytes list" where
  "pb_rep (PRep bss) = bss"
| "pb_rep v = []"

fun pb_sub :: "pval \<Rightarrow> pmsg option" where
  "pb_sub (PMsg m) = m"
| "pb_sub v = None"

lemma ucast_u32 [simp]: "ucast (ucast (x :: 32 word) :: u64) = x" "ucast (scast (x :: 32 word) :: u64) = x"
  by (rule bit_word_eqI, auto simp: bit_simps)+

lemma conf_fields:
  "conf KU64 (PNum w)" "conf KU32 (PNum (ucast (x :: 32 word)))" "conf KEnum (PNum (scast (x :: 32 word)))"
  "conf KBytes (PBytes bs)" "conf KRep (PRep bss)" "conf (KMsg sch) (PMsg None)"
proof -
  have "unat x < 2 ^ 32" by (rule order_less_le_trans [OF unsigned_less]) simp
  then have "unat (ucast x :: u64) < 2 ^ 32" by (simp add: unsigned_ucast_eq take_bit_nat_eq_self)
  then show "conf KU32 (PNum (ucast x))" by (rule conf.u32)
qed (auto intro: conf.intros)

lemma conf_sub: "list_all2 conf sch (vals m) \<and> unrecognized m = [] \<Longrightarrow> conf (KMsg sch) (PMsg (Some m))"
  by (cases m) (simp add: conf.present)

lemma pb_roundtrip:
  assumes "list_all2 conf sch (vals m) \<and> unrecognized m = []" "list_all small_kind sch \<and> length sch < 2 ^ 28"
    and "length (enc_msg m) < 2 ^ 63"
  shows "pb_Unmarshal sch (enc_msg m) = Inr m"
  using assms pb_dec_enc [of sch "vals m"] by (cases m) simp

end
