(* ===== verification/Block_Types.thy ===== *)
theory Block_Types
  imports Proto_Wire Common_Util
begin

text \<open>
  The messages of \<open>src/chain/types/block.pb.go\<close>: blocks, block results, the chunks they
  are made of and the messages that carry them. For each message the record of its
  fields, the kinds of its fields, \<open>Marshal\<close>, \<open>Size\<close> and \<open>Unmarshal\<close>, and that what was
  written is read back when the message has no unknown fields. The last section has
  the methods of \<open>src/chain/types/block.go\<close>.
\<close>

section \<open>Messages\<close>

subsection \<open>\<open>ConsensusProof\<close>\<close>

record ConsensusProof =
  cp_ParentBlockHash :: bytes
  cp_Height :: u64
  cp_AggSign :: bytes
  cp_XXX :: bytes

definition ConsensusProof_kinds :: "pkind list" where
  "ConsensusProof_kinds = [KBytes, KU64, KBytes]"

definition ConsensusProof_msg :: "ConsensusProof \<Rightarrow> pmsg" where
  "ConsensusProof_msg m = Msg [PBytes (cp_ParentBlockHash m), PNum (cp_Height m), PBytes (cp_AggSign m)] (cp_XXX m)"

definition ConsensusProof_of :: "pmsg \<Rightarrow> ConsensusProof" where
  "ConsensusProof_of m = \<lparr>cp_ParentBlockHash = pb_bytes (vals m ! 0), cp_Height = pb_num (vals m ! 1),
     cp_AggSign = pb_bytes (vals m ! 2), cp_XXX = unrecognized m\<rparr>"

definition ConsensusProof_Marshal :: "ConsensusProof \<Rightarrow> bytes" where
  "ConsensusProof_Marshal m = enc_msg (ConsensusProof_msg m)"

definition ConsensusProof_Size :: "ConsensusProof \<Rightarrow> nat" where
  "ConsensusProof_Size m = size_msg (ConsensusProof_msg m)"

definition ConsensusProof_Unmarshal :: "bytes \<Rightarrow> error + ConsensusProof" where
  "ConsensusProof_Unmarshal dAtA = map_sum id ConsensusProof_of (pb_Unmarshal ConsensusProof_kinds dAtA)"

definition ConsensusProof_plain :: "ConsensusProof \<Rightarrow> bool" where
  "ConsensusProof_plain m \<longleftrightarrow> cp_XXX m = []"

lemma ConsensusProof_of_msg [simp]: "ConsensusProof_of (ConsensusProof_msg m) = m"
  by (simp add: ConsensusProof_of_def ConsensusProof_msg_def option.map_comp comp_def option.map_ident)

lemma ConsensusProof_conf: "ConsensusProof_plain m \<Longrightarrow> list_all2 conf ConsensusProof_kinds (vals (ConsensusProof_msg m)) \<and> unrecognized (ConsensusProof_msg m) = []"
  by (simp add: ConsensusProof_kinds_def ConsensusProof_msg_def ConsensusProof_plain_def conf_fields)

lemma ConsensusProof_small: "list_all small_kind ConsensusProof_kinds \<and> length ConsensusProof_kinds < 2 ^ 28"
  by (simp add: ConsensusProof_kinds_def)

lemma ConsensusProof_roundtrip:
  "ConsensusProof_plain m \<Longrightarrow> length (ConsensusProof_Marshal m) < 2 ^ 63 \<Longrightarrow> ConsensusProof_Unmarshal (ConsensusProof_Marshal m) = Inr m"
  using pb_roundtrip [OF ConsensusProof_conf ConsensusProof_small, of m] by (simp add: ConsensusProof_Unmarshal_def ConsensusProof_Marshal_def)

subsection \<open>\<open>BlockHeadChunk\<close>\<close>

record BlockHeadChunk =
  hc_Version :: "32 word"
  hc_DomainID :: bytes
  hc_Launcher :: bytes
  hc_TxCount :: "32 word"
  hc_TxRoot :: bytes
  hc_TxResultRoot :: bytes
  hc_XXX :: bytes

definition BlockHeadChunk_kinds :: "pkind list" where
  "BlockHeadChunk_kinds = [KU32, KBytes, KBytes, KU32, KBytes, KBytes]"

definition BlockHeadChunk_msg :: "BlockHeadChunk \<Rightarrow> pmsg" where
  "BlockHeadChunk_msg m = Msg [PNum (ucast (hc_Version m)), PBytes (hc_DomainID m), PBytes (hc_Launcher m),
     PNum (ucast (hc_TxCount m)), PBytes (hc_TxRoot m), PBytes (hc_TxResultRoot m)] (hc_XXX m)"

definition BlockHeadChunk_of :: "pmsg \<Rightarrow> BlockHeadChunk" where
  "BlockHeadChunk_of m = \<lparr>hc_Version = ucast (pb_num (vals m ! 0)), hc_DomainID = pb_bytes (vals m ! 1),
     hc_Launcher = pb_bytes (vals m ! 2), hc_TxCount = ucast (pb_num (vals m ! 3)),
     hc_TxRoot = pb_bytes (vals m ! 4), hc_TxResultRoot = pb_bytes (vals m ! 5), hc_XXX = unrecognized m\<rparr>"

definition BlockHeadChunk_Marshal :: "BlockHeadChunk \<Rightarrow> bytes" where
  "BlockHeadChunk_Marshal m = enc_msg (BlockHeadChunk_msg m)"

definition BlockHeadChunk_Size :: "BlockHeadChunk \<Rightarrow> nat" where
  "BlockHeadChunk_Size m = size_msg (BlockHeadChunk_msg m)"

definition BlockHeadChunk_Unmarshal :: "bytes \<Rightarrow> error + BlockHeadChunk" where
  "BlockHeadChunk_Unmarshal dAtA = map_sum id BlockHeadChunk_of (pb_Unmarshal BlockHeadChunk_kinds dAtA)"

definition BlockHeadChunk_plain :: "BlockHeadChunk \<Rightarrow> bool" where
  "BlockHeadChunk_plain m \<longleftrightarrow> hc_XXX m = []"

lemma BlockHeadChunk_of_msg [simp]: "BlockHeadChunk_of (BlockHeadChunk_msg m) = m"
  by (simp add: BlockHeadChunk_of_def BlockHeadChunk_msg_def option.map_comp comp_def option.map_ident)

lemma BlockHeadChunk_conf: "BlockHeadChunk_plain m \<Longrightarrow> list_all2 conf BlockHeadChunk_kinds (vals (BlockHeadChunk_msg m)) \<and> unrecognized (BlockHeadChunk_msg m) = []"
  by (simp add: BlockHeadChunk_kinds_def BlockHeadChunk_msg_def BlockHeadChunk_plain_def conf_fields)

lemma BlockHeadChunk_small: "list_all small_kind BlockHeadChunk_kinds \<and> length BlockHeadChunk_kinds < 2 ^ 28"
  by (simp add: BlockHeadChunk_kinds_def)

lemma BlockHeadChunk_roundtrip:
  "BlockHeadChunk_plain m \<Longrightarrow> length (BlockHeadChunk_Marshal m) < 2 ^ 63 \<Longrightarrow> BlockHeadChunk_Unmarshal (BlockHeadChunk_Marshal m) = Inr m"
  using pb_roundtrip [OF BlockHeadChunk_conf BlockHeadChunk_small, of m] by (simp add: BlockHeadChunk_Unmarshal_def BlockHeadChunk_Marshal_def)

subsection \<open>\<open>BlockDataChunk\<close>\<close>

record BlockDataChunk =
  dc_Version :: "32 word"
  dc_RefIndex :: "32 word"
  dc_Txs :: "bytes list"
  dc_XXX :: bytes

definition BlockDataChunk_kinds :: "pkind list" where
  "BlockDataChunk_kinds = [KU32, KU32, KRep]"

definition BlockDataChunk_msg :: "BlockDataChunk \<Rightarrow> pmsg" where
  "BlockDataChunk_msg m = Msg [PNum (ucast (dc_Version m)), PNum (ucast (dc_RefIndex m)), PRep (dc_Txs m)] (dc_XXX m)"

definition BlockDataChunk_of :: "pmsg \<Rightarrow> BlockDataChunk" where
  "BlockDataChunk_of m = \<lparr>dc_Version = ucast (pb_num (vals m ! 0)), dc_RefIndex = ucast (pb_num (vals m ! 1)),
     dc_Txs = pb_rep (vals m ! 2), dc_XXX = unrecognized m\<rparr>"

definition BlockDataChunk_Marshal :: "BlockDataChunk \<Rightarrow> bytes" where
  "BlockDataChunk_Marshal m = enc_msg (BlockDataChunk_msg m)"

definition BlockDataChunk_Size :: "BlockDataChunk \<Rightarrow> nat" where
  "BlockDataChunk_Size m = size_msg (BlockDataChunk_msg m)"

definition BlockDataChunk_Unmarshal :: "bytes \<Rightarrow> error + BlockDataChunk" where
  "BlockDataChunk_Unmarshal dAtA = map_sum id BlockDataChunk_of (pb_Unmarshal BlockDataChunk_kinds dAtA)"

definition BlockDataChunk_plain :: "BlockDataChunk \<Rightarrow> bool" where
  "BlockDataChunk_plain m \<longleftrightarrow> dc_XXX m = []"

lemma BlockDataChunk_of_msg [simp]: "BlockDataChunk_of (BlockDataChunk_msg m) = m"
  by (simp add: BlockDataChunk_of_def BlockDataChunk_msg_def option.map_comp comp_def option.map_ident)

lemma BlockDataChunk_conf: "BlockDataChunk_plain m \<Longrightarrow> list_all2 conf BlockDataChunk_kinds (vals (BlockDataChunk_msg m)) \<and> unrecognized (BlockDataChunk_msg m) = []"
  by (simp add: BlockDataChunk_kinds_def BlockDataChunk_msg_def BlockDataChunk_plain_def conf_fields)

lemma BlockDataChunk_small: "list_all small_kind BlockDataChunk_kinds \<and> length BlockDataChunk_kinds < 2 ^ 28"
  by (simp add: BlockDataChunk_kinds_def)

lemma BlockDataChunk_roundtrip:
  "BlockDataChunk_plain m \<Longrightarrow> length (BlockDataChunk_Marshal m) < 2 ^ 63 \<Longrightarrow> BlockDataChunk_Unmarshal (BlockDataChunk_Marshal m) = Inr m"
  using pb_roundtrip [OF BlockDataChunk_conf BlockDataChunk_small, of m] by (simp add: BlockDataChunk_Unmarshal_def BlockDataChunk_Marshal_def)

subsection \<open>\<open>BlockHead\<close>\<close>

record BlockHead =
  bh_ChainID :: bytes
  bh_Version :: "32 word"
  bh_Height :: u64
  bh_Epoch :: u64
  bh_Round :: u64
  bh_ParentBlockHash :: bytes
  bh_Proposer :: bytes
  bh_Proof :: bytes
  bh_VRFProof :: bytes
  bh_VRFProofHeight :: u64
  bh_MaxPri :: bytes
  bh_VoteAggSignature :: bytes
  bh_ChunkCount :: "32 word"
  bh_HeadChunks :: "bytes list"
  bh_StateRoot :: bytes
  bh_GasFees :: bytes
  bh_TimeStamp :: u64
  bh_ElapsedSpan :: u64
  bh_Hash :: bytes
  bh_Reserved :: bytes
  bh_XXX :: bytes

definition BlockHead_kinds :: "pkind list" where
  "BlockHead_kinds = [KBytes, KU32, KU64, KU64, KU64, KBytes, KBytes, KBytes, KBytes, KU64, KBytes, KBytes, KU32, KRep,
     KBytes, KBytes, KU64, KU64, KBytes, KBytes]"

definition BlockHead_msg :: "BlockHead \<Rightarrow> pmsg" where
  "BlockHead_msg m = Msg [PBytes (bh_ChainID m), PNum (ucast (bh_Version m)), PNum (bh_Height m), PNum (bh_Epoch m),
     PNum (bh_Round m), PBytes (bh_ParentBlockHash m), PBytes (bh_Proposer m), PBytes (bh_Proof m),
     PBytes (bh_VRFProof m), PNum (bh_VRFProofHeight m), PBytes (bh_MaxPri m),
     PBytes (bh_VoteAggSignature m), PNum (ucast (bh_ChunkCount m)), PRep (bh_HeadChunks m),
     PBytes (bh_StateRoot m), PBytes (bh_GasFees m), PNum (bh_TimeStamp m), PNum (bh_ElapsedSpan m),
     PBytes (bh_Hash m), PBytes (bh_Reserved m)] (bh_XXX m)"

definition BlockHead_of :: "pmsg \<Rightarrow> BlockHead" where
  "BlockHead_of m = \<lparr>bh_ChainID = pb_bytes (vals m ! 0), bh_Version = ucast (pb_num (vals m ! 1)),
     bh_Height = pb_num (vals m ! 2), bh_Epoch = pb_num (vals m ! 3), bh_Round = pb_num (vals m ! 4),
     bh_ParentBlockHash = pb_bytes (vals m ! 5), bh_Proposer = pb_bytes (vals m ! 6),
     bh_Proof = pb_bytes (vals m ! 7), bh_VRFProof = pb_bytes (vals m ! 8),
     bh_VRFProofHeight = pb_num (vals m ! 9), bh_MaxPri = pb_bytes (vals m ! 10),
     bh_VoteAggSignature = pb_bytes (vals m ! 11), bh_ChunkCount = ucast (pb_num (vals m ! 12)),
     bh_HeadChunks = pb_rep (vals m ! 13), bh_StateRoot = pb_bytes (vals m ! 14),
     bh_GasFees = pb_bytes (vals m ! 15), bh_TimeStamp = pb_num (vals m ! 16),
     bh_ElapsedSpan = pb_num (vals m ! 17), bh_Hash = pb_bytes (vals m ! 18),
     bh_Reserved = pb_bytes (vals m ! 19), bh_XXX = unrecognized m\<rparr>"

definition BlockHead_Marshal :: "BlockHead \<Rightarrow> bytes" where
  "BlockHead_Marshal m = enc_msg (BlockHead_msg m)"

definition BlockHead_Size :: "BlockHead \<Rightarrow> nat" where
  "BlockHead_Size m = size_msg (BlockHead_msg m)"

definition BlockHead_Unmarshal :: "bytes \<Rightarrow> error + BlockHead" where
  "BlockHead_Unmarshal dAtA = map_sum id BlockHead_of (pb_Unmarshal BlockHead_kinds dAtA)"

definition BlockHead_plain :: "BlockHead \<Rightarrow> bool" where
  "BlockHead_plain m \<longleftrightarrow> bh_XXX m = []"

lemma BlockHead_of_msg [simp]: "BlockHead_of (BlockHead_msg m) = m"
  by (simp add: BlockHead_of_def BlockHead_msg_def option.map_comp comp_def option.map_ident)

lemma BlockHead_conf: "BlockHead_plain m \<Longrightarrow> list_all2 conf BlockHead_kinds (vals (BlockHead_msg m)) \<and> unrecognized (BlockHead_msg m) = []"
  by (simp add: BlockHead_kinds_def BlockHead_msg_def BlockHead_plain_def conf_fields)

lemma BlockHead_small: "list_all small_kind BlockHead_kinds \<and> length BlockHead_kinds < 2 ^ 28"
  by (simp add: BlockHead_kinds_def)

lemma BlockHead_roundtrip:
  "BlockHead_plain m \<Longrightarrow> length (BlockHead_Marshal m) < 2 ^ 63 \<Longrightarrow> BlockHead_Unmarshal (BlockHead_Marshal m) = Inr m"
  using pb_roundtrip [OF BlockHead_conf BlockHead_small, of m] by (simp add: BlockHead_Unmarshal_def BlockHead_Marshal_def)

subsection \<open>\<open>BlockData\<close>\<close>

record BlockData =
  bd_Version :: "32 word"
  bd_DataChunks :: "bytes list"
  bd_XXX :: bytes

definition BlockData_kinds :: "pkind list" where
  "BlockData_kinds = [KU32, KRep]"

definition BlockData_msg :: "BlockData \<Rightarrow> pmsg" where
  "BlockData_msg m = Msg [PNum (ucast (bd_Version m)), PRep (bd_DataChunks m)] (bd_XXX m)"

definition BlockData_of :: "pmsg \<Rightarrow> BlockData" where
  "BlockData_of m = \<lparr>bd_Version = ucast (pb_num (vals m ! 0)), bd_DataChunks = pb_rep (vals m ! 1), bd_XXX = unrecognized m\<rparr>"

definition BlockData_Marshal :: "BlockData \<Rightarrow> bytes" where
  "BlockData_Marshal m = enc_msg (BlockData_msg m)"

definition BlockData_Size :: "BlockData \<Rightarrow> nat" where
  "BlockData_Size m = size_msg (BlockData_msg m)"

definition BlockData_Unmarshal :: "bytes \<Rightarrow> error + BlockData" where
  "BlockData_Unmarshal dAtA = map_sum id BlockData_of (pb_Unmarshal BlockData_kinds dAtA)"

definition BlockData_plain :: "BlockData \<Rightarrow> bool" where
  "BlockData_plain m \<longleftrightarrow> bd_XXX m = []"

lemma BlockData_of_msg [simp]: "BlockData_of (BlockData_msg m) = m"
  by (simp add: BlockData_of_def BlockData_msg_def option.map_comp comp_def option.map_ident)

lemma BlockData_conf: "BlockData_plain m \<Longrightarrow> list_all2 conf BlockData_kinds (vals (BlockData_msg m)) \<and> unrecognized (BlockData_msg m) = []"
  by (simp add: BlockData_kinds_def BlockData_msg_def BlockData_plain_def conf_fields)

lemma BlockData_small: "list_all small_kind BlockData_kinds \<and> length BlockData_kinds < 2 ^ 28"
  by (simp add: BlockData_kinds_def)

lemma BlockData_roundtrip:
  "BlockData_plain m \<Longrightarrow> length (BlockData_Marshal m) < 2 ^ 63 \<Longrightarrow> BlockData_Unmarshal (BlockData_Marshal m) = Inr m"
  using pb_roundtrip [OF BlockData_conf BlockData_small, of m] by (simp add: BlockData_Unmarshal_def BlockData_Marshal_def)

subsection \<open>\<open>Block\<close>\<close>

record Block =
  blk_Head :: "BlockHead option"
  blk_Data :: "BlockData option"
  blk_XXX :: bytes

definition Block_kinds :: "pkind list" where
  "Block_kinds = [KMsg BlockHead_kinds, KMsg BlockData_kinds]"

definition Block_msg :: "Block \<Rightarrow> pmsg" where
  "Block_msg m = Msg [PMsg (map_option BlockHead_msg (blk_Head m)), PMsg (map_option BlockData_msg (blk_Data m))] (blk_XXX m)"

definition Block_of :: "pmsg \<Rightarrow> Block" where
  "Block_of m = \<lparr>blk_Head = map_option BlockHead_of (pb_sub (vals m ! 0)),
     blk_Data = map_option BlockData_of (pb_sub (vals m ! 1)), blk_XXX = unrecognized m\<rparr>"

definition Block_Marshal :: "Block \<Rightarrow> bytes" where
  "Block_Marshal m = enc_msg (Block_msg m)"

definition Block_Size :: "Block \<Rightarrow> nat" where
  "Block_Size m = size_msg (Block_msg m)"

definition Block_Unmarshal :: "bytes \<Rightarrow> error + Block" where
  "Block_Unmarshal dAtA = map_sum id Block_of (pb_Unmarshal Block_kinds dAtA)"

definition Block_plain :: "Block \<Rightarrow> bool" where
  "Block_plain m \<longleftrightarrow> blk_XXX m = [] \<and> (case blk_Head m of None \<Rightarrow> True | Some x \<Rightarrow> BlockHead_plain x) \<and> (case blk_Data m of None \<Rightarrow> True | Some x \<Rightarrow> BlockData_plain x)"

lemma Block_of_msg [simp]: "Block_of (Block_msg m) = m"
  by (simp add: Block_of_def Block_msg_def option.map_comp comp_def option.map_ident)

lemma Block_conf: "Block_plain m \<Longrightarrow> list_all2 conf Block_kinds (vals (Block_msg m)) \<and> unrecognized (Block_msg m) = []"
  by (auto simp: Block_kinds_def Block_msg_def Block_plain_def conf_fields split: option.splits
      intro!: conf_sub dest: BlockData_conf BlockHead_conf)

lemma Block_small: "list_all small_kind Block_kinds \<and> length Block_kinds < 2 ^ 28"
  by (simp add: BlockData_kinds_def BlockHead_kinds_def Block_kinds_def)

lemma Block_roundtrip:
  "Block_plain m \<Longrightarrow> length (Block_Marshal m) < 2 ^ 63 \<Longrightarrow> Block_Unmarshal (Block_Marshal m) = Inr m"
  using pb_roundtrip [OF Block_conf Block_small, of m] by (simp add: Block_Unmarshal_def Block_Marshal_def)

subsection \<open>\<open>BlockResultHeadChunk\<close>\<close>

record BlockResultHeadChunk =
  rhc_Version :: "32 word"
  rhc_RefIndex :: "32 word"
  rhc_TxResultHashRoot :: bytes
  rhc_XXX :: bytes

definition BlockResultHeadChunk_kinds :: "pkind list" where
  "BlockResultHeadChunk_kinds = [KU32, KU32, KBytes]"

definition BlockResultHeadChunk_msg :: "BlockResultHeadChunk \<Rightarrow> pmsg" where
  "BlockResultHeadChunk_msg m = Msg [PNum (ucast (rhc_Version m)), PNum (ucast (rhc_RefIndex m)), PBytes (rhc_TxResultHashRoot m)] (rhc_XXX m)"

definition BlockResultHeadChunk_of :: "pmsg \<Rightarrow> BlockResultHeadChunk" where
  "BlockResultHeadChunk_of m = \<lparr>rhc_Version = ucast (pb_num (vals m ! 0)), rhc_RefIndex = ucast (pb_num (vals m ! 1)),
     rhc_TxResultHashRoot = pb_bytes (vals m ! 2), rhc_XXX = unrecognized m\<rparr>"

definition BlockResultHeadChunk_Marshal :: "BlockResultHeadChunk \<Rightarrow> bytes" where
  "BlockResultHeadChunk_Marshal m = enc_msg (BlockResultHeadChunk_msg m)"

definition BlockResultHeadChunk_Size :: "BlockResultHeadChunk \<Rightarrow> nat" where
  "BlockResultHeadChunk_Size m = size_msg (BlockResultHeadChunk_msg m)"

definition BlockResultHeadChunk_Unmarshal :: "bytes \<Rightarrow> error + BlockResultHeadChunk" where
  "BlockResultHeadChunk_Unmarshal dAtA = map_sum id BlockResultHeadChunk_of (pb_Unmarshal BlockResultHeadChunk_kinds dAtA)"

definition BlockResultHeadChunk_plain :: "BlockResultHeadChunk \<Rightarrow> bool" where
  "BlockResultHeadChunk_plain m \<longleftrightarrow> rhc_XXX m = []"

lemma BlockResultHeadChunk_of_msg [simp]: "BlockResultHeadChunk_of (BlockResultHeadChunk_msg m) = m"
  by (simp add: BlockResultHeadChunk_of_def BlockResultHeadChunk_msg_def option.map_comp comp_def option.map_ident)

lemma BlockResultHeadChunk_conf: "BlockResultHeadChunk_plain m \<Longrightarrow> list_all2 conf BlockResultHeadChunk_kinds (vals (BlockResultHeadChunk_msg m)) \<and> unrecognized (BlockResultHeadChunk_msg m) = []"
  by (simp add: BlockResultHeadChunk_kinds_def BlockResultHeadChunk_msg_def BlockResultHeadChunk_plain_def conf_fields)

lemma BlockResultHeadChunk_small: "list_all small_kind BlockResultHeadChunk_kinds \<and> length BlockResultHeadChunk_kinds < 2 ^ 28"
  by (simp add: BlockResultHeadChunk_kinds_def)

lemma BlockResultHeadChunk_roundtrip:
  "BlockResultHeadChunk_plain m \<Longrightarrow> length (BlockResultHeadChunk_Marshal m) < 2 ^ 63 \<Longrightarrow> BlockResultHeadChunk_Unmarshal (BlockResultHeadChunk_Marshal m) = Inr m"
  using pb_roundtrip [OF BlockResultHeadChunk_conf BlockResultHeadChunk_small, of m] by (simp add: BlockResultHeadChunk_Unmarshal_def BlockResultHeadChunk_Marshal_def)

subsection \<open>\<open>BlockResultDataChunk\<close>\<close>

record BlockResultDataChunk =
  rdc_Version :: "32 word"
  rdc_TxResults :: "bytes list"
  rdc_XXX :: bytes

definition BlockResultDataChunk_kinds :: "pkind list" where
  "BlockResultDataChunk_kinds = [KU32, KRep]"

definition BlockResultDataChunk_msg :: "BlockResultDataChunk \<Rightarrow> pmsg" where
  "BlockResultDataChunk_msg m = Msg [PNum (ucast (rdc_Version m)), PRep (rdc_TxResults m)] (rdc_XXX m)"

definition BlockResultDataChunk_of :: "pmsg \<Rightarrow> BlockResultDataChunk" where
  "BlockResultDataChunk_of m = \<lparr>rdc_Version = ucast (pb_num (vals m ! 0)), rdc_TxResults = pb_rep (vals m ! 1), rdc_XXX = unrecognized m\<rparr>"

definition BlockResultDataChunk_Marshal :: "BlockResultDataChunk \<Rightarrow> bytes" where
  "BlockResultDataChunk_Marshal m = enc_msg (BlockResultDataChunk_msg m)"

definition BlockResultDataChunk_Size :: "BlockResultDataChunk \<Rightarrow> nat" where
  "BlockResultDataChunk_Size m = size_msg (BlockResultDataChunk_msg m)"

definition BlockResultDataChunk_Unmarshal :: "bytes \<Rightarrow> error + BlockResultDataChunk" where
  "BlockResultDataChunk_Unmarshal dAtA = map_sum id BlockResultDataChunk_of (pb_Unmarshal BlockResultDataChunk_kinds dAtA)"

definition BlockResultDataChunk_plain :: "BlockResultDataChunk \<Rightarrow> bool" where
  "BlockResultDataChunk_plain m \<longleftrightarrow> rdc_XXX m = []"

lemma BlockResultDataChunk_of_msg [simp]: "BlockResultDataChunk_of (BlockResultDataChunk_msg m) = m"
  by (simp add: BlockResultDataChunk_of_def BlockResultDataChunk_msg_def option.map_comp comp_def option.map_ident)

lemma BlockResultDataChunk_conf: "BlockResultDataChunk_plain m \<Longrightarrow> list_all2 conf BlockResultDataChunk_kinds (vals (BlockResultDataChunk_msg m)) \<and> unrecognized (BlockResultDataChunk_msg m) = []"
  by (simp add: BlockResultDataChunk_kinds_def BlockResultDataChunk_msg_def BlockResultDataChunk_plain_def conf_fields)

lemma BlockResultDataChunk_small: "list_all small_kind BlockResultDataChunk_kinds \<and> length BlockResultDataChunk_kinds < 2 ^ 28"
  by (simp add: BlockResultDataChunk_kinds_def)

lemma BlockResultDataChunk_roundtrip:
  "BlockResultDataChunk_plain m \<Longrightarrow> length (BlockResultDataChunk_Marshal m) < 2 ^ 63 \<Longrightarrow> BlockResultDataChunk_Unmarshal (BlockResultDataChunk_Marshal m) = Inr m"
  using pb_roundtrip [OF BlockResultDataChunk_conf BlockResultDataChunk_small, of m] by (simp add: BlockResultDataChunk_Unmarshal_def BlockResultDataChunk_Marshal_def)

subsection \<open>\<open>BlockResultHead\<close>\<close>

record BlockResultHead =
  brh_Version :: "32 word"
  brh_PrevBlockResult :: bytes
  brh_BlockHash :: bytes
  brh_ResultHeadChunks :: "bytes list"
  brh_Status :: "32 word"
  brh_ErrMsg :: bytes
  brh_Reserved :: bytes
  brh_XXX :: bytes

definition BlockResultHead_kinds :: "pkind list" where
  "BlockResultHead_kinds = [KU32, KBytes, KBytes, KRep, KEnum, KBytes, KBytes]"

definition BlockResultHead_msg :: "BlockResultHead \<Rightarrow> pmsg" where
  "BlockResultHead_msg m = Msg [PNum (ucast (brh_Version m)), PBytes (brh_PrevBlockResult m), PBytes (brh_BlockHash m),
     PRep (brh_ResultHeadChunks m), PNum (scast (brh_Status m)), PBytes (brh_ErrMsg m),
     PBytes (brh_Reserved m)] (brh_XXX m)"

definition BlockResultHead_of :: "pmsg \<Rightarrow> BlockResultHead" where
  "BlockResultHead_of m = \<lparr>brh_Version = ucast (pb_num (vals m ! 0)), brh_PrevBlockResult = pb_bytes (vals m ! 1),
     brh_BlockHash = pb_bytes (vals m ! 2), brh_ResultHeadChunks = pb_rep (vals m ! 3),
     brh_Status = ucast (pb_num (vals m ! 4)), brh_ErrMsg = pb_bytes (vals m ! 5),
     brh_Reserved = pb_bytes (vals m ! 6), brh_XXX = unrecognized m\<rparr>"

definition BlockResultHead_Marshal :: "BlockResultHead \<Rightarrow> bytes" where
  "BlockResultHead_Marshal m = enc_msg (BlockResultHead_msg m)"

definition BlockResultHead_Size :: "BlockResultHead \<Rightarrow> nat" where
  "BlockResultHead_Size m = size_msg (BlockResultHead_msg m)"

definition BlockResultHead_Unmarshal :: "bytes \<Rightarrow> error + BlockResultHead" where
  "BlockResultHead_Unmarshal dAtA = map_sum id BlockResultHead_of (pb_Unmarshal BlockResultHead_kinds dAtA)"

definition BlockResultHead_plain :: "BlockResultHead \<Rightarrow> bool" where
  "BlockResultHead_plain m \<longleftrightarrow> brh_XXX m = []"

lemma BlockResultHead_of_msg [simp]: "BlockResultHead_of (BlockResultHead_msg m) = m"
  by (simp add: BlockResultHead_of_def BlockResultHead_msg_def option.map_comp comp_def option.map_ident)

lemma BlockResultHead_conf: "BlockResultHead_plain m \<Longrightarrow> list_all2 conf BlockResultHead_kinds (vals (BlockResultHead_msg m)) \<and> unrecognized (BlockResultHead_msg m) = []"
  by (simp add: BlockResultHead_kinds_def BlockResultHead_msg_def BlockResultHead_plain_def conf_fields)

lemma BlockResultHead_small: "list_all small_kind BlockResultHead_kinds \<and> length BlockResultHead_kinds < 2 ^ 28"
  by (simp add: BlockResultHead_kinds_def)

lemma BlockResultHead_roundtrip:
  "BlockResultHead_plain m \<Longrightarrow> length (BlockResultHead_Marshal m) < 2 ^ 63 \<Longrightarrow> BlockResultHead_Unmarshal (BlockResultHead_Marshal m) = Inr m"
  using pb_roundtrip [OF BlockResultHead_conf BlockResultHead_small, of m] by (simp add: BlockResultHead_Unmarshal_def BlockResultHead_Marshal_def)

subsection \<open>\<open>BlockResultData\<close>\<close>

record BlockResultData =
  brd_Version :: "32 word"
  brd_ResultDataChunks :: "bytes list"
  brd_XXX :: bytes

definition BlockResultData_kinds :: "pkind list" where
  "BlockResultData_kinds = [KU32, KRep]"

definition BlockResultData_msg :: "BlockResultData \<Rightarrow> pmsg" where
  "BlockResultData_msg m = Msg [PNum (ucast (brd_Version m)), PRep (brd_ResultDataChunks m)] (brd_XXX m)"

definition BlockResultData_of :: "pmsg \<Rightarrow> BlockResultData" where
  "BlockResultData_of m = \<lparr>brd_Version = ucast (pb_num (vals m ! 0)), brd_ResultDataChunks = pb_rep (vals m ! 1),
     brd_XXX = unrecognized m\<rparr>"

definition BlockResultData_Marshal :: "BlockResultData \<Rightarrow> bytes" where
  "BlockResultData_Marshal m = enc_msg (BlockResultData_msg m)"

definition BlockResultData_Size :: "BlockResultData \<Rightarrow> nat" where
  "BlockResultData_Size m = size_msg (BlockResultData_msg m)"

definition BlockResultData_Unmarshal :: "bytes \<Rightarrow> error + BlockResultData" where
  "BlockResultData_Unmarshal dAtA = map_sum id BlockResultData_of (pb_Unmarshal BlockResultData_kinds dAtA)"

definition BlockResultData_plain :: "BlockResultData \<Rightarrow> bool" where
  "BlockResultData_plain m \<longleftrightarrow> brd_XXX m = []"

lemma BlockResultData_of_msg [simp]: "BlockResultData_of (BlockResultData_msg m) = m"
  by (simp add: BlockResultData_of_def BlockResultData_msg_def option.map_comp comp_def option.map_ident)

lemma BlockResultData_conf: "BlockResultData_plain m \<Longrightarrow> list_all2 conf BlockResultData_kinds (vals (BlockResultData_msg m)) \<and> unrecognized (BlockResultData_msg m) = []"
  by (simp add: BlockResultData_kinds_def BlockResultData_msg_def BlockResultData_plain_def conf_fields)

lemma BlockResultData_small: "list_all small_kind BlockResultData_kinds \<and> length BlockResultData_kinds < 2 ^ 28"
  by (simp add: BlockResultData_kinds_def)

lemma BlockResultData_roundtrip:
  "BlockResultData_plain m \<Longrightarrow> length (BlockResultData_Marshal m) < 2 ^ 63 \<Longrightarrow> BlockResultData_Unmarshal (BlockResultData_Marshal m) = Inr m"
  using pb_roundtrip [OF BlockResultData_conf BlockResultData_small, of m] by (simp add: BlockResultData_Unmarshal_def BlockResultData_Marshal_def)

subsection \<open>\<open>BlockResult\<close>\<close>

record BlockResult =
  br_Head :: "BlockResultHead option"
  br_Data :: "BlockResultData option"
  br_XXX :: bytes

definition BlockResult_kinds :: "pkind list" where
  "BlockResult_kinds = [KMsg BlockResultHead_kinds, KMsg BlockResultData_kinds]"

definition BlockResult_msg :: "BlockResult \<Rightarrow> pmsg" where
  "BlockResult_msg m = Msg [PMsg (map_option BlockResultHead_msg (br_Head m)), PMsg (map_option BlockResultData_msg (br_Data m))] (br_XXX m)"

definition BlockResult_of :: "pmsg \<Rightarrow> BlockResult" where
  "BlockResult_of m = \<lparr>br_Head = map_option BlockResultHead_of (pb_sub (vals m ! 0)),
     br_Data = map_option BlockResultData_of (pb_sub (vals m ! 1)), br_XXX = unrecognized m\<rparr>"

definition BlockResult_Marshal :: "BlockResult \<Rightarrow> bytes" where
  "BlockResult_Marshal m = enc_msg (BlockResult_msg m)"

definition BlockResult_Size :: "BlockResult \<Rightarrow> nat" where
  "BlockResult_Size m = size_msg (BlockResult_msg m)"

definition BlockResult_Unmarshal :: "bytes \<Rightarrow> error + BlockResult" where
  "BlockResult_Unmarshal dAtA = map_sum id BlockResult_of (pb_Unmarshal BlockResult_kinds dAtA)"

definition BlockResult_plain :: "BlockResult \<Rightarrow> bool" where
  "BlockResult_plain m \<longleftrightarrow> br_XXX m = [] \<and> (case br_Head m of None \<Rightarrow> True | Some x \<Rightarrow> BlockResultHead_plain x) \<and> (case br_Data m of None \<Rightarrow> True | Some x \<Rightarrow> BlockResultData_plain x)"

lemma BlockResult_of_msg [simp]: "BlockResult_of (BlockResult_msg m) = m"
  by (simp add: BlockResult_of_def BlockResult_msg_def option.map_comp comp_def option.map_ident)

lemma BlockResult_conf: "BlockResult_plain m \<Longrightarrow> list_all2 conf BlockResult_kinds (vals (BlockResult_msg m)) \<and> unrecognized (BlockResult_msg m) = []"
  by (auto simp: BlockResult_kinds_def BlockResult_msg_def BlockResult_plain_def conf_fields split: option.splits
      intro!: conf_sub dest: BlockResultData_conf BlockResultHead_conf)

lemma BlockResult_small: "list_all small_kind BlockResult_kinds \<and> length BlockResult_kinds < 2 ^ 28"
  by (simp add: BlockResultData_kinds_def BlockResultHead_kinds_def BlockResult_kinds_def)

lemma BlockResult_roundtrip:
  "BlockResult_plain m \<Longrightarrow> length (BlockResult_Marshal m) < 2 ^ 63 \<Longrightarrow> BlockResult_Unmarshal (BlockResult_Marshal m) = Inr m"
  using pb_roundtrip [OF BlockResult_conf BlockResult_small, of m] by (simp add: BlockResult_Unmarshal_def BlockResult_Marshal_def)

subsection \<open>\<open>PubSubMessageBlockInfo\<close>\<close>

record PubSubMessageBlockInfo =
  bi_Block :: bytes
  bi_BlockResult :: bytes
  bi_XXX :: bytes

definition PubSubMessageBlockInfo_kinds :: "pkind list" where
  "PubSubMessageBlockInfo_kinds = [KBytes, KBytes]"

definition PubSubMessageBlockInfo_msg :: "PubSubMessageBlockInfo \<Rightarrow> pmsg" where
  "PubSubMessageBlockInfo_msg m = Msg [PBytes (bi_Block m), PBytes (bi_BlockResult m)] (bi_XXX m)"

definition PubSubMessageBlockInfo_of :: "pmsg \<Rightarrow> PubSubMessageBlockInfo" where
  "PubSubMessageBlockInfo_of m = \<lparr>bi_Block = pb_bytes (vals m ! 0), bi_BlockResult = pb_bytes (vals m ! 1), bi_XXX = unrecognized m\<rparr>"

definition PubSubMessageBlockInfo_Marshal :: "PubSubMessageBlockInfo \<Rightarrow> bytes" where
  "PubSubMessageBlockInfo_Marshal m = enc_msg (PubSubMessageBlockInfo_msg m)"

definition PubSubMessageBlockInfo_Size :: "PubSubMessageBlockInfo \<Rightarrow> nat" where
  "PubSubMessageBlockInfo_Size m = size_msg (PubSubMessageBlockInfo_msg m)"

definition PubSubMessageBlockInfo_Unmarshal :: "bytes \<Rightarrow> error + PubSubMessageBlockInfo" where
  "PubSubMessageBlockInfo_Unmarshal dAtA = map_sum id PubSubMessageBlockInfo_of (pb_Unmarshal PubSubMessageBlockInfo_kinds dAtA)"

definition PubSubMessageBlockInfo_plain :: "PubSubMessageBlockInfo \<Rightarrow> bool" where
  "PubSubMessageBlockInfo_plain m \<longleftrightarrow> bi_XXX m = []"

lemma PubSubMessageBlockInfo_of_msg [simp]: "PubSubMessageBlockInfo_of (PubSubMessageBlockInfo_msg m) = m"
  by (simp add: PubSubMessageBlockInfo_of_def PubSubMessageBlockInfo_msg_def option.map_comp comp_def option.map_ident)

lemma PubSubMessageBlockInfo_conf: "PubSubMessageBlockInfo_plain m \<Longrightarrow> list_all2 conf PubSubMessageBlockInfo_kinds (vals (PubSubMessageBlockInfo_msg m)) \<and> unrecognized (PubSubMessageBlockInfo_msg m) = []"
  by (simp add: PubSubMessageBlockInfo_kinds_def PubSubMessageBlockInfo_msg_def PubSubMessageBlockInfo_plain_def conf_fields)

lemma PubSubMessageBlockInfo_small: "list_all small_kind PubSubMessageBlockInfo_kinds \<and> length PubSubMessageBlockInfo_kinds < 2 ^ 28"
  by (simp add: PubSubMessageBlockInfo_kinds_def)

lemma PubSubMessageBlockInfo_roundtrip:
  "PubSubMessageBlockInfo_plain m \<Longrightarrow> length (PubSubMessageBlockInfo_Marshal m) < 2 ^ 63 \<Longrightarrow> PubSubMessageBlockInfo_Unmarshal (PubSubMessageBlockInfo_Marshal m) = Inr m"
  using pb_roundtrip [OF PubSubMessageBlockInfo_conf PubSubMessageBlockInfo_small, of m] by (simp add: PubSubMessageBlockInfo_Unmarshal_def PubSubMessageBlockInfo_Marshal_def)

subsection \<open>\<open>ChainMessage\<close>\<close>

record ChainMessage =
  cm_MsgType :: "32 word"
  cm_Data :: bytes
  cm_XXX :: bytes

definition ChainMessage_kinds :: "pkind list" where
  "ChainMessage_kinds = [KEnum, KBytes]"

definition ChainMessage_msg :: "ChainMessage \<Rightarrow> pmsg" where
  "ChainMessage_msg m = Msg [PNum (scast (cm_MsgType m)), PBytes (cm_Data m)] (cm_XXX m)"

definition ChainMessage_of :: "pmsg \<Rightarrow> ChainMessage" where
  "ChainMessage_of m = \<lparr>cm_MsgType = ucast (pb_num (vals m ! 0)), cm_Data = pb_bytes (vals m ! 1), cm_XXX = unrecognized m\<rparr>"

definition ChainMessage_Marshal :: "ChainMessage \<Rightarrow> bytes" where
  "ChainMessage_Marshal m = enc_msg (ChainMessage_msg m)"

definition ChainMessage_Size :: "ChainMessage \<Rightarrow> nat" where
  "ChainMessage_Size m = size_msg (ChainMessage_msg m)"

definition ChainMessage_Unmarshal :: "bytes \<Rightarrow> error + ChainMessage" where
  "ChainMessage_Unmarshal dAtA = map_sum id ChainMessage_of (pb_Unmarshal ChainMessage_kinds dAtA)"

definition ChainMessage_plain :: "ChainMessage \<Rightarrow> bool" where
  "ChainMessage_plain m \<longleftrightarrow> cm_XXX m = []"

lemma ChainMessage_of_msg [simp]: "ChainMessage_of (ChainMessage_msg m) = m"
  by (simp add: ChainMessage_of_def ChainMessage_msg_def option.map_comp comp_def option.map_ident)

lemma ChainMessage_conf: "ChainMessage_plain m \<Longrightarrow> list_all2 conf ChainMessage_kinds (vals (ChainMessage_msg m)) \<and> unrecognized (ChainMessage_msg m) = []"
  by (simp add: ChainMessage_kinds_def ChainMessage_msg_def ChainMessage_plain_def conf_fields)

lemma ChainMessage_small: "list_all small_kind ChainMessage_kinds \<and> length ChainMessage_kinds < 2 ^ 28"
  by (simp add: ChainMessage_kinds_def)

lemma ChainMessage_roundtrip:
  "ChainMessage_plain m \<Longrightarrow> length (ChainMessage_Marshal m) < 2 ^ 63 \<Longrightarrow> ChainMessage_Unmarshal (ChainMessage_Marshal m) = Inr m"
  using pb_roundtrip [OF ChainMessage_conf ChainMessage_small, of m] by (simp add: ChainMessage_Unmarshal_def ChainMessage_Marshal_def)

section \<open>Methods of blocks\<close>

text \<open>
  \<open>blake\<close> is the BLAKE2b hash of \<open>golang.org/x/crypto\<close>, a parameter. The proto marshaler of these messages has no failing branch.
\<close>

definition Block_HashBytes :: "(bytes \<Rightarrow> bytes) \<Rightarrow> Block \<Rightarrow> error + bytes" where
  "Block_HashBytes blake m = Inr (blake (Block_Marshal m))"

definition Block_BlockNum :: "Block \<Rightarrow> error + u64" where
  "Block_BlockNum m = (case blk_Head m of
     None \<Rightarrow> Inl (Panic ''nil pointer dereference'') | Some h \<Rightarrow> Inr (bh_Height h))"

definition Block_BlockHash :: "(bytes \<Rightarrow> bytes) \<Rightarrow> Block \<Rightarrow> error + string" where
  "Block_BlockHash blake m = map_sum id hex_encode (Block_HashBytes blake m)"

text \<open>\<open>fmt.Sprintf("%x", s)\<close> of a string is the hexadecimal form of its bytes.\<close>

definition Block_HashHex :: "(bytes \<Rightarrow> bytes) \<Rightarrow> Block \<Rightarrow> error + string" where
  "Block_HashHex blake m = map_sum id (\<lambda>h. hex_encode (str_bytes (hex_encode h))) (Block_HashBytes blake m)"

definition BlockHead_DeepCopy :: "BlockHead \<Rightarrow> error + BlockHead" where
  "BlockHead_DeepCopy src = BlockHead_Unmarshal (BlockHead_Marshal src)"

definition BlockResult_HashBytes :: "(bytes \<Rightarrow> bytes) \<Rightarrow> BlockResult \<Rightarrow> error + bytes" where
  "BlockResult_HashBytes hasher m = Inr (hasher (BlockResult_Marshal m))"

lemma HashHex_of_HashBytes:
  "Block_HashBytes blake m = Inr h \<Longrightarrow> length h > 0 \<Longrightarrow> Block_HashHex blake m \<noteq> Block_BlockHash blake m"
  by (auto simp: Block_HashHex_def Block_BlockHash_def str_bytes_def dest!: arg_cong [of _ _ length])

text \<open>
  (C20) Blocks survive the wire: for a block without unknown fields whose encoding has
  less than \<open>2\<^sup>6\<^sup>3\<close> bytes, \<open>Size\<close> is exactly the number of bytes that \<open>Marshal\<close> writes, and
  \<open>Unmarshal\<close> of these bytes returns the block.
\<close>

theorem block_wire_roundtrip:
  assumes "Block_plain b" "Block_Size b < 2 ^ 63"
  shows "length (Block_Marshal b) = Block_Size b \<and> Block_Unmarshal (Block_Marshal b) = Inr b"
proof -
  have "length (Block_Marshal b) = Block_Size b" by (simp add: Block_Marshal_def Block_Size_def length_enc)
  with Block_roundtrip [OF assms(1)] assms(2) show ?thesis by simp
qed

definition sample_head :: "u64 \<Rightarrow> bytes \<Rightarrow> BlockHead" where
  "sample_head height pri = (BlockHead_of (zero_msg BlockHead_kinds))\<lparr>bh_Height := height, bh_MaxPri := pri, bh_HeadChunks := [[1], [2, 3]]\<rparr>"

definition sample_block :: "u64 \<Rightarrow> bytes \<Rightarrow> Block" where
  "sample_block height pri = \<lparr>blk_Head = Some (sample_head height pri), blk_Data = None, blk_XXX = []\<rparr>"

theorem block_wire_roundtrip_witness:
  "Block_Marshal (sample_block 300 [9]) = [10, 13, 24, 172, 2, 90, 1, 9, 114, 1, 1, 114, 2, 2, 3] \<and>
   Block_Unmarshal [10, 13, 24, 172, 2, 90, 1, 9, 114, 1, 1, 114, 2, 2, 3] = Inr (sample_block 300 [9])"
proof -
  have e: "Block_Marshal (sample_block 300 [9]) = [10, 13, 24, 172, 2, 90, 1, 9, 114, 1, 1, 114, 2, 2, 3]" by code_simp
  have "Block_Size (sample_block 300 [9]) = length (Block_Marshal (sample_block 300 [9]))"
    by (simp add: Block_Marshal_def Block_Size_def length_enc)
  then have size: "Block_Size (sample_block 300 [9]) < 2 ^ 63" unfolding e by simp
  have "Block_plain (sample_block 300 [9])" by code_simp
  from block_wire_roundtrip [OF this size] show ?thesis unfolding e by simp
qed

end
