(* ===== verification/Chain_State.thy ===== *)
theory Chain_State
  imports Bytes_Store Block_Types Address
begin

text \<open>
  The chain state (\<open>src/state/chain\<close>) and the epoch state (\<open>src/state/epoch\<close>): the chain
  identifier, the network, the latest block and its result in the named store \<open>chain\<close>, and
  the latest epoch in the store \<open>epoch\<close>. Both keep a cache of the latest values in a global
  map by ledger identifier; the caches and the state of the ledger, which \<open>SetLatestBlock\<close>
  changes, are the record \<open>chain_env\<close>, passed along with the store.
\<close>

section \<open>The global caches\<close>

record EpochInfo =
  ei_Epoch :: u64
  ei_StartTimeStamp :: u64
  ei_StartHeight :: u64

record chain_env =
  latestBlockMap :: "string \<rightharpoonup> Block"
  latestBlockRSMap :: "string \<rightharpoonup> BlockResult"
  latestEpochMap :: "string \<rightharpoonup> EpochInfo option"
  ledgerState :: LedgerState

definition updateLatestBlock :: "chain_env \<Rightarrow> string \<Rightarrow> Block \<Rightarrow> chain_env" where
  "updateLatestBlock e ledgerID b = e\<lparr>latestBlockMap := (latestBlockMap e)(ledgerID \<mapsto> b)\<rparr>"

definition updateLatestBlockRS :: "chain_env \<Rightarrow> string \<Rightarrow> BlockResult \<Rightarrow> chain_env" where
  "updateLatestBlockRS e ledgerID b = e\<lparr>latestBlockRSMap := (latestBlockRSMap e)(ledgerID \<mapsto> b)\<rparr>"

definition updateLatestEpoch :: "chain_env \<Rightarrow> string \<Rightarrow> EpochInfo option \<Rightarrow> chain_env" where
  "updateLatestEpoch e ledgerID i = e\<lparr>latestEpochMap := (latestEpochMap e)(ledgerID \<mapsto> i)\<rparr>"

definition cached_LatestBlock :: "chain_env \<Rightarrow> string \<Rightarrow> error + Block" where
  "cached_LatestBlock e ledgerID = (case latestBlockMap e ledgerID of
     Some b \<Rightarrow> Inr b | None \<Rightarrow> Inl (ErrNil ''Nil latest block cache''))"

definition cached_LatestBlockResult :: "chain_env \<Rightarrow> string \<Rightarrow> error + BlockResult" where
  "cached_LatestBlockResult e ledgerID = (case latestBlockRSMap e ledgerID of
     Some b \<Rightarrow> Inr b | None \<Rightarrow> Inl (ErrNil ''Nil latest block result cache''))"

definition cached_LatestEpoch :: "chain_env \<Rightarrow> string \<Rightarrow> error + EpochInfo option" where
  "cached_LatestEpoch e ledgerID = (case latestEpochMap e ledgerID of
     Some i \<Rightarrow> Inr i | None \<Rightarrow> Inl (ErrNil ''Nil latest epoch cache''))"

section \<open>The chain state\<close>

abbreviation StateStore_Name_Chain :: string where "StateStore_Name_Chain \<equiv> ''chain''"
abbreviation ChainID_Key :: string where "ChainID_Key \<equiv> ''chainid''"
abbreviation NetworkType_Key :: string where "NetworkType_Key \<equiv> ''networktype''"
abbreviation LatestBlock_Key :: string where "LatestBlock_Key \<equiv> ''latestblock''"
abbreviation LatestBlockResult_Key :: string where "LatestBlockResult_Key \<equiv> ''latestblockresult''"

definition ChainID :: "('s, bytes) ss_ops \<Rightarrow> 's \<Rightarrow> string" where
  "ChainID S s = (case SS_GetStateData S s StateStore_Name_Chain (str_bytes ChainID_Key) of
     Inr (Some chainIDBytes) \<Rightarrow> bytes_str chainIDBytes | _ \<Rightarrow> [])"

text \<open>An empty value panics at its first byte.\<close>

definition NetworkType :: "('s, bytes) ss_ops \<Rightarrow> 's \<Rightarrow> error + byte" where
  "NetworkType S s = (case SS_GetStateData S s StateStore_Name_Chain (str_bytes NetworkType_Key) of
     Inr (Some netTypeBytes) \<Rightarrow> (case netTypeBytes of [] \<Rightarrow> Inl (Panic ''index out of range'') | b # _ \<Rightarrow> Inr b)
   | _ \<Rightarrow> Inr NetworkType_Unknown)"

definition GetChainRoot :: "('s, bytes) ss_ops \<Rightarrow> 's \<Rightarrow> error + bytes" where
  "GetChainRoot S s = SS_Root S s StateStore_Name_Chain"

text \<open>\<open>Unmarshal\<close> of nil decodes nothing, so a chain without blocks has the zero block.\<close>

definition GetLatestBlock :: "('s, bytes) ss_ops \<Rightarrow> string \<Rightarrow> 's \<Rightarrow> chain_env \<Rightarrow> chain_env \<times> (error + Block)" where
  "GetLatestBlock S ledgerID s e = (case SS_GetStateData S s StateStore_Name_Chain (str_bytes LatestBlock_Key) of
     Inl err \<Rightarrow> (e, Inl err)
   | Inr blockBytes \<Rightarrow>
       (case Block_Unmarshal (case blockBytes of None \<Rightarrow> [] | Some bs \<Rightarrow> bs) of
          Inl err \<Rightarrow> (e, Inl err)
        | Inr block \<Rightarrow> (if latestBlockMap e ledgerID = None then updateLatestBlock e ledgerID block else e, Inr block)))"

definition GetLatestBlockResult :: "('s, bytes) ss_ops \<Rightarrow> string \<Rightarrow> 's \<Rightarrow> chain_env \<Rightarrow> chain_env \<times> (error + BlockResult)" where
  "GetLatestBlockResult S ledgerID s e = (case SS_GetStateData S s StateStore_Name_Chain (str_bytes LatestBlockResult_Key) of
     Inl err \<Rightarrow> (e, Inl err)
   | Inr blockRSBytes \<Rightarrow>
       (case BlockResult_Unmarshal (case blockRSBytes of None \<Rightarrow> [] | Some bs \<Rightarrow> bs) of
          Inl err \<Rightarrow> (e, Inl err)
        | Inr blockRS \<Rightarrow> (if latestBlockRSMap e ledgerID = None then updateLatestBlockRS e ledgerID blockRS else e, Inr blockRS)))"

definition SetChainID :: "('s, bytes) ss_ops \<Rightarrow> 's \<Rightarrow> string \<Rightarrow> 's \<times> error option" where
  "SetChainID S s chainID =
     (if ChainID S s \<noteq> [] then (s, Some (ErrExists (ChainID S s)))
      else SS_Put S s StateStore_Name_Chain (str_bytes ChainID_Key) (Some (str_bytes chainID)))"

definition SetNetworkType :: "('s, bytes) ss_ops \<Rightarrow> 's \<Rightarrow> byte \<Rightarrow> 's \<times> error option" where
  "SetNetworkType S s netType = (case NetworkType S s of
     Inl err \<Rightarrow> (s, Some err)
   | Inr nType \<Rightarrow>
       if nType \<noteq> NetworkType_Unknown then (s, Some (ErrExists (NetworkType_String nType)))
       else SS_Put S s StateStore_Name_Chain (str_bytes ChainID_Key) (Some [netType]))"

definition exists_key :: "('s, bytes) ss_ops \<Rightarrow> 's \<Rightarrow> string \<Rightarrow> string \<Rightarrow> bool" where
  "exists_key S s name key = (case SS_Exists S s name (str_bytes key) of Inl _ \<Rightarrow> False | Inr b \<Rightarrow> b)"

definition SetLatestBlock ::
  "('s, bytes) ss_ops \<Rightarrow> string \<Rightarrow> 's \<Rightarrow> chain_env \<Rightarrow> Block option \<Rightarrow> ('s \<times> chain_env) \<times> error option" where
  "SetLatestBlock S ledgerID s e block = (case block of
     None \<Rightarrow> ((s, e), Some (ErrNil ''Nil block''))
   | Some b \<Rightarrow>
       (let blkBytes = Block_Marshal b;
            (s', err) = (if exists_key S s StateStore_Name_Chain LatestBlock_Key
              then SS_Update S s StateStore_Name_Chain (str_bytes LatestBlock_Key) (Some blkBytes)
              else SS_Put S s StateStore_Name_Chain (str_bytes LatestBlock_Key) (Some blkBytes)) in
        case err of
          Some _ \<Rightarrow> ((s', updateLatestBlock e ledgerID b), err)
        | None \<Rightarrow>
            (case blk_Head b of
               None \<Rightarrow> ((s', e), Some (Panic ''nil pointer dereference''))
             | Some h \<Rightarrow>
                 let e' = (if bh_Height h \<ge> 2 then e\<lparr>ledgerState := LedgerState_AutoInc\<rparr> else e) in
                 ((s', updateLatestBlock e' ledgerID b), err))))"

text \<open>The existence of the latest block decides how its result is written.\<close>

definition SetLatestBlockResult ::
  "('s, bytes) ss_ops \<Rightarrow> string \<Rightarrow> 's \<Rightarrow> chain_env \<Rightarrow> BlockResult option \<Rightarrow> ('s \<times> chain_env) \<times> error option" where
  "SetLatestBlockResult S ledgerID s e blockResult = (case blockResult of
     None \<Rightarrow> ((s, e), Some (ErrNil ''Nil block result''))
   | Some b \<Rightarrow>
       (let blkRSBytes = BlockResult_Marshal b;
            (s', err) = (if exists_key S s StateStore_Name_Chain LatestBlock_Key
              then SS_Update S s StateStore_Name_Chain (str_bytes LatestBlockResult_Key) (Some blkRSBytes)
              else SS_Put S s StateStore_Name_Chain (str_bytes LatestBlockResult_Key) (Some blkRSBytes)) in
        ((s', updateLatestBlockRS e ledgerID b), err)))"

section \<open>The epoch state\<close>

abbreviation StateStore_Name_Epoch :: string where "StateStore_Name_Epoch \<equiv> ''epoch''"
abbreviation LatestEpoch_Key :: string where "LatestEpoch_Key \<equiv> ''latestepoch''"

definition j_epoch :: "EpochInfo \<Rightarrow> json" where
  "j_epoch i = JObj [(''Epoch'', j_u64 (ei_Epoch i)), (''StartTimeStamp'', j_u64 (ei_StartTimeStamp i)), (''StartHeight'', j_u64 (ei_StartHeight i))]"

definition un_epoch :: "json \<Rightarrow> error + EpochInfo" where
  "un_epoch j = (case un_obj j of Inl err \<Rightarrow> Inl err | Inr ms \<Rightarrow>
     (case (un_u64 (field ''Epoch'' ms), un_u64 (field ''StartTimeStamp'' ms), un_u64 (field ''StartHeight'' ms)) of
        (Inr a, Inr b, Inr c) \<Rightarrow> Inr \<lparr>ei_Epoch = a, ei_StartTimeStamp = b, ei_StartHeight = c\<rparr>
      | _ \<Rightarrow> Inl ErrJson))"

definition marshal_epoch :: "EpochInfo option \<Rightarrow> bytes" where
  "marshal_epoch i = Marshal (j_ptr j_epoch i)"

definition unmarshal_epoch :: "bytes option \<Rightarrow> error + EpochInfo" where
  "unmarshal_epoch b = (case Unmarshal b of Inl err \<Rightarrow> Inl err | Inr j \<Rightarrow> un_epoch j)"

text \<open>
  The constructor adds the named store, which the composition of the states models, and
  does not set the identifier of the ledger.
\<close>

record epochState =
  es_ledgerID :: string

definition NewEpochState :: "string \<Rightarrow> epochState" where
  "NewEpochState ledgerID = \<lparr>es_ledgerID = []\<rparr>"

definition GetEpochRoot :: "('s, bytes) ss_ops \<Rightarrow> 's \<Rightarrow> error + bytes" where
  "GetEpochRoot S s = SS_Root S s StateStore_Name_Epoch"

definition GetLatestEpoch :: "('s, bytes) ss_ops \<Rightarrow> 's \<Rightarrow> error + EpochInfo option" where
  "GetLatestEpoch S s = (case SS_GetStateData S s StateStore_Name_Epoch (str_bytes LatestEpoch_Key) of
     Inl err \<Rightarrow> Inl err
   | Inr None \<Rightarrow> Inr None
   | Inr (Some bs) \<Rightarrow> map_sum id Some (unmarshal_epoch (Some bs)))"

definition SetLatestEpoch ::
  "('s, bytes) ss_ops \<Rightarrow> epochState \<Rightarrow> 's \<Rightarrow> chain_env \<Rightarrow> EpochInfo option \<Rightarrow> ('s \<times> chain_env) \<times> error option" where
  "SetLatestEpoch S es s e epoch =
     (let epochBytes = marshal_epoch epoch;
          (s', err) = (if exists_key S s StateStore_Name_Epoch LatestEpoch_Key
            then SS_Update S s StateStore_Name_Epoch (str_bytes LatestEpoch_Key) (Some epochBytes)
            else SS_Put S s StateStore_Name_Epoch (str_bytes LatestEpoch_Key) (Some epochBytes)) in
      ((s', updateLatestEpoch e (es_ledgerID es) epoch), err))"

lemma unmarshal_epoch_marshal: "unmarshal_epoch (Some (marshal_epoch (Some i))) = Inr i"
  by (simp add: unmarshal_epoch_def marshal_epoch_def Unmarshal_Marshal j_ptr_def j_epoch_def un_epoch_def field_def to_lower_def)

section \<open>What is set is read\<close>

lemma un_block_nil: "Block_Unmarshal [] = Inr (Block_of (zero_msg Block_kinds))"
  by (simp add: Block_Unmarshal_def pb_Unmarshal_def pb_dec.simps)

context bytes_store
begin

text \<open>Writing a value under a key, whichever of \<open>Put\<close> and \<open>Update\<close> does it.\<close>

lemma upsertE:
  assumes "ok s n" "key \<noteq> []"
  obtains s' where "(if c then SS_Update S s n (str_bytes key) (Some v) else SS_Put S s n (str_bytes key) (Some v)) = (s', None)"
    "changes s n s'" "data s' n = (data s n)(str_bytes key \<mapsto> v)"
proof -
  have k: "str_bytes key \<noteq> []" using assms(2) by simp
  obtain s' where "SS_Put S s n (str_bytes key) (Some v) = (s', None)" "changes s n s'" "data s' n = (data s n)(str_bytes key \<mapsto> v)"
    by (rule writeE [OF assms(1) k])
  with Update_Put [OF assms(1)] that show thesis by simp
qed

lemma SetLatestBlock_stores:
  assumes "ok s StateStore_Name_Chain" "blk_Head b = Some h"
  shows "\<exists>s'. SetLatestBlock S lid s e (Some b) =
      ((s', updateLatestBlock (if bh_Height h \<ge> 2 then e\<lparr>ledgerState := LedgerState_AutoInc\<rparr> else e) lid b), None) \<and>
    changes s StateStore_Name_Chain s' \<and>
    data s' StateStore_Name_Chain = (data s StateStore_Name_Chain)(str_bytes LatestBlock_Key \<mapsto> Block_Marshal b)"
proof -
  obtain s' where s': "(if exists_key S s StateStore_Name_Chain LatestBlock_Key
      then SS_Update S s StateStore_Name_Chain (str_bytes LatestBlock_Key) (Some (Block_Marshal b))
      else SS_Put S s StateStore_Name_Chain (str_bytes LatestBlock_Key) (Some (Block_Marshal b))) = (s', None)"
    "changes s StateStore_Name_Chain s'"
    "data s' StateStore_Name_Chain = (data s StateStore_Name_Chain)(str_bytes LatestBlock_Key \<mapsto> Block_Marshal b)"
    using upsertE [OF assms(1), of LatestBlock_Key] by blast
  then show ?thesis using assms(2) by (simp add: SetLatestBlock_def Let_def)
qed

lemma GetLatestBlock_reads:
  assumes "ok s StateStore_Name_Chain" "data s StateStore_Name_Chain (str_bytes LatestBlock_Key) = Some (Block_Marshal b)"
    and "Block_Unmarshal (Block_Marshal b) = Inr b"
  shows "snd (GetLatestBlock S lid s e) = Inr b"
  using assms by (simp add: GetLatestBlock_def GetStateData str_bytes_def)

lemma SetNetworkType_loses:
  assumes "ok s StateStore_Name_Chain" "data s StateStore_Name_Chain = Map.empty" "cid \<noteq> []"
  shows "\<exists>s1 s2. SetChainID S s cid = (s1, None) \<and> ChainID S s1 = cid \<and> SetNetworkType S s1 nt = (s2, None) \<and>
    NetworkType S s2 = Inr NetworkType_Unknown \<and> ChainID S s2 = bytes_str [nt]"
proof -
  have k: "str_bytes ChainID_Key \<noteq> []" "str_bytes NetworkType_Key \<noteq> []" "str_bytes NetworkType_Key \<noteq> str_bytes ChainID_Key" by simp_all
  obtain s1 where s1: "SS_Put S s StateStore_Name_Chain (str_bytes ChainID_Key) (Some (str_bytes cid)) = (s1, None)"
    "changes s StateStore_Name_Chain s1"
    "data s1 StateStore_Name_Chain = (data s StateStore_Name_Chain)(str_bytes ChainID_Key \<mapsto> str_bytes cid)"
    by (rule writeE [OF assms(1) k(1)])
  have ok1: "ok s1 StateStore_Name_Chain" using changes_ok [OF s1(2) assms(1)] .
  obtain s2 where s2: "SS_Put S s1 StateStore_Name_Chain (str_bytes ChainID_Key) (Some [nt]) = (s2, None)"
    "changes s1 StateStore_Name_Chain s2"
    "data s2 StateStore_Name_Chain = (data s1 StateStore_Name_Chain)(str_bytes ChainID_Key \<mapsto> [nt])"
    by (rule writeE [OF ok1 k(1)])
  have ok2: "ok s2 StateStore_Name_Chain" using changes_ok [OF s2(2) ok1] .
  have "ChainID S s = []" using assms k by (simp add: ChainID_def GetStateData)
  then have "SetChainID S s cid = (s1, None)" using s1(1) by (simp add: SetChainID_def)
  moreover have "ChainID S s1 = cid" using ok1 s1(3) k by (simp add: ChainID_def GetStateData)
  moreover have "NetworkType S s1 = Inr NetworkType_Unknown" using ok1 s1(3) k assms(2) by (simp add: NetworkType_def GetStateData)
  moreover have "NetworkType S s2 = Inr NetworkType_Unknown" "ChainID S s2 = bytes_str [nt]"
    using ok2 s2(3) s1(3) k assms(2) by (simp_all add: NetworkType_def ChainID_def GetStateData)
  ultimately show ?thesis using s2(1) by (simp add: SetNetworkType_def)
qed

lemma SetLatestEpoch_stores:
  assumes "ok s StateStore_Name_Epoch"
  shows "\<exists>s'. SetLatestEpoch S es s e (Some i) = ((s', updateLatestEpoch e (es_ledgerID es) (Some i)), None) \<and>
    changes s StateStore_Name_Epoch s' \<and> GetLatestEpoch S s' = Inr (Some i)"
proof -
  obtain s' where s': "(if exists_key S s StateStore_Name_Epoch LatestEpoch_Key
      then SS_Update S s StateStore_Name_Epoch (str_bytes LatestEpoch_Key) (Some (marshal_epoch (Some i)))
      else SS_Put S s StateStore_Name_Epoch (str_bytes LatestEpoch_Key) (Some (marshal_epoch (Some i)))) = (s', None)"
    "changes s StateStore_Name_Epoch s'"
    "data s' StateStore_Name_Epoch = (data s StateStore_Name_Epoch)(str_bytes LatestEpoch_Key \<mapsto> marshal_epoch (Some i))"
    using upsertE [OF assms, of LatestEpoch_Key] by blast
  moreover have "ok s' StateStore_Name_Epoch" using changes_ok [OF s'(2) assms] .
  ultimately show ?thesis
    by (simp add: SetLatestEpoch_def Let_def GetLatestEpoch_def GetStateData unmarshal_epoch_marshal)
qed

end

text \<open>
  The latest block: setting a block with a head succeeds, the block is then read
  back from the store and is in the cache of its ledger, the other ledgers' caches are as
  they were, and the ledger leaves its genesis state exactly when the height is at
  least 2.
\<close>

theorem latest_block_set_get:
  fixes B :: "('t, bytes) btree_ops"
  assumes "ledger_libs B M" "ledger_ok B s StateStore_Name_Chain"
    and "blk_Head b = Some h" "Block_plain b" "Block_Size b < 2 ^ 63"
  shows "\<exists>s' e'. SetLatestBlock (ledger_ops B M) lid s e (Some b) = ((s', e'), None) \<and>
    snd (GetLatestBlock (ledger_ops B M) lid s' e') = Inr b \<and> cached_LatestBlock e' lid = Inr b \<and>
    (\<forall>lid'. lid' \<noteq> lid \<longrightarrow> cached_LatestBlock e' lid' = cached_LatestBlock e lid') \<and>
    ledgerState e' = (if bh_Height h \<ge> 2 then LedgerState_AutoInc else ledgerState e)"
proof -
  note l = ledger_bytes_store [OF assms(1)]
  obtain s' where s': "SetLatestBlock (ledger_ops B M) lid s e (Some b) =
      ((s', updateLatestBlock (if bh_Height h \<ge> 2 then e\<lparr>ledgerState := LedgerState_AutoInc\<rparr> else e) lid b), None)"
    "bytes_store.changes (ledger_data B) (ledger_ok B) s StateStore_Name_Chain s'"
    "ledger_data B s' StateStore_Name_Chain = (ledger_data B s StateStore_Name_Chain)(str_bytes LatestBlock_Key \<mapsto> Block_Marshal b)"
    using bytes_store.SetLatestBlock_stores [OF l, of s b h lid e, OF assms(2,3)] by (elim exE conjE)
  have "length (Block_Marshal b) = Block_Size b" by (simp add: Block_Marshal_def Block_Size_def length_enc)
  then have rt: "Block_Unmarshal (Block_Marshal b) = Inr b" using Block_roundtrip [OF assms(4)] assms(5) by simp
  have ok: "ledger_ok B s' StateStore_Name_Chain" using bytes_store.changes_ok [OF l s'(2)] assms(2) by simp
  let ?e = "updateLatestBlock (if bh_Height h \<ge> 2 then e\<lparr>ledgerState := LedgerState_AutoInc\<rparr> else e) lid b"
  have "snd (GetLatestBlock (ledger_ops B M) lid s' ?e) = Inr b"
    using bytes_store.GetLatestBlock_reads [OF l, of s' b lid ?e] ok rt s'(3) by simp
  with s'(1) show ?thesis
    by (intro exI [of _ s'] exI [of _ ?e]) (simp add: cached_LatestBlock_def updateLatestBlock_def)
qed

definition sample_env :: chain_env where
  "sample_env = \<lparr>latestBlockMap = Map.empty, latestBlockRSMap = Map.empty, latestEpochMap = Map.empty, ledgerState = LedgerState_Genesis\<rparr>"

lemma chain_names_ok: "\<forall>n \<in> set [''chain'', ''epoch'']. name_ok n"
  by code_simp

lemma sample_block_size: "Block_plain (sample_block 300 [9]) \<and> Block_Size (sample_block 300 [9]) < 2 ^ 63"
proof -
  have "length (Block_Marshal (sample_block 300 [9])) = 15" by code_simp
  then have "Block_Size (sample_block 300 [9]) = 15" by (simp add: Block_Marshal_def Block_Size_def length_enc)
  moreover have "Block_plain (sample_block 300 [9])" by code_simp
  ultimately show ?thesis by simp
qed

theorem latest_block_set_get_witness:
  "\<exists>s' e'. SetLatestBlock (ledger_ops rbt_ops sample_bytes_smt) ''L'' (sample_open [''chain'', ''epoch'']) sample_env (Some (sample_block 300 [9])) =
      ((s', e'), None) \<and>
    snd (GetLatestBlock (ledger_ops rbt_ops sample_bytes_smt) ''L'' s' e') = Inr (sample_block 300 [9]) \<and> ledgerState e' = LedgerState_AutoInc"
proof -
  have ok: "ledger_ok rbt_ops (sample_open [''chain'', ''epoch'']) ''chain''" using sample_open_ok [OF chain_names_ok] by simp
  have h: "blk_Head (sample_block 300 [9]) = Some (sample_head 300 [9])" by (simp add: sample_block_def)
  from latest_block_set_get [OF sample_libs ok h, of "''L''" sample_env] sample_block_size show ?thesis
    by (auto simp: sample_head_def)
qed

text \<open>
  Setting the network type of a chain loses the chain identifier: it is written
  under the key of the identifier. Both calls succeed; afterwards the network type is
  still unknown, and the identifier is the one-byte string of the network.
\<close>

theorem SetNetworkType_overwrites_chain_id:
  fixes B :: "('t, bytes) btree_ops"
  assumes "ledger_libs B M" "ledger_ok B s StateStore_Name_Chain \<and> ledger_data B s StateStore_Name_Chain = Map.empty" "cid \<noteq> []"
  shows "\<exists>s1 s2. SetChainID (ledger_ops B M) s cid = (s1, None) \<and> ChainID (ledger_ops B M) s1 = cid \<and>
    SetNetworkType (ledger_ops B M) s1 nt = (s2, None) \<and>
    NetworkType (ledger_ops B M) s2 = Inr NetworkType_Unknown \<and> ChainID (ledger_ops B M) s2 = bytes_str [nt]"
  using bytes_store.SetNetworkType_loses [OF ledger_bytes_store [OF assms(1)], of s cid nt] assms(2,3) by simp

theorem SetNetworkType_overwrites_chain_id_witness:
  "\<exists>s1 s2. SetChainID (ledger_ops rbt_ops sample_bytes_smt) (sample_open [''chain'', ''epoch'']) ''9'' = (s1, None) \<and>
    SetNetworkType (ledger_ops rbt_ops sample_bytes_smt) s1 NetworkType_Testnet = (s2, None) \<and>
    ChainID (ledger_ops rbt_ops sample_bytes_smt) s2 = bytes_str [NetworkType_Testnet]"
proof -
  have "ledger_ok rbt_ops (sample_open [''chain'', ''epoch'']) ''chain'' \<and> ledger_data rbt_ops (sample_open [''chain'', ''epoch'']) ''chain'' = Map.empty"
    using sample_open_ok [OF chain_names_ok] by simp
  from SetNetworkType_overwrites_chain_id [OF sample_libs this, of "''9''" NetworkType_Testnet] show ?thesis by auto
qed

text \<open>
  The epoch cache is never found: after the epoch of a ledger with a non-empty
  identifier was set through an epoch state created for that ledger, the store answers
  the new epoch, but the cache of the ledger is what it was, because the constructor
  drops the identifier and the cache entry is made under the empty one.
\<close>

theorem epoch_cache_misses:
  fixes B :: "('t, bytes) btree_ops"
  assumes "ledger_libs B M" "ledger_ok B s StateStore_Name_Epoch" "lid \<noteq> []"
  shows "\<exists>s' e'. SetLatestEpoch (ledger_ops B M) (NewEpochState lid) s e (Some i) = ((s', e'), None) \<and>
    GetLatestEpoch (ledger_ops B M) s' = Inr (Some i) \<and>
    cached_LatestEpoch e' lid = cached_LatestEpoch e lid \<and> cached_LatestEpoch e' [] = Inr (Some i)"
proof -
  obtain s' where s': "SetLatestEpoch (ledger_ops B M) (NewEpochState lid) s e (Some i) =
      ((s', updateLatestEpoch e (es_ledgerID (NewEpochState lid)) (Some i)), None)" "GetLatestEpoch (ledger_ops B M) s' = Inr (Some i)"
    using bytes_store.SetLatestEpoch_stores [OF ledger_bytes_store [OF assms(1)], of s "NewEpochState lid" e i] assms(2) by auto
  then show ?thesis using assms(3) by (simp add: cached_LatestEpoch_def updateLatestEpoch_def NewEpochState_def)
qed

theorem epoch_cache_misses_witness:
  "\<exists>s' e'. SetLatestEpoch (ledger_ops rbt_ops sample_bytes_smt) (NewEpochState ''L'') (sample_open [''chain'', ''epoch'']) sample_env
      (Some \<lparr>ei_Epoch = 1, ei_StartTimeStamp = 2, ei_StartHeight = 3\<rparr>) = ((s', e'), None) \<and>
    cached_LatestEpoch e' ''L'' = Inl (ErrNil ''Nil latest epoch cache'')"
proof -
  have ok: "ledger_ok rbt_ops (sample_open [''chain'', ''epoch'']) ''epoch''" using sample_open_ok [OF chain_names_ok] by simp
  from epoch_cache_misses [OF sample_libs ok, of "''L''" sample_env "\<lparr>ei_Epoch = 1, ei_StartTimeStamp = 2, ei_StartHeight = 3\<rparr>"] show ?thesis
    by (auto simp: cached_LatestEpoch_def sample_env_def)
qed

end
