(* ===== verification/Composition.thy ===== *)
theory Composition
  imports Node_Registry Domain_State Account_State Chain_State
begin

text \<open>
  The composition of the states (\<open>src/state/composition.go\<close>): one state store with the
  named stores of accounts, chain, domains, nodes and epochs. The constructors of the
  states add their named stores to the state store and drop the error of it; the
  operations of a composed state are those of its parts on the one store.
\<close>

section \<open>Constructors\<close>

definition add_named :: "('t, bytes) btree_ops \<Rightarrow> ('t, bytes, 'p) memdb_smt \<Rightarrow> string \<Rightarrow> ('t, bytes) stateStore \<Rightarrow> ('t, bytes) stateStore" where
  "add_named B M name s = fst (ss_AddNamedStateStore B M s name 1)"

definition NewAccountState where
  "NewAccountState B M = add_named B M StateStore_Name_Account"
definition NewChainStore where
  "NewChainStore B M = add_named B M StateStore_Name_Chain"
definition NewEpochState_store where
  "NewEpochState_store B M = add_named B M StateStore_Name_Epoch"
definition NewNodeExecuteDomainState where
  "NewNodeExecuteDomainState B M = add_named B M StateStore_Name_NodeExecuteDomain"
definition NewNodeConsensusDomainState where
  "NewNodeConsensusDomainState B M = add_named B M StateStore_Name_NodeConsensusDomain"
definition NewNodeDomainState where
  "NewNodeDomainState B M = add_named B M StateStore_Name_NodeDomain"
definition NewNodeInactiveState where
  "NewNodeInactiveState B M = add_named B M ''nodeinactive''"
definition NewNodeExecutorState where
  "NewNodeExecutorState B M = add_named B M ''executor''"
definition NewNodeProposerState where
  "NewNodeProposerState B M = add_named B M ''proposer''"
definition NewNodeValidatorState where
  "NewNodeValidatorState B M = add_named B M ''validator''"
definition NewNodeState where
  "NewNodeState B M = add_named B M StateStore_Name_Node"

lemmas constructor_defs = NewAccountState_def NewChainStore_def NewEpochState_store_def NewNodeExecuteDomainState_def
  NewNodeConsensusDomainState_def NewNodeDomainState_def NewNodeInactiveState_def NewNodeExecutorState_def
  NewNodeProposerState_def NewNodeValidatorState_def NewNodeState_def

datatype CompSState = CompSState_Unknown | CompSState_Idle | CompSState_Executed | CompSState_Commited

record 't compositionState =
  cs_store :: "('t, bytes) stateStore"
  cs_stateVersion :: u64
  cs_state :: CompSState

definition createCompositionStateWithStateStore ::
  "('t, bytes) btree_ops \<Rightarrow> ('t, bytes, 'p) memdb_smt \<Rightarrow> u64 \<Rightarrow> ('t, bytes) stateStore \<Rightarrow> 't compositionState" where
  "createCompositionStateWithStateStore B M stateVersion s =
     (let s1 = NewNodeExecuteDomainState B M s;
          s2 = NewNodeConsensusDomainState B M s1;
          s3 = NewNodeDomainState B M s2;
          s4 = NewNodeInactiveState B M s3;
          s5 = NewNodeExecutorState B M s4;
          s6 = NewNodeProposerState B M s5;
          s7 = NewNodeValidatorState B M s6;
          s8 = NewNodeState B M s7;
          s9 = NewAccountState B M s8;
          s10 = NewChainStore B M s9;
          s11 = NewEpochState_store B M s10
      in \<lparr>cs_store = s11, cs_stateVersion = stateVersion, cs_state = CompSState_Unknown\<rparr>)"

text \<open>A store that could not be created is nil, and adding a named store to it panics.\<close>

definition createCompositionState ::
  "('t, bytes) btree_ops \<Rightarrow> ('t, bytes, 'p) memdb_smt \<Rightarrow> 't ledger \<Rightarrow> u64 \<Rightarrow> error + 't compositionState" where
  "createCompositionState B M l stateVersion = (case lg_CreateStateStore l of
     Inl _ \<Rightarrow> Inl (Panic ''nil pointer dereference'')
   | Inr s \<Rightarrow> Inr ((createCompositionStateWithStateStore B M stateVersion s)\<lparr>cs_state := CompSState_Idle\<rparr>))"

definition CreateCompositionStateReadonly ::
  "('t, bytes) btree_ops \<Rightarrow> ('t, bytes, 'p) memdb_smt \<Rightarrow> 't ledger \<Rightarrow> error + 't compositionState" where
  "CreateCompositionStateReadonly B M l = (case lg_CreateStateStoreReadonly l of
     Inl _ \<Rightarrow> Inl (Panic ''nil pointer dereference'')
   | Inr s \<Rightarrow> Inr (createCompositionStateWithStateStore B M 0 s))"

definition CreateCompositionStateReadonlyAt ::
  "('t, bytes) btree_ops \<Rightarrow> ('t, bytes, 'p) memdb_smt \<Rightarrow> 't ledger \<Rightarrow> u64 \<Rightarrow> error + 't compositionState" where
  "CreateCompositionStateReadonlyAt B M l version = (case lg_CreateStateStoreReadonlyAt l version of
     Inl _ \<Rightarrow> Inl (Panic ''nil pointer dereference'')
   | Inr s \<Rightarrow> Inr (createCompositionStateWithStateStore B M 0 s))"

text \<open>A copy in memory: a state on a new ledger, into which the store is cloned.\<close>

definition CreateCompositionStateMem ::
  "('t, bytes) btree_ops \<Rightarrow> ('t, bytes, 'p) memdb_smt \<Rightarrow> 't compositionState \<Rightarrow> error + 't compositionState option" where
  "CreateCompositionStateMem B M compState =
     (case createCompositionState B M (NewLedger B []) 1 of
        Inl e \<Rightarrow> Inl e
      | Inr compS \<Rightarrow>
          (case ss_Clone B (cs_store compState) (cs_store compS) of
             (_, Some err) \<Rightarrow> Inr None
           | (s', None) \<Rightarrow> Inr (Some (compS\<lparr>cs_store := s'\<rparr>))))"

definition SnapToMem where
  "SnapToMem B M cs = CreateCompositionStateMem B M cs"

definition UpdateCompSState :: "'t compositionState \<Rightarrow> CompSState \<Rightarrow> 't compositionState" where
  "UpdateCompSState cs st = cs\<lparr>cs_state := st\<rparr>"

section \<open>Reads on the ledger\<close>

text \<open>The identifiers of the active nodes, each time from a read-only state of its own.\<close>

definition ids_readonly ::
  "(('t, bytes) stateStore \<Rightarrow> error + string list option) \<Rightarrow> ('t, bytes) btree_ops \<Rightarrow> ('t, bytes, 'p) memdb_smt \<Rightarrow> 't ledger \<Rightarrow>
   error + string list option" where
  "ids_readonly get B M l = (case CreateCompositionStateReadonly B M l of
     Inl e \<Rightarrow> Inl e
   | Inr csStateRN \<Rightarrow> Inr (case get (cs_store csStateRN) of Inl _ \<Rightarrow> None | Inr ids \<Rightarrow> ids))"

definition nw_GetActiveExecutorIDs where
  "nw_GetActiveExecutorIDs B M l = ids_readonly (GetActiveExecutorIDs (ledger_ops B M)) B M l"
definition nw_GetActiveProposerIDs where
  "nw_GetActiveProposerIDs B M l = ids_readonly (GetActiveProposerIDs (ledger_ops B M)) B M l"
definition nw_GetActiveValidatorIDs where
  "nw_GetActiveValidatorIDs B M l = ids_readonly (GetActiveValidatorIDs (ledger_ops B M)) B M l"

text \<open>The latest block, its result and the latest epoch: from the caches of the process, else from a read-only store.\<close>

definition lg_GetLatestBlock ::
  "('t, bytes) btree_ops \<Rightarrow> ('t, bytes, 'p) memdb_smt \<Rightarrow> 't ledger \<Rightarrow> chain_env \<Rightarrow> chain_env \<times> (error + Block)" where
  "lg_GetLatestBlock B M l e = (case cached_LatestBlock e (lg_id l) of
     Inr b \<Rightarrow> (e, Inr b)
   | Inl _ \<Rightarrow> (case lg_CreateStateStoreReadonly l of
       Inl _ \<Rightarrow> (e, Inl (Panic ''nil pointer dereference''))
     | Inr s \<Rightarrow> GetLatestBlock (ledger_ops B M) (lg_id l) (NewChainStore B M s) e))"

definition lg_GetLatestBlockResult ::
  "('t, bytes) btree_ops \<Rightarrow> ('t, bytes, 'p) memdb_smt \<Rightarrow> 't ledger \<Rightarrow> chain_env \<Rightarrow> chain_env \<times> (error + BlockResult)" where
  "lg_GetLatestBlockResult B M l e = (case cached_LatestBlockResult e (lg_id l) of
     Inr b \<Rightarrow> (e, Inr b)
   | Inl _ \<Rightarrow> (case lg_CreateStateStoreReadonly l of
       Inl _ \<Rightarrow> (e, Inl (Panic ''nil pointer dereference''))
     | Inr s \<Rightarrow> GetLatestBlockResult (ledger_ops B M) (lg_id l) (NewChainStore B M s) e))"

definition lg_GetLatestEpoch ::
  "('t, bytes) btree_ops \<Rightarrow> ('t, bytes, 'p) memdb_smt \<Rightarrow> 't ledger \<Rightarrow> chain_env \<Rightarrow> error + EpochInfo option" where
  "lg_GetLatestEpoch B M l e = (case cached_LatestEpoch e (lg_id l) of
     Inr i \<Rightarrow> Inr i
   | Inl _ \<Rightarrow> (case lg_CreateStateStoreReadonly l of
       Inl _ \<Rightarrow> Inl (Panic ''nil pointer dereference'')
     | Inr s \<Rightarrow> GetLatestEpoch (ledger_ops B M) (NewEpochState_store B M s)))"

section \<open>The state root\<close>

text \<open>The first error of a sequence of calls, or all results.\<close>

fun all_results :: "(error + 'a) list \<Rightarrow> error + 'a list" where
  "all_results [] = Inr []"
| "all_results (r # rs) = (case r of Inl e \<Rightarrow> Inl e | Inr x \<Rightarrow> map_sum id (\<lambda>xs. x # xs) (all_results rs))"

definition comp_roots :: "('s, bytes) ss_ops \<Rightarrow> 's \<Rightarrow> (error + bytes) list" where
  "comp_roots S s = [GetAccountRoot S s, GetChainRoot S s, GetNodeDomainRoot S s, GetNodeExecuteDomainRoot S s,
     GetNodeConsensusDomainRoot S s, GetNodeInactiveRoot S s, GetNodeRoot S s, GetNodeExecutorRoot S s,
     GetNodeProposerRoot S s, GetNodeValidatorRoot S s, GetEpochRoot S s]"

text \<open>\<open>tree_root us\<close> is the root of an empty sparse Merkle tree after the updates \<open>us\<close>.\<close>

definition StateRoot :: "((bytes \<times> bytes) list \<Rightarrow> bytes) \<Rightarrow> ('s, bytes) ss_ops \<Rightarrow> 's \<Rightarrow> error + bytes" where
  "StateRoot tree_root S s = map_sum id (\<lambda>roots. tree_root (map (\<lambda>r. (r, r)) roots)) (all_results (comp_roots S s))"

lemma all_results_map: "all_results (map Inr xs) = Inr xs"
  by (induction xs) simp_all

lemma map_of_diag: "map_of (rev (map (\<lambda>r. (r, r)) xs)) = (\<lambda>k. if k \<in> set xs then Some k else None)"
proof
  fix k show "map_of (rev (map (\<lambda>r. (r, r)) xs)) k = (if k \<in> set xs then Some k else None)"
    by (induction xs) (auto simp: map_add_def split: option.splits)
qed

text \<open>
  (C31) The state root does not say which store has which root: it is the root of a tree
  in which every store's root is both the key and the value, so for any tree whose root
  depends only on its entries, two states whose stores have the same roots in any order,
  or with any repetition, have the same state root.
\<close>

theorem StateRoot_forgets_stores:
  assumes "\<forall>us vs. map_of (rev us) = map_of (rev vs) \<longrightarrow> tree_root us = tree_root vs"
    and "comp_roots S s = map Inr rs" "comp_roots S s' = map Inr rs'" "set rs = set rs'"
  shows "StateRoot tree_root S s = StateRoot tree_root S s' \<and> StateRoot tree_root S s = Inr (tree_root (map (\<lambda>r. (r, r)) rs))"
proof -
  have "map_of (rev (map (\<lambda>r. (r, r)) rs)) = map_of (rev (map (\<lambda>r. (r, r)) rs'))" by (simp add: map_of_diag assms(4))
  with assms(1) have "tree_root (map (\<lambda>r. (r, r)) rs) = tree_root (map (\<lambda>r. (r, r)) rs')" by blast
  then show ?thesis by (simp add: StateRoot_def assms(2,3) all_results_map)
qed

text \<open>Two states that differ in whose root is 1, and a digest of the entries.\<close>

definition sample_roots :: "(string, bytes) ss_ops" where
  "sample_roots = \<lparr>SS_Put = \<lambda>s _ _ _. (s, None), SS_Delete = \<lambda>s _ _. (s, None), SS_Update = \<lambda>s _ _ _. (s, None),
     SS_Exists = \<lambda>_ _ _. Inr True, SS_GetStateData = \<lambda>_ _ _. Inr None,
     SS_GetState = \<lambda>_ _ _. (None, None, None), SS_GetAllStateData = \<lambda>_ _. Inr ([], []),
     SS_IterateAllStateDataCB = \<lambda>_ _. Inr [], SS_Root = \<lambda>s n. Inr (if n = s then [1] else [2])\<rparr>"

definition sample_tree :: "(bytes \<times> bytes) list \<Rightarrow> bytes" where
  "sample_tree us = map (\<lambda>b. if map_of (rev us) [b] = Some [b] then 1 else 0) [0, 1, 2]"

theorem StateRoot_forgets_stores_witness:
  "StateRoot sample_tree sample_roots ''account'' = StateRoot sample_tree sample_roots ''executor'' \<and>
   GetAccountRoot sample_roots ''account'' \<noteq> GetAccountRoot sample_roots ''executor''"
proof -
  have "\<forall>us vs. map_of (rev us) = map_of (rev vs) \<longrightarrow> sample_tree us = sample_tree vs"
    by (simp add: sample_tree_def)
  moreover have "comp_roots sample_roots ''account'' = map Inr [[1], [2], [2], [2], [2], [2], [2], [2], [2], [2], [2]]"
    "comp_roots sample_roots ''executor'' = map Inr [[2], [2], [2], [2], [2], [2], [2], [1], [2], [2], [2]]"
    by code_simp+
  moreover have "set [[1 :: byte], [2], [2], [2], [2], [2], [2], [2], [2], [2], [2]] = set [[2], [2], [2], [2], [2], [2], [2], [1], [2], [2], [2]]"
    by (simp only: list.set insert_commute insert_absorb2)
  ultimately have "StateRoot sample_tree sample_roots ''account'' = StateRoot sample_tree sample_roots ''executor''"
    by (rule StateRoot_forgets_stores [THEN conjunct1])
  then show ?thesis by (simp add: GetAccountRoot_def sample_roots_def)
qed

section \<open>Sessions\<close>

definition comp_names :: "string list" where
  "comp_names = [StateStore_Name_NodeExecuteDomain, StateStore_Name_NodeConsensusDomain, StateStore_Name_NodeDomain,
     ''nodeinactive'', ''executor'', ''proposer'', ''validator'', StateStore_Name_Node,
     StateStore_Name_Account, StateStore_Name_Chain, StateStore_Name_Epoch]"

lemma comp_names_ok: "\<forall>n \<in> set comp_names. name_ok n"
  by code_simp

lemma create_open_named:
  "createCompositionStateWithStateStore B M v s =
     \<lparr>cs_store = open_named B M comp_names s, cs_stateVersion = v, cs_state = CompSState_Unknown\<rparr>"
  by (simp add: createCompositionStateWithStateStore_def constructor_defs add_named_def comp_names_def Let_def)

text \<open>The ledger after a composed state was committed.\<close>

definition ledger_after :: "'t ledger \<Rightarrow> 't compositionState \<Rightarrow> 't ledger" where
  "ledger_after l cs = l\<lparr>lg_backendStateDB := st_db (cs_store cs)\<rparr>"

definition cs_Commit :: "'t compositionState \<Rightarrow> 't compositionState \<times> error option" where
  "cs_Commit cs = (case ss_Commit (cs_store cs) of (s, err) \<Rightarrow> (cs\<lparr>cs_store := s\<rparr>, err))"

text \<open>
  A part of a composed state works on its own named stores. The contract of a store
  restricts to a set of names and to the states that agree outside of it, so every lemma
  about a part also says that the part leaves the other stores alone.
\<close>

lemma reg_repr_cong: "reg_repr d R \<Longrightarrow> (\<And>m. m \<in> set reg_names \<Longrightarrow> d' m = d m) \<Longrightarrow> reg_repr d' R"
  unfolding reg_repr_def by (auto simp: reg_names_def cfg_of_name split: node_kind.splits)

context state_store
begin

lemma restrict:
  assumes "\<And>s n k v. ok s n \<Longrightarrow> n \<in> N \<Longrightarrow> k \<noteq> [] \<Longrightarrow> P (fst (SS_Put S s n k (Some v))) = P s"
    and "\<And>s n k. ok s n \<Longrightarrow> n \<in> N \<Longrightarrow> k \<noteq> [] \<Longrightarrow> P (fst (SS_Delete S s n k)) = P s"
  shows "state_store S data (\<lambda>s n. ok s n \<and> n \<in> N \<and> P s)"
  by unfold_locales
    (simp_all add: assms Put_err Put_ok Put_data Update_Put Delete_err Delete_ok Delete_data Exists GetStateData GetState
      GetAllStateData IterateAllStateDataCB Root)

definition frame :: "string set \<Rightarrow> 's \<Rightarrow> 's \<Rightarrow> bool" where
  "frame N s0 s \<longleftrightarrow> (\<forall>n. ok s n \<longleftrightarrow> ok s0 n) \<and> (\<forall>n. n \<notin> N \<and> ok s0 n \<longrightarrow> data s n = data s0 n)"

lemma frame_refl: "frame N s s"
  by (simp add: frame_def)

lemma restrict_names: "state_store S data (\<lambda>s n. ok s n \<and> n \<in> N \<and> frame N s0 s)"
proof (rule restrict)
  fix s n and k :: bytes and v assume "ok s n" "n \<in> N" "k \<noteq> []"
  moreover from this have "data (fst (SS_Put S s n k (Some v))) m = data s m" if "m \<notin> N" "ok s m" for m
    using that by (auto simp: Put_data)
  ultimately show "frame N s0 (fst (SS_Put S s n k (Some v))) = frame N s0 s"
    unfolding frame_def by (simp add: Put_ok) metis
next
  fix s n and k :: bytes assume "ok s n" "n \<in> N" "k \<noteq> []"
  moreover from this have "data (fst (SS_Delete S s n k)) m = data s m" if "m \<notin> N" "ok s m" for m
    using that by (auto simp: Delete_data)
  ultimately show "frame N s0 (fst (SS_Delete S s n k)) = frame N s0 s"
    unfolding frame_def by (simp add: Delete_ok) metis
qed

end

text \<open>No operation of the ledger's store changes the database below it.\<close>

lemma ledger_bytes_store_db:
  fixes B :: "('t, bytes) btree_ops"
  assumes "ledger_libs B M"
  shows "bytes_store (ledger_ops B M) (ledger_data B) (\<lambda>s n. ledger_ok B s n \<and> n \<in> UNIV \<and> st_db s = db)"
  unfolding bytes_store_def
  by (rule state_store.restrict [OF ledger_libs.ledger_contract [OF assms], where P = "\<lambda>s. st_db s = db"])
    (simp_all add: ledger_ops_def ledger_libs.ss_write_frame [OF assms])

context bytes_store
begin

lemma restrict_bytes: "bytes_store S data (\<lambda>s n. ok s n \<and> n \<in> N \<and> frame N s0 s)"
  unfolding bytes_store_def by (rule restrict_names)

lemma changes_frame: "changes s n s' \<Longrightarrow> frame {n} s s'"
  by (auto simp: changes_def frame_def)

text \<open>The registry, an account run and the latest block, one after the other, on the empty stores of one state.\<close>

lemma session:
  assumes ok: "\<forall>n \<in> set reg_names \<union> {StateStore_Name_Account, StateStore_Name_Chain}. ok s n"
    and empty: "\<forall>n \<in> set reg_names \<union> {StateStore_Name_Account, StateStore_Name_Chain}. data s n = Map.empty"
    and ops: "ops_ok (\<lambda>_. []) rops" "list_all acc_op_ok aops" "blk_Head b = Some h"
  shows "\<exists>s1 s2 s3 aerrs book e'. reg_run S s rops = (s1, []) \<and> acc_run S s1 aops = (s2, aerrs) \<and>
    acc_spec_run Map.empty aops = (book, aerrs) \<and> SetLatestBlock S lid s2 e (Some b) = ((s3, e'), None) \<and>
    (\<forall>n. ok s3 n \<longleftrightarrow> ok s n) \<and> reg_repr (data s3) (foldl reg_spec (\<lambda>_. []) rops) \<and>
    acc_repr (data s3 StateStore_Name_Account) book \<and>
    data s3 StateStore_Name_Chain (str_bytes LatestBlock_Key) = Some (Block_Marshal b)"
proof -
  let ?R = "set reg_names" and ?A = StateStore_Name_Account and ?C = StateStore_Name_Chain
  note r = restrict_bytes [of ?R s]
  have "bytes_store.reg_open (\<lambda>x n. ok x n \<and> n \<in> ?R \<and> frame ?R s x) s"
    using bytes_store.reg_openI [OF r, of s] ok frame_refl by simp
  moreover have "reg_repr (data s) (\<lambda>_. [])" using empty by (intro reg_repr_empty) simp
  ultimately obtain s1 where s1: "reg_run S s rops = (s1, [])" "bytes_store.reg_open (\<lambda>x n. ok x n \<and> n \<in> ?R \<and> frame ?R s x) s1"
    "reg_repr (data s1) (foldl reg_spec (\<lambda>_. []) rops)"
    using bytes_store.reg_run_repr [OF r, of s "\<lambda>_. []" rops] ops(1) by (cases "reg_run S s rops") auto
  have f1: "frame ?R s s1" using s1(2) bytes_store.reg_open_def [OF r, of s1] by simp
  have n: "?A \<notin> ?R" "?C \<notin> ?R" "?A \<noteq> ?C" by (simp_all add: reg_names_def)
  have a1: "ok s1 ?A" "data s1 ?A = Map.empty" using f1 ok empty n by (simp_all add: frame_def)
  then obtain s2 aerrs book where s2: "acc_run S s1 aops = (s2, aerrs)" "acc_spec_run Map.empty aops = (book, aerrs)"
    "changes s1 ?A s2" "acc_repr (data s2 ?A) book"
    using acc_run_repr [OF a1(1), of Map.empty aops] ops(2) by (auto simp: acc_repr_def)
  have c2: "ok s2 ?C" using f1 ok n changes_ok [OF s2(3)] by (simp add: frame_def)
  obtain s3 where s3: "SetLatestBlock S lid s2 e (Some b) =
      ((s3, updateLatestBlock (if bh_Height h \<ge> 2 then e\<lparr>ledgerState := LedgerState_AutoInc\<rparr> else e) lid b), None)"
    "changes s2 ?C s3" "data s3 ?C = (data s2 ?C)(str_bytes LatestBlock_Key \<mapsto> Block_Marshal b)"
    using SetLatestBlock_stores [OF c2 ops(3), of lid e] by blast
  have ok3: "\<forall>n. ok s3 n \<longleftrightarrow> ok s n" using s3(2) s2(3) f1 by (simp add: changes_def frame_def)
  have reg: "data s3 m = data s1 m" if "m \<in> ?R" for m
  proof -
    have "m \<noteq> ?A" "m \<noteq> ?C" "ok s m" using that n ok by auto
    with s3(2) s2(3) f1 show ?thesis by (simp add: changes_def frame_def)
  qed
  have "reg_repr (data s3) (foldl reg_spec (\<lambda>_. []) rops)"
    using reg_repr_cong [OF s1(3) reg] .
  moreover have "data s3 ?A = data s2 ?A" using s3(2) n changes_ok [OF s2(3) a1(1)] by (simp add: changes_def)
  ultimately show ?thesis using s1(1) s2 s3(1,3) ok3 by auto
qed

end

lemma ledger_ok_session:
  fixes B :: "('t, bytes) btree_ops"
  assumes "ledger_libs B M" "NewStateStore db Flag_ReadWrite = Inr s" "good_tree B (mdb_btree db)"
  shows "\<forall>n \<in> set comp_names. ledger_ok B (open_named B M comp_names s) n"
    "\<forall>n. name_ok n \<longrightarrow> ledger_data B (open_named B M comp_names s) n = ledger_data B s n"
    "st_db (open_named B M comp_names s) = db\<lparr>mdb_openWriters := mdb_openWriters db + 1\<rparr>"
proof -
  note o = NewStateStore_open [OF assms(2,3)]
  show "\<forall>n \<in> set comp_names. ledger_ok B (open_named B M comp_names s) n"
    "\<forall>n. name_ok n \<longrightarrow> ledger_data B (open_named B M comp_names s) n = ledger_data B s n"
    using open_named_ok [OF assms(1) o(1) comp_names_ok] by blast+
  have "st_db (open_named B M ns s) = st_db s" if "store_open B s" "\<forall>n \<in> set ns. name_ok n" for ns and s :: "('t, bytes) stateStore"
    using that
  proof (induction ns arbitrary: s)
    case (Cons n ns)
    obtain s1 err where s1: "ss_AddNamedStateStore B M s n 1 = (s1, err)" by force
    have "ledger_ok B s1 n" "st_db s1 = st_db s"
      using ledger_libs.ss_AddNamed_open [OF assms(1) Cons.prems(1) _ _ s1] ledger_libs.ss_AddNamed_db [OF assms(1) Cons.prems(1) _ _ s1]
        Cons.prems(2) by auto
    with Cons.IH [of s1] Cons.prems(2) s1 show ?case by (simp add: ledger_ok_def)
  qed simp
  then show "st_db (open_named B M comp_names s) = db\<lparr>mdb_openWriters := mdb_openWriters db + 1\<rparr>"
    using o(1,4) comp_names_ok by simp
qed

text \<open>A committed composed state, opened again.\<close>

lemma comp_reopen:
  fixes B :: "('t, bytes) btree_ops"
  assumes "ledger_libs B M" "store_open B s" "db_inv B (st_db s)" "mdb_openWriters (st_db s) = 1" "vm_last (mdb_vmgr (st_db s)) \<noteq> - 1"
    and "cs_Commit (cs\<lparr>cs_store := s\<rparr>) = (cs', err)"
  shows "err = None \<and> ss_StateLatestVersion (cs_store cs') = vm_last (mdb_vmgr (st_db s)) + 1 \<and>
    (\<exists>cs2. createCompositionState B M (ledger_after l cs') v = Inr cs2 \<and>
      (\<forall>n \<in> set comp_names. ledger_ok B (cs_store cs2) n) \<and> (\<forall>n. name_ok n \<longrightarrow> ledger_data B (cs_store cs2) n = ledger_data B s n))"
proof -
  obtain s' where c: "ss_Commit s = (s', err)" "cs' = cs\<lparr>cs_store := s'\<rparr>"
    using assms(6) by (auto simp: cs_Commit_def split: prod.splits)
  note cm = ss_Commit_open [OF assms(2) c(1) assms(3-5)]
  have good: "good_tree B (mdb_btree (st_db s'))" using cm(2) assms(2) by (simp add: store_open_def memdb_opn_def st_conn_def)
  obtain s2 :: "('t, bytes) stateStore" where s2: "NewStateStore (st_db s') Flag_ReadWrite = Inr s2"
    using NewStateStore_ex [OF good] by blast
  note o = NewStateStore_open [OF s2 good] and r = ledger_ok_session [OF assms(1) s2 good]
  have "ledger_data B s2 n = ledger_data B s n" for n
    using o(3) cm(2) by (simp add: ledger_data_def memdb_abs_def st_conn_def fun_eq_iff)
  with r cm s2 show ?thesis
    by (simp add: createCompositionState_def lg_CreateStateStore_def ledger_after_def c(2) create_open_named ss_StateLatestVersion_def)
qed

text \<open>
  (C1) A session of a node on a new ledger, from the first call to the next session:
  create the composed state, register nodes, add and change accounts, set the latest
  block, commit, and create a composed state on the ledger again. No step of the session
  panics; the errors are those of the book of accounts; the commit saves version 1; and
  the new session finds the accounts of the book, the registered nodes with their latest
  values, and the latest block.
\<close>

theorem session_commit_reopen:
  fixes B :: "('t, bytes) btree_ops"
  assumes libs: "ledger_libs B M" and ops: "ops_ok (\<lambda>_. []) rops" "list_all acc_op_ok aops"
    and blk: "blk_Head b = Some h" "Block_plain b" "Block_Size b < 2 ^ 63"
  shows "\<exists>cs s1 s2 s3 aerrs book e' cs4 cs5. let S = ledger_ops B M in
    createCompositionState B M (NewLedger B lid) v = Inr cs \<and>
    reg_run S (cs_store cs) rops = (s1, []) \<and> acc_run S s1 aops = (s2, aerrs) \<and> acc_spec_run Map.empty aops = (book, aerrs) \<and>
    SetLatestBlock S lid s2 e (Some b) = ((s3, e'), None) \<and>
    cs_Commit (cs\<lparr>cs_store := s3\<rparr>) = (cs4, None) \<and> ss_StateLatestVersion (cs_store cs4) = 1 \<and>
    createCompositionState B M (ledger_after (NewLedger B lid) cs4) v' = Inr cs5 \<and>
    acc_answers S (cs_store cs5) book \<and>
    (\<forall>nid. nid \<noteq> [] \<longrightarrow> GetNode S (cs_store cs5) nid = Inr (find (\<lambda>x. ni_NodeID x = nid)
       (concat (map (foldl reg_spec (\<lambda>_. []) rops) [KExecutor, KProposer, KValidator, KInactive])))) \<and>
    snd (GetLatestBlock S lid (cs_store cs5) e') = Inr b"
proof -
  have bt: "btree B" using libs by (simp add: ledger_libs_def)
  let ?S = "ledger_ops B M" and ?db = "NewMemDBBackend B"
  have db: "db_inv B ?db" "mdb_openWriters ?db = 0" "vm_last (mdb_vmgr ?db) = 0"
    using NewMemDBBackend_inv [OF bt] by (simp_all add: NewMemDBBackend_def NewVersionManager_def)
  obtain s :: "('t, bytes) stateStore" where s: "NewStateStore ?db Flag_ReadWrite = Inr s" "\<forall>n. ledger_data B s n = Map.empty"
    using NewStateStore_empty [OF bt] by metis
  have good: "good_tree B (mdb_btree ?db)" using db(1) by (simp add: db_inv_def)
  define cs where "cs = \<lparr>cs_store = open_named B M comp_names s, cs_stateVersion = v, cs_state = CompSState_Idle\<rparr>"
  have cs: "createCompositionState B M (NewLedger B lid) v = Inr cs"
    using s(1) by (simp add: createCompositionState_def lg_CreateStateStore_def NewLedger_def create_open_named cs_def)
  note o = ledger_ok_session [OF libs s(1) good]
  let ?db1 = "?db\<lparr>mdb_openWriters := 1\<rparr>"
  let ?ok = "\<lambda>s n. ledger_ok B s n \<and> n \<in> UNIV \<and> st_db s = ?db1"
  note l = ledger_bytes_store_db [OF libs, of ?db1]
  have sub: "n \<in> set comp_names \<and> name_ok n" if "n \<in> set reg_names \<union> {StateStore_Name_Account, StateStore_Name_Chain}" for n
    using that comp_names_ok by (auto simp: reg_names_def comp_names_def)
  have "\<forall>n \<in> set reg_names \<union> {StateStore_Name_Account, StateStore_Name_Chain}. ?ok (cs_store cs) n \<and> ledger_data B (cs_store cs) n = Map.empty"
    using o sub s(2) db(2) by (simp add: cs_def)
  then obtain s1 s2 s3 aerrs book e' where st: "reg_run ?S (cs_store cs) rops = (s1, [])" "acc_run ?S s1 aops = (s2, aerrs)"
    "acc_spec_run Map.empty aops = (book, aerrs)" "SetLatestBlock ?S lid s2 e (Some b) = ((s3, e'), None)"
    "\<forall>n. ?ok s3 n \<longleftrightarrow> ?ok (cs_store cs) n" "reg_repr (ledger_data B s3) (foldl reg_spec (\<lambda>_. []) rops)"
    "acc_repr (ledger_data B s3 StateStore_Name_Account) book"
    "ledger_data B s3 StateStore_Name_Chain (str_bytes LatestBlock_Key) = Some (Block_Marshal b)"
    using bytes_store.session [OF l _ _ ops blk(1), of "cs_store cs" lid e] by auto
  have s3: "store_open B s3" "st_db s3 = ?db1"
    using st(5) o(1,3) db(2) by (auto simp: cs_def ledger_ok_def comp_names_def)
  obtain cs4 err where cs4: "cs_Commit (cs\<lparr>cs_store := s3\<rparr>) = (cs4, err)" by force
  have c: "err = None" "ss_StateLatestVersion (cs_store cs4) = 1"
    "\<exists>cs5. createCompositionState B M (ledger_after (NewLedger B lid) cs4) v' = Inr cs5 \<and>
      (\<forall>n \<in> set comp_names. ledger_ok B (cs_store cs5) n) \<and> (\<forall>n. name_ok n \<longrightarrow> ledger_data B (cs_store cs5) n = ledger_data B s3 n)"
    using comp_reopen [OF libs s3(1) _ _ _ cs4, of "NewLedger B lid" v'] s3(2) db by (auto simp: db_inv_def)
  then obtain cs5 where cs5: "createCompositionState B M (ledger_after (NewLedger B lid) cs4) v' = Inr cs5"
    "\<forall>n \<in> set comp_names. ledger_ok B (cs_store cs5) n" "\<forall>n. name_ok n \<longrightarrow> ledger_data B (cs_store cs5) n = ledger_data B s3 n" by blast
  note L = ledger_bytes_store [OF libs]
  have ro: "bytes_store.reg_open (ledger_ok B) (cs_store cs5)"
    using bytes_store.reg_openI [OF L, of "cs_store cs5"] cs5(2) sub by simp
  have rr: "reg_repr (ledger_data B (cs_store cs5)) (foldl reg_spec (\<lambda>_. []) rops)"
    using reg_repr_cong [OF st(6), of "ledger_data B (cs_store cs5)"] cs5(3) sub by simp
  have "length (Block_Marshal b) = Block_Size b" by (simp add: Block_Marshal_def Block_Size_def length_enc)
  then have rt: "Block_Unmarshal (Block_Marshal b) = Inr b" using Block_roundtrip [OF blk(2)] blk(3) by simp
  have "acc_answers ?S (cs_store cs5) book"
    using bytes_store.acc_answers_repr [OF L, of "cs_store cs5" book] cs5(2,3) st(7) sub by simp
  moreover have "GetNode ?S (cs_store cs5) nid = Inr (find (\<lambda>x. ni_NodeID x = nid)
      (concat (map (foldl reg_spec (\<lambda>_. []) rops) [KExecutor, KProposer, KValidator, KInactive])))" if "nid \<noteq> []" for nid
    using bytes_store.GetNode_repr [OF L ro rr that] .
  moreover have "snd (GetLatestBlock ?S lid (cs_store cs5) e') = Inr b"
    using bytes_store.GetLatestBlock_reads [OF L, of "cs_store cs5" b lid e'] cs5(2,3) st(8) sub rt by simp
  ultimately show ?thesis unfolding Let_def using cs st(1-4) cs4 c(1,2) cs5(1) by blast
qed

theorem session_commit_reopen_witness:
  "\<exists>cs s1 s2 s3 aerrs e' cs4 cs5. let S = ledger_ops rbt_ops sample_bytes_smt; L = NewLedger rbt_ops ''L'' in
     createCompositionState rbt_ops sample_bytes_smt L 1 = Inr cs \<and> reg_run S (cs_store cs) sample_reg_ops = (s1, []) \<and>
     acc_run S s1 sample_acc_ops = (s2, aerrs) \<and> aerrs = [None, None, Some (ErrExists ''t1x''), None, Some ErrJson] \<and>
     SetLatestBlock S ''L'' s2 sample_env (Some (sample_block 300 [9])) = ((s3, e'), None) \<and>
     cs_Commit (cs\<lparr>cs_store := s3\<rparr>) = (cs4, None) \<and>
     createCompositionState rbt_ops sample_bytes_smt (ledger_after L cs4) 2 = Inr cs5 \<and>
     GetNonce S (cs_store cs5) ''t1x'' = Inr 4 \<and>
     GetNode S (cs_store cs5) ''n1'' = Inr (Some (sample_node ''n1'' 13 NodeRole_Executor)) \<and>
     snd (GetLatestBlock S ''L'' (cs_store cs5) e') = Inr (sample_block 300 [9])"
proof -
  let ?S = "ledger_ops rbt_ops sample_bytes_smt" and ?L = "NewLedger rbt_ops ''L''"
  have ops: "list_all acc_op_ok sample_acc_ops" by code_simp
  have h: "blk_Head (sample_block 300 [9]) = Some (sample_head 300 [9])" by (simp add: sample_block_def)
  have spec: "snd (acc_spec_run Map.empty sample_acc_ops) = [None, None, Some (ErrExists ''t1x''), None, Some ErrJson] \<and>
      map_option ac_Nonce (fst (acc_spec_run Map.empty sample_acc_ops) ''t1x'') = Some 4"
    by code_simp
  have reg: "find (\<lambda>x. ni_NodeID x = ''n1'') (concat (map (foldl reg_spec (\<lambda>_. []) sample_reg_ops)
      [KExecutor, KProposer, KValidator, KInactive])) = Some (sample_node ''n1'' 13 NodeRole_Executor)"
    by code_simp
  obtain cs s1 s2 s3 aerrs book e' cs4 cs5 where r: "createCompositionState rbt_ops sample_bytes_smt ?L 1 = Inr cs"
    "reg_run ?S (cs_store cs) sample_reg_ops = (s1, [])" "acc_run ?S s1 sample_acc_ops = (s2, aerrs)"
    "acc_spec_run Map.empty sample_acc_ops = (book, aerrs)"
    "SetLatestBlock ?S ''L'' s2 sample_env (Some (sample_block 300 [9])) = ((s3, e'), None)"
    "cs_Commit (cs\<lparr>cs_store := s3\<rparr>) = (cs4, None)"
    "createCompositionState rbt_ops sample_bytes_smt (ledger_after ?L cs4) 2 = Inr cs5" "acc_answers ?S (cs_store cs5) book"
    "\<forall>nid. nid \<noteq> [] \<longrightarrow> GetNode ?S (cs_store cs5) nid = Inr (find (\<lambda>x. ni_NodeID x = nid)
       (concat (map (foldl reg_spec (\<lambda>_. []) sample_reg_ops) [KExecutor, KProposer, KValidator, KInactive])))"
    "snd (GetLatestBlock ?S ''L'' (cs_store cs5) e') = Inr (sample_block 300 [9])"
    using session_commit_reopen [OF sample_libs sample_reg_ops_ok ops h conjunct1 [OF sample_block_size] conjunct2 [OF sample_block_size],
        of "''L''" 1 sample_env 2] unfolding Let_def by (elim exE conjE)
  have a: "aerrs = [None, None, Some (ErrExists ''t1x''), None, Some ErrJson]" using spec r(4) by simp
  obtain ac where "book ''t1x'' = Some ac" "ac_Nonce ac = 4" using spec r(4) by auto
  then have "GetNonce ?S (cs_store cs5) ''t1x'' = Inr 4" using r(8) unfolding acc_answers_def by simp
  moreover have "GetNode ?S (cs_store cs5) ''n1'' = Inr (Some (sample_node ''n1'' 13 NodeRole_Executor))"
    using r(9) reg by simp
  ultimately show ?thesis unfolding Let_def using r(1-3,5-7,10) a by blast
qed

end
