(* ===== verification/Comp_Builder.thy ===== *)
theory Comp_Builder
  imports Composition
begin

text \<open>
  The builders of composed states (\<open>src/state/composition_builder.go\<close>). Several composed
  states live at a time, on one ledger: a world is the ledger and the states that were
  created, and a reference is an index into them. The full builder creates one state per
  node and version; the simple builder keeps a map of states per node and creates states
  ahead of time, on the tick of a timer.
\<close>

section \<open>Composed states on one ledger\<close>

record 't world =
  w_ledger :: "'t ledger"
  w_objs :: "'t compositionState list"

text \<open>All states share the database of the ledger.\<close>

definition new_state :: "('t, bytes) btree_ops \<Rightarrow> ('t, bytes, 'p) memdb_smt \<Rightarrow> 't world \<Rightarrow> u64 \<Rightarrow> error + ('t world \<times> nat)" where
  "new_state B M w stateVersion = (case createCompositionState B M (w_ledger w) stateVersion of
     Inl e \<Rightarrow> Inl e
   | Inr cs \<Rightarrow> Inr (w\<lparr>w_ledger := ledger_after (w_ledger w) cs, w_objs := w_objs w @ [cs]\<rparr>, length (w_objs w)))"

definition w_update :: "'t world \<Rightarrow> nat \<Rightarrow> CompSState \<Rightarrow> 't world" where
  "w_update w r st = w\<lparr>w_objs := (w_objs w)[r := UpdateCompSState (w_objs w ! r) st]\<rparr>"

definition w_Commit :: "'t world \<Rightarrow> nat \<Rightarrow> 't world \<times> error option" where
  "w_Commit w r =
     (let cs = w_objs w ! r;
          cs0 = cs\<lparr>cs_store := (cs_store cs)\<lparr>st_db := lg_backendStateDB (w_ledger w)\<rparr>\<rparr>
      in case cs_Commit cs0 of (cs', err) \<Rightarrow>
           (w\<lparr>w_ledger := ledger_after (w_ledger w) cs', w_objs := (w_objs w)[r := cs']\<rparr>, err))"

section \<open>The full builder\<close>

record compositionStateOfNodeFull =
  lastCompositionState :: "nat option"
  createdRecord :: "(u64, unit) gomap"

type_synonym builderFull = "(string, compositionStateOfNodeFull) gomap"

definition full_getCompositionStateOfNode :: "builderFull \<Rightarrow> string \<Rightarrow> builderFull \<times> compositionStateOfNodeFull" where
  "full_getCompositionStateOfNode bf nodeID = (case map_of bf nodeID of
     Some compStateOfNode \<Rightarrow> (bf, compStateOfNode)
   | None \<Rightarrow>
       let compStateOfNode = \<lparr>lastCompositionState = None, createdRecord = []\<rparr>
       in (gm_set nodeID compStateOfNode bf, compStateOfNode))"

definition full_createCompositionStateOfNode ::
  "('t, bytes) btree_ops \<Rightarrow> ('t, bytes, 'p) memdb_smt \<Rightarrow> 't world \<Rightarrow> compositionStateOfNodeFull \<Rightarrow> u64 \<Rightarrow>
   error + ('t world \<times> compositionStateOfNodeFull \<times> nat option)" where
  "full_createCompositionStateOfNode B M w compStateOfNode stateVersion =
     (if \<not> gm_has (createdRecord compStateOfNode) stateVersion then
        (case new_state B M w stateVersion of
           Inl e \<Rightarrow> Inl e
         | Inr (w', compStateRTN) \<Rightarrow>
             Inr (w', \<lparr>lastCompositionState = Some compStateRTN,
                       createdRecord = gm_set stateVersion () (createdRecord compStateOfNode)\<rparr>, Some compStateRTN))
      else
        Inr (w, compStateOfNode, case lastCompositionState compStateOfNode of
               None \<Rightarrow> None
             | Some r \<Rightarrow> if cs_stateVersion (w_objs w ! r) = stateVersion \<and> cs_state (w_objs w ! r) \<noteq> CompSState_Commited
                         then Some r else None))"

definition full_CreateCompositionState ::
  "('t, bytes) btree_ops \<Rightarrow> ('t, bytes, 'p) memdb_smt \<Rightarrow> 't world \<Rightarrow> builderFull \<Rightarrow> string \<Rightarrow> u64 \<Rightarrow>
   error + ('t world \<times> builderFull \<times> nat option)" where
  "full_CreateCompositionState B M w bf nodeID stateVersion =
     (case full_getCompositionStateOfNode bf nodeID of (bf', compStateOfNode) \<Rightarrow>
        (case full_createCompositionStateOfNode B M w compStateOfNode stateVersion of
           Inl e \<Rightarrow> Inl e
         | Inr (w', compStateOfNode', r) \<Rightarrow> Inr (w', gm_set nodeID compStateOfNode' bf', r)))"

definition full_CompositionStateExist :: "builderFull \<Rightarrow> string \<Rightarrow> u64 \<Rightarrow> builderFull \<times> bool" where
  "full_CompositionStateExist bf nodeID stateVersion =
     (case full_getCompositionStateOfNode bf nodeID of (bf', compStateOfNode) \<Rightarrow>
        (bf', gm_has (createdRecord compStateOfNode) stateVersion))"

text \<open>
  The calls of a process that uses the full builder: it asks for states, asks whether
  there is one, and marks or commits the states it has.
\<close>

datatype full_event =
    FCreate string u64 "nat option"
  | FExist string u64 bool
  | FUpdate nat CompSState
  | FCommit nat

inductive full_step ::
  "('t, bytes) btree_ops \<Rightarrow> ('t, bytes, 'p) memdb_smt \<Rightarrow> 't world \<times> builderFull \<Rightarrow> full_event \<Rightarrow> 't world \<times> builderFull \<Rightarrow> bool"
  for B M where
  create: "full_CreateCompositionState B M w bf n v = Inr (w', bf', r) \<Longrightarrow> full_step B M (w, bf) (FCreate n v r) (w', bf')"
| exist: "full_CompositionStateExist bf n v = (bf', b) \<Longrightarrow> full_step B M (w, bf) (FExist n v b) (w, bf')"
| update: "r < length (w_objs w) \<Longrightarrow> full_step B M (w, bf) (FUpdate r st) (w_update w r st, bf)"
| commit: "r < length (w_objs w) \<Longrightarrow> full_step B M (w, bf) (FCommit r) (fst (w_Commit w r), bf)"

inductive_cases full_stepE: "full_step B M s ev s'"

inductive full_run ::
  "('t, bytes) btree_ops \<Rightarrow> ('t, bytes, 'p) memdb_smt \<Rightarrow> 't ledger \<Rightarrow> full_event list \<Rightarrow> 't world \<times> builderFull \<Rightarrow> bool"
  for B M l where
  start: "full_run B M l [] (\<lparr>w_ledger = l, w_objs = []\<rparr>, [])"
| step: "full_run B M l evs s \<Longrightarrow> full_step B M s ev s' \<Longrightarrow> full_run B M l (evs @ [ev]) s'"

text \<open>The states that were handed out, by node and version.\<close>

definition handed :: "full_event list \<Rightarrow> (string \<times> u64 \<times> nat) set" where
  "handed evs = {(n, v, r). FCreate n v (Some r) \<in> set evs}"

lemma handed_simps [simp]:
  "handed [] = {}"
  "handed (evs @ [FCreate n v (Some r)]) = insert (n, v, r) (handed evs)"
  "handed (evs @ [FCreate n v None]) = handed evs"
  "handed (evs @ [FExist n v b]) = handed evs"
  "handed (evs @ [FUpdate r st]) = handed evs"
  "handed (evs @ [FCommit r]) = handed evs"
  by (auto simp: handed_def)

definition node_of :: "builderFull \<Rightarrow> string \<Rightarrow> compositionStateOfNodeFull" where
  "node_of bf n = (case map_of bf n of Some x \<Rightarrow> x | None \<Rightarrow> \<lparr>lastCompositionState = None, createdRecord = []\<rparr>)"

definition full_inv :: "(string \<times> u64 \<times> nat) set \<Rightarrow> 't world \<times> builderFull \<Rightarrow> bool" where
  "full_inv H s \<longleftrightarrow> sorted_keys (snd s) \<and> (\<forall>n. sorted_keys (createdRecord (node_of (snd s) n))) \<and>
     (\<forall>n v. gm_has (createdRecord (node_of (snd s) n)) v \<longleftrightarrow> (\<exists>r. (n, v, r) \<in> H)) \<and>
     (\<forall>n r. lastCompositionState (node_of (snd s) n) = Some r \<longrightarrow>
        r < length (w_objs (fst s)) \<and> (n, cs_stateVersion (w_objs (fst s) ! r), r) \<in> H) \<and>
     (\<forall>n v r. (n, v, r) \<in> H \<longrightarrow> r < length (w_objs (fst s)) \<and> cs_stateVersion (w_objs (fst s) ! r) = v) \<and>
     (\<forall>n v r r'. (n, v, r) \<in> H \<and> (n, v, r') \<in> H \<longrightarrow> r = r') \<and>
     (\<forall>n v n' v' r. (n, v, r) \<in> H \<and> (n', v', r) \<in> H \<longrightarrow> n = n' \<and> v = v')"

lemma full_get:
  assumes "full_getCompositionStateOfNode bf n = (bf', x)" "sorted_keys bf"
  shows "x = node_of bf n" "sorted_keys bf'" "node_of bf' = node_of bf"
  using assms by (auto simp: full_getCompositionStateOfNode_def node_of_def gm_set_sorted fun_eq_iff Let_def split: option.splits if_splits)

lemma node_of_set: "sorted_keys bf \<Longrightarrow> node_of (gm_set n x bf) = (node_of bf)(n := x)"
  by (auto simp: node_of_def)

lemma new_state_props:
  assumes "new_state B M w v = Inr (w', r)"
  shows "\<exists>cs. w_objs w' = w_objs w @ [cs] \<and> cs_stateVersion cs = v \<and> cs_state cs = CompSState_Idle" "r = length (w_objs w)"
  using assms
  by (auto simp: new_state_def createCompositionState_def createCompositionStateWithStateStore_def Let_def split: sum.splits)

lemma same_versions:
  "length (w_objs (w_update w r st)) = length (w_objs w)"
  "r < length (w_objs w) \<Longrightarrow> map cs_stateVersion (w_objs (w_update w r st)) = map cs_stateVersion (w_objs w)"
  "length (w_objs (fst (w_Commit w r))) = length (w_objs w)"
  "r < length (w_objs w) \<Longrightarrow> map cs_stateVersion (w_objs (fst (w_Commit w r))) = map cs_stateVersion (w_objs w)"
  by (auto simp: w_update_def UpdateCompSState_def w_Commit_def cs_Commit_def Let_def map_update split: prod.splits
      intro!: list_update_same_conv [THEN iffD2])

text \<open>A call of the builder either creates the state or finds the last one.\<close>

lemma full_create_cases [consumes 2, case_names fresh known]:
  assumes "full_CreateCompositionState B M w bf n v = Inr (w', bf', r)" "sorted_keys bf"
  obtains cs where "\<not> gm_has (createdRecord (node_of bf n)) v" "w_objs w' = w_objs w @ [cs]" "cs_stateVersion cs = v"
      "cs_state cs = CompSState_Idle" "r = Some (length (w_objs w))" "sorted_keys bf'"
      "node_of bf' = (node_of bf)(n := \<lparr>lastCompositionState = r, createdRecord = gm_set v () (createdRecord (node_of bf n))\<rparr>)"
  | "gm_has (createdRecord (node_of bf n)) v" "w' = w" "sorted_keys bf'" "node_of bf' = node_of bf"
      "\<And>x. r = Some x \<Longrightarrow> lastCompositionState (node_of bf n) = Some x \<and> cs_stateVersion (w_objs w ! x) = v \<and>
         cs_state (w_objs w ! x) \<noteq> CompSState_Commited"
proof -
  obtain bf1 x where g: "full_getCompositionStateOfNode bf n = (bf1, x)" by force
  note x = full_get [OF g assms(2)]
  obtain w1 x' r1 where c: "full_createCompositionStateOfNode B M w x v = Inr (w1, x', r1)"
    "w' = w1" "bf' = gm_set n x' bf1" "r = r1"
    using assms(1) by (auto simp: full_CreateCompositionState_def g split: sum.splits prod.splits)
  have bf': "sorted_keys bf'" "node_of bf' = (node_of bf)(n := x')"
    using x c(3) by (simp_all add: gm_set_sorted node_of_set)
  show ?thesis
  proof (cases "gm_has (createdRecord x) v")
    case True
    with c have "x' = x" "w' = w" "\<And>y. r = Some y \<Longrightarrow> lastCompositionState x = Some y \<and> cs_stateVersion (w_objs w ! y) = v \<and>
         cs_state (w_objs w ! y) \<noteq> CompSState_Commited"
      by (auto simp: full_createCompositionStateOfNode_def split: option.splits if_splits)
    with True bf' x(1) show ?thesis by (intro that(2)) auto
  next
    case False
    with c obtain y where y: "new_state B M w v = Inr (w', y)"
      "x' = \<lparr>lastCompositionState = Some y, createdRecord = gm_set v () (createdRecord x)\<rparr>" "r = Some y"
      by (auto simp: full_createCompositionStateOfNode_def split: sum.splits)
    from new_state_props [OF y(1)] obtain cs where "w_objs w' = w_objs w @ [cs]" "cs_stateVersion cs = v"
      "cs_state cs = CompSState_Idle" "y = length (w_objs w)" by auto
    with False bf' x(1) y show ?thesis by (intro that(1)) auto
  qed
qed

lemma full_inv_world:
  assumes "full_inv H (w, bf)" "length (w_objs w') = length (w_objs w)" "map cs_stateVersion (w_objs w') = map cs_stateVersion (w_objs w)"
  shows "full_inv H (w', bf)"
proof -
  have "cs_stateVersion (w_objs w' ! r) = cs_stateVersion (w_objs w ! r)" if "r < length (w_objs w)" for r
    using assms(2,3) that by (metis nth_map)
  then show ?thesis using assms(1,2) by (fastforce simp: full_inv_def)
qed

lemma full_inv_fresh:
  assumes "full_inv H (w, bf)" "\<not> gm_has (createdRecord (node_of bf n)) v" "w_objs w' = w_objs w @ [cs]" "cs_stateVersion cs = v"
    "sorted_keys bf'" "node_of bf' = (node_of bf)(n := \<lparr>lastCompositionState = Some (length (w_objs w)),
       createdRecord = gm_set v () (createdRecord (node_of bf n))\<rparr>)"
  shows "full_inv (insert (n, v, length (w_objs w)) H) (w', bf')"
proof -
  let ?k = "length (w_objs w)"
  have H: "(n, v, r) \<notin> H" "(m, u, ?k) \<notin> H" for r m u
    using assms(1,2) unfolding full_inv_def fst_conv snd_conv by blast+
  have nth: "w_objs w' ! r = w_objs w ! r" if "r < ?k" for r using assms(3) that by (simp add: nth_append)
  have s: "sorted_keys (createdRecord (node_of bf m))" for m using assms(1) by (simp add: full_inv_def)
  have L: "r < ?k \<and> (m, cs_stateVersion (w_objs w ! r), r) \<in> H" if "lastCompositionState (node_of bf m) = Some r" for m r
    using assms(1) that by (simp add: full_inv_def)
  have V: "r < ?k \<and> cs_stateVersion (w_objs w ! r) = u" if "(m, u, r) \<in> H" for m u r
    using assms(1) that unfolding full_inv_def fst_conv snd_conv by blast
  have U: "m = m' \<and> u = u'" if "(m, u, r) \<in> H" "(m', u', r) \<in> H" for m m' u u' r
    using assms(1) that unfolding full_inv_def fst_conv snd_conv by blast
  show ?thesis unfolding full_inv_def fst_conv snd_conv
  proof (intro conjI allI impI)
    fix m r assume "lastCompositionState (node_of bf' m) = Some r"
    then show "r < length (w_objs w')" "(m, cs_stateVersion (w_objs w' ! r), r) \<in> insert (n, v, ?k) H"
      using assms(3,4,6) nth [of r] L [of m r] by (auto split: if_splits)
  next
    fix m u r assume "(m, u, r) \<in> insert (n, v, ?k) H"
    then show "r < length (w_objs w')" "cs_stateVersion (w_objs w' ! r) = u"
      using assms(3,4) nth [of r] V [of m u r] by auto
  next
    fix m u show "gm_has (createdRecord (node_of bf' m)) u \<longleftrightarrow> (\<exists>r. (m, u, r) \<in> insert (n, v, ?k) H)"
      using assms(1,6) s by (auto simp: full_inv_def)
  next
    fix m u r r' assume "(m, u, r) \<in> insert (n, v, ?k) H \<and> (m, u, r') \<in> insert (n, v, ?k) H"
    then show "r = r'" using assms(1) H by (auto simp: full_inv_def)
  next
    fix m u m' u' r assume "(m, u, r) \<in> insert (n, v, ?k) H \<and> (m', u', r) \<in> insert (n, v, ?k) H"
    then show "m = m'" "u = u'" using U [of m u r m' u'] H by auto
  qed (use assms(5,6) s in \<open>auto simp: gm_set_sorted\<close>)
qed

lemma full_inv_step:
  assumes "full_step B M s ev s'" "full_inv (handed evs) s"
  shows "full_inv (handed (evs @ [ev])) s'"
  using assms(1)
proof (cases rule: full_step.cases)
  case (create w bf n v w' bf' r)
  have "sorted_keys bf" using assms(2) create(1) by (simp add: full_inv_def)
  with create(4) show ?thesis
  proof (cases rule: full_create_cases)
    case (fresh cs)
    have "full_inv (insert (n, v, length (w_objs w)) (handed evs)) (w', bf')"
      using full_inv_fresh [of "handed evs" w bf n v w' cs bf'] assms(2) create(1) fresh by simp
    then show ?thesis using create fresh(5) by simp
  next
    case known
    have i: "full_inv (handed evs) (w, bf')" using assms(2) create(1) known(3,4) by (simp add: full_inv_def)
    show ?thesis
    proof (cases r)
      case (Some x)
      then have "(n, v, x) \<in> handed evs" using known(5) [of x] assms(2) create(1) by (auto simp: full_inv_def)
      then show ?thesis using i create known(2) Some by (simp add: insert_absorb)
    qed (use i create known(2) in simp)
  qed
next
  case (exist bf n v bf' b w)
  obtain x where g: "full_getCompositionStateOfNode bf n = (bf', x)"
    using exist(4) by (auto simp: full_CompositionStateExist_def split: prod.splits)
  then show ?thesis using assms(2) exist full_get [OF g] by (simp add: full_inv_def)
next
  case (update r w bf st)
  then show ?thesis using assms(2) full_inv_world [OF _ same_versions(1,2), of "handed evs" w bf] by simp
next
  case (commit r w bf)
  then show ?thesis using assms(2) full_inv_world [OF _ same_versions(3,4), of "handed evs" w bf] by simp
qed

lemma full_inv_run: "full_run B M l evs s \<Longrightarrow> full_inv (handed evs) s"
proof (induction rule: full_run.induct)
  case start
  show ?case by (simp add: full_inv_def node_of_def)
qed (rule full_inv_step)

text \<open>
  (C6) The full builder hands out one composed state per node and version: in every
  run, two states that were returned for the same node and version are the same state,
  and a state is returned for one node and one version only; the state it returns next
  is not committed and has the version that was asked for; and a version exists for a
  node exactly when a state was returned for it.
\<close>

theorem full_builder_one_state:
  assumes "full_run B M l evs (w, bf)"
  shows "(\<forall>n v r r'. FCreate n v (Some r) \<in> set evs \<and> FCreate n v (Some r') \<in> set evs \<longrightarrow> r = r') \<and>
    (\<forall>n v n' v' r. FCreate n v (Some r) \<in> set evs \<and> FCreate n' v' (Some r) \<in> set evs \<longrightarrow> n = n' \<and> v = v') \<and>
    (\<forall>n v w' bf' r. full_CreateCompositionState B M w bf n v = Inr (w', bf', Some r) \<longrightarrow>
       cs_stateVersion (w_objs w' ! r) = v \<and> cs_state (w_objs w' ! r) \<noteq> CompSState_Commited) \<and>
    (\<forall>n v. snd (full_CompositionStateExist bf n v) \<longleftrightarrow> (\<exists>r. FCreate n v (Some r) \<in> set evs))"
proof -
  note i = full_inv_run [OF assms]
  then have s: "sorted_keys bf" by (simp add: full_inv_def)
  have "cs_stateVersion (w_objs w' ! r) = v \<and> cs_state (w_objs w' ! r) \<noteq> CompSState_Commited"
    if "full_CreateCompositionState B M w bf n v = Inr (w', bf', Some r)" for n v w' bf' r
    using that s
  proof (cases rule: full_create_cases)
    case (fresh cs)
    then show ?thesis by simp
  next
    case known
    then show ?thesis by simp
  qed
  moreover have "snd (full_CompositionStateExist bf n v) \<longleftrightarrow> (\<exists>r. FCreate n v (Some r) \<in> set evs)" for n v
  proof -
    obtain bf' x where g: "full_getCompositionStateOfNode bf n = (bf', x)" by force
    show ?thesis using full_get [OF g s] i by (simp add: full_CompositionStateExist_def g full_inv_def handed_def)
  qed
  moreover have "r = r'" if "FCreate n v (Some r) \<in> set evs" "FCreate n v (Some r') \<in> set evs" for n v r r'
    using i that unfolding full_inv_def handed_def by blast
  moreover have "n = n' \<and> v = v'" if "FCreate n v (Some r) \<in> set evs" "FCreate n' v' (Some r) \<in> set evs" for n v n' v' r
    using i that unfolding full_inv_def handed_def by blast
  ultimately show ?thesis by blast
qed

definition sample_ledger :: "((bytes, bytes) rbt) ledger" where
  "sample_ledger = NewLedger rbt_ops ''L''"

text \<open>A first request creates the state, a second one finds it.\<close>

lemma full_create_new:
  assumes "createCompositionState B M (w_ledger w) v = Inr cs" "map_of bf n = None" "sorted_keys bf"
  shows "full_CreateCompositionState B M w bf n v =
    Inr (w\<lparr>w_ledger := ledger_after (w_ledger w) cs, w_objs := w_objs w @ [cs]\<rparr>,
      gm_set n \<lparr>lastCompositionState = Some (length (w_objs w)), createdRecord = [(v, ())]\<rparr>
        (gm_set n \<lparr>lastCompositionState = None, createdRecord = []\<rparr> bf), Some (length (w_objs w)))"
  using assms
  by (simp add: full_CreateCompositionState_def full_getCompositionStateOfNode_def full_createCompositionStateOfNode_def new_state_def Let_def)

lemma sample_ledger_good: "good_tree rbt_ops (mdb_btree (lg_backendStateDB sample_ledger))"
  using NewMemDBBackend_inv [of "rbt_ops :: ((bytes, bytes) rbt, bytes) btree_ops"] sample_libs
  by (simp add: db_inv_def sample_ledger_def NewLedger_def ledger_libs_def)

theorem full_builder_one_state_witness:
  "\<exists>w bf. full_run rbt_ops sample_bytes_smt sample_ledger [FCreate ''n'' 1 (Some 0)] (w, bf) \<and>
     snd (full_CompositionStateExist bf ''n'' 1) \<and> \<not> snd (full_CompositionStateExist bf ''n'' 2)"
proof -
  obtain s :: "((bytes, bytes) rbt, bytes) stateStore" where "NewStateStore (lg_backendStateDB sample_ledger) Flag_ReadWrite = Inr s"
    using NewStateStore_ex [OF sample_ledger_good] by blast
  then obtain cs where cs: "createCompositionState rbt_ops sample_bytes_smt sample_ledger 1 = Inr cs"
    by (simp add: createCompositionState_def lg_CreateStateStore_def)
  then obtain w bf where "full_CreateCompositionState rbt_ops sample_bytes_smt \<lparr>w_ledger = sample_ledger, w_objs = []\<rparr> [] ''n'' 1 =
      Inr (w, bf, Some 0)"
    using full_create_new [of rbt_ops sample_bytes_smt "\<lparr>w_ledger = sample_ledger, w_objs = []\<rparr>" 1 cs "[]" "''n''"] by simp
  then have "full_run rbt_ops sample_bytes_smt sample_ledger ([] @ [FCreate ''n'' 1 (Some 0)]) (w, bf)"
    by (intro full_run.step [OF full_run.start] full_step.create)
  then have r: "full_run rbt_ops sample_bytes_smt sample_ledger [FCreate ''n'' 1 (Some 0)] (w, bf)" by simp
  from full_builder_one_state [OF r] r show ?thesis by (intro exI [of _ w] exI [of _ bf]) simp
qed

section \<open>The simple builder\<close>

record compositionStateOfNodeSimple =
  maxStateVersion :: u64
  compStates :: "(string, nat) gomap"

type_synonym builderSimple = "(string, compositionStateOfNodeSimple) gomap"

definition FormatUint :: "u64 \<Rightarrow> string" where
  "FormatUint v = dec (unat v)"

text \<open>
  The tick of the timer of a node: the committed states are removed; when at most 60
  states are left, the states of the next 40 versions are created. The loop compares
  with a bound that may wrap around, and does not end when the bound is the largest
  number; then its value is \<open>None\<close>.
\<close>

partial_function (option) prefetch ::
  "('t, bytes) btree_ops \<Rightarrow> ('t, bytes, 'p) memdb_smt \<Rightarrow> u64 \<Rightarrow> u64 \<Rightarrow> 't world \<Rightarrow> (string, nat) gomap \<Rightarrow>
   (error + 't world \<times> (string, nat) gomap) option" where
  "prefetch B M bound stateVer w m =
     (if stateVer \<le> bound then
        (case new_state B M w stateVer of
           Inl e \<Rightarrow> Some (Inl e)
         | Inr (w', compStateNew) \<Rightarrow> prefetch B M bound (stateVer + 1) w' (gm_set (FormatUint stateVer) compStateNew m))
      else Some (Inr (w, m)))"

definition maintainTick ::
  "('t, bytes) btree_ops \<Rightarrow> ('t, bytes, 'p) memdb_smt \<Rightarrow> 't world \<Rightarrow> compositionStateOfNodeSimple \<Rightarrow>
   (error + 't world \<times> compositionStateOfNodeSimple) option" where
  "maintainTick B M w ns =
     (let m = filter (\<lambda>(key, r). cs_state (w_objs w ! r) \<noteq> CompSState_Commited) (compStates ns) in
      if length m \<le> 60 then
        (let maxStateVer = maxStateVersion ns in
         case prefetch B M (maxStateVer + 40) (maxStateVer + 1) w m of
           None \<Rightarrow> None
         | Some (Inl e) \<Rightarrow> Some (Inl e)
         | Some (Inr (w', m')) \<Rightarrow> Some (Inr (w', \<lparr>maxStateVersion = maxStateVer + 40, compStates = m'\<rparr>)))
      else Some (Inr (w, ns\<lparr>compStates := m\<rparr>)))"

text \<open>\<open>isLedger\<close> tells whether the ledger argument is not nil.\<close>

definition simple_getCompositionStateOfNode ::
  "builderSimple \<Rightarrow> string \<Rightarrow> bool \<Rightarrow> builderSimple \<times> compositionStateOfNodeSimple option" where
  "simple_getCompositionStateOfNode bs nodeID isLedger = (case map_of bs nodeID of
     Some ns \<Rightarrow> (bs, Some ns)
   | None \<Rightarrow> if \<not> isLedger then (bs, None)
             else let ns = \<lparr>maxStateVersion = 0, compStates = []\<rparr> in (gm_set nodeID ns bs, Some ns))"

definition simple_createCompositionStateOfNode ::
  "('t, bytes) btree_ops \<Rightarrow> ('t, bytes, 'p) memdb_smt \<Rightarrow> 't world \<Rightarrow> compositionStateOfNodeSimple \<Rightarrow> u64 \<Rightarrow>
   error + ('t world \<times> compositionStateOfNodeSimple \<times> nat option)" where
  "simple_createCompositionStateOfNode B M w ns stateVersion =
     (let stateVerS = FormatUint stateVersion in
      case map_of (compStates ns) stateVerS of
        Some r \<Rightarrow>
          (if cs_state (w_objs w ! r) = CompSState_Commited
           then Inr (w, ns\<lparr>compStates := gm_del stateVerS (compStates ns)\<rparr>, None) else Inr (w, ns, Some r))
      | None \<Rightarrow>
          (case new_state B M w stateVersion of
             Inl e \<Rightarrow> Inl e
           | Inr (w', r) \<Rightarrow>
               Inr (w', \<lparr>maxStateVersion = stateVersion, compStates = gm_set stateVerS r (compStates ns)\<rparr>, Some r)))"

definition simple_CreateCompositionState ::
  "('t, bytes) btree_ops \<Rightarrow> ('t, bytes, 'p) memdb_smt \<Rightarrow> 't world \<Rightarrow> builderSimple \<Rightarrow> string \<Rightarrow> u64 \<Rightarrow>
   error + ('t world \<times> builderSimple \<times> nat option)" where
  "simple_CreateCompositionState B M w bs nodeID stateVersion =
     (case simple_getCompositionStateOfNode bs nodeID True of
        (bs', None) \<Rightarrow> Inl (Panic ''nil pointer dereference'')
      | (bs', Some ns) \<Rightarrow>
          (case simple_createCompositionStateOfNode B M w ns stateVersion of
             Inl e \<Rightarrow> Inl e
           | Inr (w', ns', r) \<Rightarrow> Inr (w', gm_set nodeID ns' bs', r)))"

definition simple_CompositionStateAtVersion :: "builderSimple \<Rightarrow> string \<Rightarrow> u64 \<Rightarrow> nat option" where
  "simple_CompositionStateAtVersion bs nodeID stateVersion =
     (case simple_getCompositionStateOfNode bs nodeID False of
        (bs', None) \<Rightarrow> None
      | (bs', Some ns) \<Rightarrow> map_of (compStates ns) (FormatUint stateVersion))"

definition simple_CompositionStateExist :: "builderSimple \<Rightarrow> string \<Rightarrow> u64 \<Rightarrow> bool" where
  "simple_CompositionStateExist bs nodeID stateVersion =
     (case simple_getCompositionStateOfNode bs nodeID False of
        (bs', None) \<Rightarrow> False
      | (bs', Some ns) \<Rightarrow> gm_has (compStates ns) (FormatUint stateVersion))"

lemma FormatUint_inject: "FormatUint v = FormatUint u \<longleftrightarrow> v = u"
  unfolding FormatUint_def by (metis digits_val_dec word_unat_eq_iff)

abbreviation w_db :: "'t world \<Rightarrow> 't memdb" where "w_db w \<equiv> lg_backendStateDB (w_ledger w)"

definition fresh_state :: "('t, bytes) btree_ops \<Rightarrow> u64 \<Rightarrow> 't compositionState \<Rightarrow> bool" where
  "fresh_state B v cs \<longleftrightarrow> cs_stateVersion cs = v \<and> cs_state cs = CompSState_Idle \<and> store_open B (cs_store cs)"

lemma new_state_ok:
  fixes B :: "('t, bytes) btree_ops"
  assumes "ledger_libs B M" "good_tree B (mdb_btree (w_db w))"
  obtains w' cs where "new_state B M w v = Inr (w', length (w_objs w))" "w_objs w' = w_objs w @ [cs]" "fresh_state B v cs"
    "w_db w' = (w_db w)\<lparr>mdb_openWriters := mdb_openWriters (w_db w) + 1\<rparr>"
proof -
  obtain s :: "('t, bytes) stateStore" where s: "NewStateStore (w_db w) Flag_ReadWrite = Inr s"
    using NewStateStore_ex [OF assms(2)] by blast
  note o = ledger_ok_session [OF assms(1) s assms(2)]
  let ?cs = "\<lparr>cs_store = open_named B M comp_names s, cs_stateVersion = v, cs_state = CompSState_Idle\<rparr>"
  have "createCompositionState B M (w_ledger w) v = Inr ?cs"
    using s by (simp add: createCompositionState_def lg_CreateStateStore_def create_open_named)
  moreover have "store_open B (open_named B M comp_names s)" using o(1) by (simp add: comp_names_def ledger_ok_def)
  ultimately show ?thesis
    by (intro that [of "w\<lparr>w_ledger := ledger_after (w_ledger w) ?cs, w_objs := w_objs w @ [?cs]\<rparr>" ?cs])
      (simp_all add: new_state_def ledger_after_def fresh_state_def o(3))
qed

text \<open>Creating the states of the versions \<open>stateVer\<close> to \<open>bound\<close>.\<close>

lemma prefetch_ok:
  fixes B :: "('t, bytes) btree_ops"
  assumes "ledger_libs B M" "good_tree B (mdb_btree (w_db w))" "sorted_keys m"
    and "unat stateVer + k = unat bound + 1" "bound \<noteq> - 1"
  shows "\<exists>w' m' new. prefetch B M bound stateVer w m = Some (Inr (w', m')) \<and> w_objs w' = w_objs w @ new \<and> length new = k \<and>
    (\<forall>i < k. fresh_state B (stateVer + of_nat i) (new ! i)) \<and>
    w_db w' = (w_db w)\<lparr>mdb_openWriters := mdb_openWriters (w_db w) + int k\<rparr> \<and> sorted_keys m' \<and>
    (\<forall>i < k. map_of m' (FormatUint (stateVer + of_nat i)) = Some (length (w_objs w) + i)) \<and>
    (\<forall>key. (\<forall>i < k. key \<noteq> FormatUint (stateVer + of_nat i)) \<longrightarrow> map_of m' key = map_of m key)"
  using assms(2-4)
proof (induction k arbitrary: stateVer w m)
  case 0
  then have "bound < stateVer" by (simp add: word_less_nat_alt)
  with 0 show ?case by (subst prefetch.simps) auto
next
  case (Suc k)
  obtain w1 cs where w1: "new_state B M w stateVer = Inr (w1, length (w_objs w))" "w_objs w1 = w_objs w @ [cs]"
    "fresh_state B stateVer cs" "w_db w1 = (w_db w)\<lparr>mdb_openWriters := mdb_openWriters (w_db w) + 1\<rparr>"
    using new_state_ok [OF assms(1) Suc.prems(1)] by metis
  let ?m1 = "gm_set (FormatUint stateVer) (length (w_objs w)) m"
  have b: "unat bound < 2 ^ 64 - 1"
  proof -
    have "bound < - 1" using assms(5) by (simp add: word_order.not_eq_extremum)
    moreover have "unat (- 1 :: u64) = 2 ^ 64 - 1" by (simp add: unsigned_minus_1_eq_mask mask_eq_exp_minus_1)
    ultimately show ?thesis by (simp only: word_less_nat_alt)
  qed
  have s: "unat (stateVer + 1) = unat stateVer + 1"
    using Suc.prems(3) b by (intro trans [OF unat_add_lem [THEN iffD1]]) simp_all
  have "good_tree B (mdb_btree (w_db w1))" "sorted_keys ?m1" "unat (stateVer + 1) + k = unat bound + 1"
    using Suc.prems w1(4) s by (simp_all add: gm_set_sorted)
  from Suc.IH [OF this] obtain w' m' new where r: "prefetch B M bound (stateVer + 1) w1 ?m1 = Some (Inr (w', m'))"
    "w_objs w' = w_objs w1 @ new" "length new = k" "\<forall>i < k. fresh_state B (stateVer + 1 + of_nat i) (new ! i)"
    "w_db w' = (w_db w1)\<lparr>mdb_openWriters := mdb_openWriters (w_db w1) + int k\<rparr>" "sorted_keys m'"
    "\<forall>i < k. map_of m' (FormatUint (stateVer + 1 + of_nat i)) = Some (length (w_objs w1) + i)"
    "\<forall>key. (\<forall>i < k. key \<noteq> FormatUint (stateVer + 1 + of_nat i)) \<longrightarrow> map_of m' key = map_of ?m1 key" by blast
  have "stateVer \<le> bound" using Suc.prems(3) by (simp add: word_le_nat_alt)
  then have p: "prefetch B M bound stateVer w m = Some (Inr (w', m'))"
    using w1(1) r(1) by (subst prefetch.simps) simp
  have "FormatUint stateVer \<noteq> FormatUint (stateVer + 1 + of_nat i)" if "i < k" for i
  proof -
    have "unat (of_nat i :: u64) = i" "unat stateVer + 1 + i < 2 ^ 64" using that Suc.prems(3) b by (simp_all add: unat_of_nat)
    then have "unat (stateVer + 1 + of_nat i) = unat stateVer + 1 + i"
      using s by (intro trans [OF unat_add_lem [THEN iffD1]]) simp_all
    then have "unat (stateVer + 1 + of_nat i) \<noteq> unat stateVer" by linarith
    then show ?thesis unfolding FormatUint_inject by metis
  qed
  then have first: "map_of m' (FormatUint stateVer) = Some (length (w_objs w))" using r(8) Suc.prems(2) by simp
  have "fresh_state B (stateVer + of_nat i) ((cs # new) ! i)" if "i < Suc k" for i
    using that w1(3) r(4) by (cases i) (simp_all add: add.assoc)
  moreover have "map_of m' (FormatUint (stateVer + of_nat i)) = Some (length (w_objs w) + i)" if "i < Suc k" for i
    using that first r(7) w1(2) by (cases i) (simp_all add: add.assoc)
  moreover have "map_of m' key = map_of m key" if "\<forall>i < Suc k. key \<noteq> FormatUint (stateVer + of_nat i)" for key
  proof -
    have "key \<noteq> FormatUint (stateVer + 1 + of_nat i)" if "i < k" for i
      using \<open>\<forall>i < Suc k. _\<close> [rule_format, of "Suc i"] that by (simp add: add.assoc)
    moreover have "key \<noteq> FormatUint stateVer" using that [rule_format, of 0] by simp
    ultimately show ?thesis using r(8) Suc.prems(2) by simp
  qed
  ultimately show ?case
    using p r(2,3,5,6) w1(2,4) by (intro exI [of _ w'] exI [of _ m'] exI [of _ "cs # new"]) simp
qed

text \<open>A tick that creates states, on a node whose states are not committed.\<close>

lemma tick_ok:
  fixes B :: "('t, bytes) btree_ops"
  assumes "ledger_libs B M" "good_tree B (mdb_btree (w_db w))" "sorted_keys (compStates ns)"
    and "\<forall>(key, r) \<in> set (compStates ns). cs_state (w_objs w ! r) \<noteq> CompSState_Commited" "length (compStates ns) \<le> 60"
    and "unat (maxStateVersion ns) + 40 < 2 ^ 64 - 1"
  obtains w' ns' new where "maintainTick B M w ns = Some (Inr (w', ns'))" "w_objs w' = w_objs w @ new" "length new = 40"
    "\<forall>i < 40. fresh_state B (maxStateVersion ns + 1 + of_nat i) (new ! i)"
    "w_db w' = (w_db w)\<lparr>mdb_openWriters := mdb_openWriters (w_db w) + 40\<rparr>"
    "\<forall>i < 40. map_of (compStates ns') (FormatUint (maxStateVersion ns + 1 + of_nat i)) = Some (length (w_objs w) + i)"
proof -
  let ?m = "maxStateVersion ns"
  have u: "unat (?m + 40) = unat ?m + 40" "unat (?m + 1) = unat ?m + 1"
    using assms(6) by (intro trans [OF unat_add_lem [THEN iffD1]]; simp)+
  moreover have "unat (- 1 :: u64) = 2 ^ 64 - 1" by (simp add: unsigned_minus_1_eq_mask mask_eq_exp_minus_1)
  ultimately have "?m + 40 \<noteq> - 1" using assms(6) by (metis less_irrefl)
  then obtain w' m' new where r: "prefetch B M (?m + 40) (?m + 1) w (compStates ns) = Some (Inr (w', m'))" "w_objs w' = w_objs w @ new"
    "length new = 40" "\<forall>i < 40. fresh_state B (?m + 1 + of_nat i) (new ! i)"
    "w_db w' = (w_db w)\<lparr>mdb_openWriters := mdb_openWriters (w_db w) + int 40\<rparr>"
    "\<forall>i < 40. map_of m' (FormatUint (?m + 1 + of_nat i)) = Some (length (w_objs w) + i)"
    using prefetch_ok [OF assms(1-3), of "?m + 1" 40 "?m + 40"] u by auto
  have "filter (\<lambda>(key, r). cs_state (w_objs w ! r) \<noteq> CompSState_Commited) (compStates ns) = compStates ns"
    using assms(4) by (auto intro: filter_True)
  then have "maintainTick B M w ns = Some (Inr (w', \<lparr>maxStateVersion = ?m + 40, compStates = m'\<rparr>))"
    using r(1) assms(5) by (simp add: maintainTick_def Let_def)
  then show ?thesis using r by (intro that [of w' "\<lparr>maxStateVersion = ?m + 40, compStates = m'\<rparr>" new]) simp_all
qed

lemma version_index:
  fixes u v :: u64
  assumes "v < u" "unat u \<le> unat v + 40"
  obtains i where "i < 40" "v + 1 + of_nat i = u"
proof
  show "unat u - unat v - 1 < 40" using assms by (simp add: word_less_nat_alt)
  have "v + 1 + of_nat (unat u - unat v - 1) = of_nat (unat v) + of_nat (1 + (unat u - unat v - 1))" by simp
  also have "\<dots> = of_nat (unat v + (1 + (unat u - unat v - 1)))" by (simp only: of_nat_add)
  also have "\<dots> = u" using assms(1) by (simp add: word_less_nat_alt)
  finally show "v + 1 + of_nat (unat u - unat v - 1) = u" .
qed

text \<open>
  (C32) The tick of the simple builder replaces states that are in use: when the states
  of a version \<open>u\<close> and then of a lower version \<open>v\<close> (within 40) were asked for, the next tick
  creates the versions after \<open>v\<close>, \<open>u\<close> among them. A second request for \<open>u\<close> then gets another
  state, while the first one is still idle.
\<close>

theorem simple_tick_replaces_live_state:
  fixes B :: "('t, bytes) btree_ops"
  assumes "ledger_libs B M" "good_tree B (mdb_btree (w_db w))" "v < u" "unat u \<le> unat v + 40" "unat v + 40 < 2 ^ 64 - 1"
  shows "\<exists>w1 ns1 r1 w2 ns2 r2 w3 ns3 w4 ns4 r3.
    simple_createCompositionStateOfNode B M w \<lparr>maxStateVersion = 0, compStates = []\<rparr> u = Inr (w1, ns1, Some r1) \<and>
    simple_createCompositionStateOfNode B M w1 ns1 v = Inr (w2, ns2, Some r2) \<and>
    maintainTick B M w2 ns2 = Some (Inr (w3, ns3)) \<and>
    simple_createCompositionStateOfNode B M w3 ns3 u = Inr (w4, ns4, Some r3) \<and>
    r3 \<noteq> r1 \<and> cs_state (w_objs w4 ! r1) = CompSState_Idle \<and> cs_stateVersion (w_objs w4 ! r1) = u \<and> cs_stateVersion (w_objs w4 ! r3) = u"
proof -
  let ?k = "length (w_objs w)"
  obtain w1 c1 where w1: "new_state B M w u = Inr (w1, ?k)" "w_objs w1 = w_objs w @ [c1]" "fresh_state B u c1"
    "w_db w1 = (w_db w)\<lparr>mdb_openWriters := mdb_openWriters (w_db w) + 1\<rparr>"
    using new_state_ok [OF assms(1,2), of u] by metis
  have g1: "good_tree B (mdb_btree (w_db w1))" using assms(2) w1(4) by simp
  obtain w2 c2 where w2: "new_state B M w1 v = Inr (w2, length (w_objs w1))" "w_objs w2 = w_objs w1 @ [c2]" "fresh_state B v c2"
    "w_db w2 = (w_db w1)\<lparr>mdb_openWriters := mdb_openWriters (w_db w1) + 1\<rparr>"
    using new_state_ok [OF assms(1) g1, of v] by metis
  define ns2 where "ns2 = \<lparr>maxStateVersion = v, compStates = gm_set (FormatUint v) (Suc ?k) [(FormatUint u, ?k)]\<rparr>"
  have vu: "FormatUint v \<noteq> FormatUint u" using assms(3) by (auto simp: FormatUint_inject)
  have ns2: "sorted_keys (compStates ns2)" "set (compStates ns2) = {(FormatUint v, Suc ?k), (FormatUint u, ?k)}" "length (compStates ns2) \<le> 60"
    "unat (maxStateVersion ns2) + 40 < 2 ^ 64 - 1" "maxStateVersion ns2 = v"
    using vu assms(5) by (auto simp: ns2_def gm_set_sorted)
  have live: "\<forall>(key, r) \<in> set (compStates ns2). cs_state (w_objs w2 ! r) \<noteq> CompSState_Commited"
    using w1(2,3) w2(2,3) by (subst ns2(2)) (auto simp: fresh_state_def nth_append)
  have g2: "good_tree B (mdb_btree (w_db w2))" using g1 w2(4) by simp
  obtain w3 ns3 new where w3: "maintainTick B M w2 ns2 = Some (Inr (w3, ns3))" "w_objs w3 = w_objs w2 @ new" "length new = 40"
    "\<forall>i < 40. fresh_state B (v + 1 + of_nat i) (new ! i)"
    "\<forall>i < 40. map_of (compStates ns3) (FormatUint (v + 1 + of_nat i)) = Some (length (w_objs w2) + i)"
    by (rule tick_ok [OF assms(1) g2 ns2(1) live ns2(3,4), unfolded ns2(5)])
  obtain i where i: "i < 40" "v + 1 + of_nat i = u" using version_index [OF assms(3,4)] .
  let ?r3 = "length (w_objs w2) + i"
  have u3: "map_of (compStates ns3) (FormatUint u) = Some ?r3" "w_objs w3 ! ?r3 = new ! i" "fresh_state B u (new ! i)"
    using w3 i by (auto simp: nth_append)
  have "simple_createCompositionStateOfNode B M w3 ns3 u = Inr (w3, ns3, Some ?r3)"
    using u3 by (simp add: simple_createCompositionStateOfNode_def Let_def fresh_state_def)
  moreover have "w_objs w3 ! ?k = c1" using w3(2) w2(2) w1(2) by (simp add: nth_append)
  moreover have "?r3 \<noteq> ?k" using w2(2) w1(2) by simp
  moreover have "simple_createCompositionStateOfNode B M w \<lparr>maxStateVersion = 0, compStates = []\<rparr> u =
      Inr (w1, \<lparr>maxStateVersion = u, compStates = [(FormatUint u, ?k)]\<rparr>, Some ?k)"
    using w1(1) by (simp add: simple_createCompositionStateOfNode_def Let_def)
  moreover have "simple_createCompositionStateOfNode B M w1 \<lparr>maxStateVersion = u, compStates = [(FormatUint u, ?k)]\<rparr> v =
      Inr (w2, ns2, Some (Suc ?k))"
    using w2(1) w1(2) vu by (simp add: simple_createCompositionStateOfNode_def Let_def ns2_def)
  ultimately show ?thesis using w3(1) w1(3) u3 unfolding fresh_state_def by metis
qed

theorem simple_tick_replaces_live_state_witness:
  "\<exists>w1 ns1 r1 w2 ns2 r2 w3 ns3 w4 ns4 r3.
    simple_createCompositionStateOfNode rbt_ops sample_bytes_smt \<lparr>w_ledger = sample_ledger, w_objs = []\<rparr>
      \<lparr>maxStateVersion = 0, compStates = []\<rparr> 12 = Inr (w1, ns1, Some r1) \<and>
    simple_createCompositionStateOfNode rbt_ops sample_bytes_smt w1 ns1 10 = Inr (w2, ns2, Some r2) \<and>
    maintainTick rbt_ops sample_bytes_smt w2 ns2 = Some (Inr (w3, ns3)) \<and>
    simple_createCompositionStateOfNode rbt_ops sample_bytes_smt w3 ns3 12 = Inr (w4, ns4, Some r3) \<and>
    r3 \<noteq> r1 \<and> cs_state (w_objs w4 ! r1) = CompSState_Idle \<and> cs_stateVersion (w_objs w4 ! r1) = 12 \<and> cs_stateVersion (w_objs w4 ! r3) = 12"
  by (rule simple_tick_replaces_live_state [OF sample_libs]) (simp_all add: sample_ledger_good)

text \<open>
  (C33) The states that a tick creates cannot save a version: they are all open on the
  database of the ledger, so when one of them is committed, the call reports success, but
  the set of saved versions is what it was.
\<close>

theorem prefetched_commit_saves_nothing:
  fixes B :: "('t, bytes) btree_ops"
  assumes "ledger_libs B M" "good_tree B (mdb_btree (w_db w))" "mdb_openWriters (w_db w) \<ge> 0"
    and "v < u" "unat u \<le> unat v + 40" "unat v + 40 < 2 ^ 64 - 1"
  shows "\<exists>w1 ns1 r w2. maintainTick B M w \<lparr>maxStateVersion = v, compStates = []\<rparr> = Some (Inr (w1, ns1)) \<and>
    map_of (compStates ns1) (FormatUint u) = Some r \<and> w_Commit w1 r = (w2, None) \<and>
    mdb_saved (w_db w2) = mdb_saved (w_db w) \<and> mdb_vmgr (w_db w2) = mdb_vmgr (w_db w)"
proof -
  let ?ns = "\<lparr>maxStateVersion = v, compStates = []\<rparr>"
  have ns: "sorted_keys (compStates ?ns)" "\<forall>(key, r) \<in> set (compStates ?ns). cs_state (w_objs w ! r) \<noteq> CompSState_Commited"
    "length (compStates ?ns) \<le> 60" "unat (maxStateVersion ?ns) + 40 < 2 ^ 64 - 1" "maxStateVersion ?ns = v"
    using assms(6) by simp_all
  obtain w1 ns1 new where w1: "maintainTick B M w ?ns = Some (Inr (w1, ns1))" "w_objs w1 = w_objs w @ new" "length new = 40"
    "\<forall>i < 40. fresh_state B (v + 1 + of_nat i) (new ! i)"
    "w_db w1 = (w_db w)\<lparr>mdb_openWriters := mdb_openWriters (w_db w) + 40\<rparr>"
    "\<forall>i < 40. map_of (compStates ns1) (FormatUint (v + 1 + of_nat i)) = Some (length (w_objs w) + i)"
    by (rule tick_ok [OF assms(1,2) ns(1-4), unfolded ns(5)])
  obtain i where i: "i < 40" "v + 1 + of_nat i = u" using version_index [OF assms(4,5)] .
  let ?r = "length (w_objs w) + i" and ?s = "(cs_store (new ! i))\<lparr>st_db := w_db w1\<rparr>"
  have cs: "w_objs w1 ! ?r = new ! i" "store_open B (cs_store (new ! i))" "map_of (compStates ns1) (FormatUint u) = Some ?r"
    using w1 i by (auto simp: fresh_state_def nth_append)
  have "store_open B ?s" using cs(2) by (simp add: store_open_def memdb_opn_def st_conn_def)
  moreover have "mdb_openWriters (st_db ?s) > 1" using w1(5) assms(3) by simp
  moreover obtain s' err where s': "ss_Commit ?s = (s', err)" by force
  ultimately have c: "err = None" "mdb_saved (st_db s') = mdb_saved (w_db w1)" "mdb_vmgr (st_db s') = mdb_vmgr (w_db w1)"
    using ss_Commit_shared [of B ?s s' err] by simp_all
  have "w_Commit w1 ?r = (w1\<lparr>w_ledger := ledger_after (w_ledger w1) ((new ! i)\<lparr>cs_store := s'\<rparr>),
      w_objs := (w_objs w1)[?r := (new ! i)\<lparr>cs_store := s'\<rparr>]\<rparr>, err)"
    using s' cs(1) by (simp add: w_Commit_def cs_Commit_def Let_def)
  with c w1(1,5) cs(3) show ?thesis by (simp add: ledger_after_def)
qed

theorem prefetched_commit_saves_nothing_witness:
  "\<exists>w1 ns1 r w2. maintainTick rbt_ops sample_bytes_smt \<lparr>w_ledger = sample_ledger, w_objs = []\<rparr>
      \<lparr>maxStateVersion = 0, compStates = []\<rparr> = Some (Inr (w1, ns1)) \<and>
    map_of (compStates ns1) (FormatUint 1) = Some r \<and> w_Commit w1 r = (w2, None) \<and>
    mdb_vmgr (lg_backendStateDB (w_ledger w2)) = NewVersionManager []"
proof -
  have "mdb_openWriters (lg_backendStateDB sample_ledger) = 0" "mdb_vmgr (lg_backendStateDB sample_ledger) = NewVersionManager []"
    by (simp_all add: sample_ledger_def NewLedger_def NewMemDBBackend_def)
  then show ?thesis
    using prefetched_commit_saves_nothing [OF sample_libs, of "\<lparr>w_ledger = sample_ledger, w_objs = []\<rparr>" 0 1] sample_ledger_good
    by auto
qed

end
