(* ===== verification/Fork_Choice.thy ===== *)
theory Fork_Choice
  imports Node_Registry Block_Types Complex_Main
begin

unbundle bit_operations_syntax

text \<open>
  The choice between chains (\<open>src/chain/fork_choice.go\<close>, \<open>src/chain/block_weight.go\<close>) and
  the collectors of received blocks (\<open>src/chain/archiver\<close>, \<open>src/chain/universal\<close>). A chain
  is a list of blocks; a block is compared by its hash, which is a parameter. Floating
  point numbers are a parameter too: the record \<open>f64_ops\<close> has the conversions and the
  operations that the code uses.
\<close>

section \<open>Choosing between block heads\<close>

text \<open>\<open>big.Int.SetBytes\<close>.\<close>

definition big_SetBytes :: "bytes \<Rightarrow> nat" where
  "big_SetBytes bs = foldl (\<lambda>a b. 256 * a + unat b) 0 bs"

definition BlockHeadChoice :: "BlockHead \<Rightarrow> BlockHead \<Rightarrow> error + BlockHead" where
  "BlockHeadChoice bh1 bh2 =
     (if bh_Height bh1 \<noteq> bh_Height bh1 then Inl (ErrOther ''Not same height block head'')
      else let p1 = big_SetBytes (bh_MaxPri bh1); p2 = big_SetBytes (bh_MaxPri bh2) in
           if p1 < p2 then Inr bh2 else if p1 > p2 then Inr bh1 else Inr bh1)"

text \<open>
  \<open>BlockHeadChoice\<close> returns a head of greatest priority, the first one on a tie, and
  never an error: heads of different heights are compared as well, since the test for
  the height compares the first head with itself.
\<close>

lemma BlockHeadChoice_by_priority:
  "BlockHeadChoice bh1 bh2 =
     Inr (if big_SetBytes (bh_MaxPri bh2) \<le> big_SetBytes (bh_MaxPri bh1) then bh1 else bh2)"
  by (simp add: BlockHeadChoice_def Let_def)

section \<open>The common ancestor\<close>

definition block_hash :: "(bytes \<Rightarrow> bytes) \<Rightarrow> Block \<Rightarrow> bytes" where
  "block_hash blake b = (case Block_HashBytes blake b of Inl _ \<Rightarrow> [] | Inr h \<Rightarrow> h)"

text \<open>The loop, from the indices \<open>i - 1\<close> and \<open>j - 1\<close> downwards.\<close>

fun findAncestor_loop :: "(bytes \<Rightarrow> bytes) \<Rightarrow> Block list \<Rightarrow> Block list \<Rightarrow> nat \<Rightarrow> nat \<Rightarrow> Block option" where
  "findAncestor_loop blake chain1 chain2 (Suc i) (Suc j) =
     (if block_hash blake (chain1 ! i) = block_hash blake (chain2 ! j) then findAncestor_loop blake chain1 chain2 i j
      else if i < length chain1 - 1 then Some (chain1 ! (i + 1)) else None)"
| "findAncestor_loop blake chain1 chain2 _ _ = None"

definition FindAncestor :: "(bytes \<Rightarrow> bytes) \<Rightarrow> Block list \<Rightarrow> Block list \<Rightarrow> Block option \<times> bool" where
  "FindAncestor blake chain1 chain2 =
     (if length chain1 = 0 \<or> length chain2 = 0 then (None, False)
      else (case findAncestor_loop blake chain1 chain2 (length chain1) (length chain2) of
              Some b \<Rightarrow> (Some b, True) | None \<Rightarrow> (None, False)))"

text \<open>The number of blocks at the end in which two chains agree.\<close>

definition common_tail :: "(bytes \<Rightarrow> bytes) \<Rightarrow> Block list \<Rightarrow> Block list \<Rightarrow> nat" where
  "common_tail blake chain1 chain2 =
     length (longest_common_prefix (rev (map (block_hash blake) chain1)) (rev (map (block_hash blake) chain2)))"


lemma common_tail_Suc:
  assumes "i < length c1" "j < length c2"
  shows "common_tail blake (take (Suc i) c1) (take (Suc j) c2) =
    (if block_hash blake (c1 ! i) = block_hash blake (c2 ! j) then Suc (common_tail blake (take i c1) (take j c2)) else 0)"
proof -
  have "rev (map f (take (Suc i) xs)) = f (xs ! i) # rev (map f (take i xs))" if "i < length xs" for f :: "Block \<Rightarrow> bytes" and i xs
    using that by (simp add: take_Suc_conv_app_nth)
  with assms show ?thesis by (simp add: common_tail_def)
qed

lemma findAncestor_loop_spec:
  assumes "i \<le> length c1" "j \<le> length c2"
  shows "findAncestor_loop blake c1 c2 i j =
    (let n = common_tail blake (take i c1) (take j c2) in
     if n < i \<and> n < j \<and> (n > 0 \<or> i < length c1) then Some (c1 ! (i - n)) else None)"
  using assms
proof (induction blake c1 c2 i j rule: findAncestor_loop.induct)
  case (1 blake c1 c2 i j)
  then show ?case by (auto simp: common_tail_Suc Let_def)
qed (auto simp: common_tail_def)

text \<open>
  (C28) \<open>FindAncestor\<close> returns the first block of the longest common tail of the two
  chains, and it reports no ancestor when the chains have no common block, but also when
  one chain is a tail of the other.
\<close>

theorem FindAncestor_correct:
  "FindAncestor blake chain1 chain2 =
     (let n = common_tail blake chain1 chain2 in
      if 0 < n \<and> n < length chain1 \<and> n < length chain2 then (Some (chain1 ! (length chain1 - n)), True) else (None, False))"
  using findAncestor_loop_spec [of "length chain1" chain1 "length chain2" chain2 blake]
  by (auto simp: FindAncestor_def Let_def)

lemma FindAncestor_of_extension:
  "FindAncestor blake (newer @ chain) chain = (None, False)" "FindAncestor blake chain (newer @ chain) = (None, False)"
proof -
  have "longest_common_prefix xs (xs @ ys) = xs" for xs ys :: "bytes list" by (induction xs) auto
  moreover have "longest_common_prefix (xs @ ys) xs = xs" for xs ys :: "bytes list"
    by (induction xs) (cases ys, auto)
  ultimately have "common_tail blake (newer @ chain) chain = length chain" "common_tail blake chain (newer @ chain) = length chain"
    by (simp_all add: common_tail_def)
  with findAncestor_loop_spec show "FindAncestor blake (newer @ chain) chain = (None, False)" "FindAncestor blake chain (newer @ chain) = (None, False)"
    by (auto simp: FindAncestor_def)
qed

section \<open>The heavier chain\<close>

text \<open>
  \<open>f_of_u64 w\<close> is the exact value of \<open>float64(w)\<close>, \<open>f_of_rat\<close> is \<open>big.Rat.Float64\<close>.
\<close>

record 'f f64_ops =
  f_of_u64 :: "u64 \<Rightarrow> rat"
  f_of_rat :: "rat \<Rightarrow> 'f"
  f_zero :: 'f
  f_add :: "'f \<Rightarrow> 'f \<Rightarrow> 'f"
  f_less :: "'f \<Rightarrow> 'f \<Rightarrow> bool"

text \<open>\<open>compStateAt\<close> is \<open>state.CreateCompositionStateReadonlyAt\<close> on the ledger; \<open>Quo\<close> panics on zero.\<close>

definition ComputeNodeWeightRatio ::
  "'f f64_ops \<Rightarrow> ('s, bytes) ss_ops \<Rightarrow> (u64 \<Rightarrow> 's option) \<Rightarrow> u64 \<Rightarrow> string \<Rightarrow> u64 \<Rightarrow> error + 'f" where
  "ComputeNodeWeightRatio F S compStateAt height nodeID blocksPerEpoch =
     (case compStateAt height of
        None \<Rightarrow> Inl (ErrOther ''Can't get composition read only state'')
      | Some s \<Rightarrow>
          (let totalWeight = (case GetTotalWeight S s of Inl _ \<Rightarrow> 0 | Inr w \<Rightarrow> w);
               nodeWeight = (case GetNodeWeight S s nodeID of Inl _ \<Rightarrow> 0 | Inr w \<Rightarrow> w);
               rWeight = f_of_u64 F totalWeight in
           if rWeight = 0 then Inl (Panic ''division by zero'')
           else Inr (f_of_rat F (of_int (sint (nodeWeight * blocksPerEpoch)) / rWeight))))"

definition blockRatio :: "'f f64_ops \<Rightarrow> ('s, bytes) ss_ops \<Rightarrow> (u64 \<Rightarrow> 's option) \<Rightarrow> u64 \<Rightarrow> Block \<Rightarrow> error + 'f" where
  "blockRatio F S compStateAt bpe b =
     (case blk_Head b of
        None \<Rightarrow> Inl (Panic ''nil pointer dereference'')
      | Some h \<Rightarrow> ComputeNodeWeightRatio F S compStateAt (bh_Height h) (bytes_str (bh_Proposer h)) bpe)"

text \<open>The loop; its counter is never changed. \<open>None\<close> is a loop that does not end.\<close>

partial_function (option) chainChoice_loop ::
  "'f f64_ops \<Rightarrow> (Block \<Rightarrow> error + 'f) \<Rightarrow> Block list \<Rightarrow> Block list \<Rightarrow> nat \<Rightarrow> nat \<Rightarrow> 'f \<Rightarrow> 'f \<Rightarrow> (error + 'f \<times> 'f) option" where
  "chainChoice_loop F ratio chain1 chain2 maxLen i w1 w2 =
     (if i < maxLen then
        (case (if i \<le> length chain1 then
                 (if i < length chain1 then map_sum id (f_add F w1) (ratio (chain1 ! i)) else Inl (Panic ''index out of range''))
               else Inr w1) of
           Inl e \<Rightarrow> Some (Inl e)
         | Inr w1' \<Rightarrow>
             (case (if i < length chain2 then map_sum id (f_add F w2) (ratio (chain2 ! i)) else Inr w2) of
                Inl e \<Rightarrow> Some (Inl e)
              | Inr w2' \<Rightarrow> chainChoice_loop F ratio chain1 chain2 maxLen i w1' w2'))
      else Some (Inr (w1, w2)))"

definition ChainChoiceAfterAncestor ::
  "'f f64_ops \<Rightarrow> ('s, bytes) ss_ops \<Rightarrow> (u64 \<Rightarrow> 's option) \<Rightarrow> u64 \<Rightarrow> Block list \<Rightarrow> Block list \<Rightarrow> (error + Block list) option" where
  "ChainChoiceAfterAncestor F S compStateAt bpe chain1 chain2 =
     (if length chain1 = 0 then Some (Inr chain2)
      else if length chain2 = 0 then Some (Inr chain1)
      else
        (let maxLen = (if length chain1 < length chain2 then length chain2 else length chain1) in
         case chainChoice_loop F (blockRatio F S compStateAt bpe) chain1 chain2 maxLen 0 (f_zero F) (f_zero F) of
           None \<Rightarrow> None
         | Some (Inl e) \<Rightarrow> Some (Inl e)
         | Some (Inr (w1, w2)) \<Rightarrow> Some (Inr (if f_less F w1 w2 then chain2 else chain1))))"

lemma chainChoice_loop_diverges:
  assumes "chainChoice_loop F ratio c1 c2 n i w1 w2 = Some r"
  shows "\<not> (i < n \<and> i < length c1 \<and> i < length c2 \<and> (\<exists>a b. ratio (c1 ! i) = Inr a \<and> ratio (c2 ! i) = Inr b))"
  by (rule chainChoice_loop.raw_induct [OF _ assms]) (auto split: if_splits sum.splits)

text \<open>
  (C29) \<open>ChainChoiceAfterAncestor\<close> never returns on two non-empty chains whose first blocks
  have a weight ratio: the loop does not advance its index.
\<close>

theorem ChainChoice_never_returns:
  assumes "blockRatio F S compStateAt bpe b1 = Inr r1" "blockRatio F S compStateAt bpe b2 = Inr r2"
  shows "ChainChoiceAfterAncestor F S compStateAt bpe (b1 # chain1) (b2 # chain2) = None"
proof -
  let ?n = "if length (b1 # chain1) < length (b2 # chain2) then length (b2 # chain2) else length (b1 # chain1)"
  have "chainChoice_loop F (blockRatio F S compStateAt bpe) (b1 # chain1) (b2 # chain2) ?n 0 (f_zero F) (f_zero F) = None"
    (is "?l = None")
  proof (rule ccontr)
    assume "?l \<noteq> None"
    then obtain r where "?l = Some r" by blast
    from chainChoice_loop_diverges [OF this] assms show False by (simp split: if_splits)
  qed
  then show ?thesis by (simp add: ChainChoiceAfterAncestor_def Let_def)
qed

definition sample_f64 :: "rat f64_ops" where
  "sample_f64 = \<lparr>f_of_u64 = \<lambda>w. of_int (uint w), f_of_rat = id, f_zero = 0, f_add = (+), f_less = (<)\<rparr>"

text \<open>A store in which every value is the number 10.\<close>

definition sample_weights :: "(unit, bytes) ss_ops" where
  "sample_weights = \<lparr>SS_Put = \<lambda>s _ _ _. (s, None), SS_Delete = \<lambda>s _ _. (s, None), SS_Update = \<lambda>s _ _ _. (s, None),
     SS_Exists = \<lambda>_ _ _. Inr True, SS_GetStateData = \<lambda>_ _ _. Inr (Some (be_put 10)),
     SS_GetState = \<lambda>_ _ _. (None, None, None), SS_GetAllStateData = \<lambda>_ _. Inr ([], []),
     SS_IterateAllStateDataCB = \<lambda>_ _. Inr [], SS_Root = \<lambda>_ _. Inr []\<rparr>"

lemma sample_ratio: "\<exists>r. blockRatio sample_f64 sample_weights (\<lambda>_. Some ()) 10 (sample_block h p) = Inr r"
proof -
  have "GetTotalWeight sample_weights () = Inr 30"
    by (simp add: GetTotalWeight_def GetActiveExecutorsTotalWeight_def GetActiveProposersTotalWeight_def
        GetActiveValidatorsTotalWeight_def ns_GetTotalWeight_def sample_weights_def)
  then have "\<not> isl (blockRatio sample_f64 sample_weights (\<lambda>_. Some ()) 10 (sample_block h p))"
    by (simp add: blockRatio_def sample_block_def ComputeNodeWeightRatio_def sample_f64_def)
  then show ?thesis by (cases "blockRatio sample_f64 sample_weights (\<lambda>_. Some ()) 10 (sample_block h p)") auto
qed

theorem ChainChoice_never_returns_witness:
  "ChainChoiceAfterAncestor sample_f64 sample_weights (\<lambda>_. Some ()) 10 [sample_block 5 [1]] [sample_block 5 [2], sample_block 6 [3]] = None"
proof -
  obtain r1 r2 where "blockRatio sample_f64 sample_weights (\<lambda>_. Some ()) 10 (sample_block 5 [1]) = Inr r1"
    "blockRatio sample_f64 sample_weights (\<lambda>_. Some ()) 10 (sample_block 5 [2]) = Inr r2"
    using sample_ratio by blast
  then show ?thesis by (rule ChainChoice_never_returns)
qed

section \<open>Collecting blocks\<close>

text \<open>
  The collector of an archiver gathers the blocks of one height, which carry parts of
  the data, and returns them merged when the first block of the next height arrives. A
  missing head or data is a nil dereference.
\<close>

type_synonym collectedBlockInfo = "Block \<times> BlockResult"

abbreviation nil_deref :: error where "nil_deref \<equiv> Panic ''nil pointer dereference''"

definition chunks :: "Block \<Rightarrow> bytes list" where
  "chunks b = (case blk_Data b of None \<Rightarrow> [] | Some d \<Rightarrow> bd_DataChunks d)"

definition result_chunks :: "BlockResult \<Rightarrow> bytes list" where
  "result_chunks r = (case br_Data r of None \<Rightarrow> [] | Some d \<Rightarrow> brd_ResultDataChunks d)"

fun isExistSameBlockData :: "collectedBlockInfo list \<Rightarrow> BlockData \<Rightarrow> error + bool" where
  "isExistSameBlockData [] origin = Inr False"
| "isExistSameBlockData ((block, rs) # rest) origin = (case blk_Data block of
     None \<Rightarrow> Inl nil_deref
   | Some target \<Rightarrow>
       if bd_Version origin \<noteq> bd_Version target then isExistSameBlockData rest origin
       else if list_ex (\<lambda>o'. list_ex (\<lambda>t. o' = t) (bd_DataChunks target)) (bd_DataChunks origin) then Inr True
       else isExistSameBlockData rest origin)"

text \<open>Appending the data of the other collected blocks to the first one.\<close>

definition append_data :: "collectedBlockInfo \<Rightarrow> collectedBlockInfo \<Rightarrow> error + collectedBlockInfo" where
  "append_data acc other =
     (case (blk_Data (fst acc), br_Data (snd acc), blk_Data (fst other), br_Data (snd other)) of
        (Some d, Some rd, Some d', Some rd') \<Rightarrow>
          Inr ((fst acc)\<lparr>blk_Data := Some (d\<lparr>bd_DataChunks := bd_DataChunks d @ bd_DataChunks d'\<rparr>)\<rparr>,
               (snd acc)\<lparr>br_Data := Some (rd\<lparr>brd_ResultDataChunks := brd_ResultDataChunks rd @ brd_ResultDataChunks rd'\<rparr>)\<rparr>)
      | _ \<Rightarrow> Inl nil_deref)"

fun merge_blocks :: "collectedBlockInfo \<Rightarrow> collectedBlockInfo list \<Rightarrow> error + collectedBlockInfo" where
  "merge_blocks acc [] = Inr acc"
| "merge_blocks acc (o' # rest) = (case append_data acc o' of Inl e \<Rightarrow> Inl e | Inr acc' \<Rightarrow> merge_blocks acc' rest)"

text \<open>The result is the list that the collector has afterwards and the blocks it returns.\<close>

definition archiver_Collect ::
  "collectedBlockInfo list \<Rightarrow> Block \<Rightarrow> BlockResult \<Rightarrow> collectedBlockInfo list \<times> (error + collectedBlockInfo option)" where
  "archiver_Collect blockList block blockRS =
     (case blockList of
        [] \<Rightarrow> ([(block, blockRS)], Inr None)
      | first # rest \<Rightarrow>
          (case (blk_Head block, blk_Head (fst first)) of
             (Some h, Some h0) \<Rightarrow>
               if bh_Height h = bh_Height h0 then
                 (if BlockHead_Marshal h = BlockHead_Marshal h0 then
                    (case blk_Data block of
                       None \<Rightarrow> (blockList, Inl nil_deref)
                     | Some d \<Rightarrow>
                         (case isExistSameBlockData blockList d of
                            Inl e \<Rightarrow> (blockList, Inl e)
                          | Inr True \<Rightarrow> (blockList, Inl (ErrOther ''same data''))
                          | Inr False \<Rightarrow> (blockList @ [(block, blockRS)], Inr None)))
                  else (blockList, Inl (ErrOther ''different head'')))
               else if bh_Height h = bh_Height h0 + 1 then
                 (case merge_blocks first rest of
                    Inl e \<Rightarrow> (blockList, Inl e)
                  | Inr merged \<Rightarrow> ([(block, blockRS)], Inr (Some merged)))
               else (blockList, Inl (ErrOther ''invalid height''))
           | _ \<Rightarrow> (blockList, Inl nil_deref)))"

definition universal_Collect :: "Block \<Rightarrow> BlockResult \<Rightarrow> error + collectedBlockInfo option" where
  "universal_Collect block blockRS = Inr (Some (block, blockRS))"

text \<open>\<open>Some s\<close> is an archiver's collector with its list, \<open>None\<close> that of any other node.\<close>

definition CreateBlockCollector :: "u64 \<Rightarrow> collectedBlockInfo list option" where
  "CreateBlockCollector nodeRole = (if nodeRole AND 8 = 8 then Some [] else None)"

fun collect_all :: "collectedBlockInfo list \<Rightarrow> collectedBlockInfo list \<Rightarrow> collectedBlockInfo list \<times> (error + collectedBlockInfo option) list" where
  "collect_all s [] = (s, [])"
| "collect_all s ((b, r) # rest) =
     (case archiver_Collect s b r of (s', out) \<Rightarrow> (case collect_all s' rest of (s'', outs) \<Rightarrow> (s'', out # outs)))"

text \<open>Parts of one block: the same head, data of one version in each, and no chunk twice.\<close>

definition parts_of :: "BlockHead \<Rightarrow> collectedBlockInfo list \<Rightarrow> bool" where
  "parts_of h bs \<longleftrightarrow>
     (\<forall>(b, r) \<in> set bs. blk_Head b = Some h \<and> blk_Data b \<noteq> None \<and> br_Data r \<noteq> None) \<and>
     (\<forall>i j. i < j \<and> j < length bs \<longrightarrow> set (chunks (fst (bs ! i))) \<inter> set (chunks (fst (bs ! j))) = {})"

lemma isExistSame_new:
  assumes "\<forall>(b, r) \<in> set bs. blk_Data b \<noteq> None" "\<forall>(b, r) \<in> set bs. set (chunks b) \<inter> set (bd_DataChunks d) = {}"
  shows "isExistSameBlockData bs d = Inr False"
  using assms by (induction bs d rule: isExistSameBlockData.induct) (auto simp: chunks_def list_ex_iff)

lemma merge_blocks_parts:
  assumes "\<forall>(b, r) \<in> set (acc # bs). blk_Data b \<noteq> None \<and> br_Data r \<noteq> None"
  shows "\<exists>m. merge_blocks acc bs = Inr m \<and> blk_Head (fst m) = blk_Head (fst acc) \<and> br_Head (snd m) = br_Head (snd acc) \<and>
    chunks (fst m) = concat (map (chunks \<circ> fst) (acc # bs)) \<and>
    result_chunks (snd m) = concat (map (result_chunks \<circ> snd) (acc # bs))"
  using assms
proof (induction acc bs rule: merge_blocks.induct)
  case (2 acc o' rest)
  obtain acc' where "append_data acc o' = Inr acc'" "blk_Head (fst acc') = blk_Head (fst acc)" "br_Head (snd acc') = br_Head (snd acc)"
    "chunks (fst acc') = chunks (fst acc) @ chunks (fst o')" "result_chunks (snd acc') = result_chunks (snd acc) @ result_chunks (snd o')"
    "blk_Data (fst acc') \<noteq> None" "br_Data (snd acc') \<noteq> None"
    using 2(2) by (cases acc; cases o') (auto simp: append_data_def chunks_def result_chunks_def)
  moreover have "\<forall>(b, r) \<in> set (acc' # rest). blk_Data b \<noteq> None \<and> br_Data r \<noteq> None"
    using calculation 2(2) by (auto simp: split: prod.splits)
  ultimately show ?case using 2(1) [of acc'] by auto
qed auto

lemma collect_parts:
  assumes "parts_of h (s @ bs)" "s \<noteq> []"
  shows "collect_all s bs = (s @ bs, replicate (length bs) (Inr None))"
  using assms
proof (induction bs arbitrary: s)
  case (Cons br bs)
  obtain b r where br: "br = (b, r)" by force
  obtain f fs where s: "s = f # fs" using Cons(3) by (cases s) auto
  have h: "blk_Head b = Some h" "blk_Head (fst f) = Some h" and d: "blk_Data b \<noteq> None"
    using Cons(2) by (auto simp: parts_of_def br s split: prod.splits)
  then obtain d where d: "blk_Data b = Some d" by blast
  have disj: "set (chunks (fst x)) \<inter> set (bd_DataChunks d) = {}" if x: "x \<in> set s" for x
  proof -
    obtain i where i: "i < length s" "x = s ! i" using x by (metis in_set_conv_nth)
    have "set (chunks (fst ((s @ br # bs) ! i))) \<inter> set (chunks (fst ((s @ br # bs) ! length s))) = {}"
      using Cons(2) [unfolded parts_of_def, THEN conjunct2, rule_format, of i "length s"] i(1) by simp
    with i d show ?thesis by (simp add: nth_append br chunks_def)
  qed
  have "isExistSameBlockData s d = Inr False"
  proof (rule isExistSame_new)
    show "\<forall>(b, r) \<in> set s. blk_Data b \<noteq> None" using Cons(2) by (fastforce simp: parts_of_def)
    show "\<forall>(b, r) \<in> set s. set (chunks b) \<inter> set (bd_DataChunks d) = {}" using disj by fastforce
  qed
  with h d have "archiver_Collect s b r = (s @ [(b, r)], Inr None)" by (simp add: archiver_Collect_def s)
  with Cons(1) [of "s @ [br]"] Cons(2) show ?case by (simp add: br)
qed simp

text \<open>
  (C25) An archiver gathers the parts of a block: when it has received the parts of the
  block with head \<open>h\<close>, in any number and with disjoint data, and then a block of the next
  height, every call but the last returns nothing, and the last one returns the head
  with the chunks of all parts in the order of their arrival, and likewise for the results;
  the new block is then the only one collected.
\<close>

theorem archiver_collects_parts:
  assumes "parts_of h bs" "bs \<noteq> []" "blk_Head b = Some h'" "bh_Height h' = bh_Height h + 1"
  shows "\<exists>m. collect_all [] (bs @ [(b, r)]) = ([(b, r)], replicate (length bs) (Inr None) @ [Inr (Some m)]) \<and>
    blk_Head (fst m) = Some h \<and> chunks (fst m) = concat (map (chunks \<circ> fst) bs) \<and>
    result_chunks (snd m) = concat (map (result_chunks \<circ> snd) bs)"
proof -
  obtain b0 r0 rest where bs: "bs = (b0, r0) # rest" using assms(2) by (cases bs) auto
  have app: "collect_all s (xs @ ys) = (case collect_all s xs of (s', o1) \<Rightarrow> (case collect_all s' ys of (s'', o2) \<Rightarrow> (s'', o1 @ o2)))" for s xs ys
    by (induction s xs rule: collect_all.induct) (auto split: prod.splits)
  have first: "collect_all [] bs = (bs, replicate (length bs) (Inr None))"
    using collect_parts [of h "[(b0, r0)]" rest] assms(1) by (simp add: bs archiver_Collect_def)
  have h0: "blk_Head b0 = Some h" using assms(1) by (simp add: parts_of_def bs)
  have d: "\<forall>(b, r) \<in> set ((b0, r0) # rest). blk_Data b \<noteq> None \<and> br_Data r \<noteq> None"
    using assms(1) unfolding parts_of_def bs by blast
  obtain m where m: "merge_blocks (b0, r0) rest = Inr m" "blk_Head (fst m) = blk_Head b0"
    "chunks (fst m) = concat (map (chunks \<circ> fst) bs)" "result_chunks (snd m) = concat (map (result_chunks \<circ> snd) bs)"
    using merge_blocks_parts [OF d] by (auto simp: bs)
  have "bh_Height h' \<noteq> bh_Height h" using assms(4) by simp
  then have "archiver_Collect bs b r = ([(b, r)], Inr (Some m))"
    using assms(3,4) h0 m(1) by (simp add: archiver_Collect_def bs)
  with first m h0 show ?thesis by (simp add: app)
qed

definition sample_part :: "bytes \<Rightarrow> collectedBlockInfo" where
  "sample_part c = ((sample_block 5 [1])\<lparr>blk_Data := Some \<lparr>bd_Version = 1, bd_DataChunks = [c], bd_XXX = []\<rparr>\<rparr>,
     \<lparr>br_Head = None, br_Data = Some \<lparr>brd_Version = 1, brd_ResultDataChunks = [c @ c], brd_XXX = []\<rparr>, br_XXX = []\<rparr>)"

theorem archiver_collects_parts_witness:
  "\<exists>m. collect_all [] [sample_part [7], sample_part [8], (sample_block 6 [2], snd (sample_part [9]))] =
     ([(sample_block 6 [2], snd (sample_part [9]))], [Inr None, Inr None, Inr (Some m)]) \<and>
     chunks (fst m) = [[7], [8]] \<and> result_chunks (snd m) = [[7, 7], [8, 8]]"
proof -
  have "parts_of (sample_head 5 [1]) [sample_part [7], sample_part [8]]"
    unfolding parts_of_def
  proof (intro conjI allI impI)
    fix i j assume "i < j \<and> j < length [sample_part [7], sample_part [8]]"
    then have "i = 0" "j = 1" by auto
    then show "set (chunks (fst ([sample_part [7], sample_part [8]] ! i))) \<inter> set (chunks (fst ([sample_part [7], sample_part [8]] ! j))) = {}"
      by (simp add: sample_part_def chunks_def)
  qed (simp add: sample_part_def sample_block_def)
  then have "\<exists>m. collect_all [] ([sample_part [7], sample_part [8]] @ [(sample_block 6 [2], snd (sample_part [9]))]) =
      ([(sample_block 6 [2], snd (sample_part [9]))], replicate (length [sample_part [7], sample_part [8]]) (Inr None) @ [Inr (Some m)]) \<and>
      blk_Head (fst m) = Some (sample_head 5 [1]) \<and> chunks (fst m) = concat (map (chunks \<circ> fst) [sample_part [7], sample_part [8]]) \<and>
      result_chunks (snd m) = concat (map (result_chunks \<circ> snd) [sample_part [7], sample_part [8]])"
    by (rule archiver_collects_parts [where h' = "sample_head 6 [2]"]) (simp_all add: sample_block_def sample_head_def)
  moreover have "concat (map (chunks \<circ> fst) [sample_part [7], sample_part [8]]) = [[7], [8]]"
    "concat (map (result_chunks \<circ> snd) [sample_part [7], sample_part [8]]) = [[7, 7], [8, 8]]"
    by (simp_all add: sample_part_def chunks_def result_chunks_def)
  ultimately show ?thesis by (auto simp del: collect_all.simps)
qed

end
