(* ===== verification/Tx_Types.thy ===== *)
theory Tx_Types
  imports Proto_Wire Address
begin

text \<open>
  Transactions: the messages of \<open>src/transaction/basic/transaction.pb.go\<close> and
  \<open>src/transaction/universal/universal.pb.go\<close>, and the identifiers, roots and
  constructors of \<open>src/transaction/basic/transaction.go\<close> and \<open>transaction_result.go\<close>, with
  the verifiers of \<open>verifier_basic.go\<close>. Hashes, the Merkle tree and the crypt services
  are parameters.
\<close>

section \<open>Messages\<close>

subsection \<open>\<open>TransactionHead\<close>\<close>

record TransactionHead =
  th_Category :: bytes
  th_ChainID :: bytes
  th_Version :: "32 word"
  th_TimeStamp :: u64
  th_Index :: u64
  th_FromAddr :: bytes
  th_Nonce :: u64
  th_Signature :: bytes
  th_XXX :: bytes

definition TransactionHead_kinds :: "pkind list" where
  "TransactionHead_kinds = [KBytes, KBytes, KU32, KU64, KU64, KBytes, KU64, KBytes]"

definition TransactionHead_msg :: "TransactionHead \<Rightarrow> pmsg" where
  "TransactionHead_msg m = Msg [PBytes (th_Category m), PBytes (th_ChainID m), PNum (ucast (th_Version m)), PNum (th_TimeStamp m),
     PNum (th_Index m), PBytes (th_FromAddr m), PNum (th_Nonce m), PBytes (th_Signature m)] (th_XXX m)"

definition TransactionHead_of :: "pmsg \<Rightarrow> TransactionHead" where
  "TransactionHead_of m = \<lparr>th_Category = pb_bytes (vals m ! 0), th_ChainID = pb_bytes (vals m ! 1),
     th_Version = ucast (pb_num (vals m ! 2)), th_TimeStamp = pb_num (vals m ! 3),
     th_Index = pb_num (vals m ! 4), th_FromAddr = pb_bytes (vals m ! 5), th_Nonce = pb_num (vals m ! 6),
     th_Signature = pb_bytes (vals m ! 7), th_XXX = unrecognized m\<rparr>"

definition TransactionHead_Marshal :: "TransactionHead \<Rightarrow> bytes" where
  "TransactionHead_Marshal m = enc_msg (TransactionHead_msg m)"

definition TransactionHead_Size :: "TransactionHead \<Rightarrow> nat" where
  "TransactionHead_Size m = size_msg (TransactionHead_msg m)"

definition TransactionHead_Unmarshal :: "bytes \<Rightarrow> error + TransactionHead" where
  "TransactionHead_Unmarshal dAtA = map_sum id TransactionHead_of (pb_Unmarshal TransactionHead_kinds dAtA)"

definition TransactionHead_plain :: "TransactionHead \<Rightarrow> bool" where
  "TransactionHead_plain m \<longleftrightarrow> th_XXX m = []"

lemma TransactionHead_of_msg [simp]: "TransactionHead_of (TransactionHead_msg m) = m"
  by (simp add: TransactionHead_of_def TransactionHead_msg_def option.map_comp comp_def option.map_ident)

lemma TransactionHead_conf: "TransactionHead_plain m \<Longrightarrow> list_all2 conf TransactionHead_kinds (vals (TransactionHead_msg m)) \<and> unrecognized (TransactionHead_msg m) = []"
  by (simp add: TransactionHead_kinds_def TransactionHead_msg_def TransactionHead_plain_def conf_fields)

lemma TransactionHead_small: "list_all small_kind TransactionHead_kinds \<and> length TransactionHead_kinds < 2 ^ 28"
  by (simp add: TransactionHead_kinds_def)

lemma TransactionHead_roundtrip:
  "TransactionHead_plain m \<Longrightarrow> length (TransactionHead_Marshal m) < 2 ^ 63 \<Longrightarrow> TransactionHead_Unmarshal (TransactionHead_Marshal m) = Inr m"
  using pb_roundtrip [OF TransactionHead_conf TransactionHead_small, of m] by (simp add: TransactionHead_Unmarshal_def TransactionHead_Marshal_def)

subsection \<open>\<open>TransactionData\<close>\<close>

record TransactionData =
  td_Specification :: bytes
  td_XXX :: bytes

definition TransactionData_kinds :: "pkind list" where
  "TransactionData_kinds = [KBytes]"

definition TransactionData_msg :: "TransactionData \<Rightarrow> pmsg" where
  "TransactionData_msg m = Msg [PBytes (td_Specification m)] (td_XXX m)"

definition TransactionData_of :: "pmsg \<Rightarrow> TransactionData" where
  "TransactionData_of m = \<lparr>td_Specification = pb_bytes (vals m ! 0), td_XXX = unrecognized m\<rparr>"

definition TransactionData_Marshal :: "TransactionData \<Rightarrow> bytes" where
  "TransactionData_Marshal m = enc_msg (TransactionData_msg m)"

definition TransactionData_Size :: "TransactionData \<Rightarrow> nat" where
  "TransactionData_Size m = size_msg (TransactionData_msg m)"

definition TransactionData_Unmarshal :: "bytes \<Rightarrow> error + TransactionData" where
  "TransactionData_Unmarshal dAtA = map_sum id TransactionData_of (pb_Unmarshal TransactionData_kinds dAtA)"

definition TransactionData_plain :: "TransactionData \<Rightarrow> bool" where
  "TransactionData_plain m \<longleftrightarrow> td_XXX m = []"

lemma TransactionData_of_msg [simp]: "TransactionData_of (TransactionData_msg m) = m"
  by (simp add: TransactionData_of_def TransactionData_msg_def option.map_comp comp_def option.map_ident)

lemma TransactionData_conf: "TransactionData_plain m \<Longrightarrow> list_all2 conf TransactionData_kinds (vals (TransactionData_msg m)) \<and> unrecognized (TransactionData_msg m) = []"
  by (simp add: TransactionData_kinds_def TransactionData_msg_def TransactionData_plain_def conf_fields)

lemma TransactionData_small: "list_all small_kind TransactionData_kinds \<and> length TransactionData_kinds < 2 ^ 28"
  by (simp add: TransactionData_kinds_def)

lemma TransactionData_roundtrip:
  "TransactionData_plain m \<Longrightarrow> length (TransactionData_Marshal m) < 2 ^ 63 \<Longrightarrow> TransactionData_Unmarshal (TransactionData_Marshal m) = Inr m"
  using pb_roundtrip [OF TransactionData_conf TransactionData_small, of m] by (simp add: TransactionData_Unmarshal_def TransactionData_Marshal_def)

subsection \<open>\<open>Transaction\<close>\<close>

record Transaction =
  tx_Head :: "TransactionHead option"
  tx_Data :: "TransactionData option"
  tx_XXX :: bytes

definition Transaction_kinds :: "pkind list" where
  "Transaction_kinds = [KMsg TransactionHead_kinds, KMsg TransactionData_kinds]"

definition Transaction_msg :: "Transaction \<Rightarrow> pmsg" where
  "Transaction_msg m = Msg [PMsg (map_option TransactionHead_msg (tx_Head m)), PMsg (map_option TransactionData_msg (tx_Data m))] (tx_XXX m)"

definition Transaction_of :: "pmsg \<Rightarrow> Transaction" where
  "Transaction_of m = \<lparr>tx_Head = map_option TransactionHead_of (pb_sub (vals m ! 0)),
     tx_Data = map_option TransactionData_of (pb_sub (vals m ! 1)), tx_XXX = unrecognized m\<rparr>"

definition Transaction_Marshal :: "Transaction \<Rightarrow> bytes" where
  "Transaction_Marshal m = enc_msg (Transaction_msg m)"

definition Transaction_Size :: "Transaction \<Rightarrow> nat" where
  "Transaction_Size m = size_msg (Transaction_msg m)"

definition Transaction_Unmarshal :: "bytes \<Rightarrow> error + Transaction" where
  "Transaction_Unmarshal dAtA = map_sum id Transaction_of (pb_Unmarshal Transaction_kinds dAtA)"

definition Transaction_plain :: "Transaction \<Rightarrow> bool" where
  "Transaction_plain m \<longleftrightarrow> tx_XXX m = [] \<and> (case tx_Head m of None \<Rightarrow> True | Some x \<Rightarrow> TransactionHead_plain x) \<and> (case tx_Data m of None \<Rightarrow> True | Some x \<Rightarrow> TransactionData_plain x)"

lemma Transaction_of_msg [simp]: "Transaction_of (Transaction_msg m) = m"
  by (simp add: Transaction_of_def Transaction_msg_def option.map_comp comp_def option.map_ident)

lemma Transaction_conf: "Transaction_plain m \<Longrightarrow> list_all2 conf Transaction_kinds (vals (Transaction_msg m)) \<and> unrecognized (Transaction_msg m) = []"
  by (auto simp: Transaction_kinds_def Transaction_msg_def Transaction_plain_def conf_fields split: option.splits
      intro!: conf_sub dest: TransactionData_conf TransactionHead_conf)

lemma Transaction_small: "list_all small_kind Transaction_kinds \<and> length Transaction_kinds < 2 ^ 28"
  by (simp add: TransactionData_kinds_def TransactionHead_kinds_def Transaction_kinds_def)

lemma Transaction_roundtrip:
  "Transaction_plain m \<Longrightarrow> length (Transaction_Marshal m) < 2 ^ 63 \<Longrightarrow> Transaction_Unmarshal (Transaction_Marshal m) = Inr m"
  using pb_roundtrip [OF Transaction_conf Transaction_small, of m] by (simp add: Transaction_Unmarshal_def Transaction_Marshal_def)

subsection \<open>\<open>TransactionResultHead\<close>\<close>

record TransactionResultHead =
  trh_Category :: bytes
  trh_ChainID :: bytes
  trh_Version :: "32 word"
  trh_XXX :: bytes

definition TransactionResultHead_kinds :: "pkind list" where
  "TransactionResultHead_kinds = [KBytes, KBytes, KU32]"

definition TransactionResultHead_msg :: "TransactionResultHead \<Rightarrow> pmsg" where
  "TransactionResultHead_msg m = Msg [PBytes (trh_Category m), PBytes (trh_ChainID m), PNum (ucast (trh_Version m))] (trh_XXX m)"

definition TransactionResultHead_of :: "pmsg \<Rightarrow> TransactionResultHead" where
  "TransactionResultHead_of m = \<lparr>trh_Category = pb_bytes (vals m ! 0), trh_ChainID = pb_bytes (vals m ! 1),
     trh_Version = ucast (pb_num (vals m ! 2)), trh_XXX = unrecognized m\<rparr>"

definition TransactionResultHead_Marshal :: "TransactionResultHead \<Rightarrow> bytes" where
  "TransactionResultHead_Marshal m = enc_msg (TransactionResultHead_msg m)"

definition TransactionResultHead_Size :: "TransactionResultHead \<Rightarrow> nat" where
  "TransactionResultHead_Size m = size_msg (TransactionResultHead_msg m)"

definition TransactionResultHead_Unmarshal :: "bytes \<Rightarrow> error + TransactionResultHead" where
  "TransactionResultHead_Unmarshal dAtA = map_sum id TransactionResultHead_of (pb_Unmarshal TransactionResultHead_kinds dAtA)"

definition TransactionResultHead_plain :: "TransactionResultHead \<Rightarrow> bool" where
  "TransactionResultHead_plain m \<longleftrightarrow> trh_XXX m = []"

lemma TransactionResultHead_of_msg [simp]: "TransactionResultHead_of (TransactionResultHead_msg m) = m"
  by (simp add: TransactionResultHead_of_def TransactionResultHead_msg_def option.map_comp comp_def option.map_ident)

lemma TransactionResultHead_conf: "TransactionResultHead_plain m \<Longrightarrow> list_all2 conf TransactionResultHead_kinds (vals (TransactionResultHead_msg m)) \<and> unrecognized (TransactionResultHead_msg m) = []"
  by (simp add: TransactionResultHead_kinds_def TransactionResultHead_msg_def TransactionResultHead_plain_def conf_fields)

lemma TransactionResultHead_small: "list_all small_kind TransactionResultHead_kinds \<and> length TransactionResultHead_kinds < 2 ^ 28"
  by (simp add: TransactionResultHead_kinds_def)

lemma TransactionResultHead_roundtrip:
  "TransactionResultHead_plain m \<Longrightarrow> length (TransactionResultHead_Marshal m) < 2 ^ 63 \<Longrightarrow> TransactionResultHead_Unmarshal (TransactionResultHead_Marshal m) = Inr m"
  using pb_roundtrip [OF TransactionResultHead_conf TransactionResultHead_small, of m] by (simp add: TransactionResultHead_Unmarshal_def TransactionResultHead_Marshal_def)

subsection \<open>\<open>TransactionResultData\<close>\<close>

record TransactionResultData =
  trd_Specification :: bytes
  trd_XXX :: bytes

definition TransactionResultData_kinds :: "pkind list" where
  "TransactionResultData_kinds = [KBytes]"

definition TransactionResultData_msg :: "TransactionResultData \<Rightarrow> pmsg" where
  "TransactionResultData_msg m = Msg [PBytes (trd_Specification m)] (trd_XXX m)"

definition TransactionResultData_of :: "pmsg \<Rightarrow> TransactionResultData" where
  "TransactionResultData_of m = \<lparr>trd_Specification = pb_bytes (vals m ! 0), trd_XXX = unrecognized m\<rparr>"

definition TransactionResultData_Marshal :: "TransactionResultData \<Rightarrow> bytes" where
  "TransactionResultData_Marshal m = enc_msg (TransactionResultData_msg m)"

definition TransactionResultData_Size :: "TransactionResultData \<Rightarrow> nat" where
  "TransactionResultData_Size m = size_msg (TransactionResultData_msg m)"

definition TransactionResultData_Unmarshal :: "bytes \<Rightarrow> error + TransactionResultData" where
  "TransactionResultData_Unmarshal dAtA = map_sum id TransactionResultData_of (pb_Unmarshal TransactionResultData_kinds dAtA)"

definition TransactionResultData_plain :: "TransactionResultData \<Rightarrow> bool" where
  "TransactionResultData_plain m \<longleftrightarrow> trd_XXX m = []"

lemma TransactionResultData_of_msg [simp]: "TransactionResultData_of (TransactionResultData_msg m) = m"
  by (simp add: TransactionResultData_of_def TransactionResultData_msg_def option.map_comp comp_def option.map_ident)

lemma TransactionResultData_conf: "TransactionResultData_plain m \<Longrightarrow> list_all2 conf TransactionResultData_kinds (vals (TransactionResultData_msg m)) \<and> unrecognized (TransactionResultData_msg m) = []"
  by (simp add: TransactionResultData_kinds_def TransactionResultData_msg_def TransactionResultData_plain_def conf_fields)

lemma TransactionResultData_small: "list_all small_kind TransactionResultData_kinds \<and> length TransactionResultData_kinds < 2 ^ 28"
  by (simp add: TransactionResultData_kinds_def)

lemma TransactionResultData_roundtrip:
  "TransactionResultData_plain m \<Longrightarrow> length (TransactionResultData_Marshal m) < 2 ^ 63 \<Longrightarrow> TransactionResultData_Unmarshal (TransactionResultData_Marshal m) = Inr m"
  using pb_roundtrip [OF TransactionResultData_conf TransactionResultData_small, of m] by (simp add: TransactionResultData_Unmarshal_def TransactionResultData_Marshal_def)

subsection \<open>\<open>TransactionResult\<close>\<close>

record TransactionResult =
  tr_Head :: "TransactionResultHead option"
  tr_Data :: "TransactionResultData option"
  tr_XXX :: bytes

definition TransactionResult_kinds :: "pkind list" where
  "TransactionResult_kinds = [KMsg TransactionResultHead_kinds, KMsg TransactionResultData_kinds]"

definition TransactionResult_msg :: "TransactionResult \<Rightarrow> pmsg" where
  "TransactionResult_msg m = Msg [PMsg (map_option TransactionResultHead_msg (tr_Head m)),
     PMsg (map_option TransactionResultData_msg (tr_Data m))] (tr_XXX m)"

definition TransactionResult_of :: "pmsg \<Rightarrow> TransactionResult" where
  "TransactionResult_of m = \<lparr>tr_Head = map_option TransactionResultHead_of (pb_sub (vals m ! 0)),
     tr_Data = map_option TransactionResultData_of (pb_sub (vals m ! 1)), tr_XXX = unrecognized m\<rparr>"

definition TransactionResult_Marshal :: "TransactionResult \<Rightarrow> bytes" where
  "TransactionResult_Marshal m = enc_msg (TransactionResult_msg m)"

definition TransactionResult_Size :: "TransactionResult \<Rightarrow> nat" where
  "TransactionResult_Size m = size_msg (TransactionResult_msg m)"

definition TransactionResult_Unmarshal :: "bytes \<Rightarrow> error + TransactionResult" where
  "TransactionResult_Unmarshal dAtA = map_sum id TransactionResult_of (pb_Unmarshal TransactionResult_kinds dAtA)"

definition TransactionResult_plain :: "TransactionResult \<Rightarrow> bool" where
  "TransactionResult_plain m \<longleftrightarrow> tr_XXX m = [] \<and> (case tr_Head m of None \<Rightarrow> True | Some x \<Rightarrow> TransactionResultHead_plain x) \<and> (case tr_Data m of None \<Rightarrow> True | Some x \<Rightarrow> TransactionResultData_plain x)"

lemma TransactionResult_of_msg [simp]: "TransactionResult_of (TransactionResult_msg m) = m"
  by (simp add: TransactionResult_of_def TransactionResult_msg_def option.map_comp comp_def option.map_ident)

lemma TransactionResult_conf: "TransactionResult_plain m \<Longrightarrow> list_all2 conf TransactionResult_kinds (vals (TransactionResult_msg m)) \<and> unrecognized (TransactionResult_msg m) = []"
  by (auto simp: TransactionResult_kinds_def TransactionResult_msg_def TransactionResult_plain_def conf_fields split: option.splits
      intro!: conf_sub dest: TransactionResultData_conf TransactionResultHead_conf)

lemma TransactionResult_small: "list_all small_kind TransactionResult_kinds \<and> length TransactionResult_kinds < 2 ^ 28"
  by (simp add: TransactionResultData_kinds_def TransactionResultHead_kinds_def TransactionResult_kinds_def)

lemma TransactionResult_roundtrip:
  "TransactionResult_plain m \<Longrightarrow> length (TransactionResult_Marshal m) < 2 ^ 63 \<Longrightarrow> TransactionResult_Unmarshal (TransactionResult_Marshal m) = Inr m"
  using pb_roundtrip [OF TransactionResult_conf TransactionResult_small, of m] by (simp add: TransactionResult_Unmarshal_def TransactionResult_Marshal_def)


subsection \<open>\<open>TransactionUniversalHead\<close>\<close>

record TransactionUniversalHead =
  uh_Version :: "32 word"
  uh_FeePayer :: bytes
  uh_GasPrice :: u64
  uh_GasLimit :: u64
  uh_Type :: "32 word"
  uh_FeePayerSignature :: bytes
  uh_Options :: "32 word"
  uh_XXX :: bytes

definition TransactionUniversalHead_kinds :: "pkind list" where
  "TransactionUniversalHead_kinds = [KU32, KBytes, KU64, KU64, KU32, KBytes, KU32]"

definition TransactionUniversalHead_msg :: "TransactionUniversalHead \<Rightarrow> pmsg" where
  "TransactionUniversalHead_msg m = Msg [PNum (ucast (uh_Version m)), PBytes (uh_FeePayer m), PNum (uh_GasPrice m), PNum (uh_GasLimit m),
     PNum (ucast (uh_Type m)), PBytes (uh_FeePayerSignature m), PNum (ucast (uh_Options m))] (uh_XXX m)"

definition TransactionUniversalHead_of :: "pmsg \<Rightarrow> TransactionUniversalHead" where
  "TransactionUniversalHead_of m = \<lparr>uh_Version = ucast (pb_num (vals m ! 0)), uh_FeePayer = pb_bytes (vals m ! 1),
     uh_GasPrice = pb_num (vals m ! 2), uh_GasLimit = pb_num (vals m ! 3),
     uh_Type = ucast (pb_num (vals m ! 4)), uh_FeePayerSignature = pb_bytes (vals m ! 5),
     uh_Options = ucast (pb_num (vals m ! 6)), uh_XXX = unrecognized m\<rparr>"

definition TransactionUniversalHead_Marshal :: "TransactionUniversalHead \<Rightarrow> bytes" where
  "TransactionUniversalHead_Marshal m = enc_msg (TransactionUniversalHead_msg m)"

definition TransactionUniversalHead_Size :: "TransactionUniversalHead \<Rightarrow> nat" where
  "TransactionUniversalHead_Size m = size_msg (TransactionUniversalHead_msg m)"

definition TransactionUniversalHead_Unmarshal :: "bytes \<Rightarrow> error + TransactionUniversalHead" where
  "TransactionUniversalHead_Unmarshal dAtA = map_sum id TransactionUniversalHead_of (pb_Unmarshal TransactionUniversalHead_kinds dAtA)"

definition TransactionUniversalHead_plain :: "TransactionUniversalHead \<Rightarrow> bool" where
  "TransactionUniversalHead_plain m \<longleftrightarrow> uh_XXX m = []"

lemma TransactionUniversalHead_of_msg [simp]: "TransactionUniversalHead_of (TransactionUniversalHead_msg m) = m"
  by (simp add: TransactionUniversalHead_of_def TransactionUniversalHead_msg_def option.map_comp comp_def option.map_ident)

lemma TransactionUniversalHead_conf: "TransactionUniversalHead_plain m \<Longrightarrow> list_all2 conf TransactionUniversalHead_kinds (vals (TransactionUniversalHead_msg m)) \<and> unrecognized (TransactionUniversalHead_msg m) = []"
  by (simp add: TransactionUniversalHead_kinds_def TransactionUniversalHead_msg_def TransactionUniversalHead_plain_def conf_fields)

lemma TransactionUniversalHead_small: "list_all small_kind TransactionUniversalHead_kinds \<and> length TransactionUniversalHead_kinds < 2 ^ 28"
  by (simp add: TransactionUniversalHead_kinds_def)

lemma TransactionUniversalHead_roundtrip:
  "TransactionUniversalHead_plain m \<Longrightarrow> length (TransactionUniversalHead_Marshal m) < 2 ^ 63 \<Longrightarrow> TransactionUniversalHead_Unmarshal (TransactionUniversalHead_Marshal m) = Inr m"
  using pb_roundtrip [OF TransactionUniversalHead_conf TransactionUniversalHead_small, of m] by (simp add: TransactionUniversalHead_Unmarshal_def TransactionUniversalHead_Marshal_def)

subsection \<open>\<open>TransactionUniversalData\<close>\<close>

record TransactionUniversalData =
  ud_Specification :: bytes
  ud_XXX :: bytes

definition TransactionUniversalData_kinds :: "pkind list" where
  "TransactionUniversalData_kinds = [KBytes]"

definition TransactionUniversalData_msg :: "TransactionUniversalData \<Rightarrow> pmsg" where
  "TransactionUniversalData_msg m = Msg [PBytes (ud_Specification m)] (ud_XXX m)"

definition TransactionUniversalData_of :: "pmsg \<Rightarrow> TransactionUniversalData" where
  "TransactionUniversalData_of m = \<lparr>ud_Specification = pb_bytes (vals m ! 0), ud_XXX = unrecognized m\<rparr>"

definition TransactionUniversalData_Marshal :: "TransactionUniversalData \<Rightarrow> bytes" where
  "TransactionUniversalData_Marshal m = enc_msg (TransactionUniversalData_msg m)"

definition TransactionUniversalData_Size :: "TransactionUniversalData \<Rightarrow> nat" where
  "TransactionUniversalData_Size m = size_msg (TransactionUniversalData_msg m)"

definition TransactionUniversalData_Unmarshal :: "bytes \<Rightarrow> error + TransactionUniversalData" where
  "TransactionUniversalData_Unmarshal dAtA = map_sum id TransactionUniversalData_of (pb_Unmarshal TransactionUniversalData_kinds dAtA)"

definition TransactionUniversalData_plain :: "TransactionUniversalData \<Rightarrow> bool" where
  "TransactionUniversalData_plain m \<longleftrightarrow> ud_XXX m = []"

lemma TransactionUniversalData_of_msg [simp]: "TransactionUniversalData_of (TransactionUniversalData_msg m) = m"
  by (simp add: TransactionUniversalData_of_def TransactionUniversalData_msg_def option.map_comp comp_def option.map_ident)

lemma TransactionUniversalData_conf: "TransactionUniversalData_plain m \<Longrightarrow> list_all2 conf TransactionUniversalData_kinds (vals (TransactionUniversalData_msg m)) \<and> unrecognized (TransactionUniversalData_msg m) = []"
  by (simp add: TransactionUniversalData_kinds_def TransactionUniversalData_msg_def TransactionUniversalData_plain_def conf_fields)

lemma TransactionUniversalData_small: "list_all small_kind TransactionUniversalData_kinds \<and> length TransactionUniversalData_kinds < 2 ^ 28"
  by (simp add: TransactionUniversalData_kinds_def)

lemma TransactionUniversalData_roundtrip:
  "TransactionUniversalData_plain m \<Longrightarrow> length (TransactionUniversalData_Marshal m) < 2 ^ 63 \<Longrightarrow> TransactionUniversalData_Unmarshal (TransactionUniversalData_Marshal m) = Inr m"
  using pb_roundtrip [OF TransactionUniversalData_conf TransactionUniversalData_small, of m] by (simp add: TransactionUniversalData_Unmarshal_def TransactionUniversalData_Marshal_def)

subsection \<open>\<open>TransactionUniversal\<close>\<close>

record TransactionUniversal =
  tu_Head :: "TransactionUniversalHead option"
  tu_Data :: "TransactionUniversalData option"
  tu_XXX :: bytes

definition TransactionUniversal_kinds :: "pkind list" where
  "TransactionUniversal_kinds = [KMsg TransactionUniversalHead_kinds, KMsg TransactionUniversalData_kinds]"

definition TransactionUniversal_msg :: "TransactionUniversal \<Rightarrow> pmsg" where
  "TransactionUniversal_msg m = Msg [PMsg (map_option TransactionUniversalHead_msg (tu_Head m)),
     PMsg (map_option TransactionUniversalData_msg (tu_Data m))] (tu_XXX m)"

definition TransactionUniversal_of :: "pmsg \<Rightarrow> TransactionUniversal" where
  "TransactionUniversal_of m = \<lparr>tu_Head = map_option TransactionUniversalHead_of (pb_sub (vals m ! 0)),
     tu_Data = map_option TransactionUniversalData_of (pb_sub (vals m ! 1)), tu_XXX = unrecognized m\<rparr>"

definition TransactionUniversal_Marshal :: "TransactionUniversal \<Rightarrow> bytes" where
  "TransactionUniversal_Marshal m = enc_msg (TransactionUniversal_msg m)"

definition TransactionUniversal_Size :: "TransactionUniversal \<Rightarrow> nat" where
  "TransactionUniversal_Size m = size_msg (TransactionUniversal_msg m)"

definition TransactionUniversal_Unmarshal :: "bytes \<Rightarrow> error + TransactionUniversal" where
  "TransactionUniversal_Unmarshal dAtA = map_sum id TransactionUniversal_of (pb_Unmarshal TransactionUniversal_kinds dAtA)"

definition TransactionUniversal_plain :: "TransactionUniversal \<Rightarrow> bool" where
  "TransactionUniversal_plain m \<longleftrightarrow> tu_XXX m = [] \<and> (case tu_Head m of None \<Rightarrow> True | Some x \<Rightarrow> TransactionUniversalHead_plain x) \<and> (case tu_Data m of None \<Rightarrow> True | Some x \<Rightarrow> TransactionUniversalData_plain x)"

lemma TransactionUniversal_of_msg [simp]: "TransactionUniversal_of (TransactionUniversal_msg m) = m"
  by (simp add: TransactionUniversal_of_def TransactionUniversal_msg_def option.map_comp comp_def option.map_ident)

lemma TransactionUniversal_conf: "TransactionUniversal_plain m \<Longrightarrow> list_all2 conf TransactionUniversal_kinds (vals (TransactionUniversal_msg m)) \<and> unrecognized (TransactionUniversal_msg m) = []"
  by (auto simp: TransactionUniversal_kinds_def TransactionUniversal_msg_def TransactionUniversal_plain_def conf_fields split: option.splits
      intro!: conf_sub dest: TransactionUniversalData_conf TransactionUniversalHead_conf)

lemma TransactionUniversal_small: "list_all small_kind TransactionUniversal_kinds \<and> length TransactionUniversal_kinds < 2 ^ 28"
  by (simp add: TransactionUniversalData_kinds_def TransactionUniversalHead_kinds_def TransactionUniversal_kinds_def)

lemma TransactionUniversal_roundtrip:
  "TransactionUniversal_plain m \<Longrightarrow> length (TransactionUniversal_Marshal m) < 2 ^ 63 \<Longrightarrow> TransactionUniversal_Unmarshal (TransactionUniversal_Marshal m) = Inr m"
  using pb_roundtrip [OF TransactionUniversal_conf TransactionUniversal_small, of m] by (simp add: TransactionUniversal_Unmarshal_def TransactionUniversal_Marshal_def)

subsection \<open>\<open>TransactionResultUniversal\<close>\<close>

record TransactionResultUniversal =
  ru_Version :: "32 word"
  ru_TxHash :: bytes
  ru_GasUsed :: u64
  ru_ErrString :: bytes
  ru_Status :: "32 word"
  ru_Data :: bytes
  ru_XXX :: bytes

definition TransactionResultUniversal_kinds :: "pkind list" where
  "TransactionResultUniversal_kinds = [KU32, KBytes, KU64, KBytes, KEnum, KBytes]"

definition TransactionResultUniversal_msg :: "TransactionResultUniversal \<Rightarrow> pmsg" where
  "TransactionResultUniversal_msg m = Msg [PNum (ucast (ru_Version m)), PBytes (ru_TxHash m), PNum (ru_GasUsed m), PBytes (ru_ErrString m),
     PNum (scast (ru_Status m)), PBytes (ru_Data m)] (ru_XXX m)"

definition TransactionResultUniversal_of :: "pmsg \<Rightarrow> TransactionResultUniversal" where
  "TransactionResultUniversal_of m = \<lparr>ru_Version = ucast (pb_num (vals m ! 0)), ru_TxHash = pb_bytes (vals m ! 1),
     ru_GasUsed = pb_num (vals m ! 2), ru_ErrString = pb_bytes (vals m ! 3),
     ru_Status = ucast (pb_num (vals m ! 4)), ru_Data = pb_bytes (vals m ! 5), ru_XXX = unrecognized m\<rparr>"

definition TransactionResultUniversal_Marshal :: "TransactionResultUniversal \<Rightarrow> bytes" where
  "TransactionResultUniversal_Marshal m = enc_msg (TransactionResultUniversal_msg m)"

definition TransactionResultUniversal_Size :: "TransactionResultUniversal \<Rightarrow> nat" where
  "TransactionResultUniversal_Size m = size_msg (TransactionResultUniversal_msg m)"

definition TransactionResultUniversal_Unmarshal :: "bytes \<Rightarrow> error + TransactionResultUniversal" where
  "TransactionResultUniversal_Unmarshal dAtA = map_sum id TransactionResultUniversal_of (pb_Unmarshal TransactionResultUniversal_kinds dAtA)"

definition TransactionResultUniversal_plain :: "TransactionResultUniversal \<Rightarrow> bool" where
  "TransactionResultUniversal_plain m \<longleftrightarrow> ru_XXX m = []"

lemma TransactionResultUniversal_of_msg [simp]: "TransactionResultUniversal_of (TransactionResultUniversal_msg m) = m"
  by (simp add: TransactionResultUniversal_of_def TransactionResultUniversal_msg_def option.map_comp comp_def option.map_ident)

lemma TransactionResultUniversal_conf: "TransactionResultUniversal_plain m \<Longrightarrow> list_all2 conf TransactionResultUniversal_kinds (vals (TransactionResultUniversal_msg m)) \<and> unrecognized (TransactionResultUniversal_msg m) = []"
  by (simp add: TransactionResultUniversal_kinds_def TransactionResultUniversal_msg_def TransactionResultUniversal_plain_def conf_fields)

lemma TransactionResultUniversal_small: "list_all small_kind TransactionResultUniversal_kinds \<and> length TransactionResultUniversal_kinds < 2 ^ 28"
  by (simp add: TransactionResultUniversal_kinds_def)

lemma TransactionResultUniversal_roundtrip:
  "TransactionResultUniversal_plain m \<Longrightarrow> length (TransactionResultUniversal_Marshal m) < 2 ^ 63 \<Longrightarrow> TransactionResultUniversal_Unmarshal (TransactionResultUniversal_Marshal m) = Inr m"
  using pb_roundtrip [OF TransactionResultUniversal_conf TransactionResultUniversal_small, of m] by (simp add: TransactionResultUniversal_Unmarshal_def TransactionResultUniversal_Marshal_def)

section \<open>Identifiers and roots\<close>

text \<open>\<open>blake\<close> is the hash of \<open>NewBlake2bHasher(0)\<close>; \<open>tree_root us\<close> is the root of an empty tree after the updates \<open>us\<close>.\<close>

definition tx_HashBytes :: "(bytes \<Rightarrow> bytes) \<Rightarrow> Transaction \<Rightarrow> error + bytes" where
  "tx_HashBytes blake m = Inr (blake (Transaction_Marshal m))"

definition tx_TxID :: "(bytes \<Rightarrow> bytes) \<Rightarrow> Transaction \<Rightarrow> error + string" where
  "tx_TxID blake m = map_sum id hex_encode (tx_HashBytes blake m)"

definition tx_HashHex :: "(bytes \<Rightarrow> bytes) \<Rightarrow> Transaction \<Rightarrow> error + string" where
  "tx_HashHex blake m = map_sum id (\<lambda>h. hex_encode (str_bytes (hex_encode h))) (tx_HashBytes blake m)"

definition hash_or_nil :: "error + bytes \<Rightarrow> bytes" where
  "hash_or_nil r = (case r of Inl _ \<Rightarrow> [] | Inr h \<Rightarrow> h)"

definition TxRoot :: "((bytes \<times> bytes) list \<Rightarrow> bytes) \<Rightarrow> (bytes \<Rightarrow> bytes) \<Rightarrow> Transaction list \<Rightarrow> bytes" where
  "TxRoot tree_root blake txs = tree_root (map (\<lambda>tx. let h = hash_or_nil (tx_HashBytes blake tx) in (h, h)) txs)"

definition TxRootByBytes :: "((bytes \<times> bytes) list \<Rightarrow> bytes) \<Rightarrow> (bytes \<Rightarrow> bytes) \<Rightarrow> bytes list \<Rightarrow> bytes" where
  "TxRootByBytes tree_root blake txsBytes = tree_root (map (\<lambda>b. (blake b, blake b)) txsBytes)"

definition TxRootWithRtn :: "((bytes \<times> bytes) list \<Rightarrow> bytes) \<Rightarrow> (bytes \<Rightarrow> bytes) \<Rightarrow> Transaction list \<Rightarrow> bytes \<times> bytes list" where
  "TxRootWithRtn tree_root blake txs = (TxRoot tree_root blake txs, map (\<lambda>tx. hash_or_nil (tx_HashBytes blake tx)) txs)"

definition txr_HashBytes :: "(bytes \<Rightarrow> bytes) \<Rightarrow> TransactionResult \<Rightarrow> error + bytes" where
  "txr_HashBytes blake m = Inr (blake (TransactionResult_Marshal m))"

definition TxResultRoot :: "((bytes \<times> bytes) list \<Rightarrow> bytes) \<Rightarrow> (bytes \<Rightarrow> bytes) \<Rightarrow> TransactionResult list \<Rightarrow> bytes" where
  "TxResultRoot tree_root blake txResults = tree_root (map (\<lambda>r. let h = hash_or_nil (txr_HashBytes blake r) in (h, h)) txResults)"

text \<open>
  The two loops of \<open>TxDifference\<close>: a transaction is removed, and kept, only when its
  hash could not be computed.
\<close>

definition TxDifference :: "(bytes \<Rightarrow> bytes) \<Rightarrow> Transaction list \<Rightarrow> Transaction list \<Rightarrow> Transaction list" where
  "TxDifference blake a b =
     (let remove = concat (map (\<lambda>tx. case tx_HashHex blake tx of Inl err \<Rightarrow> [[] :: string] | Inr txId \<Rightarrow> []) b) in
      filter (\<lambda>tx. case tx_HashHex blake tx of Inl err \<Rightarrow> [] \<notin> set remove | Inr txId \<Rightarrow> False) a)"

lemma TxDifference_empty: "TxDifference blake a b = []"
  by (simp add: TxDifference_def tx_HashHex_def tx_HashBytes_def)

text \<open>
  The root of the transactions can be computed from their bytes, and it depends on
  the set of the transactions only: with a tree whose root depends on its entries, lists
  with the same transactions in another order, or with repetitions, have the same root.
\<close>

theorem TxRoot_of_bytes_and_set:
  assumes "\<forall>us vs. map_of (rev us) = map_of (rev vs) \<longrightarrow> tree_root us = tree_root vs"
  shows "TxRootByBytes tree_root blake (map Transaction_Marshal txs) = TxRoot tree_root blake txs \<and>
    (set txs = set txs' \<longrightarrow> TxRoot tree_root blake txs = TxRoot tree_root blake txs')"
proof -
  have diag: "map_of (rev (map (\<lambda>tx. (h tx, h tx)) xs)) = (\<lambda>k. if k \<in> h ` set xs then Some k else None)" for h :: "Transaction \<Rightarrow> bytes" and xs
  proof
    fix k show "map_of (rev (map (\<lambda>tx. (h tx, h tx)) xs)) k = (if k \<in> h ` set xs then Some k else None)"
      by (induction xs) (auto simp: map_add_def split: option.splits)
  qed
  have "TxRoot tree_root blake txs = TxRoot tree_root blake txs'" if "set txs = set txs'"
    using assms diag [of "\<lambda>tx. blake (Transaction_Marshal tx)"] that
    by (simp add: TxRoot_def Let_def tx_HashBytes_def hash_or_nil_def)
  moreover have "TxRootByBytes tree_root blake (map Transaction_Marshal txs) = TxRoot tree_root blake txs"
    by (simp add: TxRootByBytes_def TxRoot_def tx_HashBytes_def hash_or_nil_def Let_def comp_def)
  ultimately show ?thesis by blast
qed

theorem TxRoot_of_bytes_and_set_witness:
  "(let digest = (\<lambda>us. map (\<lambda>b. if map_of (rev us) [b] = Some [b] then 1 else 0) [0, 1, 2 :: byte]);
        hash = (\<lambda>bs. [of_nat (length bs)]); t = \<lparr>tx_Head = None, tx_Data = None, tx_XXX = []\<rparr>
    in TxRootByBytes digest hash (map Transaction_Marshal [t, t]) = TxRoot digest hash [t, t] \<and>
       TxRoot digest hash [t, t] = TxRoot digest hash [t])"
  unfolding Let_def
  using TxRoot_of_bytes_and_set [of "\<lambda>us. map (\<lambda>b. if map_of (rev us) [b] = Some [b] then 1 else 0) [0, 1, 2 :: byte]"
      "\<lambda>bs. [of_nat (length bs)]" "[t, t]" "[t]" for t] by simp

section \<open>Signatures and new transactions\<close>

record CryptService =
  crs_ConvertToPublic :: "bytes \<Rightarrow> error + bytes"
  crs_CreateAddress :: "bytes \<Rightarrow> error + string"
  crs_Sign :: "bytes \<Rightarrow> bytes \<Rightarrow> error + bytes"
  crs_Verify :: "string \<Rightarrow> bytes \<Rightarrow> bytes option \<Rightarrow> bool"

record SignatureInfo =
  si_SignData :: "bytes option"
  si_PublicKey :: "bytes option"

definition marshal_sign :: "SignatureInfo \<Rightarrow> bytes" where
  "marshal_sign si = Marshal (JObj [(''SignData'', j_bytes (si_SignData si)), (''PublicKey'', j_bytes (si_PublicKey si))])"

definition unmarshal_sign :: "bytes \<Rightarrow> error + SignatureInfo" where
  "unmarshal_sign b = (case Unmarshal (Some b) of
     Inl e \<Rightarrow> Inl e
   | Inr j \<Rightarrow> (case un_obj j of
       Inl e \<Rightarrow> Inl e
     | Inr ms \<Rightarrow> (case (un_bytes (field ''SignData'' ms), un_bytes (field ''PublicKey'' ms)) of
         (Inr s, Inr p) \<Rightarrow> Inr \<lparr>si_SignData = s, si_PublicKey = p\<rparr>
       | _ \<Rightarrow> Inl ErrJson)))"

lemma unmarshal_marshal_sign [simp]: "unmarshal_sign (marshal_sign si) = Inr si"
  by (simp add: unmarshal_sign_def marshal_sign_def Unmarshal_Marshal field_def to_lower_def)

abbreviation TransactionCategory_Topia_Universal :: string where "TransactionCategory_Topia_Universal \<equiv> ''topia_universal''"
abbreviation TransactionCategory_Eth :: string where "TransactionCategory_Eth \<equiv> ''eth''"

definition NewTransaction :: "CryptService \<Rightarrow> bytes option \<Rightarrow> u64 \<Rightarrow> string \<Rightarrow> 32 word \<Rightarrow> bytes \<Rightarrow> error + Transaction" where
  "NewTransaction cryptService privKey nonce txCategory txVersion data = (case privKey of
     None \<Rightarrow> Inl (Panic ''Tx private key nil'')
   | Some priv \<Rightarrow>
       if length data = 0 then Inl (Panic ''Tx data size 0'')
       else (case crs_ConvertToPublic cryptService priv of
          Inl e \<Rightarrow> Inl (Panic ''Can't convert public key from fromPriKey'')
        | Inr txFromPubKey \<Rightarrow> (case crs_CreateAddress cryptService txFromPubKey of
            Inl e \<Rightarrow> Inl (Panic ''Can't convert public key from fromPubKey'')
          | Inr txFromAddr \<Rightarrow>
              if txCategory = TransactionCategory_Eth \<and> \<not> IsEth txFromAddr then Inl (Panic ''Tx from address is not eth'')
              else (case crs_Sign cryptService priv data of
                 Inl e \<Rightarrow> Inl (Panic ''Sign err'')
               | Inr signData \<Rightarrow>
                   Inr \<lparr>tx_Head = Some \<lparr>th_Category = str_bytes txCategory, th_ChainID = [], th_Version = txVersion,
                          th_TimeStamp = 0, th_Index = 0, th_FromAddr = addr_Bytes txFromAddr, th_Nonce = nonce,
                          th_Signature = marshal_sign \<lparr>si_SignData = Some signData, si_PublicKey = Some txFromPubKey\<rparr>, th_XXX = []\<rparr>,
                        tx_Data = Some \<lparr>td_Specification = data, td_XXX = []\<rparr>, tx_XXX = []\<rparr>))))"

section \<open>Verification\<close>

datatype VerifyResult = VerifyResult_Accept | VerifyResult_Reject | VerifyResult_Ignore

text \<open>
  The verifiers one after the other: the first one that rejects decides. A verifier
  that panics ends the verification. The same loop is written out for each kind of
  verifier.
\<close>

fun ApplyTransactionVerifiers :: "VerifyResult \<Rightarrow> (error + VerifyResult) list \<Rightarrow> error + VerifyResult" where
  "ApplyTransactionVerifiers vrResult [] = Inr vrResult"
| "ApplyTransactionVerifiers vrResult (v # vs) = (case v of
     Inl e \<Rightarrow> Inl e
   | Inr VerifyResult_Reject \<Rightarrow> Inr VerifyResult_Reject
   | Inr VerifyResult_Ignore \<Rightarrow> ApplyTransactionVerifiers VerifyResult_Ignore vs
   | Inr VerifyResult_Accept \<Rightarrow> ApplyTransactionVerifiers vrResult vs)"

lemma ApplyTransactionVerifiers_Accept:
  "ApplyTransactionVerifiers VerifyResult_Accept vs = Inr VerifyResult_Accept \<longleftrightarrow> (\<forall>v \<in> set vs. v = Inr VerifyResult_Accept)"
proof -
  have "ApplyTransactionVerifiers VerifyResult_Ignore ws \<noteq> Inr VerifyResult_Accept" for ws
    by (induction ws) (auto split: sum.splits VerifyResult.splits)
  then show ?thesis by (induction vs) (auto split: sum.splits VerifyResult.splits)
qed

definition TransactionChainIDVerifier :: "string \<Rightarrow> TransactionHead \<Rightarrow> error + VerifyResult" where
  "TransactionChainIDVerifier chainID h =
     Inr (if th_ChainID h \<noteq> str_bytes chainID then VerifyResult_Reject else VerifyResult_Accept)"

definition TransactionFromAddressVerifier :: "(bytes \<Rightarrow> bytes) \<Rightarrow> TransactionHead \<Rightarrow> error + VerifyResult" where
  "TransactionFromAddressVerifier blake4 h =
     (let fromAddr = NewFromBytes (th_FromAddr h); fEth = IsEth fromAddr in
      if fEth \<and> bytes_str (th_Category h) = TransactionCategory_Eth then Inr VerifyResult_Accept
      else if \<not> fEth then
        map_sum id (\<lambda>isValid. if \<not> isValid then VerifyResult_Reject else VerifyResult_Accept) (IsValid blake4 fromAddr CurrentNetworkType)
      else Inr VerifyResult_Reject)"

text \<open>A crypt type without a service makes \<open>CreateCryptService\<close> panic.\<close>

definition TransactionSignatureVerifier ::
  "(bytes \<Rightarrow> bytes) \<Rightarrow> (byte \<Rightarrow> CryptService option) \<Rightarrow> TransactionHead \<Rightarrow> TransactionData option \<Rightarrow> error + VerifyResult" where
  "TransactionSignatureVerifier blake4 crypt h d =
     (let fromAddr = NewFromBytes (th_FromAddr h) in
      case addr_CryptType blake4 fromAddr of
        Inl e \<Rightarrow> if is_panic e then Inl e else Inr VerifyResult_Reject
      | Inr cryType \<Rightarrow> (case unmarshal_sign (th_Signature h) of
          Inl e \<Rightarrow> Inr VerifyResult_Reject
        | Inr signInfo \<Rightarrow> (case (crypt cryType, d) of
            (Some cryService, Some data) \<Rightarrow>
              Inr (if crs_Verify cryService fromAddr (td_Specification data) (si_SignData signInfo) then VerifyResult_Accept else VerifyResult_Reject)
          | (None, _) \<Rightarrow> Inl (Panic ''invalid crypt type'')
          | (_, None) \<Rightarrow> Inl (Panic ''nil pointer dereference''))))"

definition BasicVerify :: "(bytes \<Rightarrow> bytes) \<Rightarrow> (byte \<Rightarrow> CryptService option) \<Rightarrow> string \<Rightarrow> Transaction \<Rightarrow> error + VerifyResult" where
  "BasicVerify blake4 crypt chainID tx = (case tx_Head tx of
     None \<Rightarrow> Inl (Panic ''nil pointer dereference'')
   | Some h \<Rightarrow> ApplyTransactionVerifiers VerifyResult_Accept
       [TransactionChainIDVerifier chainID h, TransactionFromAddressVerifier blake4 h, TransactionSignatureVerifier blake4 crypt h (tx_Data tx)])"

text \<open>
  What a crypt service promises: it signs, what it signs verifies under the address of
  the key, and its addresses are valid addresses of its own crypt type.
\<close>

definition crypt_laws :: "(bytes \<Rightarrow> bytes) \<Rightarrow> CryptService \<Rightarrow> byte \<Rightarrow> bool" where
  "crypt_laws blake4 cs cryptType \<longleftrightarrow>
    (\<forall>priv pub. crs_ConvertToPublic cs priv = Inr pub \<longrightarrow>
       (\<exists>a p. crs_CreateAddress cs pub = Inr a \<and> decode blake4 a = Inr (CurrentNetworkType, cryptType, Some p) \<and>
          (\<forall>msg. \<exists>s. crs_Sign cs priv msg = Inr s \<and> crs_Verify cs a msg (Some s))))"

text \<open>The transactions \<open>NewTransaction\<close> makes, and what the basic verification says of them.\<close>

lemma new_tx_verify:
  assumes "crypt_laws blake4 cs cryptType" "crypt cryptType = Some cs"
    and "crs_ConvertToPublic cs priv = Inr pub" "crs_CreateAddress cs pub = Inr a" "\<not> IsEth a" "data \<noteq> []"
    and "category \<noteq> TransactionCategory_Eth"
  obtains h where "NewTransaction cs (Some priv) nonce category ver data =
      Inr \<lparr>tx_Head = Some h, tx_Data = Some \<lparr>td_Specification = data, td_XXX = []\<rparr>, tx_XXX = []\<rparr>"
    "th_Category h = str_bytes category" "th_ChainID h = []" "th_FromAddr h = str_bytes a" "th_Nonce h = nonce"
    "\<And>chainID. BasicVerify blake4 crypt chainID \<lparr>tx_Head = Some h, tx_Data = Some \<lparr>td_Specification = data, td_XXX = []\<rparr>, tx_XXX = []\<rparr> =
       Inr (if chainID = [] then VerifyResult_Accept else VerifyResult_Reject)"
proof -
  obtain p s where a: "decode blake4 a = Inr (CurrentNetworkType, cryptType, Some p)"
    and s: "crs_Sign cs priv data = Inr s" "crs_Verify cs a data (Some s)"
    using assms(1,3,4) unfolding crypt_laws_def by force
  have ne: "a \<noteq> []" using a by (auto simp: decode_def)
  have v: "IsValid blake4 a CurrentNetworkType = Inr True" "addr_CryptType blake4 a = Inr cryptType"
    "[] = str_bytes chainID \<longleftrightarrow> chainID = []" "str_bytes [] = []" for chainID
    using a ne by (auto simp: IsValid_def addr_CryptType_def str_bytes_def)
  define h where "h = \<lparr>th_Category = str_bytes category, th_ChainID = [], th_Version = ver,
      th_TimeStamp = 0, th_Index = 0, th_FromAddr = str_bytes a, th_Nonce = nonce,
      th_Signature = marshal_sign \<lparr>si_SignData = Some s, si_PublicKey = Some pub\<rparr>, th_XXX = []\<rparr>"
  have "BasicVerify blake4 crypt chainID \<lparr>tx_Head = Some h, tx_Data = Some \<lparr>td_Specification = data, td_XXX = []\<rparr>, tx_XXX = []\<rparr> =
      Inr (if chainID = [] then VerifyResult_Accept else VerifyResult_Reject)" for chainID
    using assms(2,5) s v unfolding h_def
    by (auto simp: BasicVerify_def TransactionChainIDVerifier_def TransactionFromAddressVerifier_def
        TransactionSignatureVerifier_def NewFromBytes_def Let_def)
  moreover have "NewTransaction cs (Some priv) nonce category ver data =
      Inr \<lparr>tx_Head = Some h, tx_Data = Some \<lparr>td_Specification = data, td_XXX = []\<rparr>, tx_XXX = []\<rparr>"
    using assms(3-) s by (simp add: NewTransaction_def addr_Bytes_def h_def)
  ultimately show thesis using that [of h] by (simp add: h_def)
qed


text \<open>A service whose signatures are the key and the message.\<close>

definition sample_crypt :: CryptService where
  "sample_crypt = \<lparr>
     crs_ConvertToPublic = (\<lambda>priv. if length priv = 32 then Inr priv else Inl (ErrOther ''key length'')),
     crs_CreateAddress = (\<lambda>pub. NewAddress (\<lambda>_. [1, 2, 3, 4]) CryptType_Ed25519 pub),
     crs_Sign = (\<lambda>priv msg. Inr (priv @ msg)),
     crs_Verify = (\<lambda>a msg s. case decode (\<lambda>_. [1, 2, 3, 4]) a of Inr (_, _, Some p) \<Rightarrow> s = Some (p @ msg) | _ \<Rightarrow> False)\<rparr>"

lemma sample_crypt_laws: "crypt_laws (\<lambda>_. [1, 2, 3, 4]) sample_crypt CryptType_Ed25519"
proof -
  have "\<exists>a. NewAddress (\<lambda>_. [1, 2, 3, 4]) CryptType_Ed25519 p = Inr a \<and>
      decode (\<lambda>_. [1, 2, 3, 4]) a = Inr (CurrentNetworkType, CryptType_Ed25519, Some p)" if "length p = 32" for p
    unfolding NewAddress_def
    by (rule encode_decode) (simp_all add: that CurrentNetworkType_def payload_len_def address_len_defs)
  note ex = this
  have "\<exists>a p. crs_CreateAddress sample_crypt pub = Inr a \<and> decode (\<lambda>_. [1, 2, 3, 4]) a = Inr (CurrentNetworkType, CryptType_Ed25519, Some p) \<and>
      (\<forall>msg. \<exists>s. crs_Sign sample_crypt priv msg = Inr s \<and> crs_Verify sample_crypt a msg (Some s))"
    if "crs_ConvertToPublic sample_crypt priv = Inr pub" for priv pub
  proof -
    have p: "priv = pub" "length pub = 32" using that by (auto simp: sample_crypt_def split: if_splits)
    obtain a where "NewAddress (\<lambda>_. [1, 2, 3, 4]) CryptType_Ed25519 pub = Inr a"
      "decode (\<lambda>_. [1, 2, 3, 4]) a = Inr (CurrentNetworkType, CryptType_Ed25519, Some pub)" using ex [OF p(2)] by blast
    then show ?thesis by (simp add: sample_crypt_def p(1))
  qed
  then show ?thesis unfolding crypt_laws_def by blast
qed

lemma length_b32_digits: "length (b32_digits bs) = 8 * (length bs div 5) + enc_len (length bs mod 5)"
proof (induction bs rule: b32_digits.induct)
  case (1 bs)
  show ?case
  proof (cases "length bs < 5")
    case True
    then have "length bs = 0 \<or> length bs = 1 \<or> length bs = 2 \<or> length bs = 3 \<or> length bs = 4" by linarith
    then have "enc_len (length bs) \<le> 8" "bs = [] \<or> length (b32_digits bs) = min 8 (enc_len (length bs))"
      by (auto simp: enc_len_def b32_digits.simps [of bs] b32_digits.simps [of "[]"] enc_group_def)
    with True show ?thesis by (auto simp: enc_len_def b32_digits.simps [of "[]"])
  next
    case False
    then have ne: "bs \<noteq> []" and l: "length bs = 5 + (length bs - 5)" by auto
    have "length (b32_digits bs) = 8 + length (b32_digits (drop 5 bs))"
      using False ne by (subst b32_digits.simps) (simp add: enc_group_def enc_len_def)
    with 1 [OF ne] have "length (b32_digits bs) = 8 + (8 * ((length bs - 5) div 5) + enc_len ((length bs - 5) mod 5))" by simp
    moreover have "length bs div 5 = Suc ((length bs - 5) div 5)" "length bs mod 5 = (length bs - 5) mod 5"
      by (subst l, simp)+
    ultimately show ?thesis by simp
  qed
qed

lemma sample_key: "crs_ConvertToPublic sample_crypt (replicate 32 7) = Inr (replicate 32 7)"
  "crs_CreateAddress sample_crypt (replicate 32 7) = Inr (''t3'' @ b32_EncodeToString (replicate 32 7 @ [1, 2, 3, 4]))"
  "\<not> IsEth (''t3'' @ b32_EncodeToString (replicate 32 7 @ [1, 2, 3, 4]))"
proof -
  have "length (b32_EncodeToString (replicate 32 7 @ [1, 2, 3, 4])) = 58" by (simp add: b32_EncodeToString_def length_b32_digits enc_len_def)
  then show "\<not> IsEth (''t3'' @ b32_EncodeToString (replicate 32 7 @ [1, 2, 3, 4]))" by (simp add: IsEth_def Has0xPrefix_def IsHex_def address_len_defs)
qed (simp_all add: sample_crypt_def NewAddress_def encode_def network_prefix_def CurrentNetworkType_def dec_small checksum_def Let_def)


end
