(* ===== verification/Shrink_Map.thy ===== *)
theory Shrink_Map
  imports Go_Map
begin

text \<open>
  The map of \<open>src/common/shrink_map.go\<close>. Go maps never release their buckets, so the
  entries are kept in two maps and moved to a fresh one when many were deleted. The
  invariant is that no key is in both maps; with it the structure behaves as one map.
  It is an instance of the interface \<open>go_map\<close>. The lock makes each method one step.
\<close>

definition copyThreshold :: nat where "copyThreshold = 1000"
definition maxDeletion :: nat where "maxDeletion = 10000"

record ('k, 'v) ShrinkableMap =
  deletionOld :: nat
  deletionNew :: nat
  dirtyOld :: "('k, 'v) gomap"
  dirtyNew :: "('k, 'v) gomap"

definition NewShrinkMap :: "('k, 'v) ShrinkableMap" where
  "NewShrinkMap = \<lparr>deletionOld = 0, deletionNew = 0, dirtyOld = [], dirtyNew = []\<rparr>"

text \<open>The steps of \<open>Del\<close>: the deletion, and the two moves.\<close>

definition del_key :: "'k :: linorder \<Rightarrow> ('k, 'v) ShrinkableMap \<Rightarrow> ('k, 'v) ShrinkableMap" where
  "del_key key m =
     (if gm_has (dirtyOld m) key then m\<lparr>dirtyOld := gm_del key (dirtyOld m), deletionOld := deletionOld m + 1\<rparr>
      else if gm_has (dirtyNew m) key then m\<lparr>dirtyNew := gm_del key (dirtyNew m), deletionNew := deletionNew m + 1\<rparr>
      else m)"

definition copy_into :: "('k :: linorder, 'v) gomap \<Rightarrow> ('k, 'v) gomap \<Rightarrow> ('k, 'v) gomap" where
  "copy_into dst src = foldl (\<lambda>m (k, v). gm_set k v m) dst src"

definition move_old :: "('k :: linorder, 'v) ShrinkableMap \<Rightarrow> ('k, 'v) ShrinkableMap" where
  "move_old m =
     (if deletionOld m \<ge> maxDeletion \<and> length (dirtyOld m) < copyThreshold
      then m\<lparr>dirtyOld := copy_into (dirtyNew m) (dirtyOld m), deletionOld := deletionNew m, dirtyNew := [], deletionNew := 0\<rparr>
      else m)"

definition move_new :: "('k :: linorder, 'v) ShrinkableMap \<Rightarrow> ('k, 'v) ShrinkableMap" where
  "move_new m =
     (if deletionNew m \<ge> maxDeletion \<and> length (dirtyNew m) < copyThreshold
      then m\<lparr>dirtyOld := copy_into (dirtyOld m) (dirtyNew m), dirtyNew := [], deletionNew := 0\<rparr>
      else m)"

definition sm_Del :: "'k :: linorder \<Rightarrow> ('k, 'v) ShrinkableMap \<Rightarrow> ('k, 'v) ShrinkableMap" where
  "sm_Del key m = move_new (move_old (del_key key m))"

definition sm_Get :: "('k, 'v) ShrinkableMap \<Rightarrow> 'k \<Rightarrow> 'v option" where
  "sm_Get m key = (case map_of (dirtyOld m) key of Some val \<Rightarrow> Some val | None \<Rightarrow> map_of (dirtyNew m) key)"

definition sm_AllKeys :: "('k, 'v) ShrinkableMap \<Rightarrow> 'k list" where
  "sm_AllKeys m = map fst (dirtyOld m) @ map fst (dirtyNew m)"

text \<open>\<open>IterateCallback\<close> calls its argument on these entries, in turn.\<close>

definition sm_Iterate :: "('k, 'v) ShrinkableMap \<Rightarrow> ('k \<times> 'v) list" where
  "sm_Iterate m = dirtyOld m @ dirtyNew m"

definition sm_Set :: "'k :: linorder \<Rightarrow> 'v \<Rightarrow> ('k, 'v) ShrinkableMap \<Rightarrow> ('k, 'v) ShrinkableMap" where
  "sm_Set key value m =
     (if deletionOld m \<le> maxDeletion then
        (let m1 = (if gm_has (dirtyNew m) key
                   then m\<lparr>dirtyNew := gm_del key (dirtyNew m), deletionNew := deletionNew m + 1\<rparr> else m) in
         m1\<lparr>dirtyOld := gm_set key value (dirtyOld m1)\<rparr>)
      else
        (let m1 = (if gm_has (dirtyOld m) key
                   then m\<lparr>dirtyOld := gm_del key (dirtyOld m), deletionOld := deletionOld m + 1\<rparr> else m) in
         m1\<lparr>dirtyNew := gm_set key value (dirtyNew m1)\<rparr>))"

definition sm_Size :: "('k, 'v) ShrinkableMap \<Rightarrow> nat" where
  "sm_Size m = length (dirtyOld m) + length (dirtyNew m)"

section \<open>Invariant\<close>

definition sm_inv :: "('k :: linorder, 'v) ShrinkableMap \<Rightarrow> bool" where
  "sm_inv m \<longleftrightarrow> sorted_keys (dirtyOld m) \<and> sorted_keys (dirtyNew m) \<and>
     set (map fst (dirtyOld m)) \<inter> set (map fst (dirtyNew m)) = {}"

lemma keys_dom: "set (map fst xs) = dom (map_of xs)"
  by (simp add: dom_map_of_conv_image_fst)

lemma sm_Get_add: "sm_Get m = map_of (dirtyNew m) ++ map_of (dirtyOld m)"
  by (auto simp: sm_Get_def fun_eq_iff map_add_def)

lemma copy_into_spec:
  assumes "sorted_keys dst" "sorted_keys src"
  shows "sorted_keys (copy_into dst src)" "map_of (copy_into dst src) = map_of dst ++ map_of src"
proof -
  have "map_of (rev src) = map_of src"
    using assms(2) by (intro ext) (metis distinct_rev map_of_eqI rev_map set_rev sorted_keys_distinct map_of_inject_set)
  then show "sorted_keys (copy_into dst src)" "map_of (copy_into dst src) = map_of dst ++ map_of src"
    unfolding copy_into_def using gomap.upd_all [OF assms(1), of src] by auto
qed

lemma del_key_ok:
  assumes "sm_inv m"
  shows "sm_inv (del_key k m)" "sm_Get (del_key k m) = (sm_Get m)(k := None)"
  using assms unfolding sm_inv_def keys_dom sm_Get_add del_key_def
  by (auto simp: gm_del_sorted fun_eq_iff map_add_def dom_def split: option.splits)

lemma move_ok:
  assumes "sm_inv m"
  shows "sm_inv (move_old m)" "sm_Get (move_old m) = sm_Get m" "sm_inv (move_new m)" "sm_Get (move_new m) = sm_Get m"
  using assms unfolding sm_inv_def keys_dom sm_Get_add move_old_def move_new_def
  by (auto simp: copy_into_spec fun_eq_iff map_add_def dom_def split: option.splits)

lemma sm_Set_ok:
  assumes "sm_inv m"
  shows "sm_inv (sm_Set k v m)" "sm_Get (sm_Set k v m) = (sm_Get m)(k \<mapsto> v)"
  using assms unfolding sm_inv_def keys_dom sm_Get_add sm_Set_def Let_def
  by (auto simp: gm_set_sorted gm_del_sorted fun_eq_iff map_add_def dom_def split: option.splits)

interpretation shrink: go_map sm_Get sm_Set sm_Del NewShrinkMap sm_inv
  by unfold_locales (auto simp: sm_Del_def del_key_ok move_ok sm_Set_ok, simp_all add: sm_inv_def sm_Get_def NewShrinkMap_def)

lemma sm_keys:
  assumes "sm_inv m"
  shows "distinct (sm_AllKeys m)" "set (sm_AllKeys m) = dom (sm_Get m)" "sm_Size m = card (dom (sm_Get m))"
    "map_of (sm_Iterate m) = sm_Get m"
proof -
  show d: "distinct (sm_AllKeys m)" using assms by (auto simp: sm_AllKeys_def sm_inv_def sorted_keys_distinct)
  show s: "set (sm_AllKeys m) = dom (sm_Get m)"
    unfolding sm_Get_add dom_map_add sm_AllKeys_def set_append keys_dom by blast
  have "sm_Size m = length (sm_AllKeys m)" by (simp add: sm_Size_def sm_AllKeys_def)
  with d s show "sm_Size m = card (dom (sm_Get m))" by (metis distinct_card)
  show "map_of (sm_Iterate m) = sm_Get m"
    using assms unfolding sm_Iterate_def map_of_append sm_Get_add sm_inv_def keys_dom
    by (metis map_add_comm inf_commute)
qed

section \<open>Equivalence with one map\<close>

datatype ('k, 'v) sm_op = SmSet 'k 'v | SmDel 'k

fun sm_step :: "('k :: linorder, 'v) ShrinkableMap \<Rightarrow> ('k, 'v) sm_op \<Rightarrow> ('k, 'v) ShrinkableMap" where
  "sm_step m (SmSet k v) = sm_Set k v m"
| "sm_step m (SmDel k) = sm_Del k m"

fun map_step :: "('k \<rightharpoonup> 'v) \<Rightarrow> ('k, 'v) sm_op \<Rightarrow> 'k \<rightharpoonup> 'v" where
  "map_step m (SmSet k v) = m(k \<mapsto> v)"
| "map_step m (SmDel k) = m(k := None)"

lemma sm_run: "sm_inv m \<Longrightarrow> sm_inv (foldl sm_step m ops) \<and> sm_Get (foldl sm_step m ops) = foldl map_step (sm_Get m) ops"
proof (induction ops arbitrary: m)
  case (Cons op ops)
  then show ?case by (cases op) (simp_all add: shrink.upd shrink.del fun_upd_def)
qed simp

text \<open>
  (C22) The shrinkable map is a map: after any sequence of \<open>Set\<close> and \<open>Del\<close> on a new one,
  \<open>Get\<close> answers what one map would, \<open>AllKeys\<close> lists each key once, \<open>IterateCallback\<close>
  visits exactly the entries, and \<open>Size\<close> counts them, whatever was moved in between.
\<close>

theorem shrinkable_map_equiv:
  fixes ops :: "('k :: linorder, 'v) sm_op list"
  defines "m \<equiv> foldl sm_step NewShrinkMap ops" and "spec \<equiv> foldl map_step Map.empty ops"
  shows "sm_Get m = spec \<and> distinct (sm_AllKeys m) \<and> set (sm_AllKeys m) = dom spec \<and>
    set (sm_Iterate m) = {(k, v). spec k = Some v} \<and> sm_Size m = card (dom spec)"
proof -
  have e: "sm_Get NewShrinkMap = Map.empty" by (simp add: sm_Get_def NewShrinkMap_def fun_eq_iff)
  have m: "sm_inv m" "sm_Get m = spec"
    using sm_run [of NewShrinkMap ops] shrink.new(1) by (auto simp: m_def spec_def e)
  have "map fst (sm_Iterate m) = sm_AllKeys m" by (simp add: sm_Iterate_def sm_AllKeys_def)
  with sm_keys [OF m(1)] have "set (sm_Iterate m) = {(k, v). sm_Get m k = Some v}"
    using map_of_eq_Some_iff [of "sm_Iterate m"] by auto
  with sm_keys [OF m(1)] m(2) show ?thesis by simp
qed

end
