(* ===== verification/Tx_Pool_Core.thy ===== *)
theory Tx_Pool_Core
  imports Tx_Types Shrink_Map
begin

text \<open>
  The core of the transaction pool (\<open>src/transaction_pool/core\<close>): wrapped transactions and
  their orders, sorted lists, the transactions of one account by nonce, and the
  collection of all transactions. A transaction whose nonce is the next one of its
  account is sent to a channel; a goroutine receives it from there into the pending
  lists. The channel is a list of the collection's state and receiving is a step of its
  own, so that a transaction may be on its way when another operation happens.
\<close>

section \<open>Wrapped transactions\<close>

datatype TxState = TxState_Unknown | TxState_Added | TxState_Packed | TxState_Published | TxState_Republished
  | TxState_DroppedForTxPoolFull | TxState_Removed

datatype SortWay = SortWay_Misc | SortWay_Height | SortWay_Time

text \<open>The time is the number of nanoseconds since an epoch.\<close>

record TxWrapper =
  wt_txID :: string
  wt_category :: string
  wt_txState :: TxState
  wt_size :: nat
  wt_timeStamp :: int
  wt_height :: u64
  wt_fromAddr :: string
  wt_nonce :: u64
  wt_gasPrice :: u64
  wt_fromPeers :: "(string, unit) gomap"
  wt_orginTx :: Transaction

definition GenerateTxWrapperUni :: "(bytes \<Rightarrow> bytes) \<Rightarrow> int \<Rightarrow> Transaction \<Rightarrow> u64 \<Rightarrow> error + TxWrapper" where
  "GenerateTxWrapperUni blake now tx height = (case (tx_Head tx, tx_Data tx) of
     (Some h, Some d) \<Rightarrow>
       (case TransactionUniversal_Unmarshal (td_Specification d) of
          Inl err \<Rightarrow> Inl err
        | Inr txUni \<Rightarrow> (case tu_Head txUni of
            None \<Rightarrow> Inl (Panic ''nil pointer dereference'')
          | Some uh \<Rightarrow> Inr \<lparr>wt_txID = (case tx_TxID blake tx of Inl _ \<Rightarrow> [] | Inr i \<Rightarrow> i), wt_category = bytes_str (th_Category h),
              wt_txState = TxState_Unknown, wt_size = Transaction_Size tx, wt_timeStamp = now, wt_height = height,
              wt_fromAddr = NewFromBytes (th_FromAddr h), wt_nonce = th_Nonce h, wt_gasPrice = uh_GasPrice uh,
              wt_fromPeers = [], wt_orginTx = tx\<rparr>))
   | _ \<Rightarrow> Inl (Panic ''nil pointer dereference''))"

definition GenerateTxWrapper :: "(bytes \<Rightarrow> bytes) \<Rightarrow> int \<Rightarrow> Transaction \<Rightarrow> u64 \<Rightarrow> error + TxWrapper" where
  "GenerateTxWrapper blake now tx height = (case tx_Head tx of
     None \<Rightarrow> Inl (Panic ''nil pointer dereference'')
   | Some h \<Rightarrow> if bytes_str (th_Category h) = TransactionCategory_Topia_Universal then GenerateTxWrapperUni blake now tx height
               else Inl (Panic ''Unsupported tx type''))"

definition AddFromPeer :: "TxWrapper \<Rightarrow> string \<Rightarrow> TxWrapper \<times> bool" where
  "AddFromPeer tw peerID = (if gm_has (wt_fromPeers tw) peerID then (tw, False)
     else (tw\<lparr>wt_fromPeers := gm_set peerID () (wt_fromPeers tw)\<rparr>, True))"

definition HasFromPeer :: "TxWrapper \<Rightarrow> string \<Rightarrow> TxWrapper \<times> bool" where
  "HasFromPeer tw peerID = (if gm_has (wt_fromPeers tw) peerID then (tw, False)
     else (tw\<lparr>wt_fromPeers := gm_set peerID () (wt_fromPeers tw)\<rparr>, True))"

fun Less :: "SortWay \<Rightarrow> TxWrapper \<Rightarrow> TxWrapper \<Rightarrow> bool" where
  "Less SortWay_Misc tw target =
     (if wt_gasPrice tw > wt_gasPrice target then True
      else if wt_gasPrice tw = wt_gasPrice target \<and> wt_height tw < wt_height target then True
      else if wt_height tw = wt_height target \<and> wt_timeStamp tw < wt_timeStamp target then True
      else False)"
| "Less SortWay_Height tw target \<longleftrightarrow> wt_height tw < wt_height target"
| "Less SortWay_Time tw target \<longleftrightarrow> wt_timeStamp tw < wt_timeStamp target"

definition CanReplace :: "TxWrapper \<Rightarrow> TxWrapper \<Rightarrow> bool" where
  "CanReplace tw other \<longleftrightarrow> wt_txState tw \<noteq> TxState_Packed \<and> wt_fromAddr other = wt_fromAddr tw \<and>
     wt_nonce other = wt_nonce tw \<and> wt_gasPrice other > wt_gasPrice tw"

section \<open>Sorted lists\<close>

text \<open>
  \<open>append(l[:index+1], l[index:]...)\<close> makes room at the index, which is then written.
\<close>

definition sl_addTx :: "SortWay \<Rightarrow> TxWrapper list \<Rightarrow> TxWrapper \<Rightarrow> TxWrapper list" where
  "sl_addTx sWay txList wTx =
     (let index = go_search (\<lambda>i. Less sWay (txList ! i) wTx) 0 (length txList) in
      if index = length txList then txList @ [wTx]
      else (take (index + 1) txList @ drop index txList)[index := wTx])"

fun sl_removeTx :: "TxWrapper list \<Rightarrow> string \<Rightarrow> TxWrapper list \<times> TxWrapper option" where
  "sl_removeTx [] txID = ([], None)"
| "sl_removeTx (wTx # rest) txID =
     (if wt_txID wTx = txID then (rest, Some wTx)
      else case sl_removeTx rest txID of (rest', r) \<Rightarrow> (wTx # rest', r))"

definition sl_getTx :: "TxWrapper list \<Rightarrow> string \<Rightarrow> TxWrapper option" where
  "sl_getTx txList txID = find (\<lambda>wTx. wt_txID wTx = txID) txList"

fun sl_pick :: "int \<Rightarrow> nat \<Rightarrow> TxWrapper list \<Rightarrow> Transaction list" where
  "sl_pick blockMaxBytes totalSize [] = []"
| "sl_pick blockMaxBytes totalSize (wTx # rest) =
     (let totalSize' = totalSize + wt_size wTx in
      if int totalSize' > blockMaxBytes then [] else wt_orginTx wTx # sl_pick blockMaxBytes totalSize' rest)"

definition sl_pickTxs :: "TxWrapper list \<Rightarrow> int \<Rightarrow> int \<Rightarrow> Transaction list" where
  "sl_pickTxs txList blockMaxBytes blockMaxGas = (if length txList = 0 then [] else sl_pick blockMaxBytes 0 txList)"

section \<open>The transactions of an account\<close>

record accountTxManager =
  am_pendingTxs :: "(u64, TxWrapper) gomap"
  am_gapTxs :: "(u64, TxWrapper) gomap"
  am_maxContNonce :: u64

definition newAccountTxManager :: accountTxManager where
  "newAccountTxManager = \<lparr>am_pendingTxs = [], am_gapTxs = [], am_maxContNonce = 0\<rparr>"

lemma length_gm_del: "map_of m k = Some v \<Longrightarrow> length (gm_del k m) < length m"
  unfolding gm_del_def by (rule length_filter_less [of "(k, v)"]) (auto dest: map_of_SomeD)

text \<open>The waiting transactions that have become the next ones; \<open>sent\<close> is what goes to the channel.\<close>

function promote :: "u64 \<Rightarrow> accountTxManager \<Rightarrow> TxWrapper list \<Rightarrow> accountTxManager \<times> TxWrapper list" where
  "promote i a sent = (case map_of (am_gapTxs a) i of
     None \<Rightarrow> (a, sent)
   | Some wTxNew \<Rightarrow>
       promote (i + 1) (a\<lparr>am_pendingTxs := gm_set i wTxNew (am_pendingTxs a), am_gapTxs := gm_del i (am_gapTxs a), am_maxContNonce := i\<rparr>)
         (sent @ [wTxNew]))"
  by pat_completeness auto
termination
  by (relation "measure (\<lambda>(i, a, sent). length (am_gapTxs a))") (auto simp: length_gm_del)

declare promote.simps [simp del]

definition am_AddTx :: "accountTxManager \<Rightarrow> TxWrapper \<Rightarrow> (accountTxManager \<times> TxWrapper list) \<times> error option" where
  "am_AddTx a wTx =
     (let nonce = wt_nonce wTx in
      if gm_has (am_pendingTxs a) nonce then ((a, []), Some (ErrExists ''pending tx''))
      else if gm_has (am_gapTxs a) nonce then ((a, []), Some (ErrExists ''gap tx''))
      else if nonce = am_maxContNonce a + 1 then
        (promote (nonce + 1) (a\<lparr>am_pendingTxs := gm_set nonce wTx (am_pendingTxs a), am_maxContNonce := nonce\<rparr>) [wTx], None)
      else if nonce > am_maxContNonce a + 1 then ((a\<lparr>am_gapTxs := gm_set nonce wTx (am_gapTxs a)\<rparr>, []), None)
      else ((a, []), Some (ErrOther ''Invalid tx nonce'')))"

definition am_removePendingTx :: "accountTxManager \<Rightarrow> u64 \<Rightarrow> accountTxManager" where
  "am_removePendingTx a nonce = a\<lparr>am_pendingTxs := gm_del nonce (am_pendingTxs a)\<rparr>"

text \<open>
  The loops of \<open>getPendingTxs\<close> and \<open>getAllTxs\<close> step through the nonces, upwards and
  downwards, as long as there is a pending transaction. They do not end on a map that has
  every nonce.
\<close>

partial_function (option) nonce_run :: "u64 \<Rightarrow> (u64, TxWrapper) gomap \<Rightarrow> u64 \<Rightarrow> Transaction list \<Rightarrow> Transaction list option" where
  "nonce_run step m nonce rtnTxs = (case map_of m nonce of
     None \<Rightarrow> Some rtnTxs
   | Some wTx \<Rightarrow> nonce_run step m (nonce + step) (rtnTxs @ [wt_orginTx wTx]))"

definition am_getPendingTxs :: "accountTxManager \<Rightarrow> Transaction list option" where
  "am_getPendingTxs a = nonce_run 1 (am_pendingTxs a) (am_maxContNonce a) []"

definition am_getAllTxs :: "accountTxManager \<Rightarrow> Transaction list option" where
  "am_getAllTxs a = map_option (\<lambda>txs. txs @ map (wt_orginTx \<circ> snd) (am_gapTxs a)) (nonce_run (- 1) (am_pendingTxs a) (am_maxContNonce a) [])"

section \<open>The order of the lists\<close>

lemma go_search_le: "i \<le> j \<Longrightarrow> go_search f i j \<le> j"
proof (induction f i j rule: go_search.induct)
  case (1 f i j)
  show ?case
  proof (cases "i < j")
    case True
    then have "i \<le> (i + j) div 2" "(i + j) div 2 + 1 \<le> j" by auto
    with 1(1,2) [OF True refl] show ?thesis by (subst go_search.simps) (auto simp: Let_def)
  next
    case False
    with 1(3) show ?thesis by (subst go_search.simps) simp
  qed
qed

lemma sl_addTx_insert:
  "sl_addTx sWay l w = (let i = go_search (\<lambda>i. Less sWay (l ! i) w) 0 (length l) in take i l @ w # drop i l)"
proof -
  have "(take (i + 1) l @ drop i l)[i := w] = take i l @ w # drop i l" if "i < length l" for i
    using that by (simp add: take_Suc_conv_app_nth list_update_append)
  moreover have "go_search (\<lambda>i. Less sWay (l ! i) w) 0 (length l) \<le> length l"
    by (rule go_search_le) simp
  ultimately show ?thesis by (auto simp: sl_addTx_def Let_def)
qed

lemma sl_addTx_mset: "mset (sl_addTx sWay l w) = add_mset w (mset l)"
proof -
  have "mset (take i l @ w # drop i l) = add_mset w (mset (take i l @ drop i l))" for i
    by (simp only: mset_append mset.simps union_mset_add_mset_right)
  then show ?thesis by (simp add: sl_addTx_insert Let_def del: mset_append)
qed

text \<open>A list that is sorted by decreasing keys stays so, when the order compares the keys.\<close>

lemma sl_addTx_sorted:
  fixes key :: "TxWrapper \<Rightarrow> int"
  assumes "\<forall>x \<in> set l. Less sWay x w \<longleftrightarrow> key x < key w" "sorted_wrt (\<lambda>x y. key x \<ge> key y) l"
  shows "sorted_wrt (\<lambda>x y. key x \<ge> key y) (sl_addTx sWay l w)"
proof -
  let ?f = "\<lambda>i. Less sWay (l ! i) w" and ?n = "length l"
  define i where "i = go_search ?f 0 ?n"
  have f: "?f k \<longleftrightarrow> key (l ! k) < key w" if "k < ?n" for k using assms(1) that by simp
  have mono: "\<forall>k j. k \<le> j \<and> j < ?n \<and> ?f k \<longrightarrow> ?f j"
  proof (intro allI impI, elim conjE)
    fix k j assume h: "k \<le> j" "j < ?n" "?f k"
    have "key (l ! j) \<le> key (l ! k)" using sorted_wrt_nth_less [OF assms(2), of k j] h by (cases "k = j") auto
    then show "?f j" using f [of k] f [of j] h by linarith
  qed
  have i: "i \<le> ?n \<and> (\<forall>k < i. \<not> ?f k) \<and> (\<forall>k. i \<le> k \<and> k < ?n \<longrightarrow> ?f k)"
    unfolding i_def by (rule go_search_least [OF _ _ _ _ mono]) auto
  have "key x \<ge> key w" if "x \<in> set (take i l)" for x
    using that i f by (auto simp: in_set_conv_nth not_less)
  moreover have "key x \<le> key w" if "x \<in> set (drop i l)" for x
  proof -
    obtain k where "k < length (drop i l)" "x = drop i l ! k" using \<open>x \<in> set (drop i l)\<close> by (auto simp: in_set_conv_nth)
    then have "x = l ! (i + k)" "i + k < ?n" by auto
    then show ?thesis using i f [of "i + k"] by simp
  qed
  moreover have "sorted_wrt (\<lambda>x y. key x \<ge> key y) (take i l @ drop i l)" using assms(2) by simp
  ultimately show ?thesis
    by (simp add: sl_addTx_insert Let_def i_def [symmetric] sorted_wrt_append del: append_take_drop_id)
qed

lemma sl_build_sorted:
  fixes key :: "TxWrapper \<Rightarrow> int"
  assumes "\<forall>x \<in> set (l @ ws). \<forall>y \<in> set (l @ ws). Less sWay x y \<longleftrightarrow> key x < key y"
    "sorted_wrt (\<lambda>x y. key x \<ge> key y) l"
  shows "sorted_wrt (\<lambda>x y. key x \<ge> key y) (foldl (sl_addTx sWay) l ws) \<and> mset (foldl (sl_addTx sWay) l ws) = mset l + mset ws"
  using assms
proof (induction ws arbitrary: l)
  case (Cons w ws)
  have m: "mset (sl_addTx sWay l w) = add_mset w (mset l)" by (rule sl_addTx_mset)
  then have s: "set (sl_addTx sWay l w) = insert w (set l)" by (metis set_mset_add_mset_insert set_mset_mset)
  have "sorted_wrt (\<lambda>x y. key x \<ge> key y) (sl_addTx sWay l w)"
    using Cons.prems by (intro sl_addTx_sorted) auto
  with Cons.IH [of "sl_addTx sWay l w"] Cons.prems(1) show ?case by (auto simp: s m)
qed simp

lemma Less_Misc_distinct:
  assumes "inj_on wt_gasPrice A" "inj_on wt_height A" "x \<in> A" "y \<in> A"
  shows "Less SortWay_Misc x y \<longleftrightarrow> - uint (wt_gasPrice x) < - uint (wt_gasPrice y)"
  using assms by (cases "x = y") (auto simp: word_less_def dest: inj_onD)

lemma sl_pick_prefix: "\<exists>k. sl_pick blockMaxBytes totalSize l = map wt_orginTx (take k l)"
proof (induction l arbitrary: totalSize)
  case (Cons w l)
  obtain k where "sl_pick blockMaxBytes (totalSize + wt_size w) l = map wt_orginTx (take k l)" using Cons by blast
  then show ?case
    by (cases "int (totalSize + wt_size w) > blockMaxBytes") (auto simp: Let_def intro: exI [of _ 0] exI [of _ "Suc k"])
qed simp

lemma sl_pickTxs_prefix: "\<exists>k. sl_pickTxs l blockMaxBytes blockMaxGas = map wt_orginTx (take k l)"
  using sl_pick_prefix [of blockMaxBytes 0 l] by (auto simp: sl_pickTxs_def intro: exI [of _ 0])

text \<open>
  (C24) The list that orders transactions by height and the one that orders them by time hold
  every transaction that was added, whatever the order of arrival, the highest and the
  latest one first. Both orders are read by a binary search, so that one transaction out
  of place would make later insertions go wrong.
\<close>

theorem pending_lists_sorted:
  "sorted_wrt (\<lambda>x y. wt_height x \<ge> wt_height y) (foldl (sl_addTx SortWay_Height) [] ws) \<and>
   mset (foldl (sl_addTx SortWay_Height) [] ws) = mset ws \<and>
   sorted_wrt (\<lambda>x y. wt_timeStamp x \<ge> wt_timeStamp y) (foldl (sl_addTx SortWay_Time) [] ws) \<and>
   mset (foldl (sl_addTx SortWay_Time) [] ws) = mset ws"
proof -
  have "sorted_wrt (\<lambda>x y. uint (wt_height x) \<ge> uint (wt_height y)) (foldl (sl_addTx SortWay_Height) [] ws) \<and>
      mset (foldl (sl_addTx SortWay_Height) [] ws) = mset [] + mset ws"
    by (rule sl_build_sorted) (auto simp: word_less_def)
  moreover have "sorted_wrt (\<lambda>x y. wt_timeStamp x \<ge> wt_timeStamp y) (foldl (sl_addTx SortWay_Time) [] ws) \<and>
      mset (foldl (sl_addTx SortWay_Time) [] ws) = mset [] + mset ws"
    by (rule sl_build_sorted) auto
  ultimately show ?thesis by (simp add: word_le_def)
qed

text \<open>
  (C36) Blocks are filled with the cheapest transactions first. When no two transactions have
  the same gas price or the same height, the list from which a block is picked is in the
  order of increasing gas price, and the picked transactions are a prefix of it: a
  transaction that pays more is left out before one that pays less.
\<close>

theorem pickTxs_cheapest_first:
  assumes "inj_on wt_gasPrice (set ws)" "inj_on wt_height (set ws)"
  shows "\<exists>l k. l = foldl (sl_addTx SortWay_Misc) [] ws \<and> mset l = mset ws \<and>
    sl_pickTxs l blockMaxBytes blockMaxGas = map wt_orginTx (take k l) \<and>
    (\<forall>x \<in> set (take k l). \<forall>y \<in> set (drop k l). wt_gasPrice x \<le> wt_gasPrice y)"
proof -
  let ?l = "foldl (sl_addTx SortWay_Misc) [] ws" and ?key = "\<lambda>w. - uint (wt_gasPrice w)"
  have s: "sorted_wrt (\<lambda>x y. ?key x \<ge> ?key y) ?l \<and> mset ?l = mset [] + mset ws"
    by (rule sl_build_sorted) (use Less_Misc_distinct [OF assms] in auto)
  obtain k where k: "sl_pickTxs ?l blockMaxBytes blockMaxGas = map wt_orginTx (take k ?l)" using sl_pickTxs_prefix by blast
  have "sorted_wrt (\<lambda>x y. ?key x \<ge> ?key y) (take k ?l @ drop k ?l)" using s by simp
  then have "\<forall>x \<in> set (take k ?l). \<forall>y \<in> set (drop k ?l). wt_gasPrice x \<le> wt_gasPrice y"
    unfolding sorted_wrt_append by (simp add: word_le_def)
  with s k show ?thesis by auto
qed

definition sample_wrapper :: "u64 \<Rightarrow> u64 \<Rightarrow> TxWrapper" where
  "sample_wrapper nonce price = \<lparr>wt_txID = replicate (unat nonce) CHR ''x'', wt_category = ''topia_universal'', wt_txState = TxState_Added,
     wt_size = 10, wt_timeStamp = 0, wt_height = nonce, wt_fromAddr = ''a'', wt_nonce = nonce, wt_gasPrice = price,
     wt_fromPeers = [], wt_orginTx = \<lparr>tx_Head = None, tx_Data = None, tx_XXX = []\<rparr>\<rparr>"

theorem pickTxs_cheapest_first_witness:
  "\<exists>l k. l = foldl (sl_addTx SortWay_Misc) [] [sample_wrapper 1 7, sample_wrapper 2 3] \<and>
    mset l = mset [sample_wrapper 1 7, sample_wrapper 2 3] \<and>
    sl_pickTxs l 10 0 = map wt_orginTx (take k l) \<and>
    (\<forall>x \<in> set (take k l). \<forall>y \<in> set (drop k l). wt_gasPrice x \<le> wt_gasPrice y)"
  by (rule pickTxs_cheapest_first) (simp_all add: sample_wrapper_def)

section \<open>The nonces of an account\<close>

lemma mset_gm_del: "distinct (map fst m) \<Longrightarrow> map_of m k = Some v \<Longrightarrow> mset m = add_mset (k, v) (mset (gm_del k m))"
proof (induction m)
  case (Cons e m)
  have "gm_del k m = m" if "k \<notin> fst ` set m"
    using that by (force simp: gm_del_def filter_id_conv)
  with Cons show ?case by (cases "fst e = k") (auto simp: gm_del_def split: if_splits)
qed simp

lemma unat_Suc_word: "Suc (unat (i :: u64)) < 2 ^ 64 \<Longrightarrow> unat (i + 1) = Suc (unat i)"
  by (rule trans [OF unat_add_lem [THEN iffD1]]) simp_all

text \<open>
  The state of an account: pending transactions are filed under their nonces, which are at
  most \<open>maxContNonce\<close>; waiting ones have nonces after the next one.
\<close>

definition am_wf :: "accountTxManager \<Rightarrow> bool" where
  "am_wf a \<longleftrightarrow> sorted_keys (am_pendingTxs a) \<and> sorted_keys (am_gapTxs a) \<and>
     (\<forall>n w. map_of (am_pendingTxs a) n = Some w \<longrightarrow> wt_nonce w = n \<and> 1 \<le> unat n \<and> unat n \<le> unat (am_maxContNonce a)) \<and>
     (\<forall>n w. map_of (am_gapTxs a) n = Some w \<longrightarrow> wt_nonce w = n \<and> Suc (unat (am_maxContNonce a)) < unat n)"

abbreviation am_nonces :: "accountTxManager \<Rightarrow> u64 set" where
  "am_nonces a \<equiv> dom (map_of (am_pendingTxs a)) \<union> dom (map_of (am_gapTxs a))"

abbreviation pending_of :: "accountTxManager \<Rightarrow> TxWrapper multiset" where
  "pending_of a \<equiv> mset (map snd (am_pendingTxs a))"

abbreviation gap_of :: "accountTxManager \<Rightarrow> TxWrapper multiset" where
  "gap_of a \<equiv> mset (map snd (am_gapTxs a))"

text \<open>
  What promotion needs: waiting transactions have nonces from the one asked for on, and
  there are too few of them to reach the last nonce.
\<close>

definition am_ready :: "u64 \<Rightarrow> accountTxManager \<Rightarrow> bool" where
  "am_ready i a \<longleftrightarrow> sorted_keys (am_pendingTxs a) \<and> sorted_keys (am_gapTxs a) \<and>
     (\<forall>n w. map_of (am_pendingTxs a) n = Some w \<longrightarrow> wt_nonce w = n \<and> 1 \<le> unat n \<and> unat n < unat i) \<and>
     (\<forall>n w. map_of (am_gapTxs a) n = Some w \<longrightarrow> wt_nonce w = n \<and> unat i \<le> unat n) \<and>
     unat i = Suc (unat (am_maxContNonce a)) \<and> unat i + length (am_gapTxs a) < 2 ^ 64"

definition nonce_range :: "nat \<Rightarrow> nat \<Rightarrow> u64 set" where
  "nonce_range i k = {n. i \<le> unat n \<and> unat n < i + k}"

lemma nonce_range_0 [simp]: "nonce_range i 0 = {}"
  by (auto simp: nonce_range_def)

lemma nonce_range_Suc: "nonce_range (unat i) (Suc k) = insert i (nonce_range (Suc (unat i)) k)"
  by (auto simp: nonce_range_def word_unat_eq_iff)

lemma nonce_range_append: "i + k = j \<Longrightarrow> nonce_range i k \<union> nonce_range j l = nonce_range i (k + l)"
  by (auto simp: nonce_range_def)

definition promoted :: "nat \<Rightarrow> accountTxManager \<Rightarrow> TxWrapper list \<Rightarrow> accountTxManager \<Rightarrow> bool" where
  "promoted i a new a' \<longleftrightarrow> am_wf a' \<and>
     map (unat \<circ> wt_nonce) new = [i..<i + length new] \<and>
     unat (am_maxContNonce a') = unat (am_maxContNonce a) + length new \<and>
     dom (map_of (am_pendingTxs a')) = dom (map_of (am_pendingTxs a)) \<union> nonce_range i (length new) \<and>
     am_nonces a' = am_nonces a \<and> gap_of a = mset new + gap_of a' \<and> pending_of a' = pending_of a + mset new"

lemma promotedD:
  assumes "promoted i a new a'"
  shows "am_wf a'" "map (unat \<circ> wt_nonce) new = [i..<i + length new]"
    "unat (am_maxContNonce a') = unat (am_maxContNonce a) + length new"
    "dom (map_of (am_pendingTxs a')) = dom (map_of (am_pendingTxs a)) \<union> nonce_range i (length new)"
    "am_nonces a' = am_nonces a" "gap_of a = mset new + gap_of a'" "pending_of a' = pending_of a + mset new"
  using assms unfolding promoted_def by blast+

lemma mset_gm_set: "sorted_keys m \<Longrightarrow> map_of m k = None \<Longrightarrow> mset (gm_set k v m) = add_mset (k, v) (mset m)"
proof -
  assume a: "sorted_keys m" "map_of m k = None"
  then have "gm_del k (gm_set k v m) = m"
    by (intro gomap_eqI) (auto simp: gm_del_sorted gm_set_sorted)
  with mset_gm_del [of "gm_set k v m" k v] a show ?thesis by (simp add: gm_set_sorted sorted_keys_distinct)
qed

lemma values_gm_set: "sorted_keys m \<Longrightarrow> map_of m k = None \<Longrightarrow> mset (map snd (gm_set k v m)) = add_mset v (mset (map snd m))"
  by (simp add: mset_gm_set)

lemma values_gm_del: "sorted_keys m \<Longrightarrow> map_of m k = Some v \<Longrightarrow> mset (map snd m) = add_mset v (mset (map snd (gm_del k m)))"
  using mset_gm_del [of m k v] by (simp add: sorted_keys_distinct)

lemma promote_spec:
  "am_ready i a \<Longrightarrow> \<exists>a' new. promote i a sent = (a', sent @ new) \<and> promoted (unat i) a new a'"
proof (induction i a sent rule: promote.induct)
  case (1 i a sent)
  have r: "sorted_keys (am_pendingTxs a)" "sorted_keys (am_gapTxs a)"
      "\<And>n w. map_of (am_pendingTxs a) n = Some w \<Longrightarrow> wt_nonce w = n \<and> 1 \<le> unat n \<and> unat n < unat i"
      "\<And>n w. map_of (am_gapTxs a) n = Some w \<Longrightarrow> wt_nonce w = n \<and> unat i \<le> unat n"
      "unat i = Suc (unat (am_maxContNonce a))" "unat i + length (am_gapTxs a) < 2 ^ 64"
    using 1(2) unfolding am_ready_def by blast+
  have later: "unat i < unat n" if "map_of (am_gapTxs a) n = Some v" "n \<noteq> i" for n v
    using that r(4) [of n v] by (metis le_neq_implies_less word_unat_eq_iff)
  show ?case
  proof (cases "map_of (am_gapTxs a) i")
    case None
    have "wt_nonce v = n \<and> Suc (unat (am_maxContNonce a)) < unat n" if "map_of (am_gapTxs a) n = Some v" for n v
      using that later [of n v] r(4) [of n v] r(5) None by (cases "n = i") simp_all
    moreover have "wt_nonce v = n \<and> 1 \<le> unat n \<and> unat n \<le> unat (am_maxContNonce a)" if "map_of (am_pendingTxs a) n = Some v" for n v
      using that r(3) [of n v] r(5) by simp
    ultimately have "am_wf a" unfolding am_wf_def using r(1,2) by blast
    then have "promote i a sent = (a, sent @ [])" "promoted (unat i) a [] a"
      using None by (simp_all add: promote.simps promoted_def)
    then show ?thesis by blast
  next
    case (Some w)
    let ?a = "a\<lparr>am_pendingTxs := gm_set i w (am_pendingTxs a), am_gapTxs := gm_del i (am_gapTxs a), am_maxContNonce := i\<rparr>"
    have g: "gap_of a = add_mset w (mset (map snd (gm_del i (am_gapTxs a))))" by (rule values_gm_del [OF r(2) Some])
    have len: "length (am_gapTxs a) = Suc (length (gm_del i (am_gapTxs a)))"
      using arg_cong [OF g, of size] by simp
    then have i1: "unat (i + 1) = Suc (unat i)" using r(6) by (intro unat_Suc_word) simp
    have w: "wt_nonce w = i" using r(4) [OF Some] by simp
    have "map_of (am_pendingTxs a) i = None" using r(3) [of i] by fastforce
    then have p: "mset (map snd (gm_set i w (am_pendingTxs a))) = add_mset w (pending_of a)" using r(1) by (intro values_gm_set)
    have "am_ready (i + 1) ?a"
      unfolding am_ready_def i1 using r later len w
      by (auto simp: gm_set_sorted gm_del_sorted Suc_le_eq less_Suc_eq split: if_splits)
    from 1(1) [OF Some this] obtain a' new where
      n: "promote (i + 1) ?a (sent @ [w]) = (a', (sent @ [w]) @ new)" "promoted (Suc (unat i)) ?a new a'"
      unfolding i1 by blast
    note d = promotedD [OF n(2)]
    have "map (unat \<circ> wt_nonce) (w # new) = [unat i..<unat i + length (w # new)]"
      using d(2) by (simp add: w upt_conv_Cons del: upt_Suc)
    moreover have "unat (am_maxContNonce a') = unat (am_maxContNonce a) + length (w # new)" using d(3) r(5) by simp
    moreover have "dom (map_of (am_pendingTxs a')) = dom (map_of (am_pendingTxs a)) \<union> nonce_range (unat i) (length (w # new))"
      using d(4) r(1) by (simp add: nonce_range_Suc)
    moreover have "am_nonces a' = am_nonces a" using d(5) r(1) Some by auto
    moreover have "gap_of a = mset (w # new) + gap_of a'" "pending_of a' = pending_of a + mset (w # new)"
      using d(6,7) g p by simp_all
    ultimately have "promoted (unat i) a (w # new) a'" using d(1) by (simp only: promoted_def simp_thms)
    moreover have "promote i a sent = (a', sent @ w # new)" using n(1) Some by (subst promote.simps) simp
    ultimately show ?thesis by blast
  qed
qed

text \<open>What an addition does to the state of the account.\<close>

definition am_added :: "accountTxManager \<Rightarrow> TxWrapper \<Rightarrow> accountTxManager \<Rightarrow> TxWrapper list \<Rightarrow> error option \<Rightarrow> bool" where
  "am_added a w a' s err \<longleftrightarrow> am_wf a' \<and>
     map (unat \<circ> wt_nonce) s = [Suc (unat (am_maxContNonce a))..<Suc (unat (am_maxContNonce a) + length s)] \<and>
     unat (am_maxContNonce a') = unat (am_maxContNonce a) + length s \<and>
     dom (map_of (am_pendingTxs a')) = dom (map_of (am_pendingTxs a)) \<union> nonce_range (Suc (unat (am_maxContNonce a))) (length s) \<and>
     am_nonces a' = (if err = None then insert (wt_nonce w) (am_nonces a) else am_nonces a) \<and>
     pending_of a' = pending_of a + mset s \<and> mset s + gap_of a' = (if err = None then {#w#} else {#}) + gap_of a \<and>
     (err = None \<longleftrightarrow> wt_nonce w \<notin> am_nonces a \<and> unat (am_maxContNonce a) < unat (wt_nonce w)) \<and>
     (err \<noteq> None \<longrightarrow> a' = a)"

lemma am_addedD:
  assumes "am_added a w a' s err"
  shows "am_wf a'" "map (unat \<circ> wt_nonce) s = [Suc (unat (am_maxContNonce a))..<Suc (unat (am_maxContNonce a) + length s)]"
    "unat (am_maxContNonce a') = unat (am_maxContNonce a) + length s"
    "dom (map_of (am_pendingTxs a')) = dom (map_of (am_pendingTxs a)) \<union> nonce_range (Suc (unat (am_maxContNonce a))) (length s)"
    "am_nonces a' = (if err = None then insert (wt_nonce w) (am_nonces a) else am_nonces a)"
    "pending_of a' = pending_of a + mset s" "mset s + gap_of a' = (if err = None then {#w#} else {#}) + gap_of a"
    "err = None \<longleftrightarrow> wt_nonce w \<notin> am_nonces a \<and> unat (am_maxContNonce a) < unat (wt_nonce w)"
    "err \<noteq> None \<longrightarrow> a' = a"
  using assms unfolding am_added_def by blast+

lemma am_wfD:
  assumes "am_wf a"
  shows "sorted_keys (am_pendingTxs a)" "sorted_keys (am_gapTxs a)"
    "\<And>n w. map_of (am_pendingTxs a) n = Some w \<Longrightarrow> wt_nonce w = n \<and> 1 \<le> unat n \<and> unat n \<le> unat (am_maxContNonce a)"
    "\<And>n w. map_of (am_gapTxs a) n = Some w \<Longrightarrow> wt_nonce w = n \<and> Suc (unat (am_maxContNonce a)) < unat n"
  using assms unfolding am_wf_def by blast+

lemma am_AddTx_next:
  assumes "am_wf a" "unat (am_maxContNonce a) + length (am_gapTxs a) + 2 < 2 ^ 64"
    "wt_nonce w = am_maxContNonce a + 1" "wt_nonce w \<notin> am_nonces a"
  shows "\<exists>a' new. am_AddTx a w = ((a', w # new), None) \<and> am_added a w a' (w # new) None"
proof -
  let ?n = "wt_nonce w" and ?M = "am_maxContNonce a"
  let ?a = "a\<lparr>am_pendingTxs := gm_set ?n w (am_pendingTxs a), am_maxContNonce := ?n\<rparr>"
  note wf = am_wfD [OF assms(1)]
  have n: "unat ?n = Suc (unat ?M)" "unat (?n + 1) = Suc (Suc (unat ?M))"
    using assms(2,3) unat_Suc_word [of ?M] unat_Suc_word [of ?n] by simp_all
  have none: "map_of (am_pendingTxs a) ?n = None" "map_of (am_gapTxs a) ?n = None" using assms(4) by auto
  have p: "mset (map snd (gm_set ?n w (am_pendingTxs a))) = add_mset w (pending_of a)" using wf(1) none(1) by (intro values_gm_set)
  have "am_ready (?n + 1) ?a"
    unfolding am_ready_def n using wf n assms(2)
    by (auto simp: gm_set_sorted Suc_le_eq less_Suc_eq_le le_SucI split: if_splits)
  from promote_spec [OF this, of "[w]"] obtain a' new where
    q: "promote (?n + 1) ?a [w] = (a', [w] @ new)" "promoted (Suc (unat ?n)) ?a new a'" unfolding n by blast
  note d = promotedD [OF q(2)]
  have "nonce_range (Suc (unat ?M)) (length (w # new)) = insert ?n (nonce_range (Suc (unat ?n)) (length new))"
    using nonce_range_Suc [of ?n "length new"] n(1) by simp
  then have "dom (map_of (am_pendingTxs a')) = dom (map_of (am_pendingTxs a)) \<union> nonce_range (Suc (unat ?M)) (length (w # new))"
    using d(4) wf(1) by simp
  moreover have "map (unat \<circ> wt_nonce) (w # new) = [Suc (unat ?M)..<Suc (unat ?M + length (w # new))]"
    using d(2) n(1) by (simp add: upt_conv_Cons del: upt_Suc)
  moreover have "unat (am_maxContNonce a') = unat ?M + length (w # new)" using d(3) n(1) by simp
  moreover have "am_nonces a' = insert ?n (am_nonces a)" using d(5) wf(1) by simp
  moreover have "pending_of a' = pending_of a + mset (w # new)" "mset (w # new) + gap_of a' = {#w#} + gap_of a"
    using d(6,7) p by simp_all
  ultimately have "am_added a w a' (w # new) None" using d(1) assms(4) n(1) unfolding am_added_def by auto
  moreover have "am_AddTx a w = ((a', w # new), None)"
    using assms(3) none q(1) by (simp add: am_AddTx_def Let_def)
  ultimately show ?thesis by blast
qed

lemma am_added_nothing:
  "am_wf a \<Longrightarrow> wt_nonce w \<in> am_nonces a \<or> unat (wt_nonce w) \<le> unat (am_maxContNonce a) \<Longrightarrow> am_added a w a [] (Some e)"
  by (auto simp: am_added_def)

lemma am_AddTx_spec:
  assumes "am_wf a" "unat (am_maxContNonce a) + length (am_gapTxs a) + 2 < 2 ^ 64"
  obtains a' s err where "am_AddTx a w = ((a', s), err)" "am_added a w a' s err"
proof -
  let ?n = "wt_nonce w" and ?M = "am_maxContNonce a"
  note wf = am_wfD [OF assms(1)]
  have m1: "unat (?M + 1) = Suc (unat ?M)" using assms(2) by (intro unat_Suc_word) simp
  consider "?n \<in> am_nonces a" | "?n \<notin> am_nonces a" "?n = ?M + 1" | "?n \<notin> am_nonces a" "?n > ?M + 1"
    | "?n \<notin> am_nonces a" "?n < ?M + 1" by fastforce
  then show thesis
  proof cases
    case 1
    have "\<exists>e. am_AddTx a w = ((a, []), Some e)"
      using 1 by (cases "gm_has (am_pendingTxs a) ?n"; cases "gm_has (am_gapTxs a) ?n") (simp_all add: am_AddTx_def Let_def dom_def)
    then show ?thesis using that am_added_nothing [OF assms(1)] 1 by blast
  next
    case 2
    then show ?thesis using that am_AddTx_next [OF assms] by blast
  next
    case 3
    then have n: "Suc (unat ?M) < unat ?n" using m1 by (simp add: word_less_nat_alt)
    let ?a = "a\<lparr>am_gapTxs := gm_set ?n w (am_gapTxs a)\<rparr>"
    have e: "am_AddTx a w = ((?a, []), None)" using 3 by (auto simp: am_AddTx_def Let_def)
    have "mset (map snd (gm_set ?n w (am_gapTxs a))) = add_mset w (gap_of a)"
      using 3(1) wf(2) by (intro values_gm_set) auto
    moreover have "am_wf ?a" unfolding am_wf_def using wf n by (auto simp: gm_set_sorted split: if_splits)
    ultimately have "am_added a w ?a [] None" unfolding am_added_def using 3(1) n wf(2) by auto
    with e show ?thesis by (rule that)
  next
    case 4
    have "am_AddTx a w = ((a, []), Some (ErrOther ''Invalid tx nonce''))"
      using 4 by (auto simp: am_AddTx_def Let_def)
    moreover have "unat ?n \<le> unat ?M" using 4(2) m1 by (simp add: word_less_nat_alt)
    ultimately show ?thesis using that am_added_nothing [OF assms(1)] by blast
  qed
qed

text \<open>
  A sequence of additions to one account: the resulting state, the transactions sent to the
  channel and the accepted ones, both in their order.
\<close>

fun am_run :: "accountTxManager \<Rightarrow> TxWrapper list \<Rightarrow> accountTxManager \<times> TxWrapper list \<times> TxWrapper list" where
  "am_run a [] = (a, [], [])"
| "am_run a (w # ws) = (case am_AddTx a w of ((a1, s), err) \<Rightarrow>
     case am_run a1 ws of (a2, s', acc) \<Rightarrow> (a2, s @ s', (if err = None then [w] else []) @ acc))"

definition am_inv :: "accountTxManager \<Rightarrow> u64 set \<Rightarrow> bool" where
  "am_inv a seen \<longleftrightarrow> am_wf a \<and> dom (map_of (am_pendingTxs a)) = nonce_range 1 (unat (am_maxContNonce a)) \<and> am_nonces a = seen - {0}"

lemma am_added_inv:
  assumes "am_added a w a' s err" "am_inv a seen"
  shows "am_inv a' (insert (wt_nonce w) seen)"
proof -
  note d = am_addedD [OF assms(1)]
  have i: "dom (map_of (am_pendingTxs a)) = nonce_range 1 (unat (am_maxContNonce a))" "am_nonces a = seen - {0}"
    using assms(2) unfolding am_inv_def by blast+
  have "wt_nonce w = 0" if "err \<noteq> None" "wt_nonce w \<notin> am_nonces a"
  proof (rule ccontr)
    assume "wt_nonce w \<noteq> 0"
    then have "wt_nonce w \<in> nonce_range 1 (unat (am_maxContNonce a))"
      using that d(8) by (auto simp: nonce_range_def unat_gt_0 Suc_le_eq)
    then show False using that(2) i(1) by blast
  qed
  moreover have "wt_nonce w \<noteq> 0" if "err = None" using that d(8) by auto
  ultimately have "am_nonces a' = insert (wt_nonce w) seen - {0}"
    unfolding d(5) i(2) by (cases err) auto
  moreover have "dom (map_of (am_pendingTxs a')) = nonce_range 1 (unat (am_maxContNonce a'))"
    unfolding d(3,4) i(1) by (rule nonce_range_append) simp
  ultimately show ?thesis using d(1) unfolding am_inv_def by blast
qed

lemma am_added_size:
  assumes "am_added a w a' s err"
  shows "unat (am_maxContNonce a') + length (am_gapTxs a') \<le> Suc (unat (am_maxContNonce a) + length (am_gapTxs a))"
  using arg_cong [OF am_addedD(7) [OF assms], of size] am_addedD(3) [OF assms] by (simp split: if_splits)

lemma am_run_inv:
  assumes "am_inv a seen" "unat (am_maxContNonce a) + length (am_gapTxs a) + length ws + 1 < 2 ^ 64"
  obtains a' sent acc where "am_run a ws = (a', sent, acc)" "am_inv a' (seen \<union> wt_nonce ` set ws)"
    "map (unat \<circ> wt_nonce) sent = [Suc (unat (am_maxContNonce a))..<Suc (unat (am_maxContNonce a) + length sent)]"
    "unat (am_maxContNonce a') = unat (am_maxContNonce a) + length sent" "mset sent + gap_of a' = mset acc + gap_of a"
  using assms
proof (induction ws arbitrary: a seen thesis)
  case Nil
  show ?case by (rule Nil.prems(1) [of a "[]" "[]"]) (use Nil.prems(2) in simp_all)
next
  case (Cons w ws)
  have b: "unat (am_maxContNonce a) + length (am_gapTxs a) + 2 < 2 ^ 64" using Cons.prems(3) by simp
  have wf: "am_wf a" using Cons.prems(2) by (simp add: am_inv_def)
  obtain a1 s err where s: "am_AddTx a w = ((a1, s), err)" "am_added a w a1 s err" by (rule am_AddTx_spec [OF wf b, of w])
  note d = am_addedD [OF s(2)]
  have b1: "unat (am_maxContNonce a1) + length (am_gapTxs a1) + length ws + 1 < 2 ^ 64"
    using am_added_size [OF s(2)] Cons.prems(3) by simp
  obtain a2 s' acc where r: "am_run a1 ws = (a2, s', acc)" "am_inv a2 (insert (wt_nonce w) seen \<union> wt_nonce ` set ws)"
    "map (unat \<circ> wt_nonce) s' = [Suc (unat (am_maxContNonce a1))..<Suc (unat (am_maxContNonce a1) + length s')]"
    "unat (am_maxContNonce a2) = unat (am_maxContNonce a1) + length s'" "mset s' + gap_of a2 = mset acc + gap_of a1"
    by (rule Cons.IH [OF _ am_added_inv [OF s(2) Cons.prems(2)] b1])
  show ?case
  proof (rule Cons.prems(1))
    show "am_run a (w # ws) = (a2, s @ s', (if err = None then [w] else []) @ acc)" using s(1) r(1) by simp
    show "am_inv a2 (seen \<union> wt_nonce ` set (w # ws))" using r(2) by (simp add: Un_commute)
    show "map (unat \<circ> wt_nonce) (s @ s') = [Suc (unat (am_maxContNonce a))..<Suc (unat (am_maxContNonce a) + length (s @ s'))]"
      unfolding map_append d(2) r(3) d(3)
      using upt_add_eq_append [of "Suc (unat (am_maxContNonce a))" "Suc (unat (am_maxContNonce a) + length s)" "length s'"]
      by (simp add: add.assoc del: upt_Suc)
    show "unat (am_maxContNonce a2) = unat (am_maxContNonce a) + length (s @ s')" using d(3) r(4) by simp
    show "mset (s @ s') + gap_of a2 = mset ((if err = None then [w] else []) @ acc) + gap_of a"
    proof -
      have "mset (s @ s') + gap_of a2 = mset s + (mset s' + gap_of a2)" by (simp only: mset_append add.assoc)
      also have "\<dots> = mset acc + (mset s + gap_of a1)" unfolding r(5) by (simp only: ac_simps)
      finally show ?thesis unfolding d(7) by (simp add: ac_simps)
    qed
  qed
qed

lemma am_inv_new: "am_inv newAccountTxManager {}"
  by (auto simp: am_inv_def am_wf_def newAccountTxManager_def nonce_range_def)

text \<open>
  (C13) The nonces of an account, for every order of arrival. The transactions of the account
  reach the pending lists in the order of their nonces 1, 2, and so on without a gap, up to
  \<open>maxContNonce\<close>, which is the largest number whose predecessors have all arrived. A
  transaction after a gap waits, and the accepted transactions are exactly the ones that
  were sent on and the ones that wait.
\<close>

theorem account_nonces_continuous:
  assumes "length ws + 1 < 2 ^ 64"
  shows "\<exists>a sent acc. am_run newAccountTxManager ws = (a, sent, acc) \<and>
    map (unat \<circ> wt_nonce) sent = [1..<Suc (unat (am_maxContNonce a))] \<and>
    (\<forall>n. unat n \<le> unat (am_maxContNonce a) \<longleftrightarrow> {1..n} \<subseteq> wt_nonce ` set ws) \<and>
    mset acc = mset sent + mset (map snd (am_gapTxs a)) \<and>
    (\<forall>(n, w) \<in> set (am_gapTxs a). wt_nonce w = n \<and> unat n > Suc (unat (am_maxContNonce a)))"
proof -
  obtain a sent acc where r: "am_run newAccountTxManager ws = (a, sent, acc)" "am_inv a ({} \<union> wt_nonce ` set ws)"
    "map (unat \<circ> wt_nonce) sent = [Suc (unat (am_maxContNonce newAccountTxManager))..<Suc (unat (am_maxContNonce newAccountTxManager) + length sent)]"
    "unat (am_maxContNonce a) = unat (am_maxContNonce newAccountTxManager) + length sent"
    "mset sent + gap_of a = mset acc + gap_of newAccountTxManager"
    by (rule am_run_inv [OF am_inv_new, of ws]) (use assms in \<open>simp_all add: newAccountTxManager_def\<close>)
  let ?M = "am_maxContNonce a"
  have "am_wf a" using r(2) unfolding am_inv_def by blast
  note i1 = am_wfD(2,4) [OF this]
  have "nonce_range 1 (unat ?M) \<union> dom (map_of (am_gapTxs a)) = wt_nonce ` set ws - {0}"
    using r(2) unfolding am_inv_def by (metis Un_empty_left)
  note i = i1 this
  have "unat n \<le> unat ?M \<longleftrightarrow> {1..n} \<subseteq> wt_nonce ` set ws" for n
  proof
    assume "unat n \<le> unat ?M"
    then have "{1..n} \<subseteq> nonce_range 1 (unat ?M)" by (auto simp: nonce_range_def word_le_nat_alt)
    then show "{1..n} \<subseteq> wt_nonce ` set ws" using i(3) by blast
  next
    assume s: "{1..n} \<subseteq> wt_nonce ` set ws"
    show "unat n \<le> unat ?M"
    proof (rule ccontr)
      assume "\<not> unat n \<le> unat ?M"
      then have M: "unat (?M + 1) = Suc (unat ?M)" "Suc (unat ?M) \<le> unat n"
        using unsigned_less [where 'a = nat, of n] by (auto intro!: unat_Suc_word)
      then have "?M + 1 \<in> {1..n}" by (simp add: word_le_nat_alt)
      then have "?M + 1 \<in> wt_nonce ` set ws - {0}" using s M(1) by auto
      moreover have "?M + 1 \<notin> nonce_range 1 (unat ?M)" using M(1) by (simp add: nonce_range_def)
      ultimately have "?M + 1 \<in> dom (map_of (am_gapTxs a))" using i(3) by blast
      then show False using i(2) M(1) by fastforce
    qed
  qed
  then show ?thesis using r i(1,2) by (auto simp: newAccountTxManager_def sorted_keys_mem)
qed

theorem account_nonces_continuous_witness:
  "\<exists>a sent acc. am_run newAccountTxManager [sample_wrapper 2 7, sample_wrapper 1 7, sample_wrapper 4 7, sample_wrapper 2 9] = (a, sent, acc) \<and>
    map (unat \<circ> wt_nonce) sent = [1..<Suc (unat (am_maxContNonce a))] \<and>
    (\<forall>n. unat n \<le> unat (am_maxContNonce a) \<longleftrightarrow>
      {1..n} \<subseteq> wt_nonce ` set [sample_wrapper 2 7, sample_wrapper 1 7, sample_wrapper 4 7, sample_wrapper 2 9]) \<and>
    mset acc = mset sent + mset (map snd (am_gapTxs a)) \<and>
    (\<forall>(n, w) \<in> set (am_gapTxs a). wt_nonce w = n \<and> unat n > Suc (unat (am_maxContNonce a)))"
  by (rule account_nonces_continuous) simp

section \<open>The collection\<close>

text \<open>
  \<open>ct_chan\<close> is what has been sent to the channel and not received yet, \<open>ct_started\<close>
  says that the receiving goroutine runs, and \<open>ct_locked\<close> that the lock of the pending
  lists is held for ever. An operation that never returns has no result.
\<close>

record CollectTxs =
  ct_fullTxs :: "(string, TxWrapper) ShrinkableMap"
  ct_accountTxs :: "(string, accountTxManager) gomap"
  ct_chan :: "TxWrapper list"
  ct_sortedTxs :: "TxWrapper list"
  ct_heightTxs :: "TxWrapper list"
  ct_timeTxs :: "TxWrapper list"
  ct_started :: bool
  ct_locked :: bool

definition NewCollectTxs :: CollectTxs where
  "NewCollectTxs = \<lparr>ct_fullTxs = NewShrinkMap, ct_accountTxs = [], ct_chan = [], ct_sortedTxs = [], ct_heightTxs = [],
     ct_timeTxs = [], ct_started = False, ct_locked = False\<rparr>"

definition chanCap :: nat where "chanCap = 100"

definition ct_Start :: "CollectTxs \<Rightarrow> CollectTxs" where
  "ct_Start c = c\<lparr>ct_started := True\<rparr>"

definition pl_addTx :: "CollectTxs \<Rightarrow> TxWrapper \<Rightarrow> CollectTxs" where
  "pl_addTx c wTx = c\<lparr>ct_sortedTxs := sl_addTx SortWay_Misc (ct_sortedTxs c) wTx,
     ct_heightTxs := sl_addTx SortWay_Height (ct_heightTxs c) wTx, ct_timeTxs := sl_addTx SortWay_Time (ct_timeTxs c) wTx\<rparr>"

text \<open>One turn of the goroutine of \<open>startReceivePendingTx\<close>.\<close>

definition receivePendingTx :: "CollectTxs \<Rightarrow> CollectTxs option" where
  "receivePendingTx c = (if \<not> ct_started c \<or> ct_locked c then None
     else case ct_chan c of [] \<Rightarrow> None | wTx # rest \<Rightarrow> Some (pl_addTx (c\<lparr>ct_chan := rest\<rparr>) wTx))"

text \<open>A send to a full channel waits until the goroutine has received a transaction.\<close>

definition send_pending :: "CollectTxs \<Rightarrow> TxWrapper \<Rightarrow> CollectTxs option" where
  "send_pending c wTx = (if length (ct_chan c) < chanCap then Some (c\<lparr>ct_chan := ct_chan c @ [wTx]\<rparr>)
     else map_option (\<lambda>c'. c'\<lparr>ct_chan := ct_chan c' @ [wTx]\<rparr>) (receivePendingTx c))"

fun send_all :: "CollectTxs \<Rightarrow> TxWrapper list \<Rightarrow> CollectTxs option" where
  "send_all c [] = Some c"
| "send_all c (wTx # rest) = (case send_pending c wTx of None \<Rightarrow> None | Some c' \<Rightarrow> send_all c' rest)"

definition ct_AddTx :: "CollectTxs \<Rightarrow> TxWrapper \<Rightarrow> (CollectTxs \<times> error option) option" where
  "ct_AddTx c wTx =
     (let txID = wt_txID wTx in
      if sm_Get (ct_fullTxs c) txID \<noteq> None then Some (c, Some (ErrExists ''tx''))
      else
        (let c1 = c\<lparr>ct_fullTxs := sm_Set txID wTx (ct_fullTxs c)\<rparr>;
             accTxMng = (case map_of (ct_accountTxs c) (wt_fromAddr wTx) of Some m \<Rightarrow> m | None \<Rightarrow> newAccountTxManager) in
         case am_AddTx accTxMng wTx of ((m, sent), err) \<Rightarrow>
           map_option (\<lambda>c2. (c2, err)) (send_all (c1\<lparr>ct_accountTxs := gm_set (wt_fromAddr wTx) m (ct_accountTxs c1)\<rparr>) sent)))"

definition pl_removeTx :: "CollectTxs \<Rightarrow> string \<Rightarrow> (CollectTxs \<times> TxWrapper option) option" where
  "pl_removeTx c txID = (if ct_locked c then None else
     case sl_removeTx (ct_sortedTxs c) txID of (l, wTx) \<Rightarrow>
       Some (c\<lparr>ct_sortedTxs := l, ct_heightTxs := fst (sl_removeTx (ct_heightTxs c) txID),
         ct_timeTxs := fst (sl_removeTx (ct_timeTxs c) txID)\<rparr>, wTx))"

definition ct_RemoveTx :: "CollectTxs \<Rightarrow> string \<Rightarrow> (CollectTxs \<times> TxWrapper option) option" where
  "ct_RemoveTx c txID = (case pl_removeTx (c\<lparr>ct_fullTxs := sm_Del txID (ct_fullTxs c)\<rparr>) txID of
     None \<Rightarrow> None
   | Some (c1, None) \<Rightarrow> Some (c1, None)
   | Some (c1, Some wTx) \<Rightarrow>
       (case map_of (ct_accountTxs c1) (wt_fromAddr wTx) of
          None \<Rightarrow> Some (c1, Some wTx)
        | Some m \<Rightarrow> Some (c1\<lparr>ct_accountTxs := gm_set (wt_fromAddr wTx) (am_removePendingTx m (wt_nonce wTx)) (ct_accountTxs c1)\<rparr>, Some wTx)))"

definition ct_PickTxs :: "CollectTxs \<Rightarrow> int \<Rightarrow> int \<Rightarrow> Transaction list" where
  "ct_PickTxs c blockMaxBytes blockMaxGas = sl_pickTxs (ct_sortedTxs c) blockMaxBytes blockMaxGas"

text \<open>
  The lock is taken at the beginning, and \<open>removeTx\<close> takes it again: the first expired
  transaction ends the run with the lock held. The state that remains is the result, with
  whether the call returned.
\<close>

definition ct_PurgeExpiredTxs :: "CollectTxs \<Rightarrow> int \<Rightarrow> u64 \<Rightarrow> int \<Rightarrow> u64 \<Rightarrow> CollectTxs \<times> bool" where
  "ct_PurgeExpiredTxs c now height timeOfTxLifecycle heightOfTxLifecycle =
     (if ct_locked c then (c, False)
      else if (\<exists>wTx \<in> set (ct_heightTxs c). height = wt_height wTx + heightOfTxLifecycle) \<or>
              (\<exists>wTx \<in> set (ct_timeTxs c). now - wt_timeStamp wTx > timeOfTxLifecycle) then (c\<lparr>ct_locked := True\<rparr>, False)
      else (c, True))"

text \<open>The transactions that \<open>RepublishTxs\<close> hands to its argument, in turn.\<close>

fun republish :: "int \<Rightarrow> int \<Rightarrow> TxWrapper list \<Rightarrow> TxWrapper list" where
  "republish rePubLimit rePubCnt [] = []"
| "republish rePubLimit rePubCnt (wTx # rest) =
     (if rePubCnt < rePubLimit \<and> wt_txState wTx \<noteq> TxState_Republished then wTx # republish rePubLimit (rePubCnt + 1) rest
      else republish rePubLimit rePubCnt rest)"

definition ct_RepublishTxs :: "CollectTxs \<Rightarrow> int \<Rightarrow> TxWrapper list" where
  "ct_RepublishTxs c rePubLimit = republish rePubLimit 0 (ct_heightTxs c)"

definition ct_PendingOfAddress :: "CollectTxs \<Rightarrow> string \<Rightarrow> (error + Transaction list) option" where
  "ct_PendingOfAddress c addr = (case map_of (ct_accountTxs c) addr of
     Some m \<Rightarrow> map_option Inr (am_getPendingTxs m) | None \<Rightarrow> Some (Inl (ErrOther ''pending txs of address'')))"

definition ct_AllOfAddress :: "CollectTxs \<Rightarrow> string \<Rightarrow> (error + Transaction list) option" where
  "ct_AllOfAddress c addr = (case map_of (ct_accountTxs c) addr of
     Some m \<Rightarrow> map_option Inr (am_getAllTxs m) | None \<Rightarrow> Some (Inl (ErrOther ''all txs of address'')))"

text \<open>The accounts are visited in the order of their addresses; the order of the source is arbitrary.\<close>

fun all_of :: "(string \<Rightarrow> bool) \<Rightarrow> (string, accountTxManager) gomap \<Rightarrow> Transaction list option" where
  "all_of addrFunc [] = Some []"
| "all_of addrFunc ((accAddr, accTxMng) # rest) =
     (if addrFunc accAddr then
        (case am_getAllTxs accTxMng of None \<Rightarrow> None | Some txs \<Rightarrow> map_option (\<lambda>r. txs @ r) (all_of addrFunc rest))
      else all_of addrFunc rest)"

definition ct_AllOfAddressFunc :: "CollectTxs \<Rightarrow> (string \<Rightarrow> bool) \<Rightarrow> Transaction list option" where
  "ct_AllOfAddressFunc c addrFunc = all_of addrFunc (ct_accountTxs c)"

definition ct_GetTx :: "CollectTxs \<Rightarrow> string \<Rightarrow> TxWrapper option" where
  "ct_GetTx c txID = sm_Get (ct_fullTxs c) txID"

end
