(* ===== verification/Tx_Pool.thy ===== *)
theory Tx_Pool
  imports Tx_Pool_Core Block_Types Json
begin

text \<open>
  The transaction pool (\<open>src/transaction_pool\<close>): its configuration, the messages that carry
  transactions between nodes, the operations of \<open>tx_pool.go\<close>, the servant that saves local
  transactions, the handler of block events and the reaction to reverted blocks. The pool
  counts its transactions and their bytes beside the collection; the invariant relates the
  counters to what the accounts hold. Lookups of the chain's height are arguments of the
  operations, and so is the time. The cache of transaction states is the one of an LRU
  library, of which the operations are a parameter.
\<close>

section \<open>Configuration\<close>

text \<open>Durations are in nanoseconds.\<close>

record TransactionPoolConfig =
  pc_PathTxsStorage :: string
  pc_PathConf :: string
  pc_ReStoredDur :: int
  pc_IsLoadTxs :: bool
  pc_IsLoadCfg :: bool
  pc_GasPriceLimit :: u64
  pc_MaxSizeOfEachTx :: int
  pc_TxPoolMaxSize :: int
  pc_TxPoolMaxCnt :: int
  pc_PendingMaxSize :: int
  pc_PendingMaxCnt :: int
  pc_MaxCntOfEachAccount :: int
  pc_BlockMaxBytes :: int
  pc_BlockMaxGas :: int
  pc_TimeOfTxLifecycle :: int
  pc_HeightOfTxLifecycle :: u64
  pc_TimeOfTxRepublishTTL :: int
  pc_HeightOfTxRepublishTTL :: u64

definition DefaultTransactionPoolConfig :: TransactionPoolConfig where
  "DefaultTransactionPoolConfig = \<lparr>pc_PathTxsStorage = ''StorageInfo/StorageTxs'', pc_PathConf = ''StorageInfo/StorageConfig.json'',
     pc_ReStoredDur = 2000003 * 1000, pc_IsLoadTxs = True, pc_IsLoadCfg = False, pc_GasPriceLimit = 1000,
     pc_MaxSizeOfEachTx = 2 * 1024, pc_TxPoolMaxSize = 20 * 1024 * 1024, pc_TxPoolMaxCnt = 40 * 1024,
     pc_PendingMaxSize = 10 * 1024 * 1024, pc_PendingMaxCnt = 20 * 1024, pc_MaxCntOfEachAccount = 32,
     pc_BlockMaxBytes = 22020096, pc_BlockMaxGas = -1, pc_TimeOfTxLifecycle = 15 * 1000000000, pc_HeightOfTxLifecycle = 30 * 60,
     pc_TimeOfTxRepublishTTL = 5 * 1000000000, pc_HeightOfTxRepublishTTL = 5\<rparr>"

definition conf_Check :: "TransactionPoolConfig \<Rightarrow> TransactionPoolConfig" where
  "conf_Check config = (let d = DefaultTransactionPoolConfig in
     config\<lparr>pc_GasPriceLimit := (if pc_GasPriceLimit config < pc_GasPriceLimit d then pc_GasPriceLimit d else pc_GasPriceLimit config),
       pc_MaxCntOfEachAccount := (if pc_MaxCntOfEachAccount config < pc_MaxCntOfEachAccount d then pc_MaxCntOfEachAccount d else pc_MaxCntOfEachAccount config),
       pc_TxPoolMaxSize := (if pc_TxPoolMaxSize config < pc_TxPoolMaxSize d then pc_TxPoolMaxSize d else pc_TxPoolMaxSize config),
       pc_TxPoolMaxCnt := (if pc_TxPoolMaxCnt config < pc_TxPoolMaxCnt d then pc_TxPoolMaxCnt d else pc_TxPoolMaxCnt config),
       pc_PendingMaxSize := (if pc_PendingMaxSize config < pc_PendingMaxSize d then pc_PendingMaxSize d else pc_PendingMaxSize config),
       pc_PendingMaxCnt := (if pc_PendingMaxCnt config < pc_PendingMaxCnt d then pc_PendingMaxCnt d else pc_PendingMaxCnt config),
       pc_TimeOfTxLifecycle := (if pc_TimeOfTxLifecycle config < pc_TimeOfTxLifecycle d then pc_TimeOfTxLifecycle d else pc_TimeOfTxLifecycle config),
       pc_TimeOfTxRepublishTTL := (if pc_TimeOfTxRepublishTTL config < pc_TimeOfTxRepublishTTL d then pc_TimeOfTxRepublishTTL d else pc_TimeOfTxRepublishTTL config),
       pc_HeightOfTxRepublishTTL := (if pc_HeightOfTxRepublishTTL config < pc_HeightOfTxRepublishTTL d then pc_HeightOfTxRepublishTTL d else pc_HeightOfTxRepublishTTL config),
       pc_PathTxsStorage := (if pc_PathTxsStorage config = [] then pc_PathTxsStorage d else pc_PathTxsStorage config)\<rparr>)"

section \<open>Messages\<close>

subsection \<open>\<open>TxPoolMessage\<close>\<close>

record TxPoolMessage =
  pm_MsgType :: "32 word"
  pm_FromDomain :: bytes
  pm_FromNode :: bytes
  pm_Data :: bytes
  pm_XXX :: bytes

definition TxPoolMessage_kinds :: "pkind list" where
  "TxPoolMessage_kinds = [KEnum, KBytes, KBytes, KBytes]"

definition TxPoolMessage_msg :: "TxPoolMessage \<Rightarrow> pmsg" where
  "TxPoolMessage_msg m = Msg [PNum (scast (pm_MsgType m)), PBytes (pm_FromDomain m), PBytes (pm_FromNode m), PBytes (pm_Data m)] (pm_XXX m)"

definition TxPoolMessage_of :: "pmsg \<Rightarrow> TxPoolMessage" where
  "TxPoolMessage_of m = \<lparr>pm_MsgType = ucast (pb_num (vals m ! 0)), pm_FromDomain = pb_bytes (vals m ! 1),
     pm_FromNode = pb_bytes (vals m ! 2), pm_Data = pb_bytes (vals m ! 3), pm_XXX = unrecognized m\<rparr>"

definition TxPoolMessage_Marshal :: "TxPoolMessage \<Rightarrow> bytes" where
  "TxPoolMessage_Marshal m = enc_msg (TxPoolMessage_msg m)"

definition TxPoolMessage_Size :: "TxPoolMessage \<Rightarrow> nat" where
  "TxPoolMessage_Size m = size_msg (TxPoolMessage_msg m)"

definition TxPoolMessage_Unmarshal :: "bytes \<Rightarrow> error + TxPoolMessage" where
  "TxPoolMessage_Unmarshal dAtA = map_sum id TxPoolMessage_of (pb_Unmarshal TxPoolMessage_kinds dAtA)"

definition TxPoolMessage_plain :: "TxPoolMessage \<Rightarrow> bool" where
  "TxPoolMessage_plain m \<longleftrightarrow> pm_XXX m = []"

lemma TxPoolMessage_of_msg [simp]: "TxPoolMessage_of (TxPoolMessage_msg m) = m"
  by (simp add: TxPoolMessage_of_def TxPoolMessage_msg_def option.map_comp comp_def option.map_ident)

lemma TxPoolMessage_conf: "TxPoolMessage_plain m \<Longrightarrow> list_all2 conf TxPoolMessage_kinds (vals (TxPoolMessage_msg m)) \<and> unrecognized (TxPoolMessage_msg m) = []"
  by (simp add: TxPoolMessage_kinds_def TxPoolMessage_msg_def TxPoolMessage_plain_def conf_fields)

lemma TxPoolMessage_small: "list_all small_kind TxPoolMessage_kinds \<and> length TxPoolMessage_kinds < 2 ^ 28"
  by (simp add: TxPoolMessage_kinds_def)

lemma TxPoolMessage_roundtrip:
  "TxPoolMessage_plain m \<Longrightarrow> length (TxPoolMessage_Marshal m) < 2 ^ 63 \<Longrightarrow> TxPoolMessage_Unmarshal (TxPoolMessage_Marshal m) = Inr m"
  using pb_roundtrip [OF TxPoolMessage_conf TxPoolMessage_small, of m] by (simp add: TxPoolMessage_Unmarshal_def TxPoolMessage_Marshal_def)

subsection \<open>\<open>TxMessage\<close>\<close>

record TxMessage =
  tm_Data :: bytes
  tm_XXX :: bytes

definition TxMessage_kinds :: "pkind list" where
  "TxMessage_kinds = [KBytes]"

definition TxMessage_msg :: "TxMessage \<Rightarrow> pmsg" where
  "TxMessage_msg m = Msg [PBytes (tm_Data m)] (tm_XXX m)"

definition TxMessage_of :: "pmsg \<Rightarrow> TxMessage" where
  "TxMessage_of m = \<lparr>tm_Data = pb_bytes (vals m ! 0), tm_XXX = unrecognized m\<rparr>"

definition TxMessage_Marshal :: "TxMessage \<Rightarrow> bytes" where
  "TxMessage_Marshal m = enc_msg (TxMessage_msg m)"

definition TxMessage_Size :: "TxMessage \<Rightarrow> nat" where
  "TxMessage_Size m = size_msg (TxMessage_msg m)"

definition TxMessage_Unmarshal :: "bytes \<Rightarrow> error + TxMessage" where
  "TxMessage_Unmarshal dAtA = map_sum id TxMessage_of (pb_Unmarshal TxMessage_kinds dAtA)"

definition TxMessage_plain :: "TxMessage \<Rightarrow> bool" where
  "TxMessage_plain m \<longleftrightarrow> tm_XXX m = []"

lemma TxMessage_of_msg [simp]: "TxMessage_of (TxMessage_msg m) = m"
  by (simp add: TxMessage_of_def TxMessage_msg_def option.map_comp comp_def option.map_ident)

lemma TxMessage_conf: "TxMessage_plain m \<Longrightarrow> list_all2 conf TxMessage_kinds (vals (TxMessage_msg m)) \<and> unrecognized (TxMessage_msg m) = []"
  by (simp add: TxMessage_kinds_def TxMessage_msg_def TxMessage_plain_def conf_fields)

lemma TxMessage_small: "list_all small_kind TxMessage_kinds \<and> length TxMessage_kinds < 2 ^ 28"
  by (simp add: TxMessage_kinds_def)

lemma TxMessage_roundtrip:
  "TxMessage_plain m \<Longrightarrow> length (TxMessage_Marshal m) < 2 ^ 63 \<Longrightarrow> TxMessage_Unmarshal (TxMessage_Marshal m) = Inr m"
  using pb_roundtrip [OF TxMessage_conf TxMessage_small, of m] by (simp add: TxMessage_Unmarshal_def TxMessage_Marshal_def)

section \<open>The pool\<close>

record 'c lru_ops =
  lru_Add :: "string \<Rightarrow> TxState \<Rightarrow> 'c \<Rightarrow> 'c"
  lru_Remove :: "string \<Rightarrow> 'c \<Rightarrow> 'c"
  lru_Peek :: "string \<Rightarrow> 'c \<Rightarrow> TxState option"

text \<open>
  \<open>tp_store\<close> is the part of the metadata store that holds transactions, and \<open>tp_exeDomainID\<close>
  the domain of the node.
\<close>

record 'c transactionPool =
  tp_exeDomainID :: string
  tp_config :: TransactionPoolConfig
  tp_txSizeBytes :: int
  tp_txCount :: int
  tp_txCache :: 'c
  tp_txsCollect :: CollectTxs
  tp_localAddrs :: "(string, unit) gomap"
  tp_store :: "(bytes, bytes) gomap"

definition saveTxIntoStore :: "(bytes, bytes) gomap \<Rightarrow> string \<Rightarrow> u64 \<Rightarrow> Transaction \<Rightarrow> (bytes, bytes) gomap" where
  "saveTxIntoStore st txId height tx =
     gm_set (str_bytes txId) (Marshal (JObj [(''Height'', j_u64 height), (''TxBytes'', j_bytes (Some (Transaction_Marshal tx)))])) st"

definition removeTxFromStore :: "(bytes, bytes) gomap \<Rightarrow> string \<Rightarrow> (bytes, bytes) gomap" where
  "removeTxFromStore st txId = gm_del (str_bytes txId) st"

definition tp_addTx :: "'c lru_ops \<Rightarrow> (bytes \<Rightarrow> bytes) \<Rightarrow> int \<Rightarrow> error + u64 \<Rightarrow> 'c transactionPool \<Rightarrow> Transaction \<Rightarrow> u64 \<Rightarrow>
    ('c transactionPool \<times> (error + TxWrapper)) option" where
  "tp_addTx L blake now cur pool tx height =
     (case tx_TxID blake tx of
        Inl err \<Rightarrow> Some (pool, Inl err)
      | Inr txId \<Rightarrow>
          if tp_txCount pool + 1 > pc_TxPoolMaxCnt (tp_config pool) \<or>
             tp_txSizeBytes pool + int (Transaction_Size tx) > pc_TxPoolMaxSize (tp_config pool)
          then Some (pool\<lparr>tp_txCache := lru_Add L txId TxState_DroppedForTxPoolFull (tp_txCache pool)\<rparr>, Inl (ErrOther ''tx pool is full''))
          else
            (case (if height = 0 then cur else Inr height) of
               Inl err \<Rightarrow> Some (pool, Inl err)
             | Inr curHeight \<Rightarrow>
                 (case GenerateTxWrapper blake now tx curHeight of
                    Inl err \<Rightarrow> Some (pool, Inl err)
                  | Inr wTx \<Rightarrow>
                      (case ct_AddTx (tp_txsCollect pool) wTx of
                         None \<Rightarrow> None
                       | Some (c, Some err) \<Rightarrow> Some (pool\<lparr>tp_txsCollect := c\<rparr>, Inl err)
                       | Some (c, None) \<Rightarrow>
                           Some (pool\<lparr>tp_txsCollect := c, tp_txCache := lru_Add L txId TxState_Added (tp_txCache pool),
                             tp_txCount := tp_txCount pool + 1, tp_txSizeBytes := tp_txSizeBytes pool + int (wt_size wTx)\<rparr>, Inr wTx)))))"

definition tp_addLocal :: "'c lru_ops \<Rightarrow> (bytes \<Rightarrow> bytes) \<Rightarrow> int \<Rightarrow> error + u64 \<Rightarrow> 'c transactionPool \<Rightarrow> Transaction \<Rightarrow>
    ('c transactionPool \<times> error option) option" where
  "tp_addLocal L blake now cur pool tx = (case tx_Head tx of
     None \<Rightarrow> Some (pool, Some (Panic ''nil pointer dereference''))
   | Some h \<Rightarrow>
       (case tp_addTx L blake now cur (pool\<lparr>tp_localAddrs := gm_set (NewFromBytes (th_FromAddr h)) () (tp_localAddrs pool)\<rparr>) tx 0 of
          None \<Rightarrow> None
        | Some (pool1, Inl err) \<Rightarrow> Some (pool1, Some err)
        | Some (pool1, Inr wTx) \<Rightarrow>
            Some (pool1\<lparr>tp_store := saveTxIntoStore (tp_store pool1) (wt_txID wTx) (wt_height wTx) tx\<rparr>, None)))"

definition tp_addRemote :: "'c lru_ops \<Rightarrow> (bytes \<Rightarrow> bytes) \<Rightarrow> int \<Rightarrow> error + u64 \<Rightarrow> 'c transactionPool \<Rightarrow> Transaction \<Rightarrow>
    ('c transactionPool \<times> error option) option" where
  "tp_addRemote L blake now cur pool tx =
     map_option (\<lambda>(pool1, r). (pool1, case r of Inl err \<Rightarrow> Some err | Inr _ \<Rightarrow> None)) (tp_addTx L blake now cur pool tx 0)"

definition tp_AddTx :: "'c lru_ops \<Rightarrow> (bytes \<Rightarrow> bytes) \<Rightarrow> int \<Rightarrow> error + u64 \<Rightarrow> 'c transactionPool \<Rightarrow> Transaction \<Rightarrow> bool \<Rightarrow>
    ('c transactionPool \<times> error option) option" where
  "tp_AddTx L blake now cur pool tx isLocal =
     (if isLocal then tp_addLocal L blake now cur pool tx else tp_addRemote L blake now cur pool tx)"

text \<open>The state set at the end is the one of a wrapper that is not in the pool.\<close>

definition tp_UpdateTx :: "'c lru_ops \<Rightarrow> (bytes \<Rightarrow> bytes) \<Rightarrow> int \<Rightarrow> error + u64 \<Rightarrow> 'c transactionPool \<Rightarrow> Transaction \<Rightarrow> string \<Rightarrow>
    ('c transactionPool \<times> error option) option" where
  "tp_UpdateTx L blake now cur pool tx oldTxID =
     (case ct_GetTx (tp_txsCollect pool) oldTxID of
        None \<Rightarrow> Some (pool, Some (ErrOther ''transaction not found''))
      | Some wTxOld \<Rightarrow>
          (case cur of
             Inl err \<Rightarrow> Some (pool, Some err)
           | Inr curHeight \<Rightarrow>
               (case GenerateTxWrapper blake now tx curHeight of
                  Inl err \<Rightarrow> Some (pool, Some err)
                | Inr wTx \<Rightarrow>
                    if CanReplace wTxOld wTx then
                      (case tp_addTx L blake now cur pool tx 0 of
                         None \<Rightarrow> None
                       | Some (pool1, Inl err) \<Rightarrow> Some (pool1, Some err)
                       | Some (pool1, Inr _) \<Rightarrow>
                           Some (pool1\<lparr>tp_store := saveTxIntoStore (removeTxFromStore (tp_store pool1) oldTxID) (wt_txID wTx) (wt_height wTx) tx\<rparr>, None))
                    else Some (pool, None))))"

definition tp_RemoveTxByKey :: "'c lru_ops \<Rightarrow> 'c transactionPool \<Rightarrow> string \<Rightarrow> 'c transactionPool option" where
  "tp_RemoveTxByKey L pool txID =
     (case ct_RemoveTx (tp_txsCollect pool) txID of
        None \<Rightarrow> None
      | Some (c, None) \<Rightarrow> Some (pool\<lparr>tp_txsCollect := c\<rparr>)
      | Some (c, Some wTx) \<Rightarrow>
          Some (pool\<lparr>tp_txsCollect := c, tp_txCache := lru_Remove L txID (tp_txCache pool), tp_txCount := tp_txCount pool - 1,
            tp_txSizeBytes := tp_txSizeBytes pool - int (wt_size wTx), tp_store := removeTxFromStore (tp_store pool) txID\<rparr>))"

definition tp_Get :: "'c transactionPool \<Rightarrow> string \<Rightarrow> error + Transaction" where
  "tp_Get pool txID = (case ct_GetTx (tp_txsCollect pool) txID of
     None \<Rightarrow> Inl (Panic ''nil pointer dereference'') | Some wTx \<Rightarrow> Inr (wt_orginTx wTx))"

definition tp_PendingOfAddress :: "'c transactionPool \<Rightarrow> string \<Rightarrow> (error + Transaction list) option" where
  "tp_PendingOfAddress pool addr = ct_PendingOfAddress (tp_txsCollect pool) addr"

definition tp_PendingAccountTxCnt :: "'c transactionPool \<Rightarrow> string \<Rightarrow> int option" where
  "tp_PendingAccountTxCnt pool address =
     map_option (\<lambda>r. case r of Inl _ \<Rightarrow> 0 | Inr txs \<Rightarrow> int (length txs)) (tp_PendingOfAddress pool address)"

definition tp_PickTxs :: "'c transactionPool \<Rightarrow> Transaction list" where
  "tp_PickTxs pool = ct_PickTxs (tp_txsCollect pool) (pc_BlockMaxBytes (tp_config pool)) (pc_BlockMaxGas (tp_config pool))"

definition tp_GetLocalTxs :: "'c transactionPool \<Rightarrow> Transaction list option" where
  "tp_GetLocalTxs pool = ct_AllOfAddressFunc (tp_txsCollect pool) (\<lambda>addr. gm_has (tp_localAddrs pool) addr)"

definition tp_GetRemoteTxs :: "'c transactionPool \<Rightarrow> Transaction list option" where
  "tp_GetRemoteTxs pool = ct_AllOfAddressFunc (tp_txsCollect pool) (\<lambda>addr. \<not> gm_has (tp_localAddrs pool) addr)"

definition tp_PeekTxState :: "'c lru_ops \<Rightarrow> 'c transactionPool \<Rightarrow> string \<Rightarrow> TxState" where
  "tp_PeekTxState L pool txid = (case lru_Peek L txid (tp_txCache pool) of Some st \<Rightarrow> st | None \<Rightarrow> TxState_Unknown)"

definition tp_SetTxPoolConfig :: "'c transactionPool \<Rightarrow> TransactionPoolConfig \<Rightarrow> 'c transactionPool" where
  "tp_SetTxPoolConfig pool c = pool\<lparr>tp_config := conf_Check c\<rparr>"

text \<open>
  A loop over transactions that blocks or panics has no result. Reading a saved transaction: the error of the JSON decoder is ignored, so that a field that
  cannot be read keeps its zero value.
\<close>

definition stored_fields :: "bytes \<Rightarrow> u64 \<times> bytes" where
  "stored_fields val = (case Unmarshal (Some val) of
     Inl _ \<Rightarrow> (0, [])
   | Inr j \<Rightarrow> (case un_obj j of
       Inl _ \<Rightarrow> (0, [])
     | Inr ms \<Rightarrow> (case un_u64 (field ''Height'' ms) of Inl _ \<Rightarrow> 0 | Inr h \<Rightarrow> h,
                  case un_bytes (field ''TxBytes'' ms) of Inr (Some b) \<Rightarrow> b | _ \<Rightarrow> [])))"

fun load_entries :: "'c lru_ops \<Rightarrow> (bytes \<Rightarrow> bytes) \<Rightarrow> int \<Rightarrow> error + u64 \<Rightarrow> (bytes \<times> bytes) list \<Rightarrow> 'c transactionPool \<Rightarrow> 'c transactionPool option" where
  "load_entries L blake now cur [] pool = Some pool"
| "load_entries L blake now cur ((key, val) # rest) pool =
     (case stored_fields val of (h, b) \<Rightarrow>
        (case Transaction_Unmarshal b of
           Inl _ \<Rightarrow> load_entries L blake now cur rest pool
         | Inr tx \<Rightarrow> (case tp_addTx L blake now cur pool tx h of
             None \<Rightarrow> None
           | Some (pool1, Inl (Panic _)) \<Rightarrow> None
           | Some (pool1, _) \<Rightarrow> load_entries L blake now cur rest pool1)))"

definition loadAllTxs :: "'c lru_ops \<Rightarrow> (bytes \<Rightarrow> bytes) \<Rightarrow> int \<Rightarrow> error + u64 \<Rightarrow> 'c transactionPool \<Rightarrow> 'c transactionPool option" where
  "loadAllTxs L blake now cur pool = load_entries L blake now cur (tp_store pool) pool"

text \<open>\<open>loaded\<close> is the saved configuration. If it cannot be read, the configuration is nil and its first use panics.\<close>

definition NewTransactionPool :: "'c lru_ops \<Rightarrow> (bytes \<Rightarrow> bytes) \<Rightarrow> int \<Rightarrow> error + u64 \<Rightarrow> 'c \<Rightarrow> string \<Rightarrow> TransactionPoolConfig \<Rightarrow>
    error + TransactionPoolConfig \<Rightarrow> (bytes, bytes) gomap \<Rightarrow> 'c transactionPool option" where
  "NewTransactionPool L blake now cur newCache exeDomainID config loaded st =
     (let confNew = conf_Check config;
          pool = \<lparr>tp_exeDomainID = exeDomainID, tp_config = confNew, tp_txSizeBytes = 0, tp_txCount = 0, tp_txCache = newCache,
            tp_txsCollect = NewCollectTxs, tp_localAddrs = [], tp_store = st\<rparr> in
      if pc_IsLoadCfg confNew then
        (case loaded of
           Inl _ \<Rightarrow> None
         | Inr conf1 \<Rightarrow> if pc_IsLoadTxs conf1 then loadAllTxs L blake now cur (pool\<lparr>tp_config := conf1\<rparr>) else Some (pool\<lparr>tp_config := conf1\<rparr>))
      else if pc_IsLoadTxs confNew then loadAllTxs L blake now cur pool else Some pool)"

section \<open>Blocks\<close>

text \<open>
  When a message cannot be parsed, the handler goes on with what the parser has stored in
  it by then; these two results are arguments.
\<close>

fun remove_txs :: "'c lru_ops \<Rightarrow> (bytes \<Rightarrow> bytes) \<Rightarrow> (bytes \<Rightarrow> Transaction) \<Rightarrow> bytes list \<Rightarrow> 'c transactionPool \<Rightarrow> 'c transactionPool option" where
  "remove_txs L blake tx_left [] pool = Some pool"
| "remove_txs L blake tx_left (txBytes # rest) pool =
     (let tx = (case Transaction_Unmarshal txBytes of Inl _ \<Rightarrow> tx_left txBytes | Inr tx \<Rightarrow> tx);
          txID = (case tx_TxID blake tx of Inl _ \<Rightarrow> [] | Inr i \<Rightarrow> i) in
      case tp_RemoveTxByKey L pool txID of None \<Rightarrow> None | Some pool1 \<Rightarrow> remove_txs L blake tx_left rest pool1)"

fun remove_chunks :: "'c lru_ops \<Rightarrow> (bytes \<Rightarrow> bytes) \<Rightarrow> (bytes \<Rightarrow> Transaction) \<Rightarrow> (bytes \<Rightarrow> BlockDataChunk) \<Rightarrow> bytes list \<Rightarrow>
    'c transactionPool \<Rightarrow> 'c transactionPool option" where
  "remove_chunks L blake tx_left chunk_left [] pool = Some pool"
| "remove_chunks L blake tx_left chunk_left (dataChunkBytes # rest) pool =
     (let dataChunk = (case BlockDataChunk_Unmarshal dataChunkBytes of Inl _ \<Rightarrow> chunk_left dataChunkBytes | Inr d \<Rightarrow> d) in
      case remove_txs L blake tx_left (dc_Txs dataChunk) pool of None \<Rightarrow> None
      | Some pool1 \<Rightarrow> remove_chunks L blake tx_left chunk_left rest pool1)"

definition processBlockAddedEvent :: "'c lru_ops \<Rightarrow> (bytes \<Rightarrow> bytes) \<Rightarrow> (bytes \<Rightarrow> Transaction) \<Rightarrow> (bytes \<Rightarrow> BlockDataChunk) \<Rightarrow> Block \<Rightarrow>
    'c transactionPool \<Rightarrow> ('c transactionPool \<times> error option) option" where
  "processBlockAddedEvent L blake tx_left chunk_left block pool = (case blk_Data block of
     None \<Rightarrow> Some (pool, Some (Panic ''nil pointer dereference''))
   | Some d \<Rightarrow> map_option (\<lambda>p. (p, None)) (remove_chunks L blake tx_left chunk_left (bd_DataChunks d) pool))"

datatype ValidationResult = ValidationAccept | ValidationReject | ValidationIgnore

text \<open>A nonce is never more than the largest 64-bit number, so that the second test never fires.\<close>

definition validateTxsForRevert :: "Transaction \<Rightarrow> error + ValidationResult" where
  "validateTxsForRevert tx =
     (if int (Transaction_Size tx) > pc_MaxSizeOfEachTx DefaultTransactionPoolConfig then Inr ValidationReject
      else case tx_Head tx of
        None \<Rightarrow> Inl (Panic ''nil pointer dereference'')
      | Some h \<Rightarrow> if unat (th_Nonce h) > 2 ^ 64 - 1 then Inr ValidationReject else Inr ValidationAccept)"

text \<open>
  The chunks of the reverted blocks are read concurrently; here the transactions are in the
  order of the blocks. An error of one chunk ends the whole operation.
\<close>

fun revert_txs :: "bytes list \<Rightarrow> error + Transaction list" where
  "revert_txs [] = Inr []"
| "revert_txs (txBytes # rest) = (case Transaction_Unmarshal txBytes of
     Inl err \<Rightarrow> Inl err
   | Inr tx \<Rightarrow> (case validateTxsForRevert tx of
       Inl err \<Rightarrow> Inl err
     | Inr r \<Rightarrow> map_sum id (\<lambda>txs. (if r = ValidationAccept then [tx] else []) @ txs) (revert_txs rest)))"

fun revert_chunks :: "bytes list \<Rightarrow> error + Transaction list" where
  "revert_chunks [] = Inr []"
| "revert_chunks (dataChunkBytes # rest) = (case BlockDataChunk_Unmarshal dataChunkBytes of
     Inl err \<Rightarrow> Inl err
   | Inr dataChunk \<Rightarrow> (case revert_txs (dc_Txs dataChunk) of
       Inl err \<Rightarrow> Inl err
     | Inr txs \<Rightarrow> map_sum id (\<lambda>r. txs @ r) (revert_chunks rest)))"

fun revert_blocks :: "Block list \<Rightarrow> error + Transaction list" where
  "revert_blocks [] = Inr []"
| "revert_blocks (block # rest) = (case blk_Data block of
     None \<Rightarrow> Inl (Panic ''nil pointer dereference'')
   | Some d \<Rightarrow> (case revert_chunks (bd_DataChunks d) of
       Inl err \<Rightarrow> Inl err
     | Inr txs \<Rightarrow> map_sum id (\<lambda>r. txs @ r) (revert_blocks rest)))"

fun add_all :: "'c lru_ops \<Rightarrow> (bytes \<Rightarrow> bytes) \<Rightarrow> int \<Rightarrow> error + u64 \<Rightarrow> Transaction list \<Rightarrow> 'c transactionPool \<Rightarrow> 'c transactionPool option" where
  "add_all L blake now cur [] pool = Some pool"
| "add_all L blake now cur (tx # rest) pool = (case tp_addTx L blake now cur pool tx 0 of
     None \<Rightarrow> None
   | Some (pool1, Inl (Panic _)) \<Rightarrow> None
   | Some (pool1, _) \<Rightarrow> add_all L blake now cur rest pool1)"

definition addTxsForBlocksRevert :: "'c lru_ops \<Rightarrow> (bytes \<Rightarrow> bytes) \<Rightarrow> int \<Rightarrow> error + u64 \<Rightarrow> Block list \<Rightarrow> 'c transactionPool \<Rightarrow> 'c transactionPool option" where
  "addTxsForBlocksRevert L blake now cur blocks pool = (case revert_blocks blocks of
     Inl _ \<Rightarrow> Some pool | Inr txList \<Rightarrow> add_all L blake now cur txList pool)"

section \<open>Messages from other nodes\<close>

text \<open>\<open>verify\<close> is the verification of the transaction's action.\<close>

definition msgSub_Validate :: "(Transaction \<Rightarrow> error + VerifyResult) \<Rightarrow> 'c transactionPool \<Rightarrow> bool \<Rightarrow> bytes \<Rightarrow> (error + ValidationResult) option" where
  "msgSub_Validate verify pool isLocal data =
     (if tp_txSizeBytes pool > pc_TxPoolMaxSize (tp_config pool) then Some (Inr ValidationReject)
      else case TxPoolMessage_Unmarshal data of
        Inl _ \<Rightarrow> Some (Inr ValidationReject)
      | Inr msg \<Rightarrow>
          if bytes_str (pm_FromDomain msg) \<noteq> tp_exeDomainID pool then Some (Inr ValidationReject)
          else (case TxMessage_Unmarshal (pm_Data msg) of
            Inl _ \<Rightarrow> Some (Inr ValidationReject)
          | Inr txMsg \<Rightarrow>
              (case Transaction_Unmarshal (tm_Data txMsg) of
                 Inl _ \<Rightarrow> Some (Inr ValidationReject)
               | Inr tx \<Rightarrow>
                   (case validateTxsForRevert tx of
                      Inl err \<Rightarrow> Some (Inl err)
                    | Inr ValidationAccept \<Rightarrow>
                        (case tx_Head tx of
                           None \<Rightarrow> Some (Inl (Panic ''nil pointer dereference''))
                         | Some h \<Rightarrow>
                             (case tp_PendingAccountTxCnt pool (NewFromBytes (th_FromAddr h)) of
                                None \<Rightarrow> None
                              | Some n \<Rightarrow>
                                  if n > pc_MaxCntOfEachAccount (tp_config pool) then Some (Inr ValidationReject)
                                  else if isLocal then Some (Inr ValidationAccept)
                                  else Some (map_sum id (\<lambda>v. case v of VerifyResult_Accept \<Rightarrow> ValidationAccept
                                    | VerifyResult_Ignore \<Rightarrow> ValidationIgnore | VerifyResult_Reject \<Rightarrow> ValidationReject) (verify tx))))
                    | Inr r \<Rightarrow> Some (Inr r)))))"

definition msgSub_Process :: "'c lru_ops \<Rightarrow> (bytes \<Rightarrow> bytes) \<Rightarrow> int \<Rightarrow> error + u64 \<Rightarrow> 'c transactionPool \<Rightarrow> TxMessage option \<Rightarrow>
    ('c transactionPool \<times> error option) option" where
  "msgSub_Process L blake now cur pool msg = (case msg of
     None \<Rightarrow> Some (pool, Some (ErrOther ''transaction is nil''))
   | Some m \<Rightarrow> (case Transaction_Unmarshal (tm_Data m) of
       Inl err \<Rightarrow> Some (pool, Some err)
     | Inr tx \<Rightarrow> map_option (\<lambda>(pool1, err). (pool1, case err of Some (Panic e) \<Rightarrow> Some (Panic e) | _ \<Rightarrow> None)) (tp_AddTx L blake now cur pool tx False)))"

definition tp_Dispatch :: "'c lru_ops \<Rightarrow> (bytes \<Rightarrow> bytes) \<Rightarrow> int \<Rightarrow> error + u64 \<Rightarrow> 'c transactionPool \<Rightarrow> bytes \<Rightarrow> 'c transactionPool option" where
  "tp_Dispatch L blake now cur pool data = (case TxPoolMessage_Unmarshal data of
     Inl _ \<Rightarrow> Some pool
   | Inr m \<Rightarrow> if pm_MsgType m = 1 then
       (case TxMessage_Unmarshal (pm_Data m) of
          Inl _ \<Rightarrow> Some pool
        | Inr msg \<Rightarrow> map_option fst (msgSub_Process L blake now cur pool (Some msg)))
     else Some pool)"

text \<open>What \<open>PublishTx\<close> sends to the network.\<close>

definition PublishTx :: "string \<Rightarrow> string \<Rightarrow> Transaction option \<Rightarrow> error + bytes" where
  "PublishTx domainID nodeID tx = (case tx of
     None \<Rightarrow> Inl (ErrOther ''transaction is nil'')
   | Some t \<Rightarrow> Inr (TxPoolMessage_Marshal \<lparr>pm_MsgType = 1, pm_FromDomain = str_bytes domainID, pm_FromNode = str_bytes nodeID,
       pm_Data = TxMessage_Marshal \<lparr>tm_Data = Transaction_Marshal t, tm_XXX = []\<rparr>, pm_XXX = []\<rparr>))"

section \<open>What the collection holds\<close>

definition acc_sum :: "(accountTxManager \<Rightarrow> 'a :: comm_monoid_add) \<Rightarrow> (string, accountTxManager) gomap \<Rightarrow> 'a" where
  "acc_sum f g = sum_mset (image_mset (f \<circ> snd) (mset g))"

lemma acc_sum_new: "sorted_keys g \<Longrightarrow> map_of g k = None \<Longrightarrow> acc_sum f (gm_set k v g) = f v + acc_sum f g"
  by (simp add: acc_sum_def mset_gm_set)

lemma acc_sum_old:
  assumes "sorted_keys g" "map_of g k = Some old"
  shows "\<exists>r. acc_sum f g = f old + r \<and> acc_sum f (gm_set k v g) = f v + r"
proof -
  have "gm_del k (gm_set k v g) = gm_del k g"
    using assms by (intro gomap_eqI) (auto simp: gm_del_sorted gm_set_sorted)
  then have "mset (gm_set k v g) = add_mset (k, v) (mset (gm_del k g))"
    using mset_gm_del [of "gm_set k v g" k v] assms(1) by (simp add: sorted_keys_distinct gm_set_sorted)
  moreover have "mset g = add_mset (k, old) (mset (gm_del k g))"
    by (rule mset_gm_del [OF sorted_keys_distinct [OF assms(1)] assms(2)])
  ultimately show ?thesis
    by (intro exI [of _ "sum_mset (image_mset (f \<circ> snd) (mset (gm_del k g)))"]) (simp add: acc_sum_def)
qed

text \<open>The transactions of all accounts, pending and waiting.\<close>

definition ct_held :: "CollectTxs \<Rightarrow> TxWrapper multiset" where
  "ct_held c = acc_sum (\<lambda>m. pending_of m + gap_of m) (ct_accountTxs c)"

text \<open>A nonce is used up if it is taken or not after \<open>maxContNonce\<close>: no transaction with it is accepted any more.\<close>

definition nonce_used :: "CollectTxs \<Rightarrow> string \<Rightarrow> u64 \<Rightarrow> bool" where
  "nonce_used c addr n \<longleftrightarrow> (case map_of (ct_accountTxs c) addr of None \<Rightarrow> False
     | Some m \<Rightarrow> n \<in> am_nonces m \<or> unat n \<le> unat (am_maxContNonce m))"

definition acc_ok :: "nat \<Rightarrow> string \<Rightarrow> accountTxManager \<Rightarrow> bool" where
  "acc_ok N addr m \<longleftrightarrow> am_wf m \<and> (\<forall>w \<in> set_mset (pending_of m + gap_of m). wt_fromAddr w = addr) \<and>
     unat (am_maxContNonce m) + length (am_gapTxs m) \<le> N"

definition ct_inv :: "nat \<Rightarrow> CollectTxs \<Rightarrow> bool" where
  "ct_inv N c \<longleftrightarrow> sorted_keys (ct_accountTxs c) \<and> sm_inv (ct_fullTxs c) \<and>
     (\<forall>addr m. map_of (ct_accountTxs c) addr = Some m \<longrightarrow> acc_ok N addr m) \<and>
     mset (ct_chan c @ ct_sortedTxs c) = acc_sum pending_of (ct_accountTxs c) \<and>
     (\<forall>i w. sm_Get (ct_fullTxs c) i = Some w \<longrightarrow> nonce_used c (wt_fromAddr w) (wt_nonce w))"

lemma ct_invD:
  assumes "ct_inv N c"
  shows "sorted_keys (ct_accountTxs c)" "sm_inv (ct_fullTxs c)"
    "\<And>addr m. map_of (ct_accountTxs c) addr = Some m \<Longrightarrow> acc_ok N addr m"
    "mset (ct_chan c @ ct_sortedTxs c) = acc_sum pending_of (ct_accountTxs c)"
    "\<And>i w. sm_Get (ct_fullTxs c) i = Some w \<Longrightarrow> nonce_used c (wt_fromAddr w) (wt_nonce w)"
  using assms unfolding ct_inv_def by blast+

lemma acc_ok_mono: "acc_ok N addr m \<Longrightarrow> N \<le> M \<Longrightarrow> acc_ok M addr m"
  unfolding acc_ok_def by linarith

lemma ct_inv_mono: "ct_inv N c \<Longrightarrow> N \<le> M \<Longrightarrow> ct_inv M c"
  unfolding ct_inv_def using acc_ok_mono by blast

lemma pl_addTx_fields [simp]:
  "ct_chan (pl_addTx c w) = ct_chan c" "ct_accountTxs (pl_addTx c w) = ct_accountTxs c" "ct_fullTxs (pl_addTx c w) = ct_fullTxs c"
  "mset (ct_sortedTxs (pl_addTx c w)) = add_mset w (mset (ct_sortedTxs c))"
  by (simp_all add: pl_addTx_def sl_addTx_mset)

lemma receive_fields:
  assumes "receivePendingTx c = Some c'"
  shows "ct_accountTxs c' = ct_accountTxs c" "ct_fullTxs c' = ct_fullTxs c"
    "mset (ct_chan c' @ ct_sortedTxs c') = mset (ct_chan c @ ct_sortedTxs c)"
  using assms by (auto simp: receivePendingTx_def split: if_splits list.splits)

lemma send_fields:
  assumes "send_pending c w = Some c'"
  shows "ct_accountTxs c' = ct_accountTxs c" "ct_fullTxs c' = ct_fullTxs c"
    "mset (ct_chan c' @ ct_sortedTxs c') = add_mset w (mset (ct_chan c @ ct_sortedTxs c))"
proof -
  have "ct_accountTxs c' = ct_accountTxs c \<and> ct_fullTxs c' = ct_fullTxs c \<and>
      mset (ct_chan c' @ ct_sortedTxs c') = add_mset w (mset (ct_chan c @ ct_sortedTxs c))"
  proof (cases "length (ct_chan c) < chanCap")
    case True
    then have "c' = c\<lparr>ct_chan := ct_chan c @ [w]\<rparr>" using assms by (simp add: send_pending_def)
    then show ?thesis by simp
  next
    case False
    then obtain z where "receivePendingTx c = Some z" "c' = z\<lparr>ct_chan := ct_chan z @ [w]\<rparr>"
      using assms by (auto simp: send_pending_def)
    with receive_fields [of c z] show ?thesis by simp
  qed
  then show "ct_accountTxs c' = ct_accountTxs c" "ct_fullTxs c' = ct_fullTxs c"
    "mset (ct_chan c' @ ct_sortedTxs c') = add_mset w (mset (ct_chan c @ ct_sortedTxs c))" by blast+
qed

lemma send_all_fields:
  "send_all c ws = Some c' \<Longrightarrow> ct_accountTxs c' = ct_accountTxs c \<and> ct_fullTxs c' = ct_fullTxs c \<and>
     mset (ct_chan c' @ ct_sortedTxs c') = mset (ct_chan c @ ct_sortedTxs c) + mset ws"
proof (induction ws arbitrary: c)
  case (Cons w ws)
  then obtain c1 where "send_pending c w = Some c1" "send_all c1 ws = Some c'" by (auto split: option.splits)
  with Cons.IH [of c1] send_fields [of c w c1] show ?case by auto
qed simp

section \<open>Additions and removals\<close>

definition account_of :: "CollectTxs \<Rightarrow> string \<Rightarrow> accountTxManager" where
  "account_of c addr = (case map_of (ct_accountTxs c) addr of Some m \<Rightarrow> m | None \<Rightarrow> newAccountTxManager)"

lemma new_account [simp]: "am_wf newAccountTxManager" "am_pendingTxs newAccountTxManager = []" "am_gapTxs newAccountTxManager = []"
    "unat (am_maxContNonce newAccountTxManager) = 0"
  by (auto simp: am_wf_def newAccountTxManager_def)

lemma account_of_ok: "ct_inv N c \<Longrightarrow> acc_ok N addr (account_of c addr)"
  using ct_invD(3) [of N c addr] by (auto simp: account_of_def acc_ok_def split: option.splits)

lemma acc_sum_account:
  assumes "sorted_keys (ct_accountTxs c)" "f newAccountTxManager = 0"
  shows "\<exists>r. acc_sum f (ct_accountTxs c) = f (account_of c addr) + r \<and> acc_sum f (gm_set addr m (ct_accountTxs c)) = f m + r"
proof (cases "map_of (ct_accountTxs c) addr")
  case None
  then show ?thesis using assms by (simp add: acc_sum_new account_of_def)
next
  case (Some old)
  then show ?thesis using acc_sum_old [OF assms(1) Some] by (simp add: account_of_def)
qed

lemma am_added_total:
  assumes "am_added a w a' s err"
  shows "pending_of a' + gap_of a' = (if err = None then {#w#} else {#}) + (pending_of a + gap_of a)"
proof -
  note d = am_addedD [OF assms]
  have "pending_of a' + gap_of a' = pending_of a + (mset s + gap_of a')" unfolding d(6) by (simp only: add.assoc)
  then show ?thesis unfolding d(7) by (simp only: ac_simps)
qed

lemma nonce_used_account: "nonce_used c addr n \<Longrightarrow> n \<in> am_nonces (account_of c addr) \<or> unat n \<le> unat (am_maxContNonce (account_of c addr))"
  by (auto simp: nonce_used_def account_of_def split: option.splits)

lemma nonce_used_set:
  assumes "sorted_keys (ct_accountTxs c)" "ct_accountTxs c' = gm_set addr m (ct_accountTxs c)"
    "\<And>n. n \<in> am_nonces (account_of c addr) \<or> unat n \<le> unat (am_maxContNonce (account_of c addr)) \<Longrightarrow>
       n \<in> am_nonces m \<or> unat n \<le> unat (am_maxContNonce m)"
  shows "nonce_used c a n \<Longrightarrow> nonce_used c' a n"
  using assms(3) nonce_used_account [of c a n] by (cases "a = addr") (simp_all add: nonce_used_def assms(1,2))

text \<open>The outcome of an addition: either nothing but the index changes, or the transaction is held.\<close>

lemma ct_AddTx_spec:
  assumes "ct_inv N c" "N + 2 < 2 ^ 64" "ct_AddTx c w = Some (c', err)"
  shows "ct_inv (Suc N) c'" "ct_held c' = (if err = None then add_mset w (ct_held c) else ct_held c)"
    "\<And>a n. nonce_used c a n \<Longrightarrow> nonce_used c' a n" "nonce_used c (wt_fromAddr w) (wt_nonce w) \<Longrightarrow> err \<noteq> None"
proof -
  let ?a = "wt_fromAddr w" and ?m = "account_of c (wt_fromAddr w)"
  note i = ct_invD [OF assms(1)]
  note ok = account_of_ok [OF assms(1), of ?a]
  have "ct_inv (Suc N) c' \<and> ct_held c' = (if err = None then add_mset w (ct_held c) else ct_held c) \<and>
    (\<forall>a n. nonce_used c a n \<longrightarrow> nonce_used c' a n) \<and> (nonce_used c ?a (wt_nonce w) \<longrightarrow> err \<noteq> None)"
  proof (cases "sm_Get (ct_fullTxs c) (wt_txID w) = None")
    case False
    then have "c' = c" "err \<noteq> None" using assms(3) by (auto simp: ct_AddTx_def Let_def)
    then show ?thesis using ct_inv_mono [OF assms(1), of "Suc N"] by simp
  next
    case True
    have wf: "am_wf ?m" using ok unfolding acc_ok_def by blast
    have sz: "unat (am_maxContNonce ?m) + length (am_gapTxs ?m) \<le> N" using ok unfolding acc_ok_def by blast
    then have b: "unat (am_maxContNonce ?m) + length (am_gapTxs ?m) + 2 < 2 ^ 64" using assms(2) by linarith
    obtain m s e where m: "am_AddTx ?m w = ((m, s), e)" "am_added ?m w m s e" by (rule am_AddTx_spec [OF wf b, of w])
    note d = am_addedD [OF m(2)]
    let ?c1 = "c\<lparr>ct_fullTxs := sm_Set (wt_txID w) w (ct_fullTxs c), ct_accountTxs := gm_set ?a m (ct_accountTxs c)\<rparr>"
    have s: "send_all ?c1 s = Some c'" "err = e"
      using assms(3) True m(1) by (auto simp: ct_AddTx_def Let_def account_of_def)
    note f = send_all_fields [OF s(1)]
    have acc: "ct_accountTxs c' = gm_set ?a m (ct_accountTxs c)" "ct_fullTxs c' = sm_Set (wt_txID w) w (ct_fullTxs c)"
      "mset (ct_chan c' @ ct_sortedTxs c') = mset (ct_chan c @ ct_sortedTxs c) + mset s"
      using f by simp_all
    have used: "n \<in> am_nonces m \<or> unat n \<le> unat (am_maxContNonce m)"
      if "n \<in> am_nonces ?m \<or> unat n \<le> unat (am_maxContNonce ?m)" for n
      using that d(3,5) by (auto split: if_splits)
    have mono: "nonce_used c a n \<longrightarrow> nonce_used c' a n" for a n
      using nonce_used_set [OF i(1) acc(1) used] by blast
    have now: "nonce_used c' ?a (wt_nonce w)"
      using d(5,8,9) by (cases e) (auto simp: nonce_used_def acc(1) i(1))
    have fa: "wt_fromAddr x = ?a" if "x \<in># pending_of m + gap_of m" for x
    proof -
      have "x = w \<or> x \<in># pending_of ?m + gap_of ?m" using that unfolding am_added_total [OF m(2)] by (cases e) simp_all
      then show ?thesis using ok unfolding acc_ok_def by blast
    qed
    have "unat (am_maxContNonce m) + length (am_gapTxs m) \<le> Suc N" using am_added_size [OF m(2)] sz by linarith
    then have "acc_ok (Suc N) ?a m" unfolding acc_ok_def using d(1) fa by blast
    then have "\<forall>a x. map_of (ct_accountTxs c') a = Some x \<longrightarrow> acc_ok (Suc N) a x"
      using i(1,3) acc_ok_mono [of N _ _ "Suc N"] by (simp add: acc(1))
    moreover have "mset (ct_chan c' @ ct_sortedTxs c') = acc_sum pending_of (ct_accountTxs c')"
    proof -
      obtain r where r: "acc_sum pending_of (ct_accountTxs c) = pending_of ?m + r" "acc_sum pending_of (gm_set ?a m (ct_accountTxs c)) = pending_of m + r"
        using acc_sum_account [OF i(1), of pending_of ?a m] by auto
      show ?thesis unfolding acc(1,3) i(4) r d(6) by (simp only: ac_simps)
    qed
    moreover have "\<forall>j x. sm_Get (ct_fullTxs c') j = Some x \<longrightarrow> nonce_used c' (wt_fromAddr x) (wt_nonce x)"
      using i(2,5) mono now by (auto simp: acc(2) sm_Set_ok)
    ultimately have "ct_inv (Suc N) c'"
      unfolding ct_inv_def using i(1,2) acc(1,2) by (simp add: gm_set_sorted sm_Set_ok)
    moreover have "ct_held c' = (if err = None then add_mset w (ct_held c) else ct_held c)"
    proof -
      obtain r where r: "ct_held c = pending_of ?m + gap_of ?m + r" "ct_held c' = pending_of m + gap_of m + r"
        using acc_sum_account [OF i(1), of "\<lambda>m. pending_of m + gap_of m" ?a m] unfolding ct_held_def acc by auto
      show ?thesis unfolding r am_added_total [OF m(2)] s(2) by simp
    qed
    moreover have "nonce_used c ?a (wt_nonce w) \<longrightarrow> err \<noteq> None"
      using nonce_used_account [of c ?a "wt_nonce w"] d(8) s(2) by auto
    ultimately show ?thesis using mono by blast
  qed
  then show "ct_inv (Suc N) c'" "ct_held c' = (if err = None then add_mset w (ct_held c) else ct_held c)"
    "\<And>a n. nonce_used c a n \<Longrightarrow> nonce_used c' a n" "nonce_used c ?a (wt_nonce w) \<Longrightarrow> err \<noteq> None" by blast+
qed

lemma sl_removeTx_spec:
  "case sl_removeTx l txID of (l', None) \<Rightarrow> l' = l | (l', Some w) \<Rightarrow> mset l = add_mset w (mset l') \<and> wt_txID w = txID"
  by (induction l) (auto split: prod.splits option.splits)

lemma am_removePendingTx_wf:
  assumes "am_wf m"
  shows "am_wf (am_removePendingTx m n)"
  using am_wfD [OF assms] unfolding am_wf_def am_removePendingTx_def by (simp add: gm_del_sorted)

lemma in_acc_sum: "x \<in># acc_sum f g \<Longrightarrow> \<exists>(addr, m) \<in> set g. x \<in># f m"
  unfolding acc_sum_def by (induction g) auto

lemma pending_found:
  assumes "ct_inv N c" "w \<in> set (ct_sortedTxs c)"
  obtains m where "map_of (ct_accountTxs c) (wt_fromAddr w) = Some m" "map_of (am_pendingTxs m) (wt_nonce w) = Some w"
proof -
  note i = ct_invD [OF assms(1)]
  have "w \<in># acc_sum pending_of (ct_accountTxs c)" unfolding i(4) [symmetric] using assms(2) by simp
  then obtain addr m where m: "(addr, m) \<in> set (ct_accountTxs c)" "w \<in># pending_of m" using in_acc_sum by fastforce
  have a: "map_of (ct_accountTxs c) addr = Some m" using m(1) i(1) by (simp add: sorted_keys_mem)
  have ok: "am_wf m" "wt_fromAddr w = addr" using i(3) [OF a] m(2) by (auto simp: acc_ok_def)
  obtain n where n: "(n, w) \<in> set (am_pendingTxs m)" using m(2) by auto
  have p: "map_of (am_pendingTxs m) n = Some w" using n am_wfD(1) [OF ok(1)] by (simp add: sorted_keys_mem)
  then have "wt_nonce w = n" using am_wfD(3) [OF ok(1)] by blast
  with a p ok(2) show ?thesis using that by simp
qed

lemma ct_RemoveTx_spec:
  assumes "ct_inv N c" "ct_RemoveTx c txID = Some (c', r)"
  shows "ct_inv N c' \<and> (\<forall>a n. nonce_used c a n \<longrightarrow> nonce_used c' a n) \<and>
    (case r of None \<Rightarrow> ct_held c' = ct_held c
     | Some w \<Rightarrow> ct_held c = add_mset w (ct_held c') \<and> wt_txID w = txID \<and> nonce_used c' (wt_fromAddr w) (wt_nonce w))"
proof -
  note i = ct_invD [OF assms(1)]
  obtain l x where l: "sl_removeTx (ct_sortedTxs c) txID = (l, x)" by (cases "sl_removeTx (ct_sortedTxs c) txID")
  let ?c1 = "c\<lparr>ct_fullTxs := sm_Del txID (ct_fullTxs c), ct_sortedTxs := l, ct_heightTxs := fst (sl_removeTx (ct_heightTxs c) txID),
    ct_timeTxs := fst (sl_removeTx (ct_timeTxs c) txID)\<rparr>"
  have full: "sm_inv (sm_Del txID (ct_fullTxs c))" "sm_Get (sm_Del txID (ct_fullTxs c)) = (sm_Get (ct_fullTxs c))(txID := None)"
    using shrink.del [OF i(2), of txID] by simp_all
  show ?thesis
  proof (cases x)
    case None
    have c: "c' = ?c1" "r = None" "l = ct_sortedTxs c"
      using assms(2) l None sl_removeTx_spec [of "ct_sortedTxs c" txID]
      by (auto simp: ct_RemoveTx_def pl_removeTx_def split: if_splits)
    have e: "ct_accountTxs c' = ct_accountTxs c" "ct_fullTxs c' = sm_Del txID (ct_fullTxs c)" "ct_chan c' = ct_chan c"
      "ct_sortedTxs c' = ct_sortedTxs c" using c by simp_all
    have u: "nonce_used c' = nonce_used c" by (intro ext) (simp add: nonce_used_def e)
    have "\<forall>j w. sm_Get (ct_fullTxs c') j = Some w \<longrightarrow> nonce_used c' (wt_fromAddr w) (wt_nonce w)"
      using i(5) by (auto simp: u e(2) full(2) split: if_splits)
    then have "ct_inv N c'" unfolding ct_inv_def e using i(1,3,4) full(1) by blast
    then show ?thesis using c(2) u by (simp add: ct_held_def e)
  next
    case (Some w)
    have w: "mset (ct_sortedTxs c) = add_mset w (mset l)" "wt_txID w = txID"
      using l Some sl_removeTx_spec [of "ct_sortedTxs c" txID] by auto
    then have "w \<in> set (ct_sortedTxs c)" by (metis set_mset_mset union_single_eq_member)
    then obtain m where m: "map_of (ct_accountTxs c) (wt_fromAddr w) = Some m" "map_of (am_pendingTxs m) (wt_nonce w) = Some w"
      by (rule pending_found [OF assms(1)])
    let ?m = "am_removePendingTx m (wt_nonce w)"
    have ok: "acc_ok N (wt_fromAddr w) m" by (rule i(3) [OF m(1)])
    have wf: "am_wf m" using ok unfolding acc_ok_def by blast
    have c: "c' = ?c1\<lparr>ct_accountTxs := gm_set (wt_fromAddr w) ?m (ct_accountTxs c)\<rparr>" "r = Some w"
      using assms(2) l Some m(1) by (auto simp: ct_RemoveTx_def pl_removeTx_def split: if_splits)
    have e: "ct_accountTxs c' = gm_set (wt_fromAddr w) ?m (ct_accountTxs c)" "ct_fullTxs c' = sm_Del txID (ct_fullTxs c)"
      "ct_chan c' = ct_chan c" "ct_sortedTxs c' = l" using c by simp_all
    have p: "pending_of m = add_mset w (pending_of ?m)" "gap_of ?m = gap_of m" "am_gapTxs ?m = am_gapTxs m" "am_maxContNonce ?m = am_maxContNonce m"
      "am_pendingTxs ?m = gm_del (wt_nonce w) (am_pendingTxs m)"
      using values_gm_del [OF am_wfD(1) [OF wf] m(2)] by (simp_all add: am_removePendingTx_def)
    have le: "unat (wt_nonce w) \<le> unat (am_maxContNonce m)" using am_wfD(3) [OF wf m(2)] by blast
    have mono: "nonce_used c a n \<longrightarrow> nonce_used c' a n" for a n
      using nonce_used_set [OF i(1) e(1), of a n] le by (auto simp: account_of_def m(1) p(3-5))
    have now: "nonce_used c' (wt_fromAddr w) (wt_nonce w)" using le by (simp add: nonce_used_def e(1) i(1) p(4))
    have "\<forall>j v. sm_Get (ct_fullTxs c') j = Some v \<longrightarrow> nonce_used c' (wt_fromAddr v) (wt_nonce v)"
      using i(5) mono by (auto simp: e(2) full(2) split: if_splits)
    moreover have "acc_ok N (wt_fromAddr w) ?m"
      using ok am_removePendingTx_wf [OF wf] unfolding acc_ok_def p(1-4) by simp
    moreover have "mset (ct_chan c' @ ct_sortedTxs c') = acc_sum pending_of (ct_accountTxs c')"
    proof -
      obtain s where "acc_sum pending_of (ct_accountTxs c) = pending_of m + s" "acc_sum pending_of (ct_accountTxs c') = pending_of ?m + s"
        using acc_sum_old [OF i(1) m(1), of pending_of ?m] unfolding e by blast
      then show ?thesis using i(4) w(1) p(1) by (simp add: e)
    qed
    ultimately have "ct_inv N c'"
      unfolding ct_inv_def using i(1,3) full(1) by (auto simp: e(1,2) gm_set_sorted)
    moreover have "ct_held c = add_mset w (ct_held c')"
    proof -
      obtain s where "ct_held c = pending_of m + gap_of m + s" "ct_held c' = pending_of ?m + gap_of ?m + s"
        using acc_sum_old [OF i(1) m(1), of "\<lambda>m. pending_of m + gap_of m" ?m] unfolding ct_held_def e by blast
      then show ?thesis using p(1,2) by simp
    qed
    ultimately show ?thesis using mono now c(2) w(2) by simp
  qed
qed

section \<open>The counters\<close>

definition held_bytes :: "TxWrapper multiset \<Rightarrow> nat" where
  "held_bytes H = sum_mset (image_mset wt_size H)"

lemma held_bytes_add [simp]: "held_bytes (add_mset w H) = wt_size w + held_bytes H"
  by (simp add: held_bytes_def)

definition pool_inv :: "nat \<Rightarrow> 'c transactionPool \<Rightarrow> bool" where
  "pool_inv N p \<longleftrightarrow> ct_inv N (tp_txsCollect p) \<and>
     tp_txCount p = int (size (ct_held (tp_txsCollect p))) \<and> tp_txSizeBytes p = int (held_bytes (ct_held (tp_txsCollect p))) \<and>
     0 \<le> pc_TxPoolMaxCnt (tp_config p) \<and> tp_txCount p \<le> pc_TxPoolMaxCnt (tp_config p) \<and>
     0 \<le> pc_TxPoolMaxSize (tp_config p) \<and> tp_txSizeBytes p \<le> pc_TxPoolMaxSize (tp_config p)"

abbreviation used :: "'c transactionPool \<Rightarrow> string \<Rightarrow> u64 \<Rightarrow> bool" where
  "used p \<equiv> nonce_used (tp_txsCollect p)"

text \<open>A later state keeps the invariant and the configuration, and forgets no nonce.\<close>

definition pool_next :: "nat \<Rightarrow> 'c transactionPool \<Rightarrow> 'c transactionPool \<Rightarrow> bool" where
  "pool_next N p p' \<longleftrightarrow> pool_inv N p' \<and> tp_config p' = tp_config p \<and> (\<forall>a n. used p a n \<longrightarrow> used p' a n)"

lemma pool_inv_mono: "pool_inv N p \<Longrightarrow> N \<le> M \<Longrightarrow> pool_inv M p"
  unfolding pool_inv_def using ct_inv_mono by blast

lemma pool_next_refl: "pool_inv N p \<Longrightarrow> N \<le> M \<Longrightarrow> pool_next M p p"
  unfolding pool_next_def using pool_inv_mono by blast

lemma pool_next_trans: "pool_next N p p1 \<Longrightarrow> pool_next M p1 p2 \<Longrightarrow> pool_next M p p2"
  unfolding pool_next_def by simp

lemma pool_next_same:
  "pool_inv N p \<Longrightarrow> tp_txsCollect p' = tp_txsCollect p \<Longrightarrow> tp_txCount p' = tp_txCount p \<Longrightarrow> tp_txSizeBytes p' = tp_txSizeBytes p \<Longrightarrow>
     tp_config p' = tp_config p \<Longrightarrow> N \<le> M \<Longrightarrow> pool_next M p p'"
  unfolding pool_next_def pool_inv_def using ct_inv_mono by auto

lemma GenerateTxWrapper_fields:
  "GenerateTxWrapper blake now tx height = Inr w \<Longrightarrow> wt_size w = Transaction_Size tx \<and> wt_orginTx w = tx \<and> wt_height w = height \<and>
     tx_TxID blake tx = Inr (wt_txID w) \<and> (\<exists>h. tx_Head tx = Some h \<and> wt_fromAddr w = NewFromBytes (th_FromAddr h) \<and> wt_nonce w = th_Nonce h)"
  by (auto simp: GenerateTxWrapper_def GenerateTxWrapperUni_def tx_TxID_def tx_HashBytes_def split: option.splits sum.splits if_splits)

lemma tp_addTx_cases:
  assumes "tp_addTx L blake now cur p tx height = Some (p', r)"
  obtains (early) e cache where "p' = p\<lparr>tp_txCache := cache\<rparr>" "r = Inl e"
  | (add) txId curHeight w c e where "GenerateTxWrapper blake now tx curHeight = Inr w" "ct_AddTx (tp_txsCollect p) w = Some (c, e)"
      "tp_txCount p + 1 \<le> pc_TxPoolMaxCnt (tp_config p)" "tp_txSizeBytes p + int (Transaction_Size tx) \<le> pc_TxPoolMaxSize (tp_config p)"
      "(p', r) = (case e of Some err \<Rightarrow> (p\<lparr>tp_txsCollect := c\<rparr>, Inl err)
         | None \<Rightarrow> (p\<lparr>tp_txsCollect := c, tp_txCache := lru_Add L txId TxState_Added (tp_txCache p),
             tp_txCount := tp_txCount p + 1, tp_txSizeBytes := tp_txSizeBytes p + int (wt_size w)\<rparr>, Inr w))"
proof -
  obtain txId where id: "tx_TxID blake tx = Inr txId" by (simp add: tx_TxID_def tx_HashBytes_def)
  show thesis
  proof (cases "tp_txCount p + 1 > pc_TxPoolMaxCnt (tp_config p) \<or> tp_txSizeBytes p + int (Transaction_Size tx) > pc_TxPoolMaxSize (tp_config p)")
    case True
    then have "p' = p\<lparr>tp_txCache := lru_Add L txId TxState_DroppedForTxPoolFull (tp_txCache p)\<rparr>" "r = Inl (ErrOther ''tx pool is full'')"
      using assms id by (auto simp: tp_addTx_def)
    then show ?thesis by (rule early)
  next
    case full: False
    show ?thesis
    proof (cases "if height = 0 then cur else Inr height")
      case (Inl err)
      then have "p' = p\<lparr>tp_txCache := tp_txCache p\<rparr>" "r = Inl err" using assms id full by (simp_all add: tp_addTx_def)
      then show ?thesis by (rule early)
    next
      case h: (Inr curHeight)
      show ?thesis
      proof (cases "GenerateTxWrapper blake now tx curHeight")
        case (Inl err)
        then have "p' = p\<lparr>tp_txCache := tp_txCache p\<rparr>" "r = Inl err" using assms id full h by (simp_all add: tp_addTx_def)
        then show ?thesis by (rule early)
      next
        case (Inr w)
        have e: "(case ct_AddTx (tp_txsCollect p) w of None \<Rightarrow> None
            | Some (c, Some err) \<Rightarrow> Some (p\<lparr>tp_txsCollect := c\<rparr>, Inl err)
            | Some (c, None) \<Rightarrow> Some (p\<lparr>tp_txsCollect := c, tp_txCache := lru_Add L txId TxState_Added (tp_txCache p),
               tp_txCount := tp_txCount p + 1, tp_txSizeBytes := tp_txSizeBytes p + int (wt_size w)\<rparr>, Inr w)) = Some (p', r)"
          using assms id full h Inr by (simp add: tp_addTx_def)
        then obtain c e where c: "ct_AddTx (tp_txsCollect p) w = Some (c, e)" by (cases "ct_AddTx (tp_txsCollect p) w") auto
        have "tp_txCount p + 1 \<le> pc_TxPoolMaxCnt (tp_config p)" "tp_txSizeBytes p + int (Transaction_Size tx) \<le> pc_TxPoolMaxSize (tp_config p)"
          using full by linarith+
        moreover have "(p', r) = (case e of Some err \<Rightarrow> (p\<lparr>tp_txsCollect := c\<rparr>, Inl err)
           | None \<Rightarrow> (p\<lparr>tp_txsCollect := c, tp_txCache := lru_Add L txId TxState_Added (tp_txCache p),
               tp_txCount := tp_txCount p + 1, tp_txSizeBytes := tp_txSizeBytes p + int (wt_size w)\<rparr>, Inr w))"
          using e c by (cases e) simp_all
        ultimately show ?thesis by (rule add [OF Inr c])
      qed
    qed
  qed
qed

lemma tp_addTx_spec:
  assumes "pool_inv N p" "N + 2 < 2 ^ 64" "tp_addTx L blake now cur p tx height = Some (p', r)"
  shows "pool_next (Suc N) p p'" "tx_Head tx = Some h \<Longrightarrow> used p (NewFromBytes (th_FromAddr h)) (th_Nonce h) \<Longrightarrow> \<exists>e. r = Inl e"
    "tp_store p' = tp_store p"
    "ct_held (tp_txsCollect p') = (case r of Inl _ \<Rightarrow> ct_held (tp_txsCollect p) | Inr w \<Rightarrow> add_mset w (ct_held (tp_txsCollect p)))"
    "r = Inl e \<Longrightarrow> tp_txCount p' = tp_txCount p \<and> tp_txSizeBytes p' = tp_txSizeBytes p"
proof -
  have i: "ct_inv N (tp_txsCollect p)" using assms(1) by (simp add: pool_inv_def)
  have same: "pool_next (Suc N) p p'" if "tp_txsCollect p' = tp_txsCollect p" "tp_txCount p' = tp_txCount p" "tp_txSizeBytes p' = tp_txSizeBytes p"
    "tp_config p' = tp_config p" using pool_next_same [OF assms(1) that] by simp
  from assms(3)
  have "pool_next (Suc N) p p' \<and> (tx_Head tx = Some h \<and> used p (NewFromBytes (th_FromAddr h)) (th_Nonce h) \<longrightarrow> (\<exists>e. r = Inl e))"
  proof (cases rule: tp_addTx_cases)
    case early
    then show ?thesis using same by simp
  next
    case w: (add txId curHeight w c e)
    note a = ct_AddTx_spec [OF i assms(2) w(2)]
    have "pool_next (Suc N) p p'"
      using assms(1) a(1-3) w(3-5) GenerateTxWrapper_fields [OF w(1)] unfolding pool_next_def pool_inv_def by (cases e) auto
    moreover have "\<exists>e. r = Inl e" if "tx_Head tx = Some h" "used p (NewFromBytes (th_FromAddr h)) (th_Nonce h)"
      using that a(4) w(5) GenerateTxWrapper_fields [OF w(1)] by (cases e) auto
    ultimately show ?thesis by blast
  qed
  then show "pool_next (Suc N) p p'" "tx_Head tx = Some h \<Longrightarrow> used p (NewFromBytes (th_FromAddr h)) (th_Nonce h) \<Longrightarrow> \<exists>e. r = Inl e" by blast+
  from assms(3)
  have "tp_store p' = tp_store p \<and>
    ct_held (tp_txsCollect p') = (case r of Inl _ \<Rightarrow> ct_held (tp_txsCollect p) | Inr w \<Rightarrow> add_mset w (ct_held (tp_txsCollect p))) \<and>
    (\<forall>e. r = Inl e \<longrightarrow> tp_txCount p' = tp_txCount p \<and> tp_txSizeBytes p' = tp_txSizeBytes p)"
  proof (cases rule: tp_addTx_cases)
    case early
    then show ?thesis by simp
  next
    case w: (add txId curHeight w c e)
    then show ?thesis using ct_AddTx_spec(2) [OF i assms(2) w(2)] by (cases e) simp_all
  qed
  then show "tp_store p' = tp_store p"
    "ct_held (tp_txsCollect p') = (case r of Inl _ \<Rightarrow> ct_held (tp_txsCollect p) | Inr w \<Rightarrow> add_mset w (ct_held (tp_txsCollect p)))"
    "r = Inl e \<Longrightarrow> tp_txCount p' = tp_txCount p \<and> tp_txSizeBytes p' = tp_txSizeBytes p" by blast+
qed

lemma tp_RemoveTxByKey_spec:
  assumes "pool_inv N p" "tp_RemoveTxByKey L p txID = Some p'"
  shows "pool_next N p p'"
proof -
  have i: "ct_inv N (tp_txsCollect p)" using assms(1) by (simp add: pool_inv_def)
  obtain c r where c: "ct_RemoveTx (tp_txsCollect p) txID = Some (c, r)" using assms(2) by (auto simp: tp_RemoveTxByKey_def split: option.splits)
  note a = ct_RemoveTx_spec [OF i c]
  show ?thesis using assms c a unfolding pool_next_def pool_inv_def tp_RemoveTxByKey_def by (cases r) auto
qed

lemma add_all_next:
  "pool_inv N p \<Longrightarrow> N + length txs + 1 < 2 ^ 64 \<Longrightarrow> add_all L blake now cur txs p = Some p' \<Longrightarrow> pool_next (N + length txs) p p'"
proof (induction txs arbitrary: N p)
  case (Cons tx txs)
  then obtain p1 r where a: "tp_addTx L blake now cur p tx 0 = Some (p1, r)" "add_all L blake now cur txs p1 = Some p'"
    by (auto split: option.splits sum.splits error.splits)
  have n: "pool_next (Suc N) p p1" using tp_addTx_spec(1) [OF Cons.prems(1) _ a(1)] Cons.prems(2) by simp
  then have "pool_next (Suc N + length txs) p1 p'"
    using Cons.prems(2) a(2) by (intro Cons.IH) (auto simp: pool_next_def)
  with n show ?case by (auto intro: pool_next_trans)
qed (simp add: pool_next_refl)

lemma load_entries_next:
  "pool_inv N p \<Longrightarrow> N + length es + 1 < 2 ^ 64 \<Longrightarrow> load_entries L blake now cur es p = Some p' \<Longrightarrow> pool_next (N + length es) p p'"
proof (induction es arbitrary: N p)
  case (Cons e es)
  obtain key val where e: "e = (key, val)" by (cases e)
  obtain h b where f: "stored_fields val = (h, b)" by (cases "stored_fields val")
  show ?case
  proof (cases "Transaction_Unmarshal b")
    case (Inl err)
    then have "load_entries L blake now cur es p = Some p'" using Cons.prems(3) e f by simp
    then have "pool_next (N + length es) p p'" using Cons.prems(1,2) by (intro Cons.IH) simp_all
    then show ?thesis unfolding pool_next_def using pool_inv_mono [of "N + length es" p' "N + length (e # es)"] by simp
  next
    case (Inr tx)
    then obtain p1 r where a: "tp_addTx L blake now cur p tx h = Some (p1, r)" "load_entries L blake now cur es p1 = Some p'"
      using Cons.prems(3) e f by (auto split: option.splits sum.splits error.splits)
    have n: "pool_next (Suc N) p p1" using tp_addTx_spec(1) [OF Cons.prems(1) _ a(1)] Cons.prems(2) by simp
    then have "pool_next (Suc N + length es) p1 p'"
      using Cons.prems(2) a(2) by (intro Cons.IH) (auto simp: pool_next_def)
    with n show ?thesis by (auto intro: pool_next_trans)
  qed
qed (simp add: pool_next_refl)

lemma remove_txs_next: "pool_inv N p \<Longrightarrow> remove_txs L blake txl txs p = Some p' \<Longrightarrow> pool_next N p p'"
proof (induction txs arbitrary: p)
  case (Cons b txs)
  then obtain txID p1 where a: "tp_RemoveTxByKey L p txID = Some p1" "remove_txs L blake txl txs p1 = Some p'"
    by (auto simp: Let_def split: option.splits)
  have n: "pool_next N p p1" by (rule tp_RemoveTxByKey_spec [OF Cons.prems(1) a(1)])
  then have "pool_next N p1 p'" using a(2) by (intro Cons.IH) (auto simp: pool_next_def)
  with n show ?case by (rule pool_next_trans)
qed (simp add: pool_next_refl)

lemma remove_chunks_next: "pool_inv N p \<Longrightarrow> remove_chunks L blake txl ckl cs p = Some p' \<Longrightarrow> pool_next N p p'"
proof (induction cs arbitrary: p)
  case (Cons c cs)
  then obtain txs p1 where a: "remove_txs L blake txl txs p = Some p1" "remove_chunks L blake txl ckl cs p1 = Some p'"
    by (auto simp: Let_def split: option.splits)
  have n: "pool_next N p p1" by (rule remove_txs_next [OF Cons.prems(1) a(1)])
  then have "pool_next N p1 p'" using a(2) by (intro Cons.IH) (auto simp: pool_next_def)
  with n show ?case by (rule pool_next_trans)
qed (simp add: pool_next_refl)

section \<open>Runs\<close>

text \<open>
  The steps of a pool: the operations of its interface, the events of the chain, the start
  and the turns of the receiving goroutine, in any order. A step that blocks for ever or
  panics in a loop has no successor.
\<close>

datatype pool_op = OpAdd Transaction bool int "error + u64" | OpUpdate Transaction string int "error + u64" | OpRemove string
  | OpBlockAdded Block | OpBlocksRevert "Block list" int "error + u64" | OpReceive | OpStart

fun pool_step :: "'c lru_ops \<Rightarrow> (bytes \<Rightarrow> bytes) \<Rightarrow> (bytes \<Rightarrow> Transaction) \<Rightarrow> (bytes \<Rightarrow> BlockDataChunk) \<Rightarrow> 'c transactionPool \<Rightarrow> pool_op \<Rightarrow>
    'c transactionPool option" where
  "pool_step L blake txl ckl p (OpAdd tx isLocal now cur) = map_option fst (tp_AddTx L blake now cur p tx isLocal)"
| "pool_step L blake txl ckl p (OpUpdate tx oldTxID now cur) = map_option fst (tp_UpdateTx L blake now cur p tx oldTxID)"
| "pool_step L blake txl ckl p (OpRemove txID) = tp_RemoveTxByKey L p txID"
| "pool_step L blake txl ckl p (OpBlockAdded block) = map_option fst (processBlockAddedEvent L blake txl ckl block p)"
| "pool_step L blake txl ckl p (OpBlocksRevert blocks now cur) = addTxsForBlocksRevert L blake now cur blocks p"
| "pool_step L blake txl ckl p OpReceive = map_option (\<lambda>c. p\<lparr>tp_txsCollect := c\<rparr>) (receivePendingTx (tp_txsCollect p))"
| "pool_step L blake txl ckl p OpStart = Some (p\<lparr>tp_txsCollect := ct_Start (tp_txsCollect p)\<rparr>)"

fun op_adds :: "pool_op \<Rightarrow> nat" where
  "op_adds (OpAdd _ _ _ _) = 1"
| "op_adds (OpUpdate _ _ _ _) = 1"
| "op_adds (OpBlocksRevert blocks _ _) = (case revert_blocks blocks of Inl _ \<Rightarrow> 0 | Inr txs \<Rightarrow> length txs)"
| "op_adds _ = 0"

fun pool_run :: "'c lru_ops \<Rightarrow> (bytes \<Rightarrow> bytes) \<Rightarrow> (bytes \<Rightarrow> Transaction) \<Rightarrow> (bytes \<Rightarrow> BlockDataChunk) \<Rightarrow> 'c transactionPool \<Rightarrow> pool_op list \<Rightarrow>
    'c transactionPool option" where
  "pool_run L blake txl ckl p [] = Some p"
| "pool_run L blake txl ckl p (op # ops) = (case pool_step L blake txl ckl p op of None \<Rightarrow> None | Some p1 \<Rightarrow> pool_run L blake txl ckl p1 ops)"

lemma tp_AddTx_next:
  assumes "pool_inv N p" "N + 2 < 2 ^ 64" "tp_AddTx L blake now cur p tx isLocal = Some (p', r)"
  shows "pool_next (Suc N) p p'"
proof (cases isLocal)
  case False
  then obtain x where "tp_addTx L blake now cur p tx 0 = Some (p', x)" using assms(3) by (auto simp: tp_AddTx_def tp_addRemote_def)
  then show ?thesis by (rule tp_addTx_spec(1) [OF assms(1,2)])
next
  case True
  show ?thesis
  proof (cases "tx_Head tx")
    case None
    then have "p' = p" using True assms(3) by (simp add: tp_AddTx_def tp_addLocal_def)
    then show ?thesis using pool_next_refl [OF assms(1), of "Suc N"] by simp
  next
    case (Some h)
    let ?p = "p\<lparr>tp_localAddrs := gm_set (NewFromBytes (th_FromAddr h)) () (tp_localAddrs p)\<rparr>"
    have i: "pool_inv N ?p" using assms(1) by (simp add: pool_inv_def)
    obtain p1 x where a: "tp_addTx L blake now cur ?p tx 0 = Some (p1, x)" "tp_txsCollect p' = tp_txsCollect p1 \<and> tp_config p' = tp_config p1 \<and> tp_txCount p' = tp_txCount p1 \<and> tp_txSizeBytes p' = tp_txSizeBytes p1"
      using True assms(3) Some by (auto simp: tp_AddTx_def tp_addLocal_def split: option.splits sum.splits)
    have "pool_next (Suc N) ?p p1" by (rule tp_addTx_spec(1) [OF i assms(2) a(1)])
    then show ?thesis using a(2) by (auto simp: pool_next_def pool_inv_def)
  qed
qed

lemma tp_UpdateTx_next:
  assumes "pool_inv N p" "N + 2 < 2 ^ 64" "tp_UpdateTx L blake now cur p tx oldTxID = Some (p', r)"
  shows "pool_next (Suc N) p p'"
proof -
  consider "p' = p" | p1 x where "tp_addTx L blake now cur p tx 0 = Some (p1, x)" "tp_txsCollect p' = tp_txsCollect p1 \<and> tp_config p' = tp_config p1 \<and> tp_txCount p' = tp_txCount p1 \<and> tp_txSizeBytes p' = tp_txSizeBytes p1"
    using assms(3) by (auto simp: tp_UpdateTx_def split: option.splits sum.splits if_splits)
  then show ?thesis
  proof cases
    case 1
    then show ?thesis using pool_next_refl [OF assms(1), of "Suc N"] by simp
  next
    case 2
    then show ?thesis using tp_addTx_spec(1) [OF assms(1,2) 2(1)] by (auto simp: pool_next_def pool_inv_def)
  qed
qed

lemma ct_inv_same:
  assumes "ct_inv N c" "ct_accountTxs c' = ct_accountTxs c" "ct_fullTxs c' = ct_fullTxs c"
    "mset (ct_chan c' @ ct_sortedTxs c') = mset (ct_chan c @ ct_sortedTxs c)"
  shows "ct_inv N c' \<and> ct_held c' = ct_held c \<and> nonce_used c' = nonce_used c"
proof -
  have u: "nonce_used c' = nonce_used c" by (intro ext) (simp add: nonce_used_def assms(2))
  have "ct_inv N c'" using assms(1) unfolding ct_inv_def assms(2-4) u .
  then show ?thesis using u by (simp add: ct_held_def assms(2))
qed

lemma pool_step_next:
  assumes "pool_inv N p" "N + op_adds op + 1 < 2 ^ 64" "pool_step L blake txl ckl p op = Some p'"
  shows "pool_next (N + op_adds op) p p'"
proof (cases op)
  case (OpAdd tx isLocal now cur)
  then show ?thesis using assms tp_AddTx_next [of N p L blake now cur tx isLocal] by auto
next
  case (OpUpdate tx oldTxID now cur)
  then show ?thesis using assms tp_UpdateTx_next [of N p L blake now cur tx oldTxID] by auto
next
  case (OpRemove txID)
  then show ?thesis using assms tp_RemoveTxByKey_spec [of N p L txID] by simp
next
  case (OpBlockAdded block)
  then show ?thesis using assms remove_chunks_next [of N p L blake txl ckl _ p'] pool_next_refl [OF assms(1), of N]
    by (auto simp: processBlockAddedEvent_def split: option.splits)
next
  case (OpBlocksRevert blocks now cur)
  then show ?thesis using assms add_all_next [of N p] pool_next_refl [OF assms(1), of N]
    by (auto simp: addTxsForBlocksRevert_def split: sum.splits)
next
  case OpReceive
  then obtain c where c: "receivePendingTx (tp_txsCollect p) = Some c" "p' = p\<lparr>tp_txsCollect := c\<rparr>" using assms(3) by auto
  then show ?thesis using OpReceive assms(1) ct_inv_same [OF _ receive_fields [OF c(1)], of N]
    by (simp add: pool_next_def pool_inv_def)
next
  case OpStart
  then show ?thesis using assms(1,3) ct_inv_same [of N "tp_txsCollect p" "ct_Start (tp_txsCollect p)"]
    by (auto simp: pool_next_def pool_inv_def ct_Start_def)
qed

lemma pool_run_next:
  "pool_inv N p \<Longrightarrow> N + sum_list (map op_adds ops) + 1 < 2 ^ 64 \<Longrightarrow> pool_run L blake txl ckl p ops = Some p' \<Longrightarrow>
     pool_next (N + sum_list (map op_adds ops)) p p'"
proof (induction ops arbitrary: N p)
  case (Cons op ops)
  then obtain p1 where p1: "pool_step L blake txl ckl p op = Some p1" "pool_run L blake txl ckl p1 ops = Some p'"
    by (auto split: option.splits)
  have n: "pool_next (N + op_adds op) p p1" using Cons.prems(2) by (intro pool_step_next [OF Cons.prems(1) _ p1(1)]) simp
  have "pool_next (N + op_adds op + sum_list (map op_adds ops)) p1 p'"
    using n p1(2) Cons.prems(2) by (intro Cons.IH) (auto simp: pool_next_def)
  with n show ?case by (auto intro: pool_next_trans simp: add.assoc)
qed (simp add: pool_next_refl)

lemma ct_inv_new: "ct_inv 0 NewCollectTxs" "ct_held NewCollectTxs = {#}"
proof -
  have "sm_inv (NewShrinkMap :: (string, TxWrapper) ShrinkableMap)" "sm_Get (NewShrinkMap :: (string, TxWrapper) ShrinkableMap) k = None" for k
    by (rule shrink.new)+
  then show "ct_inv 0 NewCollectTxs" unfolding ct_inv_def by (simp add: NewCollectTxs_def acc_sum_def)
  show "ct_held NewCollectTxs = {#}" by (simp add: NewCollectTxs_def acc_sum_def ct_held_def)
qed

lemma NewTransactionPool_inv:
  assumes "NewTransactionPool L blake now cur newCache exeDomainID config loaded st = Some p" "\<not> pc_IsLoadCfg config" "length st + 1 < 2 ^ 64"
  shows "pool_inv (length st) p \<and> tp_config p = conf_Check config"
proof -
  let ?p = "\<lparr>tp_exeDomainID = exeDomainID, tp_config = conf_Check config, tp_txSizeBytes = 0, tp_txCount = 0, tp_txCache = newCache,
    tp_txsCollect = NewCollectTxs, tp_localAddrs = [], tp_store = st\<rparr>"
  have "0 \<le> pc_TxPoolMaxCnt (conf_Check config)" "0 \<le> pc_TxPoolMaxSize (conf_Check config)" "\<not> pc_IsLoadCfg (conf_Check config)"
    using assms(2) by (auto simp: conf_Check_def DefaultTransactionPoolConfig_def Let_def)
  then have i: "pool_inv 0 ?p" by (simp add: pool_inv_def ct_inv_new held_bytes_def)
  have "p = ?p \<or> load_entries L blake now cur st ?p = Some p"
    using assms(1) \<open>\<not> pc_IsLoadCfg (conf_Check config)\<close> by (auto simp: NewTransactionPool_def loadAllTxs_def Let_def split: if_splits)
  then show ?thesis
    using load_entries_next [OF i, of st L blake now cur p] pool_inv_mono [OF i, of "length st"] assms(3) by (auto simp: pool_next_def)
qed


subsection \<open>A sample\<close>

definition sample_lru :: "(string, TxState) gomap lru_ops" where
  "sample_lru = \<lparr>lru_Add = gm_set, lru_Remove = gm_del, lru_Peek = (\<lambda>k m. map_of m k)\<rparr>"

definition sample_uni :: "u64 \<Rightarrow> TransactionUniversal" where
  "sample_uni price = \<lparr>tu_Head = Some \<lparr>uh_Version = 1, uh_FeePayer = [], uh_GasPrice = price, uh_GasLimit = 9, uh_Type = 1,
     uh_FeePayerSignature = [], uh_Options = 0, uh_XXX = []\<rparr>, tu_Data = None, tu_XXX = []\<rparr>"

definition sample_tx :: "u64 \<Rightarrow> u64 \<Rightarrow> Transaction" where
  "sample_tx nonce price = \<lparr>tx_Head = Some \<lparr>th_Category = str_bytes TransactionCategory_Topia_Universal, th_ChainID = [], th_Version = 1,
     th_TimeStamp = 0, th_Index = 0, th_FromAddr = [97], th_Nonce = nonce, th_Signature = [], th_XXX = []\<rparr>,
     tx_Data = Some \<lparr>td_Specification = TransactionUniversal_Marshal (sample_uni price), td_XXX = []\<rparr>, tx_XXX = []\<rparr>"

lemma sample_uni_length: "length (TransactionUniversal_Marshal (sample_uni 7)) < 100" "length (TransactionUniversal_Marshal (sample_uni 9)) < 100"
  by code_simp+

lemma sample_uni_roundtrip:
  assumes "price = 7 \<or> price = 9"
  shows "TransactionUniversal_Unmarshal (TransactionUniversal_Marshal (sample_uni price)) = Inr (sample_uni price)"
  using assms sample_uni_length
  by (intro TransactionUniversal_roundtrip) (auto simp: TransactionUniversal_plain_def TransactionUniversalHead_plain_def sample_uni_def)

lemma sample_generate:
  assumes "price = 7 \<or> price = 9"
  shows "\<exists>w. GenerateTxWrapper blake now (sample_tx nonce price) h = Inr w \<and> wt_gasPrice w = price \<and> wt_nonce w = nonce"
  using sample_uni_roundtrip [OF assms] by (simp add: GenerateTxWrapper_def GenerateTxWrapperUni_def sample_tx_def) (simp add: sample_uni_def)

abbreviation sample_new :: "(string, TxState) gomap transactionPool option" where
  "sample_new \<equiv> NewTransactionPool sample_lru (\<lambda>_. [7]) 0 (Inr 5) [] ''d'' DefaultTransactionPoolConfig (Inl ErrJson) []"

abbreviation sample_run :: "(string, TxState) gomap transactionPool \<Rightarrow> pool_op list \<Rightarrow> (string, TxState) gomap transactionPool option" where
  "sample_run \<equiv> pool_run sample_lru (\<lambda>_. [7]) (\<lambda>_. sample_tx 1 7) (\<lambda>_. \<lparr>dc_Version = 0, dc_RefIndex = 0, dc_Txs = [], dc_XXX = []\<rparr>)"

lemma sample_run_result:
  "case sample_new of None \<Rightarrow> False | Some p0 \<Rightarrow>
     (case sample_run p0 [OpStart, OpAdd (sample_tx 1 7) False 0 (Inr 5), OpReceive] of None \<Rightarrow> False
      | Some p \<Rightarrow> tp_txCount p = 1 \<and> (case tp_RemoveTxByKey sample_lru p ''07'' of None \<Rightarrow> False | Some p1 \<Rightarrow> tp_txCount p1 = 0 \<and>
             tp_addTx sample_lru (\<lambda>_. [7]) 0 (Inr 6) p1 (sample_tx 1 7) 0 \<noteq> None) \<and>
          (case ct_RemoveTx (tp_txsCollect p) ''07'' of Some (_, Some w) \<Rightarrow> wt_fromAddr w = ''a'' \<and> wt_nonce w = 1 | _ \<Rightarrow> False))"
  by code_simp

lemma sample_runE:
  obtains p0 p p1 c w where "sample_new = Some p0" "sample_run p0 [OpStart, OpAdd (sample_tx 1 7) False 0 (Inr 5), OpReceive] = Some p"
    "tp_txCount p = 1" "tp_RemoveTxByKey sample_lru p ''07'' = Some p1" "tp_txCount p1 = 0"
    "ct_RemoveTx (tp_txsCollect p) ''07'' = Some (c, Some w)" "wt_fromAddr w = ''a''" "wt_nonce w = 1"
    "tp_addTx sample_lru (\<lambda>_. [7]) 0 (Inr 6) p1 (sample_tx 1 7) 0 \<noteq> None"
  using sample_run_result by (auto split: option.splits)


text \<open>
  (C34) A transaction that was taken out of the pending lists, for example because it is in a
  block, cannot come back. \<open>maxContNonce\<close> is not reduced by a removal, so that from then on
  every transaction of that sender with that nonce is refused, whatever happens in between.
  In particular the transactions of a reverted block, which \<open>addTxsForBlocksRevert\<close> adds
  again, are lost.
\<close>

theorem removed_tx_never_returns:
  assumes "NewTransactionPool L blake now0 cur0 newCache exeDomainID config loaded st = Some p0" "\<not> pc_IsLoadCfg config"
    "pool_run L blake txl ckl p0 ops = Some p"
    "ct_RemoveTx (tp_txsCollect p) txID = Some (c, Some w)" "tp_RemoveTxByKey L p txID = Some p1"
    "pool_run L blake txl ckl p1 ops' = Some p2" "length st + sum_list (map op_adds ops) + sum_list (map op_adds ops') + 2 < 2 ^ 64"
    "tx_Head tx = Some h" "NewFromBytes (th_FromAddr h) = wt_fromAddr w" "th_Nonce h = wt_nonce w"
    "tp_addTx L blake now cur p2 tx height = Some (p3, r)"
  shows "(\<exists>e. r = Inl e) \<and> ct_held (tp_txsCollect p3) = ct_held (tp_txsCollect p2)"
proof -
  let ?N = "length st + sum_list (map op_adds ops)"
  have "pool_inv (length st) p0" using NewTransactionPool_inv [OF assms(1,2)] assms(7) by simp
  then have i: "pool_inv ?N p" using pool_run_next [OF _ _ assms(3)] assms(7) by (simp add: pool_next_def)
  have n1: "pool_next ?N p p1" by (rule tp_RemoveTxByKey_spec [OF i assms(5)])
  have "tp_txsCollect p1 = c" using assms(4,5) by (auto simp: tp_RemoveTxByKey_def)
  then have u1: "used p1 (wt_fromAddr w) (wt_nonce w)"
    using ct_RemoveTx_spec [OF _ assms(4), of ?N] i by (simp add: pool_inv_def)
  have n2: "pool_next (?N + sum_list (map op_adds ops')) p1 p2"
    using n1 assms(7) by (intro pool_run_next [OF _ _ assms(6)]) (simp_all add: pool_next_def)
  then have i2: "pool_inv (?N + sum_list (map op_adds ops')) p2" and u2: "used p2 (wt_fromAddr w) (wt_nonce w)"
    using u1 by (auto simp: pool_next_def)
  have b: "?N + sum_list (map op_adds ops') + 2 < 2 ^ 64" using assms(7) by simp
  obtain e where e: "r = Inl e" using tp_addTx_spec(2) [OF i2 b assms(11,8)] u2 assms(9,10) by auto
  with tp_addTx_spec(4) [OF i2 b assms(11)] show ?thesis by simp
qed

theorem removed_tx_never_returns_witness:
  "\<exists>p0 p p1 c w p3 r. sample_new = Some p0 \<and> sample_run p0 [OpStart, OpAdd (sample_tx 1 7) False 0 (Inr 5), OpReceive] = Some p \<and>
    ct_RemoveTx (tp_txsCollect p) ''07'' = Some (c, Some w) \<and> tp_RemoveTxByKey sample_lru p ''07'' = Some p1 \<and>
    tp_addTx sample_lru (\<lambda>_. [7]) 0 (Inr 6) p1 (sample_tx 1 7) 0 = Some (p3, r) \<and>
    (\<exists>e. r = Inl e) \<and> ct_held (tp_txsCollect p3) = ct_held (tp_txsCollect p1)"
proof -
  obtain p0 p p1 c w where p: "sample_new = Some p0" "sample_run p0 [OpStart, OpAdd (sample_tx 1 7) False 0 (Inr 5), OpReceive] = Some p"
    "tp_RemoveTxByKey sample_lru p ''07'' = Some p1" "ct_RemoveTx (tp_txsCollect p) ''07'' = Some (c, Some w)"
    "wt_fromAddr w = ''a''" "wt_nonce w = 1" "tp_addTx sample_lru (\<lambda>_. [7]) 0 (Inr 6) p1 (sample_tx 1 7) 0 \<noteq> None"
    by (rule sample_runE)
  from p(7) obtain p3 r where r: "tp_addTx sample_lru (\<lambda>_. [7]) 0 (Inr 6) p1 (sample_tx 1 7) 0 = Some (p3, r)" by auto
  have a: "NewFromBytes [97] = ''a''" by code_simp
  obtain h where h: "tx_Head (sample_tx 1 7) = Some h" "NewFromBytes (th_FromAddr h) = ''a''" "th_Nonce h = 1"
    using that a by (simp add: sample_tx_def)
  have d: "\<not> pc_IsLoadCfg DefaultTransactionPoolConfig" by (simp add: DefaultTransactionPoolConfig_def)
  from removed_tx_never_returns [OF p(1) d p(2,4,3) pool_run.simps(1) _ h(1) _ _ r] h(2,3) p r show ?thesis by auto
qed

lemma ct_AddTx_refused:
  assumes "ct_inv N c" "N + 2 < 2 ^ 64" "nonce_used c (wt_fromAddr w) (wt_nonce w)"
  shows "\<exists>c' e. ct_AddTx c w = Some (c', Some e)"
proof (cases "sm_Get (ct_fullTxs c) (wt_txID w) = None")
  case False
  then show ?thesis by (auto simp: ct_AddTx_def Let_def)
next
  case True
  let ?m = "account_of c (wt_fromAddr w)"
  have ok: "am_wf ?m" "unat (am_maxContNonce ?m) + length (am_gapTxs ?m) \<le> N"
    using account_of_ok [OF assms(1), of "wt_fromAddr w"] unfolding acc_ok_def by blast+
  have b: "unat (am_maxContNonce ?m) + length (am_gapTxs ?m) + 2 < 2 ^ 64" using ok(2) assms(2) by linarith
  obtain m s e where m: "am_AddTx ?m w = ((m, s), e)" "am_added ?m w m s e" by (rule am_AddTx_spec [OF ok(1) b, of w])
  note d = am_addedD [OF m(2)]
  have "e \<noteq> None" using nonce_used_account [OF assms(3)] d(8) by auto
  moreover have "s = []" using d(3,9) \<open>e \<noteq> None\<close> by auto
  ultimately show ?thesis using True m(1) by (auto simp: ct_AddTx_def Let_def account_of_def)
qed

lemma tp_addTx_refused:
  assumes "pool_inv N p" "N + 2 < 2 ^ 64" "tx_Head tx = Some h" "used p (NewFromBytes (th_FromAddr h)) (th_Nonce h)"
  shows "\<exists>p' e. tp_addTx L blake now cur p tx height = Some (p', Inl e)"
proof -
  have g: "ct_AddTx (tp_txsCollect p) w \<noteq> None" if "GenerateTxWrapper blake now tx curHeight = Inr w" for w curHeight
    using ct_AddTx_refused [of N "tp_txsCollect p" w] GenerateTxWrapper_fields [OF that] assms by (auto simp: pool_inv_def)
  have "tp_addTx L blake now cur p tx height \<noteq> None"
    by (auto simp: tp_addTx_def split: sum.splits option.splits if_splits dest: g)
  then obtain p' r where r: "tp_addTx L blake now cur p tx height = Some (p', r)" by auto
  with tp_addTx_spec(2) [OF assms(1,2) r assms(3,4)] show ?thesis by blast
qed

text \<open>
  (C35) \<open>UpdateTx\<close> never replaces anything. It asks for a transaction of the same sender with
  the same nonce, and \<open>AddTx\<close> refuses it exactly for that reason. The call returns, with an
  error or without having done anything: the accounts hold what they held, and the store and
  the counters are the same.
\<close>

theorem UpdateTx_never_replaces:
  assumes "NewTransactionPool L blake now0 cur0 newCache exeDomainID config loaded st = Some p0" "\<not> pc_IsLoadCfg config"
    "length st + sum_list (map op_adds ops) + 2 < 2 ^ 64" "pool_run L blake txl ckl p0 ops = Some p"
  shows "\<exists>p' r. tp_UpdateTx L blake now cur p tx oldTxID = Some (p', r) \<and> ct_held (tp_txsCollect p') = ct_held (tp_txsCollect p) \<and>
    tp_store p' = tp_store p \<and> tp_txCount p' = tp_txCount p \<and> tp_txSizeBytes p' = tp_txSizeBytes p"
proof (cases "\<exists>old curHeight w. ct_GetTx (tp_txsCollect p) oldTxID = Some old \<and> cur = Inr curHeight \<and>
    GenerateTxWrapper blake now tx curHeight = Inr w \<and> CanReplace old w")
  case False
  then have "\<exists>r. tp_UpdateTx L blake now cur p tx oldTxID = Some (p, r)"
    by (auto simp: tp_UpdateTx_def split: option.splits sum.splits)
  then show ?thesis by auto
next
  case True
  then obtain old curHeight w where w: "ct_GetTx (tp_txsCollect p) oldTxID = Some old" "cur = Inr curHeight"
    "GenerateTxWrapper blake now tx curHeight = Inr w" "CanReplace old w" by blast
  let ?N = "length st + sum_list (map op_adds ops)"
  have "pool_inv (length st) p0" using NewTransactionPool_inv [OF assms(1,2)] assms(3) by simp
  then have i: "pool_inv ?N p" using pool_run_next [OF _ _ assms(4)] assms(3) by (simp add: pool_next_def)
  have "used p (wt_fromAddr old) (wt_nonce old)"
    using ct_invD(5) [of ?N "tp_txsCollect p" oldTxID old] i w(1) by (simp add: pool_inv_def ct_GetTx_def)
  then have u: "used p (wt_fromAddr w) (wt_nonce w)" using w(4) by (simp add: CanReplace_def)
  obtain h where h: "tx_Head tx = Some h" "wt_fromAddr w = NewFromBytes (th_FromAddr h)" "wt_nonce w = th_Nonce h"
    using GenerateTxWrapper_fields [OF w(3)] by blast
  have "\<exists>p' e. tp_addTx L blake now cur p tx 0 = Some (p', Inl e)"
    using u unfolding h(2,3) by (rule tp_addTx_refused [OF i assms(3) h(1)])
  then obtain p' e where a: "tp_addTx L blake now cur p tx 0 = Some (p', Inl e)" by blast
  have "tp_UpdateTx L blake now cur p tx oldTxID = Some (p', Some e)" using w a by (simp add: tp_UpdateTx_def)
  with tp_addTx_spec(3-5) [OF i assms(3) a] show ?thesis by auto
qed

theorem UpdateTx_never_replaces_witness:
  "\<exists>p0 p p' r. sample_new = Some p0 \<and> sample_run p0 [OpStart, OpAdd (sample_tx 1 7) False 0 (Inr 5), OpReceive] = Some p \<and>
    tp_UpdateTx sample_lru (\<lambda>_. [7]) 0 (Inr 5) p (sample_tx 1 9) ''07'' = Some (p', r) \<and>
    ct_held (tp_txsCollect p') = ct_held (tp_txsCollect p) \<and> tp_store p' = tp_store p \<and> tp_txCount p' = tp_txCount p \<and>
    tp_txSizeBytes p' = tp_txSizeBytes p"
proof -
  obtain p0 p where p: "sample_new = Some p0" "sample_run p0 [OpStart, OpAdd (sample_tx 1 7) False 0 (Inr 5), OpReceive] = Some p"
    by (rule sample_runE)
  have "\<not> pc_IsLoadCfg DefaultTransactionPoolConfig" by (simp add: DefaultTransactionPoolConfig_def)
  from UpdateTx_never_replaces [OF p(1) this _ p(2), of 0 "Inr 5" "sample_tx 1 9" "''07''"] p show ?thesis by auto
qed

text \<open>
  (C18) The states of the pool are well-formed after any run: each account files its
  transactions under their own sender and nonce, the pending ones have nonces from 1 to
  \<open>maxContNonce\<close> and the waiting ones nonces after the next one, and the transactions on
  their way to the pending lists together with those in the list are exactly the pending
  transactions of all accounts.
\<close>

theorem pool_well_formed:
  assumes "NewTransactionPool L blake now cur newCache exeDomainID config loaded st = Some p0" "\<not> pc_IsLoadCfg config"
    "length st + sum_list (map op_adds ops) + 1 < 2 ^ 64" "pool_run L blake txl ckl p0 ops = Some p"
  defines "c \<equiv> tp_txsCollect p"
  shows "mset (ct_chan c @ ct_sortedTxs c) = acc_sum pending_of (ct_accountTxs c) \<and>
    (\<forall>addr m. map_of (ct_accountTxs c) addr = Some m \<longrightarrow>
      (\<forall>n w. map_of (am_pendingTxs m) n = Some w \<longrightarrow> wt_fromAddr w = addr \<and> wt_nonce w = n \<and> 1 \<le> n \<and> n \<le> am_maxContNonce m) \<and>
      (\<forall>n w. map_of (am_gapTxs m) n = Some w \<longrightarrow> wt_fromAddr w = addr \<and> wt_nonce w = n \<and> Suc (unat (am_maxContNonce m)) < unat n))"
proof -
  have "pool_inv (length st) p0" using assms(3) NewTransactionPool_inv [OF assms(1,2)] by simp
  then have "ct_inv (length st + sum_list (map op_adds ops)) c"
    using pool_run_next [OF _ assms(3,4)] by (simp add: pool_next_def pool_inv_def c_def)
  note i = ct_invD [OF this]
  have "(\<forall>n w. map_of (am_pendingTxs m) n = Some w \<longrightarrow> wt_fromAddr w = addr \<and> wt_nonce w = n \<and> 1 \<le> n \<and> n \<le> am_maxContNonce m) \<and>
      (\<forall>n w. map_of (am_gapTxs m) n = Some w \<longrightarrow> wt_fromAddr w = addr \<and> wt_nonce w = n \<and> Suc (unat (am_maxContNonce m)) < unat n)"
    if m: "map_of (ct_accountTxs c) addr = Some m" for addr m
  proof -
    have ok: "am_wf m" "\<forall>w \<in> set_mset (pending_of m + gap_of m). wt_fromAddr w = addr"
      using i(3) [OF m] unfolding acc_ok_def by blast+
    have f: "wt_fromAddr w = addr" if "map_of (am_pendingTxs m) n = Some w \<or> map_of (am_gapTxs m) n = Some w" for n w
    proof -
      have "w \<in> snd ` set (am_pendingTxs m) \<union> snd ` set (am_gapTxs m)"
        using that map_of_SomeD [of "am_pendingTxs m" n w] map_of_SomeD [of "am_gapTxs m" n w] by (metis UnI1 UnI2 image_eqI snd_conv)
      then show ?thesis using ok(2) by simp
    qed
    have "wt_fromAddr w = addr \<and> wt_nonce w = n \<and> 1 \<le> n \<and> n \<le> am_maxContNonce m" if "map_of (am_pendingTxs m) n = Some w" for n w
      using am_wfD(3) [OF ok(1) that] f [of n w] that by (simp add: word_le_nat_alt)
    moreover have "wt_fromAddr w = addr \<and> wt_nonce w = n \<and> Suc (unat (am_maxContNonce m)) < unat n" if "map_of (am_gapTxs m) n = Some w" for n w
      using am_wfD(4) [OF ok(1) that] f [of n w] that by simp
    ultimately show ?thesis by blast
  qed
  with i(4) show ?thesis by blast
qed

theorem pool_well_formed_witness:
  "\<exists>p0 p. sample_new = Some p0 \<and> sample_run p0 [OpStart, OpAdd (sample_tx 1 7) False 0 (Inr 5), OpReceive] = Some p \<and>
    mset (ct_chan (tp_txsCollect p) @ ct_sortedTxs (tp_txsCollect p)) = acc_sum pending_of (ct_accountTxs (tp_txsCollect p)) \<and>
    (\<forall>addr m. map_of (ct_accountTxs (tp_txsCollect p)) addr = Some m \<longrightarrow>
      (\<forall>n w. map_of (am_pendingTxs m) n = Some w \<longrightarrow> wt_fromAddr w = addr \<and> wt_nonce w = n \<and> 1 \<le> n \<and> n \<le> am_maxContNonce m) \<and>
      (\<forall>n w. map_of (am_gapTxs m) n = Some w \<longrightarrow> wt_fromAddr w = addr \<and> wt_nonce w = n \<and> Suc (unat (am_maxContNonce m)) < unat n))"
proof -
  obtain p0 p where p: "sample_new = Some p0" "sample_run p0 [OpStart, OpAdd (sample_tx 1 7) False 0 (Inr 5), OpReceive] = Some p"
    by (rule sample_runE)
  have d: "\<not> pc_IsLoadCfg DefaultTransactionPoolConfig" by (simp add: DefaultTransactionPoolConfig_def)
  have b: "length ([] :: (bytes, bytes) gomap) + sum_list (map op_adds [OpStart, OpAdd (sample_tx 1 7) False 0 (Inr 5), OpReceive]) + 1 < 2 ^ 64" by simp
  have t: "mset (ct_chan (tp_txsCollect p) @ ct_sortedTxs (tp_txsCollect p)) = acc_sum pending_of (ct_accountTxs (tp_txsCollect p)) \<and>
    (\<forall>addr m. map_of (ct_accountTxs (tp_txsCollect p)) addr = Some m \<longrightarrow>
      (\<forall>n w. map_of (am_pendingTxs m) n = Some w \<longrightarrow> wt_fromAddr w = addr \<and> wt_nonce w = n \<and> 1 \<le> n \<and> n \<le> am_maxContNonce m) \<and>
      (\<forall>n w. map_of (am_gapTxs m) n = Some w \<longrightarrow> wt_fromAddr w = addr \<and> wt_nonce w = n \<and> Suc (unat (am_maxContNonce m)) < unat n))"
    by (rule pool_well_formed [OF p(1) d b p(2)])
  show ?thesis by (intro exI conjI) (rule p(1), rule p(2), rule t [THEN conjunct1], rule t [THEN conjunct2])
qed

end
