(* ===== verification/Tx_Universal.thy ===== *)
theory Tx_Universal
  imports Tx_Types Account_State Block_Types
begin

text \<open>
  Universal transactions (\<open>src/transaction/universal\<close>, \<open>src/transaction/transaction.go\<close>): the
  gas of a transaction and the gas price, transfers, deployments and invocations with their
  verification, estimation and execution, and the construction of a transfer. What the code
  asks of the node is the record \<open>txServant\<close>. The virtual machines are an argument, of which
  the code uses the result; floating point numbers and the texts of errors are arguments too.
\<close>

section \<open>Configuration\<close>

record 'f GasConfiguration =
  gs_MinGasPrice :: u64
  gs_GasPriceMultiple :: 'f
  gs_MinGasLimit :: u64
  gs_GasEachByte :: u64
  gs_MaxGasEachBlock :: u64

record ChainConfiguration =
  cg_MaxTargetItem :: u64
  cg_MaxCodeSize :: u64
  cg_MaxTxCountOfEachBlock :: u64
  cg_MaxTxSizeOfEachBlock :: u64

definition DefChainConfiguration :: ChainConfiguration where
  "DefChainConfiguration = \<lparr>cg_MaxTargetItem = 50, cg_MaxCodeSize = 10000000, cg_MaxTxCountOfEachBlock = 1000,
     cg_MaxTxSizeOfEachBlock = 1000000\<rparr>"

definition DefGasConfiguration :: "'f \<Rightarrow> 'f GasConfiguration" where
  "DefGasConfiguration one = \<lparr>gs_MinGasPrice = 1000000000, gs_GasPriceMultiple = one, gs_MinGasLimit = 50000,
     gs_GasEachByte = 1500, gs_MaxGasEachBlock = 1500000000\<rparr>"

record 'f pow_ops =
  pw_of_u64 :: "u64 \<Rightarrow> 'f"
  pw_add :: "'f \<Rightarrow> 'f \<Rightarrow> 'f"
  pw_pow :: "'f \<Rightarrow> 'f \<Rightarrow> 'f"
  pw_to_u64 :: "'f \<Rightarrow> u64"

text \<open>The answers of the node; a balance may be a nil pointer.\<close>

record 'f txServant =
  sv_ChainID :: string
  sv_GasConfig :: "'f GasConfiguration"
  sv_ChainConfig :: ChainConfiguration
  sv_GetAccount :: "string \<Rightarrow> error + Account"
  sv_GetBalance :: "string \<Rightarrow> string \<Rightarrow> error + int option"
  sv_GetNonce :: "string \<Rightarrow> error + u64"
  sv_GetTxPoolSize :: int
  sv_GetLatestBlock :: "error + Block"
  sv_Crypt :: "byte \<Rightarrow> CryptService option"

section \<open>Gas\<close>

definition computeBasicGas :: "'f GasConfiguration \<Rightarrow> u64 \<Rightarrow> u64" where
  "computeBasicGas gasConfig txUniDataLen = gs_MinGasLimit gasConfig + txUniDataLen * gs_GasEachByte gasConfig"

text \<open>
  The least price in the latest block, where 0 means that there was none yet.
  \<open>chunk_left\<close> is what a failed \<open>Unmarshal\<close> leaves in the chunk.
\<close>

fun min_price_txs :: "bytes list \<Rightarrow> u64 \<Rightarrow> error + u64" where
  "min_price_txs [] p = Inr p"
| "min_price_txs (txBytes # rest) p = (case Transaction_Unmarshal txBytes of
     Inl err \<Rightarrow> Inl (Panic ''Unmarshal tx'')
   | Inr tx \<Rightarrow> (case tx_Head tx of
       None \<Rightarrow> Inl (Panic ''nil pointer dereference'')
     | Some h \<Rightarrow>
         if bytes_str (th_Category h) = TransactionCategory_Topia_Universal then
           (case tx_Data tx of
              None \<Rightarrow> Inl (Panic ''nil pointer dereference'')
            | Some d \<Rightarrow> (case TransactionUniversal_Unmarshal (td_Specification d) of
                Inl err \<Rightarrow> Inl (Panic ''Unmarshal tx data'')
              | Inr txUni \<Rightarrow> (case tu_Head txUni of
                  None \<Rightarrow> Inl (Panic ''nil pointer dereference'')
                | Some uh \<Rightarrow> min_price_txs rest (if p = 0 \<or> p > uh_GasPrice uh then uh_GasPrice uh else p))))
         else min_price_txs rest p))"

fun min_price_chunks :: "(bytes \<Rightarrow> BlockDataChunk) \<Rightarrow> bytes list \<Rightarrow> u64 \<Rightarrow> error + u64" where
  "min_price_chunks chunk_left [] p = Inr p"
| "min_price_chunks chunk_left (dataChunkBytes # rest) p =
     (case min_price_txs (dc_Txs (case BlockDataChunk_Unmarshal dataChunkBytes of Inl _ \<Rightarrow> chunk_left dataChunkBytes | Inr d \<Rightarrow> d)) p of
        Inl err \<Rightarrow> Inl err | Inr p' \<Rightarrow> min_price_chunks chunk_left rest p')"

definition getMinGasPriceOfLatestBlock :: "(bytes \<Rightarrow> BlockDataChunk) \<Rightarrow> 'f GasConfiguration \<Rightarrow> error + Block \<Rightarrow> error + u64" where
  "getMinGasPriceOfLatestBlock chunk_left gasConfig latest = (case latest of
     Inl err \<Rightarrow> Inl err
   | Inr latestBlock \<Rightarrow> (case blk_Head latestBlock of
       None \<Rightarrow> Inl (Panic ''nil pointer dereference'')
     | Some bh \<Rightarrow>
         if bh_ChunkCount bh = 0 then Inr (gs_MinGasPrice gasConfig)
         else (case blk_Data latestBlock of
           None \<Rightarrow> Inl (Panic ''nil pointer dereference'')
         | Some bd \<Rightarrow> map_sum id (\<lambda>p. if p = 0 then gs_MinGasPrice gasConfig else p) (min_price_chunks chunk_left (bd_DataChunks bd) 0))))"

definition ComputeGasPrice :: "'f pow_ops \<Rightarrow> (bytes \<Rightarrow> BlockDataChunk) \<Rightarrow> 'f txServant \<Rightarrow> error + u64" where
  "ComputeGasPrice F chunk_left sv =
     (let gasConfig = sv_GasConfig sv; size = (word_of_int (sv_GetTxPoolSize sv) :: u64); maxSize = cg_MaxTxSizeOfEachBlock (sv_ChainConfig sv) in
      if maxSize = 0 then Inl (Panic ''integer divide by zero'')
      else
        (let pendingBlock = (if size mod maxSize > 0 then size div maxSize + 1 else 0) in
         if pendingBlock \<le> 1 then Inr (gs_MinGasPrice gasConfig)
         else (case getMinGasPriceOfLatestBlock chunk_left gasConfig (sv_GetLatestBlock sv) of
           Inl err \<Rightarrow> Inl err
         | Inr txMinGasPrice \<Rightarrow>
             (let tempGasPriceF = ((\<lambda>p. pw_add F p (pw_pow F p (gs_GasPriceMultiple gasConfig))) ^^ unat (pendingBlock - 1)) (pw_of_u64 F txMinGasPrice);
                  tempGasPriceUInt64 = pw_to_u64 F tempGasPriceF in
              Inr (if tempGasPriceUInt64 \<ge> gs_MinGasPrice gasConfig * 5 then gs_MinGasPrice gasConfig * 5 else tempGasPriceUInt64)))))"

section \<open>Actions\<close>

definition TransactionUniversalType_Transfer :: "32 word" where "TransactionUniversalType_Transfer = 1"
definition TransactionUniversalType_ContractDeploy :: "32 word" where "TransactionUniversalType_ContractDeploy = 2"
definition TransactionUniversalType_ContractInvoke :: "32 word" where "TransactionUniversalType_ContractInvoke = 3"
definition TransactionUniversalType_NativeInvoke :: "32 word" where "TransactionUniversalType_NativeInvoke = 4"

lemmas tx_type_defs = TransactionUniversalType_Transfer_def TransactionUniversalType_ContractDeploy_def
  TransactionUniversalType_ContractInvoke_def TransactionUniversalType_NativeInvoke_def

record TransactionUniversalWithHead =
  uw_TransactionHead :: TransactionHead
  uw_TransactionUniversal :: TransactionUniversal

record TargetItem =
  ti_Symbol :: string
  ti_Value :: "int option"

record TransactionUniversalTransfer =
  tf_TransactionHead :: TransactionHead
  tf_UniversalHead :: TransactionUniversalHead
  tf_TargetAddr :: string
  tf_Targets :: "TargetItem list option"

record TransactionUniversalDeploy =
  dp_TransactionHead :: TransactionHead
  dp_UniversalHead :: TransactionUniversalHead
  dp_ContractAddress :: string
  dp_Code :: "bytes option"

record TransactionUniversalInvoke =
  iv_TransactionHead :: TransactionHead
  iv_UniversalHead :: TransactionUniversalHead
  iv_ContractAddr :: string
  iv_Method :: string
  iv_Args :: string

datatype TransactionAction = ActTransfer TransactionUniversalTransfer | ActDeploy TransactionUniversalDeploy | ActInvoke TransactionUniversalInvoke

definition j_item :: "TargetItem \<Rightarrow> json" where
  "j_item i = JObj [(''Symbol'', JStr (ti_Symbol i)), (''Value'', j_ptr JNum (ti_Value i))]"

definition un_item :: "json \<Rightarrow> error + TargetItem" where
  "un_item j = (case un_obj j of
     Inl err \<Rightarrow> Inl err
   | Inr ms \<Rightarrow> (case (un_str (field ''Symbol'' ms), un_ptr un_big (field ''Value'' ms)) of
       (Inr s, Inr v) \<Rightarrow> Inr \<lparr>ti_Symbol = s, ti_Value = v\<rparr>
     | _ \<Rightarrow> Inl ErrJson))"

definition transfer_json :: "string \<Rightarrow> TargetItem list option \<Rightarrow> bytes" where
  "transfer_json targetAddr targets = Marshal (JObj [(''TargetAddr'', JStr targetAddr), (''Targets'', j_slice j_item targets)])"

definition tf_DataBytes :: "TransactionUniversalTransfer \<Rightarrow> bytes" where
  "tf_DataBytes txfer = transfer_json (tf_TargetAddr txfer) (tf_Targets txfer)"

definition dp_DataBytes :: "TransactionUniversalDeploy \<Rightarrow> bytes" where
  "dp_DataBytes txdp = Marshal (JObj [(''ContractAddress'', JStr (dp_ContractAddress txdp)), (''Code'', j_bytes (dp_Code txdp))])"

definition iv_DataBytes :: "TransactionUniversalInvoke \<Rightarrow> bytes" where
  "iv_DataBytes txiv = Marshal (JObj [(''ContractAddr'', JStr (iv_ContractAddr txiv)), (''Method'', JStr (iv_Method txiv)), (''Args'', JStr (iv_Args txiv))])"

definition ContructTransactionUniversalWithHead :: "TransactionHead \<Rightarrow> TransactionUniversalHead \<Rightarrow> bytes \<Rightarrow> TransactionUniversalWithHead" where
  "ContructTransactionUniversalWithHead txHead txUniHead txUnidata = \<lparr>uw_TransactionHead = txHead,
     uw_TransactionUniversal = \<lparr>tu_Head = Some txUniHead, tu_Data = Some \<lparr>ud_Specification = txUnidata, ud_XXX = []\<rparr>, tu_XXX = []\<rparr>\<rparr>"

text \<open>The transaction that carries an action, and its hash.\<close>

definition uni_tx :: "TransactionUniversalWithHead \<Rightarrow> Transaction" where
  "uni_tx u = \<lparr>tx_Head = Some (uw_TransactionHead u),
     tx_Data = Some \<lparr>td_Specification = TransactionUniversal_Marshal (uw_TransactionUniversal u), td_XXX = []\<rparr>, tx_XXX = []\<rparr>"

definition action_HashBytes :: "(bytes \<Rightarrow> bytes) \<Rightarrow> TransactionHead \<Rightarrow> TransactionUniversalHead \<Rightarrow> bytes \<Rightarrow> bytes" where
  "action_HashBytes blake h uh data = hash_or_nil (tx_HashBytes blake (uni_tx (ContructTransactionUniversalWithHead h uh data)))"

definition tf_HashBytes :: "(bytes \<Rightarrow> bytes) \<Rightarrow> TransactionUniversalTransfer \<Rightarrow> bytes" where
  "tf_HashBytes blake txfer = action_HashBytes blake (tf_TransactionHead txfer) (tf_UniversalHead txfer) (tf_DataBytes txfer)"

definition dp_HashBytes :: "(bytes \<Rightarrow> bytes) \<Rightarrow> TransactionUniversalDeploy \<Rightarrow> bytes" where
  "dp_HashBytes blake txdp = action_HashBytes blake (dp_TransactionHead txdp) (dp_UniversalHead txdp) (dp_DataBytes txdp)"

definition iv_HashBytes :: "(bytes \<Rightarrow> bytes) \<Rightarrow> TransactionUniversalInvoke \<Rightarrow> bytes" where
  "iv_HashBytes blake txiv = action_HashBytes blake (iv_TransactionHead txiv) (iv_UniversalHead txiv) (iv_DataBytes txiv)"

definition GetSpecificTransactionAction :: "TransactionUniversal \<Rightarrow> TransactionHead \<Rightarrow> error + TransactionAction" where
  "GetSpecificTransactionAction m txHead = (case tu_Head m of
     None \<Rightarrow> Inl (Panic ''nil pointer dereference'')
   | Some uh \<Rightarrow>
       if uh_Type uh \<notin> {TransactionUniversalType_Transfer, TransactionUniversalType_ContractDeploy, TransactionUniversalType_ContractInvoke}
       then Inl (Panic ''Invalid tx uni type'')
       else (case tu_Data m of
         None \<Rightarrow> Inl (Panic ''nil pointer dereference'')
       | Some d \<Rightarrow> (case (case Unmarshal (Some (ud_Specification d)) of Inl e \<Rightarrow> Inl e | Inr j \<Rightarrow> un_obj j) of
           Inl e \<Rightarrow> Inl (Panic ''Unmarshal tx uni data err'')
         | Inr ms \<Rightarrow>
             if uh_Type uh = TransactionUniversalType_Transfer then
               (case (un_str (field ''TargetAddr'' ms), un_slice un_item (field ''Targets'' ms)) of
                  (Inr targetAddr, Inr targets) \<Rightarrow> Inr (ActTransfer \<lparr>tf_TransactionHead = txHead, tf_UniversalHead = uh, tf_TargetAddr = targetAddr, tf_Targets = targets\<rparr>)
                | _ \<Rightarrow> Inl (Panic ''Unmarshal tx uni data err''))
             else if uh_Type uh = TransactionUniversalType_ContractDeploy then
               (case (un_str (field ''ContractAddress'' ms), un_bytes (field ''Code'' ms)) of
                  (Inr addr, Inr code) \<Rightarrow> Inr (ActDeploy \<lparr>dp_TransactionHead = txHead, dp_UniversalHead = uh, dp_ContractAddress = addr, dp_Code = code\<rparr>)
                | _ \<Rightarrow> Inl (Panic ''Unmarshal tx uni data err''))
             else
               (case (un_str (field ''ContractAddr'' ms), un_str (field ''Method'' ms), un_str (field ''Args'' ms)) of
                  (Inr addr, Inr method, Inr args) \<Rightarrow>
                    Inr (ActInvoke \<lparr>iv_TransactionHead = txHead, iv_UniversalHead = uh, iv_ContractAddr = addr, iv_Method = method, iv_Args = args\<rparr>)
                | _ \<Rightarrow> Inl (Panic ''Unmarshal tx uni data err'')))))"

definition CreatTransactionAction :: "Transaction \<Rightarrow> error + TransactionAction" where
  "CreatTransactionAction tx = (case (tx_Head tx, tx_Data tx) of
     (Some h, Some d) \<Rightarrow>
       if bytes_str (th_Category h) = TransactionCategory_Topia_Universal then
         (case TransactionUniversal_Unmarshal (td_Specification d) of
            Inl err \<Rightarrow> Inl (Panic ''Unmarshal tx data'')
          | Inr txUni \<Rightarrow> GetSpecificTransactionAction txUni h)
       else Inl (Panic ''Invalid tx Category'')
   | _ \<Rightarrow> Inl (Panic ''Invlaid tx input and can't create tx action''))"

section \<open>Execution\<close>

definition TokenSymbol_Native :: string where "TokenSymbol_Native = ''TPA''"

definition TransactionResultUniversal_OK :: "32 word" where "TransactionResultUniversal_OK = 0"
definition TransactionResultUniversal_Err :: "32 word" where "TransactionResultUniversal_Err = 1"

definition slice_list :: "'a list option \<Rightarrow> 'a list" where
  "slice_list xs = (case xs of None \<Rightarrow> [] | Some ys \<Rightarrow> ys)"

definition big_String :: "int option \<Rightarrow> string" where
  "big_String v = (case v of None \<Rightarrow> ''<nil>'' | Some i \<Rightarrow> json_print (JNum i))"

fun check_items :: "bytes \<Rightarrow> Account \<Rightarrow> TargetItem list \<Rightarrow> error + string option" where
  "check_items fromAddr fromAcc [] = Inr None"
| "check_items fromAddr fromAcc (targetItem # rest) = (case balance fromAcc (ti_Symbol targetItem) of
     None \<Rightarrow> Inr (Some (''Insufficient currency to transfer: from addr '' @ bytes_str fromAddr @ '', currency '' @ ti_Symbol targetItem @
       '' remaining 0, required '' @ big_String (ti_Value targetItem)))
   | Some fromCurrency \<Rightarrow> (case (fromCurrency, ti_Value targetItem) of
       (Some c, Some v) \<Rightarrow>
         if c < v then Inr (Some (''Insufficient currency to transfer: from addr '' @ bytes_str fromAddr @ '', currency '' @ ti_Symbol targetItem @
           '' remaining '' @ big_String (Some c) @ '', required '' @ big_String (Some v)))
         else check_items fromAddr fromAcc rest
     | _ \<Rightarrow> Inl nil_ptr))"

text \<open>The error of \<open>BalanceDecrease\<close> is not looked at.\<close>

fun move_items :: "TargetItem list \<Rightarrow> Account \<Rightarrow> Account \<Rightarrow> error + Account \<times> Account" where
  "move_items [] fromAcc targetAcc = Inr (fromAcc, targetAcc)"
| "move_items (targetItem # rest) fromAcc targetAcc = (case ti_Value targetItem of
     None \<Rightarrow> Inl nil_ptr
   | Some v \<Rightarrow> (case BalanceIncrease targetAcc (ti_Symbol targetItem) v of
       Inl e \<Rightarrow> Inl e
     | Inr targetAcc' \<Rightarrow> (case BalanceDecrease fromAcc (ti_Symbol targetItem) v of
         Inl e \<Rightarrow> if is_panic e then Inl e else move_items rest fromAcc targetAcc'
       | Inr fromAcc' \<Rightarrow> move_items rest fromAcc' targetAcc')))"

text \<open>
  The accounts are those \<open>GetAccount\<close> hands out: the sender, the target and the fee payer are
  three separate values even where their addresses agree. The result is a message or
  the three accounts as the code leaves them. \<open>txt\<close> is the text of an error.
\<close>

definition transfer_accounts ::
  "(error \<Rightarrow> string) \<Rightarrow> 'f txServant \<Rightarrow> TransactionUniversalTransfer \<Rightarrow> int \<Rightarrow> error + string + Account \<times> Account \<times> Account" where
  "transfer_accounts txt sv txfer gasVal =
     (let fromAddr = th_FromAddr (tf_TransactionHead txfer); feePayer = uh_FeePayer (tf_UniversalHead txfer); targets = slice_list (tf_Targets txfer) in
      case sv_GetAccount sv (NewFromBytes fromAddr) of
        Inl err \<Rightarrow> Inr (Inl (txt err))
      | Inr fromAcc \<Rightarrow> (case sv_GetAccount sv (tf_TargetAddr txfer) of
          Inl err \<Rightarrow> Inr (Inl (txt err))
        | Inr targetAcc \<Rightarrow> (case sv_GetAccount sv (NewFromBytes feePayer) of
            Inl err \<Rightarrow> Inr (Inl (txt err))
          | Inr feePayerAcc \<Rightarrow> (case balance feePayerAcc TokenSymbol_Native of
              Some (Some feePayerBal) \<Rightarrow>
                if feePayerBal < gasVal then
                  Inr (Inl (''Insufficient currency for gas fee: fee payer '' @ bytes_str feePayer @ '', remaining '' @ big_String (Some feePayerBal) @
                    '', required '' @ big_String (Some gasVal)))
                else (case check_items fromAddr fromAcc targets of
                  Inl e \<Rightarrow> Inl e
                | Inr (Some msg) \<Rightarrow> Inr (Inl msg)
                | Inr None \<Rightarrow> (case move_items targets fromAcc targetAcc of
                    Inl e \<Rightarrow> Inl e
                  | Inr (fromAcc', targetAcc') \<Rightarrow>
                      map_sum id (\<lambda>feePayerAcc'. Inr (fromAcc', targetAcc', feePayerAcc')) (set_balance feePayerAcc TokenSymbol_Native (feePayerBal - gasVal))))
            | _ \<Rightarrow> Inl nil_ptr))))"

definition currencyTransfer :: "(error \<Rightarrow> string) \<Rightarrow> 'f txServant \<Rightarrow> TransactionUniversalTransfer \<Rightarrow> error + u64 \<times> string \<times> 32 word" where
  "currencyTransfer txt sv txfer =
     (let gasUsed = computeBasicGas (sv_GasConfig sv) (of_nat (length (tf_DataBytes txfer)));
          gasVal = SafeMul gasUsed (uh_GasPrice (tf_UniversalHead txfer)) in
      case transfer_accounts txt sv txfer gasVal of
        Inl e \<Rightarrow> Inl e
      | Inr (Inl errMsg) \<Rightarrow> Inr (gasUsed, errMsg, TransactionResultUniversal_Err)
      | Inr (Inr _) \<Rightarrow> Inr (gasUsed, [], TransactionResultUniversal_OK))"

definition uni_result :: "TransactionHead \<Rightarrow> TransactionResultUniversal \<Rightarrow> TransactionResult" where
  "uni_result h txUniRS =
     \<lparr>tr_Head = Some \<lparr>trh_Category = th_Category h, trh_ChainID = th_ChainID h, trh_Version = th_Version h, trh_XXX = []\<rparr>,
      tr_Data = Some \<lparr>trd_Specification = TransactionResultUniversal_Marshal txUniRS, trd_XXX = []\<rparr>, tr_XXX = []\<rparr>"

definition tf_Execute :: "(bytes \<Rightarrow> bytes) \<Rightarrow> (error \<Rightarrow> string) \<Rightarrow> 'f txServant \<Rightarrow> TransactionUniversalTransfer \<Rightarrow> error + TransactionResult" where
  "tf_Execute blake txt sv txfer = (case currencyTransfer txt sv txfer of
     Inl e \<Rightarrow> Inl e
   | Inr (gasUsed, errMsg, status) \<Rightarrow> (let h = tf_TransactionHead txfer in
       Inr (uni_result h \<lparr>ru_Version = th_Version h, ru_TxHash = tf_HashBytes blake txfer,
         ru_GasUsed = gasUsed, ru_ErrString = str_bytes errMsg, ru_Status = status, ru_Data = [], ru_XXX = []\<rparr>)))"

record VMResult =
  vr_Code :: int
  vr_ErrMsg :: string
  vr_GasUsed :: u64
  vr_Data :: bytes

definition ReturnCode_Ok :: int where "ReturnCode_Ok = 0"

definition ReturnCode_String :: "int \<Rightarrow> string" where
  "ReturnCode_String rc = (if 0 \<le> rc \<and> rc \<le> 15 then
     [''Ok'', ''VM Disable'', ''Invalid vm context'', ''Contract not found'', ''Method not found'', ''Invalid input params'', ''Invalid return values'',
      ''Method signature error'', ''VM execute error'', ''Insufficient Gas'', ''Call stack overflow'', ''Data storage error'', ''Data load error'',
      ''Invalid account info'', ''Permission error'', ''Unknown error''] ! nat rc
     else ''unknown'')"

datatype VMType = VMType_NATIVE | VMType_TVM

record VMContext =
  vx_GasLimit :: u64
  vx_NodeID :: string
  vx_ContractAddr :: string
  vx_Method :: string
  vx_Args :: string
  vx_Code :: "bytes option"

text \<open>A machine returns a pointer to its result, which may be nil, and an error.\<close>

record VirtualMachine =
  vm_DeployContract :: "VMContext \<Rightarrow> VMResult option \<times> error option"
  vm_ExecuteContract :: "VMContext \<Rightarrow> VMResult option \<times> error option"

definition vm_errMsg :: "(error \<Rightarrow> string) \<Rightarrow> VMResult \<Rightarrow> error option \<Rightarrow> string" where
  "vm_errMsg txt vmResult err =
     (if vr_Code vmResult \<noteq> ReturnCode_Ok then ReturnCode_String (vr_Code vmResult) @ '': '' @ vr_ErrMsg vmResult
      else case err of None \<Rightarrow> [] | Some e \<Rightarrow> txt e)"

definition dp_Execute ::
  "(bytes \<Rightarrow> bytes) \<Rightarrow> (error \<Rightarrow> string) \<Rightarrow> (VMType \<Rightarrow> VirtualMachine) \<Rightarrow> string \<Rightarrow> 'f txServant \<Rightarrow> TransactionUniversalDeploy \<Rightarrow> error + TransactionResult" where
  "dp_Execute blake txt vms nodeID sv txdp =
     (let h = dp_TransactionHead txdp;
          vmContext = \<lparr>vx_GasLimit = gs_MaxGasEachBlock (sv_GasConfig sv), vx_NodeID = nodeID, vx_ContractAddr = [], vx_Method = [], vx_Args = [], vx_Code = dp_Code txdp\<rparr>;
          gasUsed = computeBasicGas (sv_GasConfig sv) (of_nat (length (dp_DataBytes txdp))) in
      case vm_DeployContract (vms VMType_TVM) vmContext of
        (None, err) \<Rightarrow> Inl nil_ptr
      | (Some vmResult, err) \<Rightarrow>
          Inr (uni_result h \<lparr>ru_Version = th_Version h, ru_TxHash = dp_HashBytes blake txdp,
            ru_GasUsed = gasUsed, ru_ErrString = str_bytes (vm_errMsg txt vmResult err), ru_Status = TransactionResultUniversal_OK,
            ru_Data = vr_Data vmResult, ru_XXX = []\<rparr>))"

definition iv_context :: "string \<Rightarrow> 'f txServant \<Rightarrow> TransactionUniversalInvoke \<Rightarrow> VMContext" where
  "iv_context nodeID sv txiv = \<lparr>vx_GasLimit = gs_MaxGasEachBlock (sv_GasConfig sv), vx_NodeID = nodeID, vx_ContractAddr = iv_ContractAddr txiv,
     vx_Method = iv_Method txiv, vx_Args = iv_Args txiv, vx_Code = None\<rparr>"

definition iv_vmType :: "TransactionUniversalInvoke \<Rightarrow> VMType" where
  "iv_vmType txiv = (if IsNativeContractAddress (iv_ContractAddr txiv) then VMType_NATIVE else VMType_TVM)"

definition iv_Execute ::
  "(bytes \<Rightarrow> bytes) \<Rightarrow> (error \<Rightarrow> string) \<Rightarrow> (VMType \<Rightarrow> VirtualMachine) \<Rightarrow> string \<Rightarrow> 'f txServant \<Rightarrow> TransactionUniversalInvoke \<Rightarrow> error + TransactionResult" where
  "iv_Execute blake txt vms nodeID sv txiv =
     (let h = iv_TransactionHead txiv;
          gasUsed = computeBasicGas (sv_GasConfig sv) (of_nat (length (iv_DataBytes txiv))) in
      case vm_ExecuteContract (vms (iv_vmType txiv)) (iv_context nodeID sv txiv) of
        (None, err) \<Rightarrow> Inl nil_ptr
      | (Some vmResult, err) \<Rightarrow>
          Inr (uni_result h \<lparr>ru_Version = th_Version h, ru_TxHash = iv_HashBytes blake txiv,
            ru_GasUsed = gasUsed + vr_GasUsed vmResult, ru_ErrString = str_bytes (vm_errMsg txt vmResult err), ru_Status = TransactionResultUniversal_OK,
            ru_Data = vr_Data vmResult, ru_XXX = []\<rparr>))"

definition act_Execute ::
  "(bytes \<Rightarrow> bytes) \<Rightarrow> (error \<Rightarrow> string) \<Rightarrow> (VMType \<Rightarrow> VirtualMachine) \<Rightarrow> string \<Rightarrow> 'f txServant \<Rightarrow> TransactionAction \<Rightarrow> error + TransactionResult" where
  "act_Execute blake txt vms nodeID sv act = (case act of
     ActTransfer txfer \<Rightarrow> tf_Execute blake txt sv txfer
   | ActDeploy txdp \<Rightarrow> dp_Execute blake txt vms nodeID sv txdp
   | ActInvoke txiv \<Rightarrow> iv_Execute blake txt vms nodeID sv txiv)"

section \<open>Estimation\<close>

definition uni_DataLen :: "TransactionUniversalWithHead \<Rightarrow> error + u64" where
  "uni_DataLen txuni = (case tu_Data (uw_TransactionUniversal txuni) of
     None \<Rightarrow> Inl nil_ptr | Some d \<Rightarrow> Inr (of_nat (length (ud_Specification d))))"

text \<open>
  What the estimator, the verifiers and the actions share of the node: float arithmetic,
  what a failed \<open>Unmarshal\<close> leaves of a chunk, the hashes, the texts of errors, the machines.
\<close>

record 'f env =
  en_float :: "'f pow_ops"
  en_chunk_left :: "bytes \<Rightarrow> BlockDataChunk"
  en_blake :: "bytes \<Rightarrow> bytes"
  en_blake4 :: "bytes \<Rightarrow> bytes"
  en_txt :: "error \<Rightarrow> string"
  en_vms :: "VMType \<Rightarrow> VirtualMachine"
  en_nodeID :: string

text \<open>
  A Go \<open>switch\<close> does not fall through, so the branches of transfers and native invocations
  are empty. The result is a pointer, nil where the price cannot be computed.
\<close>

definition Estimate :: "'f env \<Rightarrow> 'f txServant \<Rightarrow> TransactionUniversalWithHead \<Rightarrow> error + int option" where
  "Estimate E sv txUni = (case uni_DataLen txUni of
     Inl e \<Rightarrow> Inl e
   | Inr len \<Rightarrow>
      (let gasUsed = computeBasicGas (sv_GasConfig sv) len in
       case ComputeGasPrice (en_float E) (en_chunk_left E) sv of
         Inl e \<Rightarrow> if is_panic e then Inl e else Inr None
       | Inr gasPriceC \<Rightarrow> (case tu_Head (uw_TransactionUniversal txUni) of
           None \<Rightarrow> Inl nil_ptr
         | Some uh \<Rightarrow>
            (let txUniGasPrice = (if gasPriceC > uh_GasPrice uh then gasPriceC else uh_GasPrice uh) in
             if uh_Type uh = TransactionUniversalType_ContractDeploy then Inr (Some (SafeMul gasUsed txUniGasPrice))
             else if uh_Type uh = TransactionUniversalType_ContractInvoke then
               (case GetSpecificTransactionAction (uw_TransactionUniversal txUni) (uw_TransactionHead txUni) of
                  Inl e \<Rightarrow> Inl e
                | Inr act \<Rightarrow> (case act_Execute (en_blake E) (en_txt E) (en_vms E) (en_nodeID E) sv act of
                    Inl e \<Rightarrow> Inl e
                  | Inr txRS \<Rightarrow> (case tr_Data txRS of
                      None \<Rightarrow> Inl nil_ptr
                    | Some d \<Rightarrow> (case TransactionResultUniversal_Unmarshal (trd_Specification d) of
                        Inl e \<Rightarrow> Inl e
                      | Inr txUniRS \<Rightarrow>
                          if ru_Status txUniRS = TransactionResultUniversal_OK then
                            (case SafeAddUint64 gasUsed (ru_GasUsed txUniRS) of
                               Inl e \<Rightarrow> Inl e
                             | Inr gasUsed' \<Rightarrow> Inr (Some (SafeMul gasUsed' txUniGasPrice)))
                          else Inl (ErrOther (bytes_str (ru_ErrString txUniRS)))))))
             else Inr (Some 0)))))"

section \<open>Verification\<close>

definition accept_if :: "bool \<Rightarrow> error + VerifyResult" where
  "accept_if b = Inr (if b then VerifyResult_Accept else VerifyResult_Reject)"

definition TransactionUniversalPayerAddressVerifier :: "'f env \<Rightarrow> TransactionUniversalHead \<Rightarrow> error + VerifyResult" where
  "TransactionUniversalPayerAddressVerifier E uh = (case IsValid (en_blake4 E) (NewFromBytes (uh_FeePayer uh)) CurrentNetworkType of
     Inl e \<Rightarrow> Inl e | Inr isValid \<Rightarrow> accept_if isValid)"

definition TransactionUniversalGasVerifier ::
  "'f env \<Rightarrow> 'f txServant \<Rightarrow> TransactionUniversalWithHead \<Rightarrow> TransactionUniversalHead \<Rightarrow> error + VerifyResult" where
  "TransactionUniversalGasVerifier E sv txUni uh =
     (if uh_GasPrice uh < gs_MinGasPrice (sv_GasConfig sv) then Inr VerifyResult_Reject
      else if uh_GasLimit uh < gs_MinGasLimit (sv_GasConfig sv) then Inr VerifyResult_Reject
      else (case Estimate E sv txUni of
        Inl e \<Rightarrow> if is_panic e then Inl e else Inr VerifyResult_Reject
      | Inr estiGas \<Rightarrow> (case sv_GetBalance sv (NewFromBytes (uh_FeePayer uh)) TokenSymbol_Native of
          Inl e \<Rightarrow> Inr VerifyResult_Reject
        | Inr balVal \<Rightarrow> (case (estiGas, balVal) of
            (Some g, Some b) \<Rightarrow> accept_if (\<not> g > b)
          | _ \<Rightarrow> Inl nil_ptr))))"

definition TransactionUniversalNonceVerifier :: "'f txServant \<Rightarrow> TransactionUniversalWithHead \<Rightarrow> error + VerifyResult" where
  "TransactionUniversalNonceVerifier sv txUni =
     (let h = uw_TransactionHead txUni in
      case sv_GetNonce sv (NewFromBytes (th_FromAddr h)) of
        Inl e \<Rightarrow> Inr VerifyResult_Reject
      | Inr latestNonce \<Rightarrow> accept_if (th_Nonce h = latestNonce + 1))"

definition TransactionUniversalPayerSignatureVerifier ::
  "'f env \<Rightarrow> 'f txServant \<Rightarrow> TransactionUniversalWithHead \<Rightarrow> TransactionUniversalHead \<Rightarrow> error + VerifyResult" where
  "TransactionUniversalPayerSignatureVerifier E sv txUni uh =
     (let payer = NewFromBytes (uh_FeePayer uh) in
      case addr_CryptType (en_blake4 E) payer of
        Inl e \<Rightarrow> if is_panic e then Inl e else Inr VerifyResult_Reject
      | Inr cryType \<Rightarrow> (case unmarshal_sign (uh_FeePayerSignature uh) of
          Inl e \<Rightarrow> Inr VerifyResult_Reject
        | Inr signInfo \<Rightarrow> (case (sv_Crypt sv cryType, tu_Data (uw_TransactionUniversal txUni)) of
            (Some cryService, Some d) \<Rightarrow> accept_if (crs_Verify cryService payer (ud_Specification d) (si_SignData signInfo))
          | (None, _) \<Rightarrow> Inl (Panic ''invalid crypt type'')
          | (_, None) \<Rightarrow> Inl nil_ptr)))"

definition TxUniVerify :: "'f env \<Rightarrow> 'f txServant \<Rightarrow> TransactionUniversalWithHead \<Rightarrow> error + VerifyResult" where
  "TxUniVerify E sv txuni = (case BasicVerify (en_blake4 E) (sv_Crypt sv) (sv_ChainID sv) (uni_tx txuni) of
     Inl e \<Rightarrow> Inl e
   | Inr VerifyResult_Reject \<Rightarrow> Inr VerifyResult_Reject
   | Inr VerifyResult_Ignore \<Rightarrow> Inr VerifyResult_Accept
   | Inr VerifyResult_Accept \<Rightarrow> (case tu_Head (uw_TransactionUniversal txuni) of
       None \<Rightarrow> Inl nil_ptr
     | Some uh \<Rightarrow> ApplyTransactionVerifiers VerifyResult_Accept
         [TransactionUniversalPayerAddressVerifier E uh, TransactionUniversalGasVerifier E sv txuni uh,
          TransactionUniversalNonceVerifier sv txuni, TransactionUniversalPayerSignatureVerifier E sv txuni uh]))"

definition TransactionUniversalTransferTargetAddressVerifier :: "'f env \<Rightarrow> TransactionUniversalTransfer \<Rightarrow> error + VerifyResult" where
  "TransactionUniversalTransferTargetAddressVerifier E txTr =
     (let targetAddr = tf_TargetAddr txTr in
      case IsValid (en_blake4 E) targetAddr CurrentNetworkType of
        Inl e \<Rightarrow> Inl e
      | Inr isValid \<Rightarrow> if \<not> isValid then Inr VerifyResult_Reject else accept_if (IsPayable targetAddr))"

definition TransactionUniversalTransferTargetItemsVerifier :: "'f txServant \<Rightarrow> TransactionUniversalTransfer \<Rightarrow> error + VerifyResult" where
  "TransactionUniversalTransferTargetItemsVerifier sv txTr =
     accept_if (\<not> of_nat (length (slice_list (tf_Targets txTr))) > cg_MaxTargetItem (sv_ChainConfig sv))"

definition TransactionUniversalDeployCodeVerifier :: "'f txServant \<Rightarrow> TransactionUniversalDeploy \<Rightarrow> error + VerifyResult" where
  "TransactionUniversalDeployCodeVerifier sv txDP =
     accept_if (\<not> of_nat (length (slice_list (dp_Code txDP))) > cg_MaxCodeSize (sv_ChainConfig sv))"

definition TransactionUniversalInvokeMethodVerifier :: "TransactionUniversalInvoke \<Rightarrow> error + VerifyResult" where
  "TransactionUniversalInvokeMethodVerifier txIV = accept_if (length (iv_Method txIV) \<noteq> 0)"

text \<open>The regular expression \<open>^[a-zA-Z0-9@]\<close> looks at the first character only.\<close>

definition args_char :: "char \<Rightarrow> bool" where
  "args_char c = (let n = of_char c :: nat in 97 \<le> n \<and> n \<le> 122 \<or> 65 \<le> n \<and> n \<le> 90 \<or> 48 \<le> n \<and> n \<le> 57 \<or> n = 64)"

definition TransactionUniversalInvokeArgsVerifier :: "TransactionUniversalInvoke \<Rightarrow> error + VerifyResult" where
  "TransactionUniversalInvokeArgsVerifier txIV = accept_if (case iv_Args txIV of [] \<Rightarrow> False | c # _ \<Rightarrow> args_char c)"

definition after_uni_verify :: "error + VerifyResult \<Rightarrow> error + VerifyResult \<Rightarrow> error + VerifyResult" where
  "after_uni_verify vR rest = (case vR of
     Inl e \<Rightarrow> Inl e
   | Inr VerifyResult_Reject \<Rightarrow> Inr VerifyResult_Reject
   | Inr VerifyResult_Ignore \<Rightarrow> Inr VerifyResult_Accept
   | Inr VerifyResult_Accept \<Rightarrow> rest)"

definition tf_Verify :: "'f env \<Rightarrow> 'f txServant \<Rightarrow> TransactionUniversalTransfer \<Rightarrow> error + VerifyResult" where
  "tf_Verify E sv txfer = after_uni_verify
     (TxUniVerify E sv (ContructTransactionUniversalWithHead (tf_TransactionHead txfer) (tf_UniversalHead txfer) (tf_DataBytes txfer)))
     (ApplyTransactionVerifiers VerifyResult_Accept
        [TransactionUniversalTransferTargetAddressVerifier E txfer, TransactionUniversalTransferTargetItemsVerifier sv txfer])"

definition dp_Verify :: "'f env \<Rightarrow> 'f txServant \<Rightarrow> TransactionUniversalDeploy \<Rightarrow> error + VerifyResult" where
  "dp_Verify E sv txdp = after_uni_verify
     (TxUniVerify E sv (ContructTransactionUniversalWithHead (dp_TransactionHead txdp) (dp_UniversalHead txdp) (dp_DataBytes txdp)))
     (ApplyTransactionVerifiers VerifyResult_Accept [Inr VerifyResult_Accept, TransactionUniversalDeployCodeVerifier sv txdp])"

definition iv_Verify :: "'f env \<Rightarrow> 'f txServant \<Rightarrow> TransactionUniversalInvoke \<Rightarrow> error + VerifyResult" where
  "iv_Verify E sv txiv = after_uni_verify
     (TxUniVerify E sv (ContructTransactionUniversalWithHead (iv_TransactionHead txiv) (iv_UniversalHead txiv) (iv_DataBytes txiv)))
     (ApplyTransactionVerifiers VerifyResult_Accept
        [Inr VerifyResult_Accept, TransactionUniversalInvokeMethodVerifier txiv, TransactionUniversalInvokeArgsVerifier txiv])"

definition tf_Estimate :: "'f env \<Rightarrow> 'f txServant \<Rightarrow> TransactionUniversalTransfer \<Rightarrow> error + int option" where
  "tf_Estimate E sv txfer = Estimate E sv (ContructTransactionUniversalWithHead (tf_TransactionHead txfer) (tf_UniversalHead txfer) (tf_DataBytes txfer))"

definition dp_Estimate :: "'f env \<Rightarrow> 'f txServant \<Rightarrow> TransactionUniversalDeploy \<Rightarrow> error + int option" where
  "dp_Estimate E sv txdp = Estimate E sv (ContructTransactionUniversalWithHead (dp_TransactionHead txdp) (dp_UniversalHead txdp) (dp_DataBytes txdp))"

definition iv_Estimate :: "'f env \<Rightarrow> 'f txServant \<Rightarrow> TransactionUniversalInvoke \<Rightarrow> error + int option" where
  "iv_Estimate E sv txiv = Estimate E sv (ContructTransactionUniversalWithHead (iv_TransactionHead txiv) (iv_UniversalHead txiv) (iv_DataBytes txiv))"

section \<open>Construction, simulation and names\<close>

abbreviation Transaction_Topia_Universal_V1 :: "32 word" where "Transaction_Topia_Universal_V1 \<equiv> 1"

definition ConstructTransactionWithUniversalTransfer ::
  "CryptService \<Rightarrow> bytes option \<Rightarrow> bytes \<Rightarrow> u64 \<Rightarrow> u64 \<Rightarrow> u64 \<Rightarrow> string \<Rightarrow> TargetItem list option \<Rightarrow> error + Transaction" where
  "ConstructTransactionWithUniversalTransfer cryptService fromPriKey feePayerPriKey nonce gasPrice gasLimit targetAddr targets =
     (let trDataBytes = transfer_json targetAddr targets in
      case crs_Sign cryptService feePayerPriKey trDataBytes of
        Inl e \<Rightarrow> Inl (Panic ''Sign transfer data err'')
      | Inr txUniSignData \<Rightarrow> (case crs_ConvertToPublic cryptService feePayerPriKey of
          Inl e \<Rightarrow> Inl (Panic ''Can't convert public key from feePayerPriKey'')
        | Inr feePayerPubKey \<Rightarrow> (case crs_CreateAddress cryptService feePayerPubKey of
            Inl e \<Rightarrow> Inl (Panic ''Can't convert public key from feePayerPriKey'')
          | Inr feePayerAddr \<Rightarrow>
              (let txUniSignBytes = marshal_sign \<lparr>si_SignData = Some txUniSignData, si_PublicKey = Some feePayerPubKey\<rparr>;
                   txUni = \<lparr>tu_Head = Some \<lparr>uh_Version = Transaction_Topia_Universal_V1, uh_FeePayer = str_bytes feePayerAddr, uh_GasPrice = gasPrice,
                              uh_GasLimit = gasLimit, uh_Type = TransactionUniversalType_Transfer, uh_FeePayerSignature = txUniSignBytes,
                              uh_Options = 0, uh_XXX = []\<rparr>,
                            tu_Data = Some \<lparr>ud_Specification = trDataBytes, ud_XXX = []\<rparr>, tu_XXX = []\<rparr> in
               NewTransaction cryptService fromPriKey nonce TransactionCategory_Topia_Universal Transaction_Topia_Universal_V1
                 (TransactionUniversal_Marshal txUni)))))"

record TransactionUniversaSimulate =
  sim_nodeID :: string
  sim_contractAddr :: string
  sim_method :: string
  sim_args :: string
  sim_txType :: "32 word"

definition sim_Execute :: "(VMType \<Rightarrow> VirtualMachine) \<Rightarrow> TransactionUniversaSimulate \<Rightarrow> error + u64" where
  "sim_Execute vms sim =
     (let vmContext = \<lparr>vx_GasLimit = - 1, vx_NodeID = sim_nodeID sim, vx_ContractAddr = sim_contractAddr sim, vx_Method = sim_method sim,
            vx_Args = sim_args sim, vx_Code = None\<rparr> in
      case (if sim_txType sim = TransactionUniversalType_NativeInvoke then Some (vms VMType_NATIVE)
            else if sim_txType sim = TransactionUniversalType_ContractInvoke then Some (vms VMType_TVM) else None) of
        None \<Rightarrow> Inl (ErrOther ''Can't find the vm'')
      | Some vm \<Rightarrow> (case vm_ExecuteContract vm vmContext of
          (_, Some err) \<Rightarrow> Inl err
        | (None, None) \<Rightarrow> Inl nil_ptr
        | (Some vmResult, None) \<Rightarrow>
            if vr_Code vmResult \<noteq> ReturnCode_Ok then Inl (ErrOther (vr_ErrMsg vmResult)) else Inr (vr_GasUsed vmResult)))"

definition UniversalType_names :: "(32 word \<times> string) list" where
  "UniversalType_names = [(TransactionUniversalType_Transfer, ''Transfer''), (TransactionUniversalType_ContractDeploy, ''ContractDeploy''),
     (TransactionUniversalType_ContractInvoke, ''ContractInvoke''), (TransactionUniversalType_NativeInvoke, ''NativeInvoke''),
     (5, ''Relay''), (6, ''DataTransfer'')]"

definition UniversalType_String :: "32 word \<Rightarrow> string" where
  "UniversalType_String tr = (case map_of UniversalType_names tr of None \<Rightarrow> ''Unknown'' | Some s \<Rightarrow> s)"

definition UniversalType_Value :: "string \<Rightarrow> 32 word" where
  "UniversalType_Value trs = (case map_of (map (\<lambda>(t, s). (s, t)) UniversalType_names) trs of None \<Rightarrow> 0 | Some t \<Rightarrow> t)"

lemma UniversalType_Value_String: "UniversalType_Value (UniversalType_String tr) = (if 1 \<le> tr \<and> tr \<le> 6 then tr else 0)"
proof -
  have "\<not> (1 \<le> tr \<and> tr \<le> 6)" if "map_of UniversalType_names tr = None"
  proof
    assume "1 \<le> tr \<and> tr \<le> 6"
    then have "1 \<le> unat tr" "unat tr \<le> 6" by (simp_all add: word_le_nat_alt)
    then have "unat tr \<in> {1, 2, 3, 4, 5, 6}" by auto
    moreover have "tr = of_nat (unat tr)" by simp
    ultimately have "tr \<in> {1, 2, 3, 4, 5, 6}" by (elim insertE emptyE) (simp_all only: insert_iff of_nat_numeral of_nat_1 refl simp_thms)
    with that show False by (auto simp: UniversalType_names_def tx_type_defs split: if_splits)
  qed
  then show ?thesis
    by (auto simp: UniversalType_Value_def UniversalType_String_def UniversalType_names_def tx_type_defs split: option.splits if_splits)
qed

datatype ValidationResult = ValidationResult_Unknown | ValidationResult_Accecpt | ValidationResult_Reject | ValidationResult_Ignore

text \<open>The loop looks at \<open>valResult\<close>, the value so far, and not at what the validator said.\<close>

fun ApplyTransactionValidator :: "ValidationResult \<Rightarrow> (Transaction \<Rightarrow> error + ValidationResult) list \<Rightarrow> Transaction \<Rightarrow> error + ValidationResult" where
  "ApplyTransactionValidator valResult [] tx = Inr valResult"
| "ApplyTransactionValidator valResult (validator # rest) tx = (case validator tx of
     Inl e \<Rightarrow> Inl e
   | Inr valR \<Rightarrow> (case valResult of
       ValidationResult_Reject \<Rightarrow> Inr ValidationResult_Reject
     | ValidationResult_Ignore \<Rightarrow> ApplyTransactionValidator valR rest tx
     | _ \<Rightarrow> ApplyTransactionValidator valResult rest tx))"

section \<open>What a transfer moves\<close>

definition item_val :: "TargetItem \<Rightarrow> int" where
  "item_val i = (case ti_Value i of None \<Rightarrow> 0 | Some v \<Rightarrow> v)"

fun amt :: "TargetItem list \<Rightarrow> string \<Rightarrow> int" where
  "amt [] s = 0"
| "amt (i # rest) s = (if ti_Symbol i = s then item_val i else 0) + amt rest s"

text \<open>What the sender keeps: a decrease that is not covered is skipped.\<close>

fun kept :: "TargetItem list \<Rightarrow> (string \<Rightarrow> int) \<Rightarrow> string \<Rightarrow> int" where
  "kept [] b = b"
| "kept (i # rest) b = kept rest (if item_val i \<le> b (ti_Symbol i) then b(ti_Symbol i := b (ti_Symbol i) - item_val i) else b)"

lemma amt_nonneg: "\<forall>i \<in> set items. 0 \<le> item_val i \<Longrightarrow> 0 \<le> amt items s"
  by (induction items) auto

lemma amt_other: "s \<notin> ti_Symbol ` set items \<Longrightarrow> amt items s = 0"
  by (induction items) auto

lemma amt_distinct: "distinct (map ti_Symbol items) \<Longrightarrow> i \<in> set items \<Longrightarrow> amt items (ti_Symbol i) = item_val i"
  by (induction items) (auto simp: amt_other)

lemma kept_other: "s \<notin> ti_Symbol ` set items \<Longrightarrow> kept items b s = b s"
  by (induction items arbitrary: b) auto

lemma kept_exact:
  assumes "\<forall>i \<in> set items. 0 \<le> item_val i" "amt items s \<le> b s"
  shows "kept items b s = b s - amt items s"
  using assms
proof (induction items arbitrary: b)
  case (Cons i rest)
  have "0 \<le> amt rest s" by (rule amt_nonneg) (use Cons.prems in simp)
  with Cons.prems have "kept rest (if item_val i \<le> b (ti_Symbol i) then b(ti_Symbol i := b (ti_Symbol i) - item_val i) else b) s
      = (if item_val i \<le> b (ti_Symbol i) then b(ti_Symbol i := b (ti_Symbol i) - item_val i) else b) s - amt rest s"
    by (intro Cons.IH) (auto split: if_splits)
  with Cons.prems \<open>0 \<le> amt rest s\<close> show ?case by auto
qed simp

lemma kept_nonneg: "0 \<le> b s \<Longrightarrow> 0 \<le> kept items b s"
  by (induction items arbitrary: b) auto

lemma BalanceDecrease_dom:
  assumes "bal_ok a" "BalanceDecrease a s v = Inr a'" "balance a k \<noteq> None"
  shows "balance a' k \<noteq> None"
proof -
  obtain m where m: "ac_Balances a = Some m" "sorted_keys m" using assms(1) by (auto simp: bal_ok_def split: option.splits)
  with assms(2) obtain w where "ac_Balances a' = Some (gm_set s (Some w) m)"
    by (auto simp: BalanceDecrease_def set_balance_def split: option.splits if_splits)
  with assms(3) m show ?thesis by (simp add: balance_def)
qed

lemma move_items_ok:
  assumes "bal_ok f" "bal_ok t" "\<forall>i \<in> set items. ti_Value i \<noteq> None \<and> balance f (ti_Symbol i) \<noteq> None"
  shows "\<exists>f' t'. move_items items f t = Inr (f', t') \<and> bal_ok f' \<and> bal_ok t' \<and> (\<forall>s. bal t' s = bal t s + amt items s) \<and> bal f' = kept items (bal f)"
  using assms
proof (induction items arbitrary: f t)
  case (Cons i rest)
  let ?s = "ti_Symbol i"
  obtain v where v: "ti_Value i = Some v" "item_val i = v" using Cons.prems(3) by (auto simp: item_val_def)
  obtain t1 where t1: "BalanceIncrease t ?s v = Inr t1" "bal_ok t1" "bal t1 = (bal t)(?s := bal t ?s + v)"
    using BalanceIncrease_ok [OF Cons.prems(2), of ?s v] by metis
  obtain f1 where f1: "bal_ok f1" "bal f1 = (if v \<le> bal f ?s then (bal f)(?s := bal f ?s - v) else bal f)"
    "\<forall>k. balance f k \<noteq> None \<longrightarrow> balance f1 k \<noteq> None" "move_items (i # rest) f t = move_items rest f1 t1"
  proof (cases "v \<le> bal f ?s")
    case True
    then obtain f1 where "BalanceDecrease f ?s v = Inr f1" "bal_ok f1" "bal f1 = (bal f)(?s := bal f ?s - v)"
      using BalanceDecrease_cases [OF Cons.prems(1), of ?s v] Cons.prems(3) by auto
    then show thesis using that [of f1] True v t1 BalanceDecrease_dom [OF Cons.prems(1), of ?s v f1] by simp
  next
    case False
    then have "BalanceDecrease f ?s v = Inl (ErrInsufficient ?s)"
      using BalanceDecrease_cases [OF Cons.prems(1), of ?s v] by simp
    then show thesis using that [of f] False v t1 Cons.prems(1) by (simp add: is_panic_def)
  qed
  have "\<forall>j \<in> set rest. ti_Value j \<noteq> None \<and> balance f1 (ti_Symbol j) \<noteq> None" using Cons.prems(3) f1(3) by simp
  from Cons.IH [OF f1(1) t1(2) this] obtain f' t' where r: "move_items rest f1 t1 = Inr (f', t')" "bal_ok f'" "bal_ok t'"
    "\<forall>s. bal t' s = bal t1 s + amt rest s" "bal f' = kept rest (bal f1)" by blast
  have "\<forall>s. bal t' s = bal t s + amt (i # rest) s" using r(4) t1(3) v by simp
  moreover have "bal f' = kept (i # rest) (bal f)" using r(5) f1(2) v by simp
  ultimately show ?case using r(1-3) f1(4) by auto
qed simp

lemma check_items_ok:
  assumes "bal_ok f" "\<forall>i \<in> set items. ti_Value i \<noteq> None \<and> balance f (ti_Symbol i) \<noteq> None \<and> item_val i \<le> bal f (ti_Symbol i)"
  shows "check_items fromAddr f items = Inr None"
  using assms(2)
proof (induction items)
  case (Cons i rest)
  from Cons.prems bal_okD(1) [OF assms(1), of "ti_Symbol i"] obtain v c where "ti_Value i = Some v" "balance f (ti_Symbol i) = Some (Some c)" "v \<le> c"
    by (auto simp: item_val_def bal_def)
  with Cons show ?case by simp
qed simp

text \<open>
  (C7) A transfer with enough money for the gas and for each item on its own is carried
  out: the target receives the sum of the items, the fee payer pays the gas, and the
  sender pays the sum exactly of those currencies where it has the sum. Each item is
  checked against the balance before the transfer, so with a currency named twice the
  target may receive what the sender does not pay. With distinct currencies nothing is
  made or lost.
\<close>

theorem transfer_balances:
  assumes "sv_GetAccount sv (NewFromBytes (th_FromAddr (tf_TransactionHead txfer))) = Inr f" "sv_GetAccount sv (tf_TargetAddr txfer) = Inr t"
    and "sv_GetAccount sv (NewFromBytes (uh_FeePayer (tf_UniversalHead txfer))) = Inr p" "bal_ok f" "bal_ok t" "bal_ok p"
    and "balance p TokenSymbol_Native \<noteq> None" "gasVal \<le> bal p TokenSymbol_Native" "tf_Targets txfer = Some items"
    and "\<forall>i \<in> set items. ti_Value i \<noteq> None \<and> 0 \<le> item_val i \<and> balance f (ti_Symbol i) \<noteq> None \<and> item_val i \<le> bal f (ti_Symbol i)"
  shows "\<exists>f' t' p'. transfer_accounts txt sv txfer gasVal = Inr (Inr (f', t', p')) \<and>
    (\<forall>s. bal t' s = bal t s + amt items s) \<and>
    (\<forall>i \<in> set items. let s = ti_Symbol i in bal f' s = bal f s - amt items s \<longleftrightarrow> amt items s \<le> bal f s) \<and>
    (\<forall>s. s \<notin> ti_Symbol ` set items \<longrightarrow> bal f' s = bal f s) \<and>
    bal p' = (bal p)(TokenSymbol_Native := bal p TokenSymbol_Native - gasVal) \<and>
    (distinct (map ti_Symbol items) \<longrightarrow> (\<forall>s. bal f' s + bal t' s = bal f s + bal t s))"
proof -
  have n: "\<forall>i \<in> set items. 0 \<le> item_val i" using assms(10) by blast
  obtain f' t' where m: "move_items items f t = Inr (f', t')" "\<forall>s. bal t' s = bal t s + amt items s" "bal f' = kept items (bal f)"
    using move_items_ok [OF assms(4,5), of items] assms(10) by blast
  obtain p' where p': "set_balance p TokenSymbol_Native (bal p TokenSymbol_Native - gasVal) = Inr p'"
    "bal p' = (bal p)(TokenSymbol_Native := bal p TokenSymbol_Native - gasVal)" using bal_okD(2) [OF assms(6)] by blast
  have c: "check_items a f items = Inr None" for a by (rule check_items_ok [OF assms(4)]) (use assms(10) in blast)
  have b: "balance p TokenSymbol_Native = Some (Some (bal p TokenSymbol_Native))"
    using assms(7) bal_okD(1) [OF assms(6), of TokenSymbol_Native] by (auto simp: bal_def)
  have r: "transfer_accounts txt sv txfer gasVal = Inr (Inr (f', t', p'))"
    using assms(8) by (simp add: transfer_accounts_def Let_def assms(1-3,9) b c m(1) p'(1) slice_list_def)
  have i: "bal f' s = bal f s - amt items s \<longleftrightarrow> amt items s \<le> bal f s" if "i \<in> set items" "s = ti_Symbol i" for i s
  proof
    assume "bal f' s = bal f s - amt items s"
    moreover have "0 \<le> bal f s" using assms(10) that by force
    then have "0 \<le> bal f' s" by (simp add: m(3) kept_nonneg)
    ultimately show "amt items s \<le> bal f s" by simp
  qed (simp add: m(3) kept_exact [of items s "bal f"] n)
  have o: "\<forall>s. s \<notin> ti_Symbol ` set items \<longrightarrow> bal f' s = bal f s" by (simp add: m(3) kept_other)
  have d: "bal f' s + bal t' s = bal f s + bal t s" if "distinct (map ti_Symbol items)" for s
  proof (cases "s \<in> ti_Symbol ` set items")
    case True
    then obtain j where j: "j \<in> set items" "s = ti_Symbol j" by blast
    then have "amt items s \<le> bal f s" using amt_distinct [OF that j(1)] assms(10) by simp
    with i [OF j] m(2) show ?thesis by simp
  qed (simp add: o m(2) amt_other)
  show ?thesis using r m(2) i o p'(2) d by (auto simp: Let_def)
qed

text \<open>A sender with five of a currency that sends four of it twice.\<close>

definition sample_account :: "string \<Rightarrow> (string \<times> int) list \<Rightarrow> Account" where
  "sample_account a bs = (NewDefaultAccount a)\<lparr>ac_Balances := Some (map (map_prod id Some) bs)\<rparr>"

definition sample_servant :: "unit txServant" where
  "sample_servant = \<lparr>sv_ChainID = [], sv_GasConfig = DefGasConfiguration (), sv_ChainConfig = DefChainConfiguration,
     sv_GetAccount = (\<lambda>a. Inr (sample_account a (if a = ''from'' then [(''X'', 5)] else [(''TPA'', 10 ^ 18)]))),
     sv_GetBalance = (\<lambda>a s. Inr (Some 0)), sv_GetNonce = (\<lambda>a. Inr 0), sv_GetTxPoolSize = 0,
     sv_GetLatestBlock = Inl (ErrOther ''no block''), sv_Crypt = (\<lambda>_. Some sample_crypt)\<rparr>"

definition sample_head :: TransactionHead where
  "sample_head = \<lparr>th_Category = str_bytes TransactionCategory_Topia_Universal, th_ChainID = [], th_Version = 1, th_TimeStamp = 0, th_Index = 0,
     th_FromAddr = str_bytes ''from'', th_Nonce = 1, th_Signature = [], th_XXX = []\<rparr>"

definition sample_uhead :: "32 word \<Rightarrow> TransactionUniversalHead" where
  "sample_uhead ty = \<lparr>uh_Version = 1, uh_FeePayer = str_bytes ''payer'', uh_GasPrice = 1000000000, uh_GasLimit = 50000, uh_Type = ty,
     uh_FeePayerSignature = [], uh_Options = 0, uh_XXX = []\<rparr>"

definition sample_transfer :: TransactionUniversalTransfer where
  "sample_transfer = \<lparr>tf_TransactionHead = sample_head, tf_UniversalHead = sample_uhead TransactionUniversalType_Transfer, tf_TargetAddr = ''to'',
     tf_Targets = Some [\<lparr>ti_Symbol = ''X'', ti_Value = Some 4\<rparr>, \<lparr>ti_Symbol = ''X'', ti_Value = Some 4\<rparr>]\<rparr>"

lemma sample_bal:
  "bal (sample_account a bs) s = (case map_of bs s of None \<Rightarrow> 0 | Some v \<Rightarrow> v)" "balance (sample_account a bs) s = map_option Some (map_of bs s)"
proof -
  show "balance (sample_account a bs) s = map_option Some (map_of bs s)"
    unfolding balance_def sample_account_def by (induction bs) auto
  then show "bal (sample_account a bs) s = (case map_of bs s of None \<Rightarrow> 0 | Some v \<Rightarrow> v)"
    by (simp add: bal_def split: option.splits)
qed

lemma sample_bal_ok: "bal_ok (sample_account a [(s, v)])"
  by (simp add: bal_ok_def sample_account_def)

theorem transfer_balances_witness:
  "\<exists>f' t' p'. transfer_accounts (\<lambda>_. []) sample_servant sample_transfer 7 = Inr (Inr (f', t', p')) \<and>
     bal t' ''X'' = 8 \<and> bal f' ''X'' \<noteq> 5 - 8 \<and> bal p' ''TPA'' = 10 ^ 18 - 7"
proof -
  have "sv_GetAccount sample_servant (NewFromBytes (th_FromAddr (tf_TransactionHead sample_transfer))) = Inr (sample_account ''from'' [(''X'', 5)])"
    "sv_GetAccount sample_servant (tf_TargetAddr sample_transfer) = Inr (sample_account ''to'' [(''TPA'', 10 ^ 18)])"
    "sv_GetAccount sample_servant (NewFromBytes (uh_FeePayer (tf_UniversalHead sample_transfer))) = Inr (sample_account ''payer'' [(''TPA'', 10 ^ 18)])"
    "tf_Targets sample_transfer = Some [\<lparr>ti_Symbol = ''X'', ti_Value = Some 4\<rparr>, \<lparr>ti_Symbol = ''X'', ti_Value = Some 4\<rparr>]"
    by (simp_all add: sample_servant_def sample_transfer_def sample_head_def sample_uhead_def NewFromBytes_def)
  note a = this
  from transfer_balances [OF a(1-3) sample_bal_ok sample_bal_ok sample_bal_ok _ _ a(4), of 7 "\<lambda>_. []"]
  show ?thesis by (auto simp: sample_bal TokenSymbol_Native_def item_val_def Let_def)
qed

section \<open>From a transfer to its transaction and back\<close>

definition items_ascii :: "TargetItem list option \<Rightarrow> bool" where
  "items_ascii ts \<longleftrightarrow> (\<forall>i \<in> set (slice_list ts). ascii (ti_Symbol i))"

lemma un_item_j [simp]: "un_item (j_item i) = Inr i"
proof -
  have "un_ptr un_big (j_ptr JNum (ti_Value i)) = Inr (ti_Value i)" by (rule un_ptr_j) simp
  then show ?thesis by (simp add: un_item_def j_item_def field_def to_lower_def)
qed

lemma transfer_json_parse:
  assumes "ascii targetAddr" "items_ascii targets"
  shows "Unmarshal (Some (transfer_json targetAddr targets)) = Inr (JObj [(''TargetAddr'', JStr targetAddr), (''Targets'', j_slice j_item targets)])"
proof -
  have "json_ok (j_ptr JNum v)" for v by (rule json_ok_ptr) simp
  then have "json_ok (j_slice j_item targets)"
    by (intro json_ok_slice) (use assms(2) in \<open>auto simp: items_ascii_def slice_list_def j_item_def ascii_def\<close>)
  then show ?thesis unfolding transfer_json_def by (intro Unmarshal_Marshal) (use assms(1) in \<open>simp add: ascii_def\<close>)
qed

lemma GetSpecificTransactionAction_transfer:
  assumes "ascii targetAddr" "items_ascii targets" "uh_Type uh = TransactionUniversalType_Transfer"
  shows "GetSpecificTransactionAction \<lparr>tu_Head = Some uh, tu_Data = Some \<lparr>ud_Specification = transfer_json targetAddr targets, ud_XXX = x\<rparr>, tu_XXX = y\<rparr> h =
    Inr (ActTransfer \<lparr>tf_TransactionHead = h, tf_UniversalHead = uh, tf_TargetAddr = targetAddr, tf_Targets = targets\<rparr>)"
proof -
  have "un_slice un_item (j_slice j_item targets) = Inr targets" by (rule un_slice_j) simp
  then show ?thesis
    by (simp add: GetSpecificTransactionAction_def transfer_json_parse [OF assms(1,2)] assms(3) field_def to_lower_def)
qed

lemma Construct_eq:
  assumes "crs_Sign cs payerPriv (transfer_json targetAddr targets) = Inr sig"
    and "crs_ConvertToPublic cs payerPriv = Inr payerPub" "crs_CreateAddress cs payerPub = Inr payer"
  shows "ConstructTransactionWithUniversalTransfer cs fromPriv payerPriv nonce gasPrice gasLimit targetAddr targets =
    NewTransaction cs fromPriv nonce TransactionCategory_Topia_Universal Transaction_Topia_Universal_V1
      (TransactionUniversal_Marshal (uw_TransactionUniversal (ContructTransactionUniversalWithHead h
        \<lparr>uh_Version = Transaction_Topia_Universal_V1, uh_FeePayer = str_bytes payer, uh_GasPrice = gasPrice, uh_GasLimit = gasLimit,
          uh_Type = TransactionUniversalType_Transfer, uh_FeePayerSignature = marshal_sign \<lparr>si_SignData = Some sig, si_PublicKey = Some payerPub\<rparr>,
          uh_Options = 0, uh_XXX = []\<rparr> (transfer_json targetAddr targets))))"
  by (simp add: ConstructTransactionWithUniversalTransfer_def assms Let_def ContructTransactionUniversalWithHead_def)

lemma Transfer_built:
  assumes laws: "crypt_laws blake4 cs cryptType" "crypt cryptType = Some cs"
    and from_key: "crs_ConvertToPublic cs fromPriv = Inr fromPub" "crs_CreateAddress cs fromPub = Inr a" "\<not> IsEth a"
    and payer_key: "crs_ConvertToPublic cs payerPriv = Inr payerPub" "crs_CreateAddress cs payerPub = Inr payer"
  obtains h uh sig where
    "ConstructTransactionWithUniversalTransfer cs (Some fromPriv) payerPriv nonce gasPrice gasLimit targetAddr targets =
       Inr (uni_tx (ContructTransactionUniversalWithHead h uh (transfer_json targetAddr targets)))"
    "bytes_str (th_Category h) = TransactionCategory_Topia_Universal" "th_FromAddr h = str_bytes a" "th_Nonce h = nonce"
    "uh_FeePayer uh = str_bytes payer" "uh_GasPrice uh = gasPrice" "uh_GasLimit uh = gasLimit" "uh_Type uh = TransactionUniversalType_Transfer"
    "uh_XXX uh = []" "crs_Verify cs payer (transfer_json targetAddr targets) (Some sig)"
    "unmarshal_sign (uh_FeePayerSignature uh) = Inr \<lparr>si_SignData = Some sig, si_PublicKey = Some payerPub\<rparr>"
    "\<forall>chainID. BasicVerify blake4 crypt chainID (uni_tx (ContructTransactionUniversalWithHead h uh (transfer_json targetAddr targets))) =
       Inr (if chainID = [] then VerifyResult_Accept else VerifyResult_Reject)"
proof -
  let ?d = "transfer_json targetAddr targets"
  obtain sig where sig: "crs_Sign cs payerPriv ?d = Inr sig" "crs_Verify cs payer ?d (Some sig)"
    using laws(1) payer_key unfolding crypt_laws_def by force
  define uh where "uh = \<lparr>uh_Version = Transaction_Topia_Universal_V1, uh_FeePayer = str_bytes payer, uh_GasPrice = gasPrice, uh_GasLimit = gasLimit,
    uh_Type = TransactionUniversalType_Transfer, uh_FeePayerSignature = marshal_sign \<lparr>si_SignData = Some sig, si_PublicKey = Some payerPub\<rparr>,
    uh_Options = 0, uh_XXX = []\<rparr>"
  define data where "data = TransactionUniversal_Marshal \<lparr>tu_Head = Some uh, tu_Data = Some \<lparr>ud_Specification = ?d, ud_XXX = []\<rparr>, tu_XXX = []\<rparr>"
  have "data \<noteq> []"
    by (simp add: data_def TransactionUniversal_Marshal_def TransactionUniversal_msg_def enc_bytes_def)
  from new_tx_verify [where crypt = crypt, OF laws from_key this, of TransactionCategory_Topia_Universal nonce Transaction_Topia_Universal_V1]
  obtain h where h: "NewTransaction cs (Some fromPriv) nonce TransactionCategory_Topia_Universal Transaction_Topia_Universal_V1 data =
      Inr \<lparr>tx_Head = Some h, tx_Data = Some \<lparr>td_Specification = data, td_XXX = []\<rparr>, tx_XXX = []\<rparr>"
    "th_Category h = str_bytes TransactionCategory_Topia_Universal" "th_FromAddr h = str_bytes a" "th_Nonce h = nonce"
    "\<And>chainID. BasicVerify blake4 crypt chainID \<lparr>tx_Head = Some h, tx_Data = Some \<lparr>td_Specification = data, td_XXX = []\<rparr>, tx_XXX = []\<rparr> =
       Inr (if chainID = [] then VerifyResult_Accept else VerifyResult_Reject)"
    by auto
  have u: "uni_tx (ContructTransactionUniversalWithHead h uh ?d) = \<lparr>tx_Head = Some h, tx_Data = Some \<lparr>td_Specification = data, td_XXX = []\<rparr>, tx_XXX = []\<rparr>"
    by (simp add: uni_tx_def ContructTransactionUniversalWithHead_def data_def)
  have c: "ConstructTransactionWithUniversalTransfer cs (Some fromPriv) payerPriv nonce gasPrice gasLimit targetAddr targets =
      Inr (uni_tx (ContructTransactionUniversalWithHead h uh ?d))"
    unfolding u h(1) [symmetric]
    using Construct_eq [OF sig(1) payer_key] by (simp add: data_def uh_def ContructTransactionUniversalWithHead_def)
  show thesis by (rule that [OF c, of sig]) (use h u sig in \<open>simp_all add: uh_def\<close>)
qed

text \<open>The size of the data of a transaction.\<close>

definition spec_len :: "error + Transaction \<Rightarrow> nat" where
  "spec_len r = (case r of Inr tx \<Rightarrow> (case tx_Data tx of Some d \<Rightarrow> length (td_Specification d) | None \<Rightarrow> 0) | Inl _ \<Rightarrow> 0)"

lemma spec_len_uni_tx: "spec_len (Inr (uni_tx u)) = length (TransactionUniversal_Marshal (uw_TransactionUniversal u))"
  by (simp add: spec_len_def uni_tx_def)

lemma CreatTransactionAction_built:
  assumes "bytes_str (th_Category h) = TransactionCategory_Topia_Universal" "uh_Type uh = TransactionUniversalType_Transfer" "uh_XXX uh = []"
    and "ascii targetAddr" "items_ascii targets"
    and "length (TransactionUniversal_Marshal (uw_TransactionUniversal (ContructTransactionUniversalWithHead h uh (transfer_json targetAddr targets)))) < 2 ^ 63"
  shows "CreatTransactionAction (uni_tx (ContructTransactionUniversalWithHead h uh (transfer_json targetAddr targets))) =
    Inr (ActTransfer \<lparr>tf_TransactionHead = h, tf_UniversalHead = uh, tf_TargetAddr = targetAddr, tf_Targets = targets\<rparr>)"
proof -
  let ?u = "uw_TransactionUniversal (ContructTransactionUniversalWithHead h uh (transfer_json targetAddr targets))"
  have "TransactionUniversal_Unmarshal (TransactionUniversal_Marshal ?u) = Inr ?u"
    by (rule TransactionUniversal_roundtrip [OF _ assms(6)])
      (simp add: ContructTransactionUniversalWithHead_def TransactionUniversal_plain_def TransactionUniversalHead_plain_def TransactionUniversalData_plain_def assms(3))
  then show ?thesis
    using assms(1) GetSpecificTransactionAction_transfer [OF assms(4,5,2)]
    by (simp add: CreatTransactionAction_def uni_tx_def ContructTransactionUniversalWithHead_def)
qed


text \<open>Bounds on the sizes of what is written.\<close>

lemma sov_le: "sov x \<le> 10"
proof -
  have "top_bit f n \<le> n" for f n using length_dropWhile_le [of Not "map f (rev [0..<n])"] by (simp add: top_bit_def)
  from this [of "bit (x OR 1)" 64] show ?thesis by (simp add: sov_def bits_Len64_def)
qed

lemma size_bytes_le: "size_bytes n l \<le> 20 + l"
  using sov_le [of "word_of_nat (8 * n + 2)"] sov_le [of "word_of_nat l"] by (simp add: size_bytes_def)

fun val_cap :: "pval \<Rightarrow> nat" where
  "val_cap (PBytes bs) = 20 + length bs"
| "val_cap v = 20"

fun flat_val :: "pval \<Rightarrow> bool" where
  "flat_val (PRep _) = False"
| "flat_val (PMsg _) = False"
| "flat_val _ = True"

lemma size_vals_le: "list_all flat_val vs \<Longrightarrow> size_vals n vs \<le> sum_list (map val_cap vs)"
proof (induction vs arbitrary: n)
  case (Cons v vs)
  have "size_val n v \<le> val_cap v"
  proof (cases v)
    case (PNum w)
    then show ?thesis using sov_le [of "word_of_nat (8 * n)"] sov_le [of w] by simp
  next
    case (PBytes bs)
    then show ?thesis using size_bytes_le [of n "length bs"] by simp
  qed (use Cons.prems in auto)
  with Cons.IH [of "Suc n"] Cons.prems show ?case by simp
qed simp

lemma universal_size:
  "length (TransactionUniversal_Marshal (uw_TransactionUniversal (ContructTransactionUniversalWithHead h uh data))) \<le>
    220 + length (uh_FeePayer uh) + length (uh_FeePayerSignature uh) + length data + length (uh_XXX uh)"
proof -
  let ?h = "TransactionUniversalHead_msg uh" and ?d = "TransactionUniversalData_msg \<lparr>ud_Specification = data, ud_XXX = []\<rparr>"
  have "size_msg ?h \<le> 140 + length (uh_FeePayer uh) + length (uh_FeePayerSignature uh) + length (uh_XXX uh)"
    using size_vals_le [of "vals ?h" 1] by (simp add: TransactionUniversalHead_msg_def)
  moreover have "size_msg ?d \<le> 20 + length data"
    using size_vals_le [of "vals ?d" 1] by (simp add: TransactionUniversalData_msg_def)
  moreover have "length (TransactionUniversal_Marshal (uw_TransactionUniversal (ContructTransactionUniversalWithHead h uh data))) =
      size_bytes 1 (size_msg ?h) + size_bytes 2 (size_msg ?d)"
    by (simp add: TransactionUniversal_Marshal_def TransactionUniversal_msg_def ContructTransactionUniversalWithHead_def length_enc length_enc_bytes numeral_eq_Suc)
  ultimately show ?thesis using size_bytes_le [of 1 "size_msg ?h"] size_bytes_le [of 2 "size_msg ?d"] by linarith
qed

lemma length_b64: "length (b64_enc bs) \<le> 4 + 2 * length bs"
  by (induction bs rule: b64_enc.induct) (simp_all add: Let_def)

lemma length_print_str: "length (print_str s) \<le> 2 + 6 * length s"
proof -
  have "length (esc_char c) \<le> 6" for c by (simp add: esc_char_def Let_def)
  then have "length (concat (map esc_char s)) \<le> 6 * length s" by (induction s) (auto intro: add_mono)
  then show ?thesis by (simp add: print_str_def)
qed

lemma length_marshal_sign:
  "length (marshal_sign \<lparr>si_SignData = Some s, si_PublicKey = Some k\<rparr>) \<le> 200 + 12 * (length s + length k)"
proof -
  have "length (print_str (b64_enc x)) \<le> 26 + 12 * length x" for x
    using length_print_str [of "b64_enc x"] length_b64 [of x] by linarith
  note b = this [of s] this [of k]
  have "length (print_str ''SignData'') = 10" "length (print_str ''PublicKey'') = 11" by code_simp+
  with b show ?thesis by (simp add: marshal_sign_def Marshal_def j_bytes_def str_bytes_def)
qed

lemma spec_len_NewTransaction: "spec_len (NewTransaction cs priv nonce category ver data) \<le> length data"
  by (simp add: spec_len_def NewTransaction_def split: option.splits sum.splits)

lemma sample_spec_len:
  "spec_len (ConstructTransactionWithUniversalTransfer sample_crypt (Some (replicate 32 7)) (replicate 32 7) 1 2 3 ''to'' (Some [\<lparr>ti_Symbol = ''X'', ti_Value = Some 4\<rparr>])) < 2 ^ 63"
proof -
  let ?d = "transfer_json ''to'' (Some [\<lparr>ti_Symbol = ''X'', ti_Value = Some 4\<rparr>])"
  let ?a = "''t3'' @ b32_EncodeToString (replicate 32 7 @ [1, 2, 3, 4])"
  define uh where "uh = \<lparr>uh_Version = Transaction_Topia_Universal_V1, uh_FeePayer = str_bytes ?a, uh_GasPrice = 2, uh_GasLimit = 3,
    uh_Type = TransactionUniversalType_Transfer, uh_FeePayerSignature = marshal_sign \<lparr>si_SignData = Some (replicate 32 7 @ ?d), si_PublicKey = Some (replicate 32 7)\<rparr>,
    uh_Options = 0, uh_XXX = []\<rparr>"
  have "crs_Sign sample_crypt k d = Inr (k @ d)" for k d by (simp add: sample_crypt_def)
  from Construct_eq [OF this sample_key(1,2), of "Some (replicate 32 7)" 1 2 3, of _ _ sample_head, folded uh_def]
  have "ConstructTransactionWithUniversalTransfer sample_crypt (Some (replicate 32 7)) (replicate 32 7) 1 2 3 ''to'' (Some [\<lparr>ti_Symbol = ''X'', ti_Value = Some 4\<rparr>]) =
      NewTransaction sample_crypt (Some (replicate 32 7)) 1 TransactionCategory_Topia_Universal Transaction_Topia_Universal_V1
        (TransactionUniversal_Marshal (uw_TransactionUniversal (ContructTransactionUniversalWithHead sample_head uh ?d)))"
    unfolding uh_def .
  note c = this
  have "spec_len (ConstructTransactionWithUniversalTransfer sample_crypt (Some (replicate 32 7)) (replicate 32 7) 1 2 3 ''to'' (Some [\<lparr>ti_Symbol = ''X'', ti_Value = Some 4\<rparr>])) \<le>
      220 + length (uh_FeePayer uh) + length (uh_FeePayerSignature uh) + length ?d + length (uh_XXX uh)"
    unfolding c by (rule le_trans [OF spec_len_NewTransaction universal_size])
  moreover have "length ?d < 100" by code_simp
  moreover have "length (uh_FeePayer uh) = 60"
    by (simp add: uh_def str_bytes_def b32_EncodeToString_def length_b32_digits enc_len_def)
  moreover have "length (uh_FeePayerSignature uh) \<le> 200 + 12 * (length (replicate 32 (7 :: byte) @ ?d) + length (replicate 32 (7 :: byte)))"
    unfolding uh_def by (simp only: TransactionUniversalHead.select_convs length_marshal_sign)
  ultimately show ?thesis by (simp add: uh_def)
qed


section \<open>Which transfers are accepted\<close>

lemma Estimate_transfer:
  assumes "ComputeGasPrice (en_float E) (en_chunk_left E) sv = Inr price" "uh_Type uh = TransactionUniversalType_Transfer"
  shows "Estimate E sv (ContructTransactionUniversalWithHead h uh data) = Inr (Some 0)"
  using assms by (simp add: Estimate_def uni_DataLen_def ContructTransactionUniversalWithHead_def Let_def tx_type_defs)

lemma accept_if_iff [simp]: "accept_if b = Inr VerifyResult_Accept \<longleftrightarrow> b"
  by (simp add: accept_if_def)

lemma ApplyTransactionVerifiers_never_Ignore:
  "\<forall>v \<in> set vs. v \<noteq> Inr VerifyResult_Ignore \<Longrightarrow> ApplyTransactionVerifiers VerifyResult_Accept vs \<noteq> Inr VerifyResult_Ignore"
  by (induction vs) (auto split: sum.splits VerifyResult.splits)

lemma TxUniVerify_Accept:
  assumes "BasicVerify (en_blake4 E) (sv_Crypt sv) (sv_ChainID sv) (uni_tx u) = Inr VerifyResult_Accept"
    and "tu_Head (uw_TransactionUniversal u) = Some uh"
  shows "TxUniVerify E sv u = Inr VerifyResult_Accept \<longleftrightarrow>
      TransactionUniversalPayerAddressVerifier E uh = Inr VerifyResult_Accept \<and> TransactionUniversalGasVerifier E sv u uh = Inr VerifyResult_Accept \<and>
      TransactionUniversalNonceVerifier sv u = Inr VerifyResult_Accept \<and> TransactionUniversalPayerSignatureVerifier E sv u uh = Inr VerifyResult_Accept"
    "TxUniVerify E sv u \<noteq> Inr VerifyResult_Ignore"
proof -
  have u: "TxUniVerify E sv u = ApplyTransactionVerifiers VerifyResult_Accept
         [TransactionUniversalPayerAddressVerifier E uh, TransactionUniversalGasVerifier E sv u uh,
          TransactionUniversalNonceVerifier sv u, TransactionUniversalPayerSignatureVerifier E sv u uh]"
    by (simp add: TxUniVerify_def assms)
  show "TxUniVerify E sv u = Inr VerifyResult_Accept \<longleftrightarrow>
      TransactionUniversalPayerAddressVerifier E uh = Inr VerifyResult_Accept \<and> TransactionUniversalGasVerifier E sv u uh = Inr VerifyResult_Accept \<and>
      TransactionUniversalNonceVerifier sv u = Inr VerifyResult_Accept \<and> TransactionUniversalPayerSignatureVerifier E sv u uh = Inr VerifyResult_Accept"
    unfolding u ApplyTransactionVerifiers_Accept by simp
  have "TransactionUniversalPayerAddressVerifier E uh \<noteq> Inr VerifyResult_Ignore" "TransactionUniversalNonceVerifier sv u \<noteq> Inr VerifyResult_Ignore"
    "TransactionUniversalGasVerifier E sv u uh \<noteq> Inr VerifyResult_Ignore" "TransactionUniversalPayerSignatureVerifier E sv u uh \<noteq> Inr VerifyResult_Ignore"
    by (simp_all add: TransactionUniversalPayerAddressVerifier_def TransactionUniversalNonceVerifier_def TransactionUniversalGasVerifier_def
        TransactionUniversalPayerSignatureVerifier_def accept_if_def Let_def split: sum.splits option.splits)
  then show "TxUniVerify E sv u \<noteq> Inr VerifyResult_Ignore"
    unfolding u by (intro ApplyTransactionVerifiers_never_Ignore) simp
qed

lemma after_uni_verify_Accept:
  "vR \<noteq> Inr VerifyResult_Ignore \<Longrightarrow> after_uni_verify vR rest = Inr VerifyResult_Accept \<longleftrightarrow> vR = Inr VerifyResult_Accept \<and> rest = Inr VerifyResult_Accept"
  by (auto simp: after_uni_verify_def split: sum.splits VerifyResult.splits)


definition sample_env :: "unit env" where
  "sample_env = \<lparr>en_float = \<lparr>pw_of_u64 = (\<lambda>_. ()), pw_add = (\<lambda>_ _. ()), pw_pow = (\<lambda>_ _. ()), pw_to_u64 = (\<lambda>_. 0)\<rparr>,
     en_chunk_left = (\<lambda>_. \<lparr>dc_Version = 0, dc_RefIndex = 0, dc_Txs = [], dc_XXX = []\<rparr>), en_blake = (\<lambda>x. x), en_blake4 = (\<lambda>_. [1, 2, 3, 4]), en_txt = (\<lambda>_. []),
     en_vms = (\<lambda>_. \<lparr>vm_DeployContract = (\<lambda>_. (None, None)),
       vm_ExecuteContract = (\<lambda>c. (Some \<lparr>vr_Code = 8, vr_ErrMsg = ''trap'', vr_GasUsed = 11, vr_Data = []\<rparr>, None))\<rparr>), en_nodeID = ''n''\<rparr>"

lemma sample_price: "ComputeGasPrice (en_float E) (en_chunk_left E) sample_servant = Inr 1000000000"
  by (simp add: ComputeGasPrice_def sample_servant_def DefChainConfiguration_def DefGasConfiguration_def Let_def)


section \<open>Calls of contracts\<close>

lemma result_size:
  "length (TransactionResultUniversal_Marshal rs) \<le> 120 + length (ru_TxHash rs) + length (ru_ErrString rs) + length (ru_Data rs) + length (ru_XXX rs)"
  using size_vals_le [of "vals (TransactionResultUniversal_msg rs)" 1]
  unfolding TransactionResultUniversal_Marshal_def length_enc TransactionResultUniversal_msg_def by (simp del: size_val.simps size_vals.simps)

lemma GetSpecificTransactionAction_invoke:
  assumes "ascii (iv_ContractAddr txiv)" "ascii (iv_Method txiv)" "ascii (iv_Args txiv)"
    and "uh_Type (iv_UniversalHead txiv) = TransactionUniversalType_ContractInvoke"
  shows "GetSpecificTransactionAction (uw_TransactionUniversal (ContructTransactionUniversalWithHead h (iv_UniversalHead txiv) (iv_DataBytes txiv))) (iv_TransactionHead txiv) =
    Inr (ActInvoke txiv)"
proof -
  have "Unmarshal (Some (iv_DataBytes txiv)) =
      Inr (JObj [(''ContractAddr'', JStr (iv_ContractAddr txiv)), (''Method'', JStr (iv_Method txiv)), (''Args'', JStr (iv_Args txiv))])"
    unfolding iv_DataBytes_def by (rule Unmarshal_Marshal) (use assms(1-3) in \<open>simp add: ascii_def\<close>)
  then show ?thesis
    by (simp add: GetSpecificTransactionAction_def ContructTransactionUniversalWithHead_def assms(4) tx_type_defs field_def to_lower_def)
qed

text \<open>
  (C37) Executing a call reports success whatever the machine reports, also when the
  machine failed, and as gas the basic gas and the gas of the machine. The estimate adds
  the basic gas of the call to this once more.
\<close>

theorem invoke_basic_gas_twice:
  assumes run: "vm_ExecuteContract (en_vms E (iv_vmType txiv)) (iv_context (en_nodeID E) sv txiv) = (Some vmResult, err)"
    and basic: "basic = computeBasicGas (sv_GasConfig sv) (word_of_nat (length (iv_DataBytes txiv)))"
    and asc: "ascii (iv_ContractAddr txiv)" "ascii (iv_Method txiv)" "ascii (iv_Args txiv)"
    and ty: "uh_Type (iv_UniversalHead txiv) = TransactionUniversalType_ContractInvoke"
    and price: "ComputeGasPrice (en_float E) (en_chunk_left E) sv = Inr price"
    and fits: "2 * unat basic + unat (vr_GasUsed vmResult) < 2 ^ 64"
    and len: "length (en_blake E (Transaction_Marshal (uni_tx (ContructTransactionUniversalWithHead (iv_TransactionHead txiv) (iv_UniversalHead txiv) (iv_DataBytes txiv))))) < 2 ^ 60"
      "length (vm_errMsg (en_txt E) vmResult err) < 2 ^ 60" "length (vr_Data vmResult) < 2 ^ 60"
  shows "\<exists>rs. iv_Execute (en_blake E) (en_txt E) (en_vms E) (en_nodeID E) sv txiv = Inr (uni_result (iv_TransactionHead txiv) rs) \<and>
      TransactionResultUniversal_Unmarshal (TransactionResultUniversal_Marshal rs) = Inr rs \<and>
      ru_Status rs = TransactionResultUniversal_OK \<and> bytes_str (ru_ErrString rs) = vm_errMsg (en_txt E) vmResult err \<and>
      unat (ru_GasUsed rs) = unat basic + unat (vr_GasUsed vmResult) \<and>
      iv_Estimate E sv txiv =
        Inr (Some ((2 * uint basic + uint (vr_GasUsed vmResult)) * uint (max price (uh_GasPrice (iv_UniversalHead txiv)))))"
proof -
  let ?h = "iv_TransactionHead txiv" and ?uh = "iv_UniversalHead txiv" and ?g = "vr_GasUsed vmResult"
  let ?u = "ContructTransactionUniversalWithHead ?h ?uh (iv_DataBytes txiv)"
  define rs where "rs = \<lparr>ru_Version = th_Version ?h, ru_TxHash = iv_HashBytes (en_blake E) txiv, ru_GasUsed = basic + ?g,
    ru_ErrString = str_bytes (vm_errMsg (en_txt E) vmResult err), ru_Status = TransactionResultUniversal_OK, ru_Data = vr_Data vmResult, ru_XXX = []\<rparr>"
  have x: "iv_Execute (en_blake E) (en_txt E) (en_vms E) (en_nodeID E) sv txiv = Inr (uni_result ?h rs)"
    by (simp add: iv_Execute_def run Let_def rs_def basic)
  have "length (ru_TxHash rs) < 2 ^ 60" "length (ru_ErrString rs) < 2 ^ 60" "length (ru_Data rs) < 2 ^ 60" "ru_XXX rs = []"
    using len by (simp_all add: rs_def iv_HashBytes_def action_HashBytes_def hash_or_nil_def tx_HashBytes_def str_bytes_def)
  then have "length (TransactionResultUniversal_Marshal rs) < 2 ^ 63" using result_size [of rs] by simp
  then have r: "TransactionResultUniversal_Unmarshal (TransactionResultUniversal_Marshal rs) = Inr rs"
    by (intro TransactionResultUniversal_roundtrip) (simp_all add: TransactionResultUniversal_plain_def rs_def)
  have g: "unat (basic + ?g) = unat basic + unat ?g" "unat (basic + (basic + ?g)) = 2 * unat basic + unat ?g"
    using fits by (simp_all add: unat_word_ariths)
  then have "basic \<le> basic + (basic + ?g)" "basic + ?g \<le> basic + (basic + ?g)" by (simp_all add: word_le_nat_alt)
  then have a: "SafeAddUint64 basic (basic + ?g) = Inr (basic + (basic + ?g))" by (simp add: SafeAddUint64_def Let_def)
  have m: "(if price > uh_GasPrice ?uh then price else uh_GasPrice ?uh) = max price (uh_GasPrice ?uh)" by (auto simp: max_def not_le)
  have "iv_Estimate E sv txiv = Inr (Some (SafeMul (basic + (basic + ?g)) (max price (uh_GasPrice ?uh))))"
    using GetSpecificTransactionAction_invoke [OF asc ty, of ?h] ty m
    by (simp add: iv_Estimate_def Estimate_def price uni_DataLen_def ContructTransactionUniversalWithHead_def basic [symmetric] tx_type_defs
        act_Execute_def x uni_result_def r) (simp add: rs_def a)
  moreover have "uint (basic + (basic + ?g)) = 2 * uint basic + uint ?g"
    using arg_cong [OF g(2), of int] by simp
  ultimately show ?thesis using x r g(1) by (intro exI [of _ rs]) (simp add: rs_def SafeMul_def)
qed

definition sample_invoke :: TransactionUniversalInvoke where
  "sample_invoke = \<lparr>iv_TransactionHead = sample_head, iv_UniversalHead = sample_uhead TransactionUniversalType_ContractInvoke,
     iv_ContractAddr = ''c'', iv_Method = ''m'', iv_Args = ''1''\<rparr>"

theorem invoke_basic_gas_twice_witness:
  "\<exists>rs. iv_Execute (\<lambda>_. [0]) (\<lambda>_. []) (en_vms sample_env) ''n'' sample_servant sample_invoke = Inr (uni_result sample_head rs) \<and>
     ru_Status rs = TransactionResultUniversal_OK \<and> bytes_str (ru_ErrString rs) = ''VM execute error: trap'' \<and>
     iv_Estimate (sample_env\<lparr>en_blake := \<lambda>_. [0]\<rparr>) sample_servant sample_invoke =
       Inr (Some ((2 * (50000 + 1500 * 44) + 11) * 1000000000))"
proof -
  let ?E = "sample_env\<lparr>en_blake := \<lambda>_. [0]\<rparr>"
  let ?r = "\<lparr>vr_Code = 8, vr_ErrMsg = ''trap'', vr_GasUsed = 11, vr_Data = []\<rparr>"
  have f: "en_txt sample_env = (\<lambda>_. [])" "en_nodeID sample_env = ''n''" by (simp_all add: sample_env_def)
  have l: "length (iv_DataBytes sample_invoke) = 44" by code_simp
  have e: "vm_errMsg (\<lambda>_. []) ?r None = ''VM execute error: trap''" by code_simp
  have a: "ascii (iv_ContractAddr sample_invoke)" "ascii (iv_Method sample_invoke)" "ascii (iv_Args sample_invoke)" by code_simp+
  have b: "computeBasicGas (sv_GasConfig sample_servant) (word_of_nat (length (iv_DataBytes sample_invoke))) = 116000"
    by (simp add: l computeBasicGas_def sample_servant_def DefGasConfiguration_def)
  have t: "uh_Type (iv_UniversalHead sample_invoke) = TransactionUniversalType_ContractInvoke" "uh_GasPrice (iv_UniversalHead sample_invoke) = 1000000000"
    "iv_TransactionHead sample_invoke = sample_head"
    by (simp_all add: sample_invoke_def sample_uhead_def)
  have run: "vm_ExecuteContract (en_vms ?E (iv_vmType sample_invoke)) (iv_context (en_nodeID ?E) sample_servant sample_invoke) = (Some ?r, None)"
    by (simp add: sample_env_def)
  from invoke_basic_gas_twice [OF run b [symmetric] a t(1) sample_price]
  show ?thesis by (auto simp: e t f)
qed

section \<open>Further behaviour\<close>

text \<open>
  The sign of an amount is never checked. An item with a negative amount passes the
  balance check of any sender who has the currency, and moves money from the target to the
  sender, below zero if need be.
\<close>

theorem negative_item_takes:
  assumes "sv_GetAccount sv (NewFromBytes (th_FromAddr (tf_TransactionHead txfer))) = Inr f" "sv_GetAccount sv (tf_TargetAddr txfer) = Inr t"
    and "sv_GetAccount sv (NewFromBytes (uh_FeePayer (tf_UniversalHead txfer))) = Inr p" "bal_ok f" "bal_ok t" "bal_ok p"
    and "balance p TokenSymbol_Native \<noteq> None" "gasVal \<le> bal p TokenSymbol_Native"
    and "tf_Targets txfer = Some [\<lparr>ti_Symbol = s, ti_Value = Some (- v)\<rparr>]" "0 < v" "balance f s \<noteq> None" "0 \<le> bal f s"
  shows "\<exists>f' t' p'. transfer_accounts txt sv txfer gasVal = Inr (Inr (f', t', p')) \<and> bal f' s = bal f s + v \<and> bal t' s = bal t s - v"
proof -
  let ?items = "[\<lparr>ti_Symbol = s, ti_Value = Some (- v)\<rparr>]"
  have ok: "\<forall>i \<in> set ?items. ti_Value i \<noteq> None \<and> balance f (ti_Symbol i) \<noteq> None \<and> item_val i \<le> bal f (ti_Symbol i)"
    using assms(10-12) by (simp add: item_val_def)
  obtain f' t' where m: "move_items ?items f t = Inr (f', t')" "\<forall>s. bal t' s = bal t s + amt ?items s" "bal f' = kept ?items (bal f)"
    using move_items_ok [OF assms(4,5), of ?items] ok by blast
  obtain p' where p': "set_balance p TokenSymbol_Native (bal p TokenSymbol_Native - gasVal) = Inr p'" using bal_okD(2) [OF assms(6)] by blast
  note c = check_items_ok [OF assms(4) ok]
  have b: "balance p TokenSymbol_Native = Some (Some (bal p TokenSymbol_Native))"
    using assms(7) bal_okD(1) [OF assms(6), of TokenSymbol_Native] by (auto simp: bal_def)
  have "transfer_accounts txt sv txfer gasVal = Inr (Inr (f', t', p'))"
    using assms(8) by (simp add: transfer_accounts_def Let_def assms(1-3,9) b c m(1) p' slice_list_def del: check_items.simps move_items.simps)
  moreover have "bal f' s = bal f s + v" "bal t' s = bal t s - v" using m(2,3) assms(10,12) by (simp_all add: item_val_def)
  ultimately show ?thesis by blast
qed

theorem negative_item_takes_witness:
  "\<exists>f' t' p'. transfer_accounts (\<lambda>_. []) sample_servant (sample_transfer\<lparr>tf_Targets := Some [\<lparr>ti_Symbol = ''X'', ti_Value = Some (- 3)\<rparr>]\<rparr>) 7 = Inr (Inr (f', t', p')) \<and>
     bal f' ''X'' = 8 \<and> bal t' ''X'' = - 3"
proof -
  let ?t = "sample_transfer\<lparr>tf_Targets := Some [\<lparr>ti_Symbol = ''X'', ti_Value = Some (- 3)\<rparr>]\<rparr>"
  have "sv_GetAccount sample_servant (NewFromBytes (th_FromAddr (tf_TransactionHead ?t))) = Inr (sample_account ''from'' [(''X'', 5)])"
    "sv_GetAccount sample_servant (tf_TargetAddr ?t) = Inr (sample_account ''to'' [(''TPA'', 10 ^ 18)])"
    "sv_GetAccount sample_servant (NewFromBytes (uh_FeePayer (tf_UniversalHead ?t))) = Inr (sample_account ''payer'' [(''TPA'', 10 ^ 18)])"
    "tf_Targets ?t = Some [\<lparr>ti_Symbol = ''X'', ti_Value = Some (- 3)\<rparr>]"
    by (simp_all add: sample_servant_def sample_transfer_def sample_head_def sample_uhead_def NewFromBytes_def)
  note a = this
  from negative_item_takes [OF a(1-3) sample_bal_ok sample_bal_ok sample_bal_ok _ _ a(4), of 7 "\<lambda>_. []"]
  show ?thesis by (simp add: sample_bal TokenSymbol_Native_def)
qed



text \<open>The validators of a transaction cannot reject it.\<close>

lemma ApplyTransactionValidator_never_rejects:
  "ApplyTransactionValidator ValidationResult_Accecpt vs tx = Inr r \<Longrightarrow> r = ValidationResult_Accecpt"
  by (induction vs) (auto split: sum.splits)

end
