(* ===== verification/Exec_Scheduler.thy ===== *)
theory Exec_Scheduler
  imports Tx_Universal Comp_Builder
begin

text \<open>
  The execution scheduler (\<open>src/execution\<close>): packed transactions are executed on composed
  states, version by version, kept in a list with their results, and committed as blocks.
  The composed states, the ledger, the transaction pool, the event hub and the network
  form the world, which the scheduler uses through the operations of a record; the locale
  \<open>exec_world\<close> states what it relies on, and the composed states of \<open>Comp_Builder\<close> provide it.
\<close>

section \<open>Packed transactions\<close>

record 'tr PackedTxs =
  pt_StateVersion :: u64
  pt_TxRoot :: bytes
  pt_TxList :: "Transaction list"
  pt_treeTx :: "'tr option"

record 'tr PackedTxsResult =
  pr_StateVersion :: u64
  pr_TxRSRoot :: bytes
  pr_TxsResult :: "TransactionResult list"
  pr_treeTxRS :: "'tr option"

record 'tr executionPackedTxs =
  ex_compState :: nat
  ex_packedTxs :: "'tr PackedTxs"
  ex_packedTxsRS :: "'tr PackedTxsResult option"

definition ex_StateVersion :: "'tr executionPackedTxs \<Rightarrow> u64" where
  "ex_StateVersion ept = pt_StateVersion (ex_packedTxs ept)"

text \<open>
  The operations on the world. A composed state is an index; \<open>xo_Execute\<close> runs an action on
  it, with a nil result for none; \<open>xo_fifth\<close> is \<open>int(float32(n) * 0.2)\<close>.
\<close>

record ('w, 'tr) exec_ops =
  xo_CompSState :: "'w \<Rightarrow> nat \<Rightarrow> CompSState"
  xo_UpdateCompSState :: "'w \<Rightarrow> nat \<Rightarrow> CompSState \<Rightarrow> 'w"
  xo_SetLatestBlock :: "'w \<Rightarrow> nat \<Rightarrow> Block \<Rightarrow> 'w \<times> error option"
  xo_SetLatestBlockResult :: "'w \<Rightarrow> nat \<Rightarrow> BlockResult \<Rightarrow> 'w \<times> error option"
  xo_UpdateEpoch :: "'w \<Rightarrow> nat \<Rightarrow> BlockHead \<Rightarrow> 'w \<times> error option"
  xo_Commit :: "'w \<Rightarrow> nat \<Rightarrow> 'w \<times> error option"
  xo_GetLatestBlock :: "'w \<Rightarrow> 'w \<times> (error + Block)"
  xo_GetLatestBlockResult :: "'w \<Rightarrow> 'w \<times> (error + BlockResult)"
  xo_Execute :: "'w \<Rightarrow> nat \<Rightarrow> TransactionAction \<Rightarrow> 'w \<times> (error + TransactionResult option)"
  xo_RemoveTxByKey :: "'w \<Rightarrow> string \<Rightarrow> 'w"
  xo_TrigBlockAdded :: "'w \<Rightarrow> Block \<Rightarrow> 'w"
  xo_Publish :: "'w \<Rightarrow> bytes \<Rightarrow> 'w"
  xo_tree :: "(bytes \<times> bytes) list \<Rightarrow> 'tr"
  xo_Prove :: "'tr \<Rightarrow> bytes \<Rightarrow> error + bytes"
  xo_root :: "(bytes \<times> bytes) list \<Rightarrow> bytes"
  xo_blake :: "bytes \<Rightarrow> bytes"
  xo_fifth :: "u64 \<Rightarrow> int"

fun exec_txs :: "('w, 'tr) exec_ops \<Rightarrow> 'w \<Rightarrow> nat \<Rightarrow> Transaction list \<Rightarrow> 'w \<times> (error + TransactionResult list)" where
  "exec_txs X w c [] = (w, Inr [])"
| "exec_txs X w c (txItem # rest) = (case CreatTransactionAction txItem of
     Inl e \<Rightarrow> (w, Inl e)
   | Inr act \<Rightarrow> (case xo_Execute X w c act of
       (w', Inl e) \<Rightarrow> (w', Inl e)
     | (w', Inr None) \<Rightarrow> (w', Inl (ErrOther ''tx execute error''))
     | (w', Inr (Some txRS)) \<Rightarrow> (case exec_txs X w' c rest of
         (w'', Inl e) \<Rightarrow> (w'', Inl e)
       | (w'', Inr rs) \<Rightarrow> (w'', Inr (txRS # rs)))))"

definition ept_Execute :: "('w, 'tr) exec_ops \<Rightarrow> 'w \<Rightarrow> 'tr executionPackedTxs \<Rightarrow> 'w \<times> (error + 'tr PackedTxsResult)" where
  "ept_Execute X w ept =
     (let packedTxs = ex_packedTxs ept;
          packedTxsRS = \<lparr>pr_StateVersion = pt_StateVersion packedTxs, pr_TxRSRoot = [], pr_TxsResult = [], pr_treeTxRS = None\<rparr> in
      if length (pt_TxList packedTxs) = 0 then (w, Inr packedTxsRS)
      else (case exec_txs X w (ex_compState ept) (pt_TxList packedTxs) of
        (w', Inl e) \<Rightarrow> (w', Inl e)
      | (w', Inr rs) \<Rightarrow> (w', Inr (packedTxsRS\<lparr>pr_TxsResult := rs, pr_TxRSRoot := TxResultRoot (xo_root X) (xo_blake X) rs\<rparr>))))"

section \<open>The scheduler\<close>

datatype SchedulerState = SchedulerState_Unknown | SchedulerState_Idle | SchedulerState_Executing | SchedulerState_Commiting

definition SchedulerState_String :: "SchedulerState \<Rightarrow> string" where
  "SchedulerState_String s = (case s of SchedulerState_Idle \<Rightarrow> ''Idle'' | SchedulerState_Executing \<Rightarrow> ''Executing''
     | SchedulerState_Commiting \<Rightarrow> ''Commiting'' | _ \<Rightarrow> ''Unknown'')"

definition SchedulerState_Value :: "string \<Rightarrow> SchedulerState" where
  "SchedulerState_Value s = (if s = ''Idle'' then SchedulerState_Idle else if s = ''Executing'' then SchedulerState_Executing
     else if s = ''Commiting'' then SchedulerState_Commiting else SchedulerState_Unknown)"

lemma SchedulerState_Value_String: "SchedulerState_Value (SchedulerState_String s) = s"
  by (cases s) (simp_all add: SchedulerState_String_def SchedulerState_Value_def)

definition MaxAvail_Count :: "32 word" where "MaxAvail_Count = 5"

record 'tr executionScheduler =
  sch_schedulerState :: SchedulerState
  sch_lastStateVersion :: u64
  sch_exePackedCount :: "32 word"
  sch_exePackedTxsList :: "'tr executionPackedTxs list"
  sch_MaxPrepareMsgCache :: u64

definition NewExecutionScheduler :: "u64 \<Rightarrow> 'tr executionScheduler" where
  "NewExecutionScheduler maxCache = \<lparr>sch_schedulerState = SchedulerState_Idle, sch_lastStateVersion = 0, sch_exePackedCount = 0,
     sch_exePackedTxsList = [], sch_MaxPrepareMsgCache = maxCache\<rparr>"

definition updateTree :: "('w, 'tr) exec_ops \<Rightarrow> 'tr PackedTxs \<Rightarrow> 'tr PackedTxsResult \<Rightarrow> 'tr PackedTxs \<times> 'tr PackedTxsResult" where
  "updateTree X txPacked txRSPacked =
     (let n = length (pt_TxList txPacked); hh = (\<lambda>r. let h = hash_or_nil r in (h, h)) in
      (txPacked\<lparr>pt_treeTx := Some (xo_tree X (map (\<lambda>tx. hh (tx_HashBytes (xo_blake X) tx)) (pt_TxList txPacked)))\<rparr>,
       txRSPacked\<lparr>pr_treeTxRS := Some (xo_tree X (map (\<lambda>r. hh (txr_HashBytes (xo_blake X) r)) (take n (pr_TxsResult txRSPacked))))\<rparr>))"

text \<open>Removing from the front of an empty list dereferences a nil element.\<close>

definition trim :: "('w, 'tr) exec_ops \<Rightarrow> u64 \<Rightarrow> 'a list \<Rightarrow> error + 'a list" where
  "trim X maxCache xs =
     (if int (length xs) \<ge> sint maxCache then
        (let iCycle = nat (xo_fifth X maxCache) in if iCycle \<le> length xs then Inr (drop iCycle xs) else Inl nil_ptr)
      else Inr xs)"

definition run_packed ::
  "('w, 'tr) exec_ops \<Rightarrow> 'w \<Rightarrow> 'tr executionScheduler \<Rightarrow> 'tr PackedTxs \<Rightarrow> nat \<Rightarrow>
   ('w \<times> 'tr executionScheduler) \<times> (error + 'tr PackedTxsResult option)" where
  "run_packed X w sch txPacked c =
     (case ept_Execute X w \<lparr>ex_compState = c, ex_packedTxs = txPacked, ex_packedTxsRS = None\<rparr> of
        (w1, Inl err) \<Rightarrow> ((w1, sch), Inl err)
      | (w1, Inr packedTxsRS) \<Rightarrow>
          (let w2 = xo_UpdateCompSState X w1 c CompSState_Executed;
               (txPacked', packedTxsRS') = updateTree X txPacked packedTxsRS;
               xs = sch_exePackedTxsList sch @ [\<lparr>ex_compState = c, ex_packedTxs = txPacked', ex_packedTxsRS = Some packedTxsRS'\<rparr>];
               w3 = foldl (\<lambda>w tx. xo_RemoveTxByKey X w (case tx_TxID (xo_blake X) tx of Inl _ \<Rightarrow> [] | Inr txID \<Rightarrow> txID)) w2 (pt_TxList txPacked);
               sch1 = sch\<lparr>sch_lastStateVersion := pt_StateVersion txPacked, sch_exePackedCount := sch_exePackedCount sch + 1,
                 sch_exePackedTxsList := xs\<rparr> in
           case trim X (sch_MaxPrepareMsgCache sch) xs of
             Inl e \<Rightarrow> ((w3, sch1\<lparr>sch_exePackedTxsList := []\<rparr>), Inl e)
           | Inr xs' \<Rightarrow> ((w3, sch1\<lparr>sch_exePackedTxsList := xs'\<rparr>), Inr (Some packedTxsRS'))))"

text \<open>\<open>gotLock\<close> is the answer of \<open>TryLockTimeout\<close>. The state is back to idle on every way out.\<close>

definition ExecutePackedTx ::
  "('w, 'tr) exec_ops \<Rightarrow> bool \<Rightarrow> 'w \<Rightarrow> 'tr executionScheduler \<Rightarrow> 'tr PackedTxs \<Rightarrow> nat \<Rightarrow>
   ('w \<times> 'tr executionScheduler) \<times> (error + 'tr PackedTxsResult option)" where
  "ExecutePackedTx X gotLock w sch0 txPacked c =
     (if \<not> gotLock then ((w, sch0), Inl (ErrOther ''A packedTxs is executing, try later again''))
      else
        (let sch = sch0\<lparr>sch_schedulerState := SchedulerState_Idle\<rparr>; v = pt_StateVersion txPacked in
         case sch_exePackedTxsList sch of
           [] \<Rightarrow>
             if sch_lastStateVersion sch \<noteq> 0 \<and> v \<le> sch_lastStateVersion sch
             then ((w, sch), Inl (ErrOther ''Invalid packedTxs state version''))
             else run_packed X w sch txPacked c
         | exeTxsF # _ \<Rightarrow>
             (let exeTxsL = last (sch_exePackedTxsList sch) in
              if v \<ge> ex_StateVersion exeTxsF \<and> v \<le> ex_StateVersion exeTxsL then
                (case find (\<lambda>x. ex_StateVersion x = v) (sch_exePackedTxsList sch) of
                   None \<Rightarrow> ((w, sch), Inl nil_ptr)
                 | Some x \<Rightarrow> ((w, sch), Inr (ex_packedTxsRS x)))
              else if v \<noteq> ex_StateVersion exeTxsL + 1 then ((w, sch), Inl (ErrOther ''Invalid packedTxs state version''))
              else run_packed X w sch txPacked c)))"

definition MaxStateVersion :: "'tr executionScheduler \<Rightarrow> Block \<Rightarrow> error + u64" where
  "MaxStateVersion sch latestBlock =
     (if sch_exePackedCount sch \<ge> MaxAvail_Count then Inl (ErrOther ''Haved reached max avail state version'')
      else (case blk_Head latestBlock of
        None \<Rightarrow> Inl nil_ptr
      | Some h \<Rightarrow> Inr (if bh_Height h > sch_lastStateVersion sch then bh_Height h else sch_lastStateVersion sch)))"

text \<open>
  The loop of \<open>CompositionStateAtVersion\<close>; not returning is the value \<open>None\<close>. When the state
  at the version has been committed the loop stays at the same element.
\<close>

partial_function (option) at_version_loop ::
  "('w, 'tr) exec_ops \<Rightarrow> 'w \<Rightarrow> u64 \<Rightarrow> 'tr executionPackedTxs list \<Rightarrow> nat option option" where
  "at_version_loop X w stateVersion xs = (case xs of
     [] \<Rightarrow> Some None
   | exeTxsF # rest \<Rightarrow>
       if ex_StateVersion exeTxsF \<noteq> stateVersion then at_version_loop X w stateVersion rest
       else if xo_CompSState X w (ex_compState exeTxsF) \<noteq> CompSState_Commited then Some (Some (ex_compState exeTxsF))
       else at_version_loop X w stateVersion xs)"

definition CompositionStateAtVersion :: "('w, 'tr) exec_ops \<Rightarrow> 'w \<Rightarrow> 'tr executionScheduler \<Rightarrow> u64 \<Rightarrow> nat option option" where
  "CompositionStateAtVersion X w sch stateVersion =
     (if length (sch_exePackedTxsList sch) > 0 then at_version_loop X w stateVersion (sch_exePackedTxsList sch) else Some None)"

fun prove_all :: "('w, 'tr) exec_ops \<Rightarrow> 'tr \<Rightarrow> 'tr \<Rightarrow> bytes list \<Rightarrow> bytes list \<Rightarrow> error + bytes list \<times> bytes list" where
  "prove_all X t rt [] _ = Inr ([], [])"
| "prove_all X t rt (h # hs) rhs = (case xo_Prove X t h of
     Inl e \<Rightarrow> Inl e
   | Inr p \<Rightarrow> (case rhs of
       [] \<Rightarrow> Inl (Panic ''index out of range'')
     | rh # rhs' \<Rightarrow> (case xo_Prove X rt rh of
         Inl e \<Rightarrow> Inl e
       | Inr rp \<Rightarrow> (case prove_all X t rt hs rhs' of Inl e \<Rightarrow> Inl e | Inr (ps, rps) \<Rightarrow> Inr (p # ps, rp # rps)))))"

text \<open>A wrong number of hashes is logged, and the function goes on.\<close>

definition PackedTxProofForValidity ::
  "('w, 'tr) exec_ops \<Rightarrow> 'tr executionScheduler \<Rightarrow> u64 \<Rightarrow> bytes list \<Rightarrow> bytes list \<Rightarrow> error + bytes list \<times> bytes list" where
  "PackedTxProofForValidity X sch stateVersion txHashs txResultHashes =
     (if length (sch_exePackedTxsList sch) > 0 then
        (case find (\<lambda>x. ex_StateVersion x = stateVersion) (sch_exePackedTxsList sch) of
           None \<Rightarrow> Inl (ErrOther ''Can't find state version to verify'')
         | Some exeTxsF \<Rightarrow> (case ex_packedTxsRS exeTxsF of
             None \<Rightarrow> Inl (ErrOther ''No exist responding packed txs result'')
           | Some rs \<Rightarrow> (case (pt_treeTx (ex_packedTxs exeTxsF), pr_treeTxRS rs) of
               (Some t, Some rt) \<Rightarrow> prove_all X t rt txHashs txResultHashes
             | _ \<Rightarrow> if txHashs = [] then Inr ([], []) else Inl nil_ptr)))
      else Inl (ErrOther ''No any packed txs at present''))"

definition CompositionStateOfExePackedTxs :: "'tr executionScheduler \<Rightarrow> u64 \<Rightarrow> error + nat" where
  "CompositionStateOfExePackedTxs sch stateVersion =
     (case find (\<lambda>x. ex_StateVersion x = stateVersion) (sch_exePackedTxsList sch) of
        Some x \<Rightarrow> Inr (ex_compState x) | None \<Rightarrow> Inl (ErrOther ''Can't find composition state''))"

section \<open>Commit\<close>

definition BlockResultHead_OK :: "32 word" where "BlockResultHead_OK = 0"

definition constructBlockAndBlockResult ::
  "('w, 'tr) exec_ops \<Rightarrow> 32 word \<Rightarrow> BlockHead \<Rightarrow> BlockResult \<Rightarrow> 'tr PackedTxs \<Rightarrow> 'tr PackedTxsResult \<Rightarrow> error + Block \<times> BlockResult" where
  "constructBlockAndBlockResult X refIndex blockHead latestBlockResult packedTxs packedTxsRS =
     (case BlockHead_DeepCopy blockHead of
        Inl e \<Rightarrow> Inl (ErrOther ''Block head deep copy err'')
      | Inr dstBH \<Rightarrow>
          (let bdChunk = \<lparr>dc_Version = bh_Version blockHead, dc_RefIndex = refIndex, dc_Txs = map Transaction_Marshal (pt_TxList packedTxs), dc_XXX = []\<rparr>;
               blockData = \<lparr>bd_Version = bh_Version blockHead, bd_DataChunks = [BlockDataChunk_Marshal bdChunk], bd_XXX = []\<rparr>;
               block = \<lparr>blk_Head = Some dstBH, blk_Data = Some blockData, blk_XXX = []\<rparr> in
           case Block_HashBytes (xo_blake X) block of
             Inl e \<Rightarrow> Inl e
           | Inr blockHash \<Rightarrow> (case BlockResult_HashBytes (xo_blake X) latestBlockResult of
               Inl e \<Rightarrow> Inl e
             | Inr blockRSHash \<Rightarrow>
                 (let bRSHeadChunk = \<lparr>rhc_Version = bh_Version blockHead, rhc_RefIndex = 0, rhc_TxResultHashRoot = pr_TxRSRoot packedTxsRS, rhc_XXX = []\<rparr>;
                      blockResultHead = \<lparr>brh_Version = bh_Version blockHead, brh_PrevBlockResult = blockRSHash, brh_BlockHash = blockHash,
                        brh_ResultHeadChunks = [BlockResultHeadChunk_Marshal bRSHeadChunk], brh_Status = BlockResultHead_OK, brh_ErrMsg = [], brh_Reserved = [], brh_XXX = []\<rparr>;
                      bRSDataChunk = \<lparr>rdc_Version = bh_Version blockHead, rdc_TxResults = map (\<lambda>r. hash_or_nil (txr_HashBytes (xo_blake X) r)) (pr_TxsResult packedTxsRS), rdc_XXX = []\<rparr>;
                      blockResultData = \<lparr>brd_Version = bh_Version blockHead, brd_ResultDataChunks = [BlockResultDataChunk_Marshal bRSDataChunk], brd_XXX = []\<rparr> in
                  Inr (block, \<lparr>br_Head = Some blockResultHead, br_Data = Some blockResultData, br_XXX = []\<rparr>)))))"

text \<open>The error of \<open>UpdateEpoch\<close> is dropped.\<close>

definition CommitBlock :: "('w, 'tr) exec_ops \<Rightarrow> 'w \<Rightarrow> Block \<Rightarrow> BlockResult \<Rightarrow> nat option \<Rightarrow> 'w \<times> error option" where
  "CommitBlock X w block blockRS compState = (case blk_Head block of
     None \<Rightarrow> (w, Some nil_ptr)
   | Some bh \<Rightarrow> (case compState of
       None \<Rightarrow> (xo_TrigBlockAdded X w block, None)
     | Some c \<Rightarrow> (case xo_SetLatestBlock X w c block of
         (w1, Some err) \<Rightarrow> (w1, Some err)
       | (w1, None) \<Rightarrow> (case xo_SetLatestBlockResult X w1 c blockRS of
           (w2, Some err) \<Rightarrow> (w2, Some err)
         | (w2, None) \<Rightarrow> (case xo_UpdateEpoch X w2 c bh of (w3, epochErr) \<Rightarrow>
             (case epochErr of
                Some (Panic msg) \<Rightarrow> (w3, Some (Panic msg))
              | _ \<Rightarrow> (case xo_Commit X w3 c of
                  (w4, Some errCMMState) \<Rightarrow> (w4, Some errCMMState)
                | (w4, None) \<Rightarrow> (xo_TrigBlockAdded X (xo_UpdateCompSState X w4 c CompSState_Commited) block, None))))))))"

definition ChainMessage_BlockInfo :: "32 word" where "ChainMessage_BlockInfo = 2"

definition block_info_msg :: "Block \<Rightarrow> BlockResult \<Rightarrow> bytes" where
  "block_info_msg block blockRS = ChainMessage_Marshal \<lparr>cm_MsgType = ChainMessage_BlockInfo,
     cm_Data = PubSubMessageBlockInfo_Marshal \<lparr>bi_Block = Block_Marshal block, bi_BlockResult = BlockResult_Marshal blockRS, bi_XXX = []\<rparr>, cm_XXX = []\<rparr>"

text \<open>
  The error of reading the latest block and its result is not looked at: without them the
  code goes on with nil.
\<close>

definition CommitPackedTx ::
  "('w, 'tr) exec_ops \<Rightarrow> 'w \<Rightarrow> 'tr executionScheduler \<Rightarrow> u64 \<Rightarrow> 32 word \<Rightarrow> BlockHead \<Rightarrow> ('w \<times> 'tr executionScheduler) \<times> error option" where
  "CommitPackedTx X w sch0 stateVersion refIndex blockHead =
     (let sch = sch0\<lparr>sch_schedulerState := SchedulerState_Idle\<rparr> in
      if length (sch_exePackedTxsList sch) = 0 then ((w, sch), Some (ErrOther ''Empty executed packedTxs''))
      else (case find (\<lambda>x. stateVersion = ex_StateVersion x) (sch_exePackedTxsList sch) of
        None \<Rightarrow> ((w, sch), Some (ErrOther ''Can't find state version to commit''))
      | Some exeTxsF \<Rightarrow> (case xo_GetLatestBlock X w of
          (w1, Inl e) \<Rightarrow> ((w1, sch), Some nil_ptr)
        | (w1, Inr latestBlock) \<Rightarrow> (case xo_GetLatestBlockResult X w1 of
            (w2, Inl e) \<Rightarrow> ((w2, sch), Some nil_ptr)
          | (w2, Inr latestBlockResult) \<Rightarrow> (case blk_Head latestBlock of
              None \<Rightarrow> ((w2, sch), Some nil_ptr)
            | Some lh \<Rightarrow>
                if bh_Height lh \<ge> bh_Height blockHead then ((w2, sch), None)
                else (case ex_packedTxsRS exeTxsF of
                  None \<Rightarrow> ((w2, sch), Some nil_ptr)
                | Some rs \<Rightarrow> (case constructBlockAndBlockResult X refIndex blockHead latestBlockResult (ex_packedTxs exeTxsF) rs of
                    Inl err \<Rightarrow> ((w2, sch), Some err)
                  | Inr (block, blockRS) \<Rightarrow> (case CommitBlock X w2 block blockRS (Some (ex_compState exeTxsF)) of
                      (w3, Some err) \<Rightarrow> ((w3, sch), Some err)
                    | (w3, None) \<Rightarrow> ((xo_Publish X w3 (block_info_msg block blockRS), sch\<lparr>sch_exePackedCount := sch_exePackedCount sch - 1\<rparr>), None)))))))))"

section \<open>Runs of the scheduler\<close>

text \<open>
  A run of the scheduler. The world may be any at each call: others change it in between.
  An execution is fresh if its version was not in the list; a commit releases a slot if it
  lowers the count.
\<close>

datatype sched_event = EvExecute u64 bool | EvCommit bool

definition versions :: "'tr executionScheduler \<Rightarrow> u64 list" where
  "versions sch = map ex_StateVersion (sch_exePackedTxsList sch)"

inductive sched_run :: "('w, 'tr) exec_ops \<Rightarrow> u64 \<Rightarrow> 'tr executionScheduler \<Rightarrow> sched_event list \<Rightarrow> bool"
  for X :: "('w, 'tr) exec_ops" and maxCache :: u64 where
  start: "sched_run X maxCache (NewExecutionScheduler maxCache) []"
| execute: "sched_run X maxCache sch evs \<Longrightarrow> ExecutePackedTx X gotLock w sch txPacked c = ((w', sch'), r) \<Longrightarrow>
    sched_run X maxCache sch' (evs @ [EvExecute (pt_StateVersion txPacked) (pt_StateVersion txPacked \<notin> set (versions sch) \<and> isl r = False)])"
| commit: "sched_run X maxCache sch evs \<Longrightarrow> CommitPackedTx X w sch stateVersion refIndex blockHead = ((w', sch'), err) \<Longrightarrow>
    sched_run X maxCache sch' (evs @ [EvCommit (sch_exePackedCount sch' \<noteq> sch_exePackedCount sch)])"

fun executed :: "sched_event list \<Rightarrow> u64 list" where
  "executed [] = []"
| "executed (EvExecute v True # evs) = v # executed evs"
| "executed (_ # evs) = executed evs"

fun released :: "sched_event list \<Rightarrow> nat" where
  "released [] = 0"
| "released (EvCommit True # evs) = Suc (released evs)"
| "released (_ # evs) = released evs"

lemma executed_append [simp]: "executed (xs @ ys) = executed xs @ executed ys"
  by (induction xs rule: executed.induct) auto

lemma released_append [simp]: "released (xs @ ys) = released xs + released ys"
  by (induction xs rule: released.induct) auto

definition asked :: "sched_event list \<Rightarrow> u64 set" where
  "asked evs = {v. \<exists>b. EvExecute v b \<in> set evs}"

text \<open>The share that is cut leaves something of a full list.\<close>

definition cache_ok :: "('w, 'tr) exec_ops \<Rightarrow> u64 \<Rightarrow> bool" where
  "cache_ok X maxCache \<longleftrightarrow> xo_fifth X maxCache \<le> 0 \<or> xo_fifth X maxCache < sint maxCache"

lemma trim_ok:
  assumes "cache_ok X m" "xs \<noteq> []"
  obtains k where "trim X m xs = Inr (drop k xs)" "k < length xs"
proof (cases "int (length xs) \<ge> sint m")
  case True
  define k where "k = nat (xo_fifth X m)"
  have "0 < length xs" using assms(2) by simp
  then have "k < length xs" using assms(1) True unfolding cache_ok_def k_def by linarith
  then show thesis using that [of k] True by (simp add: trim_def k_def [symmetric])
next
  case False
  then show thesis using that [of 0] assms(2) by (simp add: trim_def)
qed

lemma exec_txs_length: "exec_txs X w c txs = (w', Inr rs) \<Longrightarrow> length rs = length txs"
  by (induction txs arbitrary: w rs) (auto split: sum.splits option.splits prod.splits)

text \<open>What a fresh execution adds to the list.\<close>

definition entry_of :: "'tr PackedTxs \<Rightarrow> nat \<Rightarrow> 'tr executionPackedTxs \<Rightarrow> bool" where
  "entry_of tp c x \<longleftrightarrow> ex_compState x = c \<and> ex_StateVersion x = pt_StateVersion tp \<and> pt_TxList (ex_packedTxs x) = pt_TxList tp \<and>
    (\<exists>rs. ex_packedTxsRS x = Some rs \<and> pr_StateVersion rs = pt_StateVersion tp \<and> length (pr_TxsResult rs) = length (pt_TxList tp))"

lemma ept_Execute_ok:
  assumes "ept_Execute X w \<lparr>ex_compState = c, ex_packedTxs = tp, ex_packedTxsRS = None\<rparr> = (w', Inr rs)"
  shows "pr_StateVersion rs = pt_StateVersion tp" "length (pr_TxsResult rs) = length (pt_TxList tp)"
  using assms by (auto simp: ept_Execute_def Let_def dest: exec_txs_length split: if_splits prod.splits sum.splits)

lemma run_packed_cases:
  assumes "run_packed X w sch tp c = ((w', sch'), r)" "cache_ok X (sch_MaxPrepareMsgCache sch)"
  obtains (failed) e where "r = Inl e" "sch' = sch"
  | (ran) rs x k where "r = Inr (Some rs)" "entry_of tp c x" "ex_packedTxsRS x = Some rs" "k \<le> length (sch_exePackedTxsList sch)"
      "sch' = sch\<lparr>sch_lastStateVersion := pt_StateVersion tp, sch_exePackedCount := sch_exePackedCount sch + 1,
         sch_exePackedTxsList := drop k (sch_exePackedTxsList sch @ [x])\<rparr>"
proof (cases "ept_Execute X w \<lparr>ex_compState = c, ex_packedTxs = tp, ex_packedTxsRS = None\<rparr>")
  case (Pair w1 r1)
  show thesis
  proof (cases r1)
    case (Inl e)
    with Pair assms(1) show thesis by (intro failed [of e]) (simp_all add: run_packed_def)
  next
    case (Inr rs)
    obtain tp' rs' where t: "updateTree X tp rs = (tp', rs')" by force
    define x where "x = \<lparr>ex_compState = c, ex_packedTxs = tp', ex_packedTxsRS = Some rs'\<rparr>"
    obtain k where k: "trim X (sch_MaxPrepareMsgCache sch) (sch_exePackedTxsList sch @ [x]) = Inr (drop k (sch_exePackedTxsList sch @ [x]))"
      "k < length (sch_exePackedTxsList sch @ [x])"
      using trim_ok [OF assms(2), of "sch_exePackedTxsList sch @ [x]"] by blast
    have "entry_of tp c x"
      using ept_Execute_ok [OF Pair [unfolded Inr]] t by (auto simp: entry_of_def x_def ex_StateVersion_def updateTree_def Let_def)
    then show thesis
      using assms(1) k by (intro ran [of rs' x k]) (simp_all add: run_packed_def Pair Inr t Let_def x_def)
  qed
qed

lemma executed_asked: "set (executed evs) \<subseteq> asked evs"
  unfolding asked_def by (induction evs rule: executed.induct) auto

definition consec :: "u64 list \<Rightarrow> bool" where
  "consec vs \<longleftrightarrow> (\<exists>a. map unat vs = [a..<a + length vs])"

lemma consec_nth: "consec vs \<Longrightarrow> i < length vs \<Longrightarrow> unat (vs ! i) = unat (vs ! 0) + i"
proof -
  assume "consec vs" and i: "i < length vs"
  then obtain a where a: "map unat vs = [a..<a + length vs]" by (auto simp: consec_def)
  have "unat (vs ! j) = a + j" if "j < length vs" for j
    using arg_cong [OF a, of "\<lambda>xs. xs ! j"] that by simp
  from this [of i] this [of 0] i show "unat (vs ! i) = unat (vs ! 0) + i" by (cases vs) auto
qed

lemma consec_drop: "consec vs \<Longrightarrow> consec (drop k vs)"
proof -
  assume "consec vs"
  then obtain a where "map unat vs = [a..<a + length vs]" by (auto simp: consec_def)
  then have "map unat (drop k vs) = [a + k..<a + length vs]" by (metis drop_map drop_upt)
  then show ?thesis by (cases "k \<le> length vs") (auto simp: consec_def intro!: exI [of _ "a + k"])
qed

lemma consec_snoc:
  assumes "consec vs" "vs \<noteq> []" "last vs \<noteq> - 1"
  shows "consec (vs @ [last vs + 1])" "last vs + 1 \<notin> set vs"
proof -
  obtain a where a: "map unat vs = [a..<a + length vs]" using assms(1) by (auto simp: consec_def)
  have "unat (last vs) = last (map unat vs)" using assms(2) by (simp add: last_map)
  then have "unat (last vs) = a + length vs - 1" using a assms(2) by (cases vs rule: rev_cases) (simp_all add: last_conv_nth)
  moreover have "unat (last vs + 1) = Suc (unat (last vs))"
    using unatSuc [of "last vs"] assms(3) by (simp add: add.commute eq_neg_iff_add_eq_0)
  ultimately have u: "unat (last vs + 1) = a + length vs" using assms(2) by (cases vs) auto
  with a show "consec (vs @ [last vs + 1])" by (auto simp: consec_def intro!: exI [of _ a])
  have "\<forall>v \<in> set vs. unat v < a + length vs"
    using arg_cong [OF a, of set] by force
  with u show "last vs + 1 \<notin> set vs" by force
qed

lemma find_mem: "find P xs = Some x \<Longrightarrow> x \<in> set xs \<and> P x"
  by (induction xs) (auto split: if_splits)

text \<open>The ways a call of \<open>ExecutePackedTx\<close> can end.\<close>

lemma ExecutePackedTx_cases:
  assumes "ExecutePackedTx X g w sch tp c = ((w', sch'), r)" "cache_ok X (sch_MaxPrepareMsgCache sch)"
  obtains (none) st where "sch' = sch\<lparr>sch_schedulerState := st\<rparr>" "pt_StateVersion tp \<in> set (versions sch) \<or> isl r"
  | (ran_case) rs x k where "r = Inr (Some rs)" "entry_of tp c x" "k \<le> length (sch_exePackedTxsList sch)"
      "sch' = sch\<lparr>sch_schedulerState := SchedulerState_Idle, sch_lastStateVersion := pt_StateVersion tp, sch_exePackedCount := sch_exePackedCount sch + 1,
         sch_exePackedTxsList := drop k (sch_exePackedTxsList sch @ [x])\<rparr>"
      "versions sch \<noteq> [] \<longrightarrow> pt_StateVersion tp = last (versions sch) + 1"
proof -
  let ?sch = "sch\<lparr>sch_schedulerState := SchedulerState_Idle\<rparr>"
  have co: "cache_ok X (sch_MaxPrepareMsgCache ?sch)" using assms(2) by simp
  have run: thesis if "run_packed X w ?sch tp c = ((w', sch'), r)" "versions sch \<noteq> [] \<longrightarrow> pt_StateVersion tp = last (versions sch) + 1"
    using that(1) co
  proof (cases rule: run_packed_cases)
    case (failed e)
    then show thesis by (intro none [of SchedulerState_Idle]) simp_all
  next
    case (ran rs x k)
    then show thesis using that(2) by (intro ran_case [of rs x k]) simp_all
  qed
  have keep: thesis if "sch' = sch \<or> sch' = ?sch" "pt_StateVersion tp \<in> set (versions sch) \<or> isl r"
    using that none [of "sch_schedulerState sch"] none [of SchedulerState_Idle] by auto
  show thesis
  proof (cases "sch_exePackedTxsList sch")
    case Nil
    show thesis
    proof (cases "\<not> g \<or> (sch_lastStateVersion sch \<noteq> 0 \<and> pt_StateVersion tp \<le> sch_lastStateVersion sch)")
      case True
      then show thesis using assms(1) Nil by (intro keep) (auto simp: ExecutePackedTx_def Let_def split: if_splits)
    next
      case False
      then show thesis using assms(1) Nil by (intro run) (auto simp: ExecutePackedTx_def Let_def versions_def split: if_splits)
    qed
  next
    case (Cons F rest)
    let ?L = "last (F # rest)" and ?v = "pt_StateVersion tp"
    have vL: "last (versions sch) = ex_StateVersion ?L" by (simp add: versions_def Cons last_map)
    consider "\<not> g" | "g" "ex_StateVersion F \<le> ?v \<and> ?v \<le> ex_StateVersion ?L" | "g" "\<not> (ex_StateVersion F \<le> ?v \<and> ?v \<le> ex_StateVersion ?L)" by blast
    then show thesis
    proof cases
      case 2
      show thesis
      proof (cases "find (\<lambda>x. ex_StateVersion x = ?v) (F # rest)")
        case None
        then show thesis using assms(1) Cons 2 by (intro keep) (auto simp: ExecutePackedTx_def Let_def)
      next
        case (Some x)
        then have "x \<in> set (F # rest)" "ex_StateVersion x = ?v" using find_mem by fastforce+
        then have "?v \<in> set (versions sch)" unfolding versions_def Cons by force
        then show thesis using assms(1) Cons 2 Some by (intro keep) (auto simp: ExecutePackedTx_def Let_def simp del: find.simps)
      qed
    next
      case 3
      show thesis
      proof (cases "?v = ex_StateVersion ?L + 1")
        case True
        show thesis
        proof (rule run)
          show "run_packed X w ?sch tp c = ((w', sch'), r)" using assms(1) Cons 3 True by (simp add: ExecutePackedTx_def Let_def split: if_splits)
        qed (simp add: vL True)
      next
        case False
        then show thesis using assms(1) Cons 3 by (intro keep) (auto simp: ExecutePackedTx_def Let_def)
      qed
    qed (use assms(1) in \<open>auto intro!: keep simp: ExecutePackedTx_def\<close>)
  qed
qed

lemma CommitPackedTx_cases:
  assumes "CommitPackedTx X w sch v ri bh = ((w', sch'), err)"
  obtains (kept) "sch' = sch\<lparr>sch_schedulerState := SchedulerState_Idle\<rparr>"
  | (released_case) "sch' = sch\<lparr>sch_schedulerState := SchedulerState_Idle, sch_exePackedCount := sch_exePackedCount sch - 1\<rparr>" "err = None"
  using assms unfolding CommitPackedTx_def Let_def
  by (auto split: if_splits option.splits prod.splits sum.splits)

definition sched_inv :: "u64 \<Rightarrow> 'tr executionScheduler \<Rightarrow> sched_event list \<Rightarrow> bool" where
  "sched_inv maxCache sch evs \<longleftrightarrow> sch_MaxPrepareMsgCache sch = maxCache \<and> consec (executed evs) \<and>
    (\<exists>k. versions sch = drop k (executed evs) \<and> k \<le> length (executed evs) - 1) \<and>
    (executed evs \<noteq> [] \<longrightarrow> sch_lastStateVersion sch = last (executed evs)) \<and>
    sch_exePackedCount sch = word_of_nat (length (executed evs)) - word_of_nat (released evs) \<and>
    (\<forall>x \<in> set (sch_exePackedTxsList sch). \<exists>tp c. entry_of tp c x)"

lemma sched_inv_state: "sched_inv m (sch\<lparr>sch_schedulerState := st\<rparr>) evs \<longleftrightarrow> sched_inv m sch evs"
  by (simp add: sched_inv_def versions_def)

lemma sched_inv_execute:
  assumes inv: "sched_inv m sch evs" and co: "cache_ok X m" and nw: "\<forall>v \<in> asked evs. v \<noteq> - 1"
    and ex: "ExecutePackedTx X g w sch tp c = ((w', sch'), r)"
  shows "sched_inv m sch' (evs @ [EvExecute (pt_StateVersion tp) (pt_StateVersion tp \<notin> set (versions sch) \<and> isl r = False)])"
proof -
  let ?v = "pt_StateVersion tp" and ?E = "executed evs"
  have co': "cache_ok X (sch_MaxPrepareMsgCache sch)" using inv co by (simp add: sched_inv_def)
  from ex co' show ?thesis
  proof (cases rule: ExecutePackedTx_cases)
    case (none st)
    then have b: "(?v \<notin> set (versions sch) \<and> isl r = False) = False" by auto
    show ?thesis unfolding b using inv none(1) by (simp add: sched_inv_def versions_def)
  next
    case (ran_case rs x k)
    obtain k0 where k0: "versions sch = drop k0 ?E" "k0 \<le> length ?E - 1" using inv by (auto simp: sched_inv_def)
    have c: "consec (?E @ [?v])" "?v \<notin> set ?E"
    proof -
      have "consec (?E @ [?v]) \<and> ?v \<notin> set ?E"
      proof (cases "?E = []")
        case True
        then show ?thesis by (simp add: consec_def)
      next
        case False
        then have l: "k0 < length ?E" using k0(2) by (cases ?E) auto
        then have "versions sch \<noteq> []" using k0(1) by simp
        then have v: "?v = last ?E + 1" using ran_case(5) k0(1) l by (simp add: last_drop)
        have "last ?E \<in> asked evs" using executed_asked False by (metis last_in_set subsetD)
        then have "last ?E \<noteq> - 1" using nw by blast
        with False show ?thesis unfolding v using consec_snoc [of ?E] inv by (simp add: sched_inv_def)
      qed
      then show "consec (?E @ [?v])" "?v \<notin> set ?E" by auto
    qed
    have f: "(?v \<notin> set (versions sch) \<and> isl r = False) = True" using c(2) k0(1) ran_case(1) set_drop_subset [of k0 ?E] by auto
    have k: "k \<le> length (drop k0 ?E)" using ran_case(3) k0(1) by (metis length_map versions_def)
    have "versions sch' = drop k (versions sch @ [ex_StateVersion x])" using ran_case(3,4) by (simp add: versions_def drop_map)
    also have "\<dots> = drop (k0 + k) (?E @ [?v])" using k0 k ran_case(2) by (auto simp: entry_of_def add.commute)
    finally have "\<exists>k. versions sch' = drop k (?E @ [?v]) \<and> k \<le> length (?E @ [?v]) - 1" using k k0(2) by (intro exI [of _ "k0 + k"]) auto
    moreover have "\<forall>y \<in> set (sch_exePackedTxsList sch'). \<exists>tp c. entry_of tp c y"
    proof -
      have "set (sch_exePackedTxsList sch') \<subseteq> insert x (set (sch_exePackedTxsList sch))"
        using ran_case(4) set_drop_subset [of k "sch_exePackedTxsList sch @ [x]"] by simp
      moreover have "\<forall>y \<in> set (sch_exePackedTxsList sch). \<exists>tp c. entry_of tp c y" using inv unfolding sched_inv_def by blast
      ultimately show ?thesis using ran_case(2) by blast
    qed
    ultimately show ?thesis unfolding f using inv c(1) ran_case(4) by (simp add: sched_inv_def)
  qed
qed

lemma sched_run_inv:
  assumes "sched_run X m sch evs" "cache_ok X m" "\<forall>v \<in> asked evs. v \<noteq> - 1"
  shows "sched_inv m sch evs"
  using assms(1,3)
proof induction
  case start
  then show ?case by (simp add: sched_inv_def NewExecutionScheduler_def versions_def consec_def)
next
  case (execute sch evs g w tp c w' sch' r)
  then have "\<forall>v \<in> asked evs. v \<noteq> - 1" by (auto simp: asked_def)
  with execute show ?case by (intro sched_inv_execute [OF _ assms(2)]) auto
next
  case (commit sch evs w v ri bh w' sch' err)
  then have inv: "sched_inv m sch evs" by (auto simp: asked_def)
  from commit.hyps(2) show ?case
  proof (cases rule: CommitPackedTx_cases)
    case kept
    with inv show ?thesis by (simp add: sched_inv_def versions_def)
  next
    case released_case
    with inv show ?thesis by (simp add: sched_inv_def versions_def)
  qed
qed

lemma consec_find:
  assumes "consec (map f xs)" "i < length xs"
  shows "find (\<lambda>x. f x = f (xs ! i)) xs = Some (xs ! i)" "f (xs ! 0) \<le> f (xs ! i)" "f (xs ! i) \<le> f (last xs)"
proof -
  have n: "unat (f (xs ! j)) = unat (f (xs ! 0)) + j" if "j < length xs" for j
  proof -
    have "0 < length xs" using assms(2) by (rule le_less_trans [OF le0])
    then show ?thesis using consec_nth [OF assms(1), of j] that by simp
  qed
  have "\<forall>j < i. f (xs ! j) \<noteq> f (xs ! i)"
  proof (intro allI impI notI)
    fix j assume "j < i" "f (xs ! j) = f (xs ! i)"
    then show False using n [of j] n [of i] assms(2) by simp
  qed
  then show "find (\<lambda>x. f x = f (xs ! i)) xs = Some (xs ! i)" using assms(2) by (auto simp: find_Some_iff intro!: exI [of _ i])
  have "xs \<noteq> []" using assms(2) by (cases xs) auto
  then have l: "last xs = xs ! (length xs - 1)" by (rule last_conv_nth)
  show "f (xs ! 0) \<le> f (xs ! i)" "f (xs ! i) \<le> f (last xs)"
    using n [of i] n [of "length xs - 1"] assms(2) by (simp_all add: word_le_nat_alt l)
qed

text \<open>
  (C3) The scheduler executes each version once and without gaps. In every run the versions
  of the fresh executions are consecutive, the list of the scheduler is the end of them
  (the front is cut when the cache is full), the last state version is the last of them,
  and a request for a version in the list is answered with the stored result, without a
  change of the world.
\<close>

theorem scheduler_consecutive:
  assumes run: "sched_run X maxCache sch evs" and co: "cache_ok X maxCache" and nw: "\<forall>v \<in> asked evs. v \<noteq> - 1"
  shows "consec (executed evs) \<and> (\<exists>k. versions sch = drop k (executed evs)) \<and>
    (executed evs \<noteq> [] \<longrightarrow> versions sch \<noteq> [] \<and> sch_lastStateVersion sch = last (executed evs)) \<and>
    (\<forall>x \<in> set (sch_exePackedTxsList sch). \<forall>w tp c. pt_StateVersion tp = ex_StateVersion x \<longrightarrow>
       ExecutePackedTx X True w sch tp c = ((w, sch\<lparr>sch_schedulerState := SchedulerState_Idle\<rparr>), Inr (ex_packedTxsRS x)))"
proof -
  note inv = sched_run_inv [OF run co nw]
  obtain k where k: "versions sch = drop k (executed evs)" "k \<le> length (executed evs) - 1" using inv by (auto simp: sched_inv_def)
  then have ne: "executed evs \<noteq> [] \<longrightarrow> versions sch \<noteq> []" by (cases "executed evs") auto
  have c: "consec (versions sch)" using inv k(1) consec_drop by (simp add: sched_inv_def)
  have "ExecutePackedTx X True w sch tp c = ((w, sch\<lparr>sch_schedulerState := SchedulerState_Idle\<rparr>), Inr (ex_packedTxsRS x))"
    if mem: "x \<in> set (sch_exePackedTxsList sch)" and ver: "pt_StateVersion tp = ex_StateVersion x" for x w tp c
  proof -
    obtain i where i: "i < length (sch_exePackedTxsList sch)" "x = sch_exePackedTxsList sch ! i"
      using mem by (auto simp: in_set_conv_nth)
    note f = consec_find [OF c [unfolded versions_def] i(1)]
    show ?thesis using f i ver by (cases "sch_exePackedTxsList sch") (simp_all add: ExecutePackedTx_def Let_def)
  qed
  then show ?thesis using inv k ne by (auto simp: sched_inv_def)
qed

text \<open>
  (C11) The count of executed versions that wait for their commit is the number of fresh
  executions less the number of commits that released a slot, and with five of them
  waiting no further version is available.
\<close>

theorem scheduler_slots:
  assumes run: "sched_run X maxCache sch evs" and co: "cache_ok X maxCache" and nw: "\<forall>v \<in> asked evs. v \<noteq> - 1"
  shows "sch_exePackedCount sch = word_of_nat (length (executed evs)) - word_of_nat (released evs) \<and>
    (released evs + 5 \<le> length (executed evs) \<and> length (executed evs) < 2 ^ 32 \<longrightarrow> (\<forall>b. \<exists>e. MaxStateVersion sch b = Inl e))"
proof -
  have c: "sch_exePackedCount sch = word_of_nat (length (executed evs)) - word_of_nat (released evs)"
    using sched_run_inv [OF assms] by (simp add: sched_inv_def)
  have "MaxAvail_Count \<le> sch_exePackedCount sch" if n: "released evs + 5 \<le> length (executed evs)" and l: "length (executed evs) < 2 ^ 32"
  proof -
    define d where "d = length (executed evs) - released evs"
    have d: "length (executed evs) = released evs + d" "5 \<le> d" using n by (simp_all add: d_def)
    then have "sch_exePackedCount sch = word_of_nat d" using c by simp
    moreover have "unat (word_of_nat d :: 32 word) = d" using d l by (simp add: unat_of_nat take_bit_nat_eq_self)
    ultimately show ?thesis using d(2) by (simp add: word_le_nat_alt MaxAvail_Count_def)
  qed
  then show ?thesis using c by (auto simp: MaxStateVersion_def)
qed


text \<open>
  (C40) \<open>CompositionStateAtVersion\<close> returns exactly if the first entry of that version, where
  there is one, has not been committed. Asked for a committed version it never returns.
\<close>

theorem CompositionStateAtVersion_returns:
  "CompositionStateAtVersion X w sch v =
     (case find (\<lambda>x. ex_StateVersion x = v) (sch_exePackedTxsList sch) of
        None \<Rightarrow> Some None
      | Some x \<Rightarrow> if xo_CompSState X w (ex_compState x) = CompSState_Commited then None else Some (Some (ex_compState x)))"
proof -
  have stuck: "at_version_loop X w v (x # xs) = None"
    if at: "ex_StateVersion x = v" "xo_CompSState X w (ex_compState x) = CompSState_Commited" for x xs
  proof (rule ccontr)
    assume "at_version_loop X w v (x # xs) \<noteq> None"
    then obtain r where r: "at_version_loop X w v (x # xs) = Some r" by blast
    have "ex_StateVersion x = v \<longrightarrow> xo_CompSState X w (ex_compState x) = CompSState_Commited \<longrightarrow> x # xs = x # xs \<longrightarrow> False"
    proof (rule at_version_loop.raw_induct [where P = "\<lambda>X w v ys r. ex_StateVersion x = v \<longrightarrow> xo_CompSState X w (ex_compState x) = CompSState_Commited \<longrightarrow> ys = x # xs \<longrightarrow> False", OF _ r])
      fix loop X w v ys r
      assume IH: "\<And>X w v ys r. loop X w v ys = Some r \<Longrightarrow>
          ex_StateVersion x = v \<longrightarrow> xo_CompSState X w (ex_compState x) = CompSState_Commited \<longrightarrow> ys = x # xs \<longrightarrow> False"
        and eq: "(case ys of [] \<Rightarrow> Some None | exeTxsF # rest \<Rightarrow> if ex_StateVersion exeTxsF \<noteq> v then loop X w v rest
          else if xo_CompSState X w (ex_compState exeTxsF) \<noteq> CompSState_Commited then Some (Some (ex_compState exeTxsF)) else loop X w v ys) = Some r"
      show "ex_StateVersion x = v \<longrightarrow> xo_CompSState X w (ex_compState x) = CompSState_Commited \<longrightarrow> ys = x # xs \<longrightarrow> False"
        using IH [of X w v ys r] eq by auto
    qed
    then show False using at by simp
  qed
  have "at_version_loop X w v xs = (case find (\<lambda>x. ex_StateVersion x = v) xs of
      None \<Rightarrow> Some None
    | Some x \<Rightarrow> if xo_CompSState X w (ex_compState x) = CompSState_Commited then None else Some (Some (ex_compState x)))" for xs
  proof (induction xs)
    case (Cons x xs)
    show ?case
    proof (cases "ex_StateVersion x = v \<and> xo_CompSState X w (ex_compState x) = CompSState_Commited")
      case True
      then show ?thesis using stuck [of x xs] by simp
    next
      case False
      then show ?thesis using Cons by (subst at_version_loop.simps) auto
    qed
  qed (simp add: at_version_loop.simps)
  then show ?thesis by (simp add: CompositionStateAtVersion_def)
qed


section \<open>What a commit does to the chain\<close>

text \<open>
  What the scheduler relies on of the world: there is a cache of the latest block and of
  its result, which setting them fills and which the other operations keep once it is
  filled.
\<close>

locale exec_world =
  fixes X :: "('w, 'tr) exec_ops" and block_of :: "'w \<Rightarrow> Block option" and result_of :: "'w \<Rightarrow> BlockResult option"
  assumes get: "block_of w = Some b \<Longrightarrow> xo_GetLatestBlock X w = (w, Inr b)"
    and get_rs: "result_of w = Some r \<Longrightarrow> xo_GetLatestBlockResult X w = (w, Inr r)"
    and set_block: "xo_SetLatestBlock X w c b = (w', None) \<Longrightarrow> block_of w' = Some b"
    and set_rs: "xo_SetLatestBlockResult X w c r = (w', None) \<Longrightarrow> block_of w' = block_of w \<and> result_of w' = Some r"
    and epoch: "xo_UpdateEpoch X w c h = (w', err) \<Longrightarrow> block_of w' = block_of w \<and> result_of w' = result_of w"
    and commit: "xo_Commit X w c = (w', err) \<Longrightarrow> block_of w' = block_of w \<and> result_of w' = result_of w"
    and update: "block_of (xo_UpdateCompSState X w c st) = block_of w" "result_of (xo_UpdateCompSState X w c st) = result_of w"
    and trig: "block_of (xo_TrigBlockAdded X w b) = block_of w" "result_of (xo_TrigBlockAdded X w b) = result_of w"
    and publish: "block_of (xo_Publish X w bs) = block_of w" "result_of (xo_Publish X w bs) = result_of w"
begin

lemma CommitBlock_sets:
  assumes "CommitBlock X w block blockRS (Some c) = (w', None)"
  shows "block_of w' = Some block \<and> result_of w' = Some blockRS"
  using assms unfolding CommitBlock_def
  by (auto simp: update trig dest!: set_block set_rs epoch commit split: option.splits prod.splits error.splits)

text \<open>A commit that releases a slot makes its block the latest one.\<close>

lemma released_sets:
  assumes "CommitPackedTx X w sch v ri bh = ((w', sch'), err)" "sch_exePackedCount sch' \<noteq> sch_exePackedCount sch"
  obtains x rs lbr block blockRS where "x \<in> set (sch_exePackedTxsList sch)" "ex_StateVersion x = v" "ex_packedTxsRS x = Some rs" "err = None"
    "constructBlockAndBlockResult X ri bh lbr (ex_packedTxs x) rs = Inr (block, blockRS)"
    "xo_GetLatestBlock X w' = (w', Inr block)" "xo_GetLatestBlockResult X w' = (w', Inr blockRS)"
proof -
  obtain x rs w2 lbr block blockRS w3 where x: "find (\<lambda>x. v = ex_StateVersion x) (sch_exePackedTxsList sch) = Some x"
    "ex_packedTxsRS x = Some rs" "constructBlockAndBlockResult X ri bh lbr (ex_packedTxs x) rs = Inr (block, blockRS)"
    "CommitBlock X w2 block blockRS (Some (ex_compState x)) = (w3, None)" "w' = xo_Publish X w3 (block_info_msg block blockRS)" "err = None"
    using assms unfolding CommitPackedTx_def Let_def by (auto split: if_splits option.splits prod.splits sum.splits)
  have "block_of w' = Some block" "result_of w' = Some blockRS" using CommitBlock_sets [OF x(4)] x(5) publish by simp_all
  then show thesis using that [OF _ _ x(2) x(6) x(3) get get_rs] find_mem [OF x(1)] by simp
qed

text \<open>After that no commit at the same or a lower height changes anything but the state of the scheduler.\<close>

lemma released_once:
  assumes "CommitPackedTx X w sch v ri bh = ((w', sch'), err)" "sch_exePackedCount sch' \<noteq> sch_exePackedCount sch"
    and "BlockHead_DeepCopy bh = Inr bh" "bh_Height bh2 \<le> bh_Height bh"
  shows "fst (CommitPackedTx X w' sch2 v2 ri2 bh2) = (w', sch2\<lparr>sch_schedulerState := SchedulerState_Idle\<rparr>)"
proof -
  obtain x :: "'tr executionPackedTxs" and rs :: "'tr PackedTxsResult" and lbr :: BlockResult and block :: Block and blockRS :: BlockResult where c: "constructBlockAndBlockResult X ri bh lbr (ex_packedTxs x) rs = Inr (block, blockRS)"
    "xo_GetLatestBlock X w' = (w', Inr block)" "xo_GetLatestBlockResult X w' = (w', Inr blockRS)"
    by (rule released_sets [OF assms(1,2)], rule that, assumption+)
  have "blk_Head block = Some bh" using c(1) assms(3) by (auto simp: constructBlockAndBlockResult_def Let_def split: sum.splits)
  then show ?thesis using c(2,3) assms(4) by (simp add: CommitPackedTx_def Let_def split: option.splits)
qed

end

text \<open>
  The world of a node: the composed states on its ledger, the caches of the chain and of
  the epoch, and the rest (pool, event hub, network). Executing an action works on the
  composed state alone; the update of the epoch reads the ledger and the caches, and works
  on the composed state, on the cache of the epoch and on the rest.
\<close>

record ('t, 'x) chain_world =
  cw_world :: "'t world"
  cw_env :: chain_env
  cw_rest :: 'x

record ('t, 'x, 'tr) node_parts =
  np_Execute :: "'t compositionState \<Rightarrow> TransactionAction \<Rightarrow> 't compositionState \<times> (error + TransactionResult option)"
  np_UpdateEpoch :: "'t ledger \<Rightarrow> chain_env \<Rightarrow> 't compositionState \<times> 'x \<Rightarrow> BlockHead \<Rightarrow>
    ('t compositionState \<times> (string \<rightharpoonup> EpochInfo option) \<times> 'x) \<times> error option"
  np_RemoveTxByKey :: "'x \<Rightarrow> string \<Rightarrow> 'x"
  np_TrigBlockAdded :: "'x \<Rightarrow> Block \<Rightarrow> 'x"
  np_Publish :: "'x \<Rightarrow> bytes \<Rightarrow> 'x"
  np_tree :: "(bytes \<times> bytes) list \<Rightarrow> 'tr"
  np_Prove :: "'tr \<Rightarrow> bytes \<Rightarrow> error + bytes"
  np_root :: "(bytes \<times> bytes) list \<Rightarrow> bytes"
  np_blake :: "bytes \<Rightarrow> bytes"
  np_fifth :: "u64 \<Rightarrow> int"

text \<open>A composed state works on the database of the ledger as it is now.\<close>

definition w_state :: "'t world \<Rightarrow> nat \<Rightarrow> 't compositionState" where
  "w_state w r = (w_objs w ! r)\<lparr>cs_store := (cs_store (w_objs w ! r))\<lparr>st_db := lg_backendStateDB (w_ledger w)\<rparr>\<rparr>"

definition w_put :: "'t world \<Rightarrow> nat \<Rightarrow> 't compositionState \<Rightarrow> 't world" where
  "w_put w r cs = w\<lparr>w_ledger := ledger_after (w_ledger w) cs, w_objs := (w_objs w)[r := cs]\<rparr>"

definition node_id :: "('t, 'x) chain_world \<Rightarrow> string" where
  "node_id w = lg_id (w_ledger (cw_world w))"

definition node_set ::
  "('t, 'x) chain_world \<Rightarrow> nat \<Rightarrow> (('t, bytes) stateStore \<times> chain_env) \<times> error option \<Rightarrow> ('t, 'x) chain_world \<times> error option" where
  "node_set w c r = (case r of ((s, e), err) \<Rightarrow>
     (w\<lparr>cw_world := w_put (cw_world w) c ((w_objs (cw_world w) ! c)\<lparr>cs_store := s\<rparr>), cw_env := e\<rparr>, err))"

definition node_ops ::
  "('t, bytes) btree_ops \<Rightarrow> ('t, bytes, 'p) memdb_smt \<Rightarrow> ('t, 'x, 'tr) node_parts \<Rightarrow> (('t, 'x) chain_world, 'tr) exec_ops" where
  "node_ops B M P = \<lparr>
     xo_CompSState = (\<lambda>w c. cs_state (w_objs (cw_world w) ! c)),
     xo_UpdateCompSState = (\<lambda>w c st. w\<lparr>cw_world := w_update (cw_world w) c st\<rparr>),
     xo_SetLatestBlock = (\<lambda>w c b. node_set w c (SetLatestBlock (ledger_ops B M) (node_id w) (cs_store (w_state (cw_world w) c)) (cw_env w) (Some b))),
     xo_SetLatestBlockResult = (\<lambda>w c b. node_set w c (SetLatestBlockResult (ledger_ops B M) (node_id w) (cs_store (w_state (cw_world w) c)) (cw_env w) (Some b))),
     xo_UpdateEpoch = (\<lambda>w c h. case np_UpdateEpoch P (w_ledger (cw_world w)) (cw_env w) (w_state (cw_world w) c, cw_rest w) h of
       ((cs, em, x), err) \<Rightarrow> (w\<lparr>cw_world := w_put (cw_world w) c cs, cw_env := (cw_env w)\<lparr>latestEpochMap := em\<rparr>, cw_rest := x\<rparr>, err)),
     xo_Commit = (\<lambda>w c. case w_Commit (cw_world w) c of (cw, err) \<Rightarrow> (w\<lparr>cw_world := cw\<rparr>, err)),
     xo_GetLatestBlock = (\<lambda>w. case lg_GetLatestBlock B M (w_ledger (cw_world w)) (cw_env w) of (e, r) \<Rightarrow> (w\<lparr>cw_env := e\<rparr>, r)),
     xo_GetLatestBlockResult = (\<lambda>w. case lg_GetLatestBlockResult B M (w_ledger (cw_world w)) (cw_env w) of (e, r) \<Rightarrow> (w\<lparr>cw_env := e\<rparr>, r)),
     xo_Execute = (\<lambda>w c act. case np_Execute P (w_state (cw_world w) c) act of
       (cs, r) \<Rightarrow> (w\<lparr>cw_world := w_put (cw_world w) c cs\<rparr>, r)),
     xo_RemoveTxByKey = (\<lambda>w k. w\<lparr>cw_rest := np_RemoveTxByKey P (cw_rest w) k\<rparr>),
     xo_TrigBlockAdded = (\<lambda>w b. w\<lparr>cw_rest := np_TrigBlockAdded P (cw_rest w) b\<rparr>),
     xo_Publish = (\<lambda>w bs. w\<lparr>cw_rest := np_Publish P (cw_rest w) bs\<rparr>),
     xo_tree = np_tree P, xo_Prove = np_Prove P, xo_root = np_root P, xo_blake = np_blake P, xo_fifth = np_fifth P\<rparr>"

lemma ledger_after_id [simp]: "lg_id (ledger_after l cs) = lg_id l"
  by (simp add: ledger_after_def)

interpretation node: exec_world "node_ops B M P" "\<lambda>w. latestBlockMap (cw_env w) (node_id w)" "\<lambda>w. latestBlockRSMap (cw_env w) (node_id w)"
  for B M P
proof unfold_locales
qed (auto simp: node_ops_def node_set_def node_id_def lg_GetLatestBlock_def lg_GetLatestBlockResult_def cached_LatestBlock_def
    cached_LatestBlockResult_def SetLatestBlock_def SetLatestBlockResult_def updateLatestBlock_def updateLatestBlockRS_def Let_def w_put_def
    w_update_def w_Commit_def split: prod.splits if_splits option.splits)


context bytes_store
begin

lemma SetLatestBlockResult_stores:
  assumes "ok s StateStore_Name_Chain"
  shows "\<exists>s'. SetLatestBlockResult S lid s e (Some r) = ((s', updateLatestBlockRS e lid r), None) \<and> changes s StateStore_Name_Chain s' \<and>
    data s' StateStore_Name_Chain = (data s StateStore_Name_Chain)(str_bytes LatestBlockResult_Key \<mapsto> BlockResult_Marshal r)"
proof -
  obtain s' where "(if exists_key S s StateStore_Name_Chain LatestBlock_Key
      then SS_Update S s StateStore_Name_Chain (str_bytes LatestBlockResult_Key) (Some (BlockResult_Marshal r))
      else SS_Put S s StateStore_Name_Chain (str_bytes LatestBlockResult_Key) (Some (BlockResult_Marshal r))) = (s', None)"
    "changes s StateStore_Name_Chain s'"
    "data s' StateStore_Name_Chain = (data s StateStore_Name_Chain)(str_bytes LatestBlockResult_Key \<mapsto> BlockResult_Marshal r)"
    using upsertE [OF assms, of LatestBlockResult_Key] by blast
  then show ?thesis by (simp add: SetLatestBlockResult_def Let_def)
qed

lemma both_stored:
  assumes "ok s StateStore_Name_Chain" "blk_Head b = Some h"
  obtains s1 e1 s2 e2 where "SetLatestBlock S lid s e (Some b) = ((s1, e1), None)" "SetLatestBlockResult S lid s1 e1 (Some r) = ((s2, e2), None)"
    "ok s1 StateStore_Name_Chain" "ok s2 StateStore_Name_Chain"
    "data s2 StateStore_Name_Chain (str_bytes LatestBlock_Key) = Some (Block_Marshal b)"
    "data s2 StateStore_Name_Chain (str_bytes LatestBlockResult_Key) = Some (BlockResult_Marshal r)"
proof -
  obtain s1 e1 where s1: "SetLatestBlock S lid s e (Some b) = ((s1, e1), None)" "changes s StateStore_Name_Chain s1"
    "data s1 StateStore_Name_Chain = (data s StateStore_Name_Chain)(str_bytes LatestBlock_Key \<mapsto> Block_Marshal b)"
    using SetLatestBlock_stores [OF assms, of lid e] by blast
  have ok1: "ok s1 StateStore_Name_Chain" using changes_ok [OF s1(2) assms(1)] .
  obtain s2 e2 where s2: "SetLatestBlockResult S lid s1 e1 (Some r) = ((s2, e2), None)" "changes s1 StateStore_Name_Chain s2"
    "data s2 StateStore_Name_Chain = (data s1 StateStore_Name_Chain)(str_bytes LatestBlockResult_Key \<mapsto> BlockResult_Marshal r)"
    using SetLatestBlockResult_stores [OF ok1, of lid e1 r] by blast
  show thesis using that [OF s1(1) s2(1) ok1 changes_ok [OF s2(2) ok1]] s1(3) s2(3) by simp
qed

end

text \<open>
  A composed state from which a commit can save a version: its stores are open and it is
  the only writer of the database.
\<close>

definition can_save :: "('t, bytes) btree_ops \<Rightarrow> 't world \<Rightarrow> nat \<Rightarrow> bool" where
  "can_save B w c \<longleftrightarrow> c < length (w_objs w) \<and> ledger_ok B (cs_store (w_state w c)) StateStore_Name_Chain \<and>
     db_inv B (lg_backendStateDB (w_ledger w)) \<and> mdb_openWriters (lg_backendStateDB (w_ledger w)) = 1 \<and>
     vm_last (mdb_vmgr (lg_backendStateDB (w_ledger w))) \<noteq> - 1"

lemma w_put_state:
  assumes "c < length (w_objs w)" "st_db s = lg_backendStateDB (w_ledger w)"
  shows "w_state (w_put w c ((w_objs w ! c)\<lparr>cs_store := s\<rparr>)) c = (w_objs w ! c)\<lparr>cs_store := s\<rparr>"
    "w_ledger (w_put w c ((w_objs w ! c)\<lparr>cs_store := s\<rparr>)) = w_ledger w"
    "w_objs (w_put w c ((w_objs w ! c)\<lparr>cs_store := s\<rparr>)) ! c = (w_objs w ! c)\<lparr>cs_store := s\<rparr>"
  using assms by (simp_all add: w_state_def w_put_def ledger_after_def flip: assms(2))

lemma w_put_put: "w_put (w_put w c a) c b = w_put w c b"
  by (simp add: w_put_def ledger_after_def)

lemma CommitBlock_saves:
  fixes B :: "('t, bytes) btree_ops"
  assumes "ledger_libs B M" "can_save B (cw_world w) c" "blk_Head block = Some bh" "Block_plain block" "Block_Size block < 2 ^ 63"
    and "\<And>l m cs x. \<exists>m' x' err. np_UpdateEpoch P l m (cs, x) bh = ((cs, m', x'), err) \<and> \<not> (\<exists>msg. err = Some (Panic msg))"
  obtains w' cs2 where "CommitBlock (node_ops B M P) w block blockRS (Some c) = (w', None)"
    "cs_state (w_objs (cw_world w') ! c) = CompSState_Commited"
    "vm_last (mdb_vmgr (lg_backendStateDB (w_ledger (cw_world w')))) = vm_last (mdb_vmgr (lg_backendStateDB (w_ledger (cw_world w)))) + 1"
    "createCompositionState B M (w_ledger (cw_world w')) v = Inr cs2"
    "snd (GetLatestBlock (ledger_ops B M) lid (cs_store cs2) e2) = Inr block"
proof -
  let ?w = "cw_world w" and ?S = "ledger_ops B M" and ?db = "lg_backendStateDB (w_ledger (cw_world w))"
  note can = assms(2) [unfolded can_save_def]
  note l = ledger_bytes_store_db [OF assms(1), of ?db]
  have "ledger_ok B (cs_store (w_state ?w c)) StateStore_Name_Chain \<and> StateStore_Name_Chain \<in> UNIV \<and> st_db (cs_store (w_state ?w c)) = ?db"
    using can by (simp add: w_state_def)
  from this obtain s1 e1 s2 e2' where s: "SetLatestBlock ?S (node_id w) (cs_store (w_state ?w c)) (cw_env w) (Some block) = ((s1, e1), None)"
    "SetLatestBlockResult ?S (node_id w) s1 e1 (Some blockRS) = ((s2, e2'), None)" "st_db s1 = ?db"
    "ledger_ok B s2 StateStore_Name_Chain" "st_db s2 = ?db"
    "ledger_data B s2 StateStore_Name_Chain (str_bytes LatestBlock_Key) = Some (Block_Marshal block)"
    by (rule bytes_store.both_stored [OF l _ assms(3), of "cs_store (w_state ?w c)" "node_id w" "cw_env w" blockRS]) (elim conjE, rule that, assumption+)
  let ?w1 = "w\<lparr>cw_world := w_put ?w c ((w_objs ?w ! c)\<lparr>cs_store := s1\<rparr>), cw_env := e1\<rparr>"
  let ?w2 = "w\<lparr>cw_world := w_put ?w c ((w_objs ?w ! c)\<lparr>cs_store := s2\<rparr>), cw_env := e2'\<rparr>"
  let ?cs = "(w_objs ?w ! c)\<lparr>cs_store := s2\<rparr>"
  have x1: "xo_SetLatestBlock (node_ops B M P) w c block = (?w1, None)" using s(1) by (simp add: node_ops_def node_set_def)
  have x2: "xo_SetLatestBlockResult (node_ops B M P) ?w1 c blockRS = (?w2, None)"
    using s(2,3,5) can by (simp add: node_ops_def node_set_def w_put_state w_put_put node_id_def)
  obtain m' x' err where ep: "np_UpdateEpoch P (w_ledger ?w) e2' (?cs, cw_rest w) bh = ((?cs, m', x'), err)"
    "\<not> (\<exists>msg. err = Some (Panic msg))" using assms(6) by meson
  let ?w3 = "?w2\<lparr>cw_env := e2'\<lparr>latestEpochMap := m'\<rparr>, cw_rest := x'\<rparr>"
  have x3: "xo_UpdateEpoch (node_ops B M P) ?w2 c bh = (?w3, err)"
    using ep(1) s(5) can by (simp add: node_ops_def w_put_state w_put_put)
  obtain cs4 cerr where c4: "cs_Commit ?cs = (cs4, cerr)" by force
  have "store_open B s2" "db_inv B (st_db s2)" "mdb_openWriters (st_db s2) = 1" "vm_last (mdb_vmgr (st_db s2)) \<noteq> - 1"
    using s(4,5) can by (simp_all add: ledger_ok_def)
  note r = comp_reopen [OF assms(1) this c4, of "w_ledger ?w" v]
  then obtain cs2 where cs2: "cerr = None" "createCompositionState B M (ledger_after (w_ledger ?w) cs4) v = Inr cs2"
    "ss_StateLatestVersion (cs_store cs4) = vm_last (mdb_vmgr ?db) + 1"
    "\<forall>n \<in> set comp_names. ledger_ok B (cs_store cs2) n" "\<forall>n. name_ok n \<longrightarrow> ledger_data B (cs_store cs2) n = ledger_data B s2 n"
    using s(5) by auto
  let ?w4 = "?w3\<lparr>cw_world := w_put ?w c cs4\<rparr>"
  have x4: "xo_Commit (node_ops B M P) ?w3 c = (?w4, None)"
    using c4 cs2(1) s(5) can by (simp add: node_ops_def w_Commit_def Let_def w_put_def ledger_after_def flip: s(5))
  let ?w5 = "xo_TrigBlockAdded (node_ops B M P) (xo_UpdateCompSState (node_ops B M P) ?w4 c CompSState_Commited) block"
  have "CommitBlock (node_ops B M P) w block blockRS (Some c) = (?w5, None)"
    using x1 x2 x3 x4 ep(2) assms(3) by (auto simp: CommitBlock_def split: option.splits error.splits)
  moreover have "cs_state (w_objs (cw_world ?w5) ! c) = CompSState_Commited"
    using can by (simp add: node_ops_def w_update_def w_put_def UpdateCompSState_def)
  moreover have led: "w_ledger (cw_world ?w5) = ledger_after (w_ledger ?w) cs4" by (simp add: node_ops_def w_update_def w_put_def)
  moreover have "vm_last (mdb_vmgr (lg_backendStateDB (w_ledger (cw_world ?w5)))) = vm_last (mdb_vmgr ?db) + 1"
    using cs2(3) unfolding led by (simp add: ledger_after_def ss_StateLatestVersion_def)
  moreover have "snd (GetLatestBlock ?S lid (cs_store cs2) e2) = Inr block"
  proof (rule bytes_store.GetLatestBlock_reads [OF ledger_bytes_store [OF assms(1)]])
    have n: "StateStore_Name_Chain \<in> set comp_names" by (simp add: comp_names_def)
    show "ledger_ok B (cs_store cs2) StateStore_Name_Chain" using cs2(4) n by blast
    show "ledger_data B (cs_store cs2) StateStore_Name_Chain (str_bytes LatestBlock_Key) = Some (Block_Marshal block)"
      using cs2(5) comp_names_ok n s(6) by simp
    have "length (Block_Marshal block) = Block_Size block" by (simp add: Block_Marshal_def Block_Size_def length_enc)
    then show "Block_Unmarshal (Block_Marshal block) = Inr block" using Block_roundtrip [OF assms(4)] assms(5) by simp
  qed
  ultimately show thesis using cs2(2) by (intro that [of ?w5 cs2]) simp_all
qed


lemma constructBlock_plain:
  assumes "constructBlockAndBlockResult X ri bh lbr tp rs = Inr (block, blockRS)" "BlockHead_plain bh" "length (BlockHead_Marshal bh) < 2 ^ 63"
  shows "Block_plain block" "blk_Head block = Some bh"
    "blk_Data block = Some \<lparr>bd_Version = bh_Version bh, bd_DataChunks = [BlockDataChunk_Marshal \<lparr>dc_Version = bh_Version bh, dc_RefIndex = ri,
       dc_Txs = map Transaction_Marshal (pt_TxList tp), dc_XXX = []\<rparr>], bd_XXX = []\<rparr>"
proof -
  have "BlockHead_DeepCopy bh = Inr bh" using BlockHead_roundtrip [OF assms(2,3)] by (simp add: BlockHead_DeepCopy_def)
  with assms(1,2) show "Block_plain block" "blk_Head block = Some bh"
    "blk_Data block = Some \<lparr>bd_Version = bh_Version bh, bd_DataChunks = [BlockDataChunk_Marshal \<lparr>dc_Version = bh_Version bh, dc_RefIndex = ri,
       dc_Txs = map Transaction_Marshal (pt_TxList tp), dc_XXX = []\<rparr>], bd_XXX = []\<rparr>"
    by (auto simp: constructBlockAndBlockResult_def Let_def Block_plain_def BlockData_plain_def split: sum.splits)
qed

lemma node_commit:
  fixes B :: "('t, bytes) btree_ops" and P :: "('t, 'x, 'tr) node_parts"
  assumes libs: "ledger_libs B M" and can: "can_save B (cw_world w) (ex_compState x)"
    and x: "find (\<lambda>x. v = ex_StateVersion x) (sch_exePackedTxsList sch) = Some x" "ex_packedTxsRS x = Some rs"
    and latest: "latestBlockMap (cw_env w) (node_id w) = Some b0" "blk_Head b0 = Some h0" "bh_Height h0 < bh_Height bh"
      "latestBlockRSMap (cw_env w) (node_id w) = Some br0"
    and head: "BlockHead_plain bh" "length (BlockHead_Marshal bh) < 2 ^ 63"
    and block: "constructBlockAndBlockResult (node_ops B M P) ri bh br0 (ex_packedTxs x) rs = Inr (block, blockRS)" "Block_Size block < 2 ^ 63"
    and epoch: "\<And>l m cs y. \<exists>m' y' err. np_UpdateEpoch P l m (cs, y) bh = ((cs, m', y'), err) \<and> \<not> (\<exists>msg. err = Some (Panic msg))"
  obtains w' cs2 where "CommitPackedTx (node_ops B M P) w sch v ri bh =
      ((w', sch\<lparr>sch_schedulerState := SchedulerState_Idle, sch_exePackedCount := sch_exePackedCount sch - 1\<rparr>), None)"
    "cs_state (w_objs (cw_world w') ! ex_compState x) = CompSState_Commited"
    "vm_last (mdb_vmgr (lg_backendStateDB (w_ledger (cw_world w')))) = vm_last (mdb_vmgr (lg_backendStateDB (w_ledger (cw_world w)))) + 1"
    "createCompositionState B M (w_ledger (cw_world w')) v' = Inr cs2"
    "snd (GetLatestBlock (ledger_ops B M) (node_id w) (cs_store cs2) (cw_env w')) = Inr block"
proof -
  note b = constructBlock_plain [OF block(1) head]
  obtain w1 where w1: "CommitBlock (node_ops B M P) w block blockRS (Some (ex_compState x)) = (w1, None)"
    using CommitBlock_saves [OF libs can b(2,1) block(2) epoch] by metis
  define w' where "w' = xo_Publish (node_ops B M P) w1 (block_info_msg block blockRS)"
  obtain w2 cs2 where c: "CommitBlock (node_ops B M P) w block blockRS (Some (ex_compState x)) = (w2, None)"
    "cs_state (w_objs (cw_world w2) ! ex_compState x) = CompSState_Commited"
    "vm_last (mdb_vmgr (lg_backendStateDB (w_ledger (cw_world w2)))) = vm_last (mdb_vmgr (lg_backendStateDB (w_ledger (cw_world w)))) + 1"
    "createCompositionState B M (w_ledger (cw_world w2)) v' = Inr cs2"
    "snd (GetLatestBlock (ledger_ops B M) (node_id w) (cs_store cs2) (cw_env w')) = Inr block"
    by (rule CommitBlock_saves [OF libs can b(2,1) block(2) epoch, where v = v' and lid = "node_id w" and ?e2.0 = "cw_env w'"])
      (rule that, assumption+)
  have g: "xo_GetLatestBlock (node_ops B M P) w = (w, Inr b0)" "xo_GetLatestBlockResult (node_ops B M P) w = (w, Inr br0)"
    using latest(1,4) by (auto intro: node.get node.get_rs)
  have "w2 = w1" using c(1) w1 by simp
  moreover have "CommitPackedTx (node_ops B M P) w sch v ri bh =
      ((w', sch\<lparr>sch_schedulerState := SchedulerState_Idle, sch_exePackedCount := sch_exePackedCount sch - 1\<rparr>), None)"
    using x latest g block(1) w1
    by (cases "sch_exePackedTxsList sch") (simp_all add: CommitPackedTx_def Let_def w'_def)
  moreover have "cw_world w' = cw_world w1" by (simp add: w'_def node_ops_def)
  ultimately show thesis using c by (intro that [of w' cs2]) simp_all
qed


text \<open>
  (C10) A height is committed once: after a commit that released a slot, no commit of a
  block of the same or a lower height, by whatever scheduler on this node, changes the
  world or releases a slot.
\<close>

theorem height_committed_once:
  assumes "CommitPackedTx (node_ops B M P) w sch v ri bh = ((w', sch'), err)" "sch_exePackedCount sch' \<noteq> sch_exePackedCount sch"
    and "BlockHead_plain bh" "length (BlockHead_Marshal bh) < 2 ^ 63" "bh_Height bh2 \<le> bh_Height bh"
  shows "fst (CommitPackedTx (node_ops B M P) w' sch2 v2 ri2 bh2) = (w', sch2\<lparr>sch_schedulerState := SchedulerState_Idle\<rparr>)"
proof -
  have "BlockHead_DeepCopy bh = Inr bh" using BlockHead_roundtrip [OF assms(3,4)] by (simp add: BlockHead_DeepCopy_def)
  then show ?thesis by (rule node.released_once [OF assms(1,2) _ assms(5)])
qed


section \<open>A sample node\<close>

lemma new_state_can_save:
  fixes B :: "('t, bytes) btree_ops"
  assumes "ledger_libs B M" "db_inv B (w_db w)" "mdb_openWriters (w_db w) = 0" "vm_last (mdb_vmgr (w_db w)) \<noteq> - 1"
  obtains w' where "new_state B M w v = Inr (w', length (w_objs w))" "can_save B w' (length (w_objs w))" "lg_id (w_ledger w') = lg_id (w_ledger w)"
proof -
  have good: "good_tree B (mdb_btree (w_db w))" using assms(2) by (simp add: db_inv_def)
  obtain s :: "('t, bytes) stateStore" where s: "NewStateStore (w_db w) Flag_ReadWrite = Inr s" using NewStateStore_ex [OF good] by blast
  note o = ledger_ok_session [OF assms(1) s good]
  let ?cs = "\<lparr>cs_store = open_named B M comp_names s, cs_stateVersion = v, cs_state = CompSState_Idle\<rparr>"
  have c: "createCompositionState B M (w_ledger w) v = Inr ?cs"
    using s by (simp add: createCompositionState_def lg_CreateStateStore_def create_open_named)
  have "ledger_ok B (open_named B M comp_names s) StateStore_Name_Chain" using o(1) by (simp add: comp_names_def)
  moreover have "db_inv B ((w_db w)\<lparr>mdb_openWriters := 1\<rparr>)" using assms(2) by (simp add: db_inv_def)
  moreover have "ledger_ok B (s\<lparr>st_db := d\<rparr>) n = ledger_ok B s n" for s :: "('t, bytes) stateStore" and d n
    by (simp add: ledger_ok_def store_open_def memdb_opn_def st_conn_def)
  ultimately show thesis
    using c o(3) assms(3,4)
    by (intro that [of "w\<lparr>w_ledger := ledger_after (w_ledger w) ?cs, w_objs := w_objs w @ [?cs]\<rparr>"])
      (simp_all add: new_state_def can_save_def w_state_def ledger_after_def)
qed

definition sample_parts :: "((bytes, bytes) rbt, bytes list, unit) node_parts" where
  "sample_parts = \<lparr>np_Execute = (\<lambda>cs act. (cs, Inr None)), np_UpdateEpoch = (\<lambda>l e s h. ((fst s, latestEpochMap e, snd s), None)), np_RemoveTxByKey = (\<lambda>x k. x),
     np_TrigBlockAdded = (\<lambda>x b. x), np_Publish = (\<lambda>x bs. x @ [bs]), np_tree = (\<lambda>_. ()), np_Prove = (\<lambda>t k. Inr k),
     np_root = (\<lambda>_. [0]), np_blake = (\<lambda>_. [7]), np_fifth = (\<lambda>m. sint m div 5)\<rparr>"

abbreviation sample_X where "sample_X \<equiv> node_ops rbt_ops sample_bytes_smt sample_parts"

definition sample_packed :: "u64 \<Rightarrow> unit PackedTxs" where
  "sample_packed v = \<lparr>pt_StateVersion = v, pt_TxRoot = [], pt_TxList = [], pt_treeTx = None\<rparr>"

definition sample_entry :: "u64 \<Rightarrow> unit executionPackedTxs" where
  "sample_entry v = \<lparr>ex_compState = 0, ex_packedTxs = (sample_packed v)\<lparr>pt_treeTx := Some ()\<rparr>,
     ex_packedTxsRS = Some \<lparr>pr_StateVersion = v, pr_TxRSRoot = [], pr_TxsResult = [], pr_treeTxRS = Some ()\<rparr>\<rparr>"

definition sample_sched :: "u64 list \<Rightarrow> unit executionScheduler" where
  "sample_sched vs = (NewExecutionScheduler 50)\<lparr>sch_lastStateVersion := (if vs = [] then 0 else last vs), sch_exePackedCount := word_of_nat (length vs),
     sch_exePackedTxsList := map sample_entry vs\<rparr>"

lemma sample_sched_fields:
  "(sample_sched vs)\<lparr>sch_schedulerState := SchedulerState_Idle\<rparr> = sample_sched vs" "sch_exePackedTxsList (sample_sched vs) = map sample_entry vs"
  "vs = [] \<Longrightarrow> sch_lastStateVersion (sample_sched vs) = 0" "ex_StateVersion (sample_entry u) = u" "pt_StateVersion (sample_packed u) = u"
  by (simp_all add: sample_sched_def NewExecutionScheduler_def sample_entry_def ex_StateVersion_def sample_packed_def)

lemma sample_execute:
  assumes "vs = [] \<or> v = last vs + 1" "\<forall>u \<in> set vs. u < v" "length vs < 49"
  shows "\<exists>w'. ExecutePackedTx sample_X True w (sample_sched vs) (sample_packed v) 0 = ((w', sample_sched (vs @ [v])), Inr (ex_packedTxsRS (sample_entry v)))"
proof -
  have r: "\<exists>w'. run_packed sample_X w (sample_sched vs) (sample_packed v) 0 = ((w', sample_sched (vs @ [v])), Inr (ex_packedTxsRS (sample_entry v)))"
    using assms(3)
    by (simp add: run_packed_def ept_Execute_def Let_def sample_packed_def updateTree_def trim_def NewExecutionScheduler_def sample_entry_def
        node_ops_def sample_parts_def sample_sched_def)
  have "ExecutePackedTx sample_X True w (sample_sched vs) (sample_packed v) 0 = run_packed sample_X w (sample_sched vs) (sample_packed v) 0"
  proof (cases vs)
    case Nil
    then show ?thesis by (simp add: ExecutePackedTx_def Let_def sample_sched_fields)
  next
    case (Cons a xs)
    have f: "sch_exePackedTxsList (sample_sched vs) = sample_entry a # map sample_entry xs" "last (sample_entry a # map sample_entry xs) = sample_entry (last vs)"
      using Cons by (simp_all add: sample_sched_fields last_map)
    have "\<not> v \<le> last vs" and v: "\<not> v \<noteq> last vs + 1" using assms(1,2) Cons by (auto simp: not_le)
    then have n: "\<not> (a \<le> v \<and> v \<le> last vs)" by blast
    show ?thesis
      unfolding ExecutePackedTx_def Let_def sample_sched_fields(1,5) f list.case sample_sched_fields(4) if_not_P [OF n] if_not_P [OF v] not_True_eq_False if_False ..
  qed
  with r show ?thesis by simp
qed

lemma sample_run_step:
  assumes "sched_run sample_X 50 (sample_sched vs) evs" "vs = [] \<or> v = last vs + 1" "\<forall>u \<in> set vs. u < v" "length vs < 49"
  shows "sched_run sample_X 50 (sample_sched (vs @ [v])) (evs @ [EvExecute v True])"
proof -
  obtain w w' where "ExecutePackedTx sample_X True w (sample_sched vs) (sample_packed v) 0 = ((w', sample_sched (vs @ [v])), Inr (ex_packedTxsRS (sample_entry v)))"
    using sample_execute [OF assms(2-4)] by metis
  from sched_run.execute [OF assms(1) this] show ?thesis using assms(3) by (auto simp: sample_sched_fields versions_def comp_def)
qed

lemma sample_run: "sched_run sample_X 50 (sample_sched [1, 2, 3, 4, 5]) [EvExecute 1 True, EvExecute 2 True, EvExecute 3 True, EvExecute 4 True, EvExecute 5 True]"
proof -
  have "sched_run sample_X 50 (sample_sched []) []" using sched_run.start [of sample_X 50] by (simp add: sample_sched_def NewExecutionScheduler_def)
  note sample_run_step [OF this, of 1, simplified] 
  note sample_run_step [OF this, of 2, simplified]
  note sample_run_step [OF this, of 3, simplified]
  note sample_run_step [OF this, of 4, simplified]
  note sample_run_step [OF this, of 5, simplified]
  then show ?thesis by simp
qed

lemma sample_cache: "cache_ok sample_X 50"
  by (simp add: cache_ok_def node_ops_def sample_parts_def)

theorem scheduler_consecutive_witness:
  "sched_run sample_X 50 (sample_sched [1, 2, 3, 4, 5]) [EvExecute 1 True, EvExecute 2 True, EvExecute 3 True, EvExecute 4 True, EvExecute 5 True] \<and>
   consec [1, 2, 3, 4, 5] \<and> (\<forall>w c. ExecutePackedTx sample_X True w (sample_sched [1, 2, 3, 4, 5]) (sample_packed 2) c =
     ((w, sample_sched [1, 2, 3, 4, 5]), Inr (ex_packedTxsRS (sample_entry 2))))"
proof -
  have m: "sample_entry 2 \<in> set (sch_exePackedTxsList (sample_sched [1, 2, 3, 4, 5]))" by (simp add: sample_sched_fields)
  note t = scheduler_consecutive [OF sample_run sample_cache]
  have "\<forall>v \<in> asked [EvExecute 1 True, EvExecute 2 True, EvExecute 3 True, EvExecute 4 True, EvExecute 5 True]. v \<noteq> - 1"
    by (auto simp: asked_def)
  from t [OF this] m show ?thesis using sample_run by (simp add: sample_sched_fields(1,4,5))
qed

theorem scheduler_slots_witness:
  "sched_run sample_X 50 (sample_sched [1, 2, 3, 4, 5]) [EvExecute 1 True, EvExecute 2 True, EvExecute 3 True, EvExecute 4 True, EvExecute 5 True] \<and>
   sch_exePackedCount (sample_sched [1, 2, 3, 4, 5]) = 5 \<and> (\<exists>e. MaxStateVersion (sample_sched [1, 2, 3, 4, 5]) (sample_block 300 [9]) = Inl e)"
proof -
  have "\<forall>v \<in> asked [EvExecute 1 True, EvExecute 2 True, EvExecute 3 True, EvExecute 4 True, EvExecute 5 True]. v \<noteq> - 1"
    by (auto simp: asked_def)
  from scheduler_slots [OF sample_run sample_cache this] show ?thesis using sample_run by simp
qed


text \<open>A commit on a new ledger, with one composed state and a latest block of height 1.\<close>

definition sample_result :: BlockResult where
  "sample_result = \<lparr>br_Head = None, br_Data = None, br_XXX = []\<rparr>"

definition sample_world :: "(bytes, bytes) rbt world \<Rightarrow> ((bytes, bytes) rbt, bytes list) chain_world" where
  "sample_world cw = \<lparr>cw_world = cw, cw_env = Chain_State.sample_env\<lparr>latestBlockMap := [''L'' \<mapsto> sample_block 1 []], latestBlockRSMap := [''L'' \<mapsto> sample_result]\<rparr>,
     cw_rest = []\<rparr>"

abbreviation sample_bh :: BlockHead where "sample_bh \<equiv> Block_Types.sample_head 2 [9]"

definition sample_new_block :: Block where
  "sample_new_block = \<lparr>blk_Head = Some sample_bh, blk_Data = Some \<lparr>bd_Version = 0, bd_DataChunks = [BlockDataChunk_Marshal \<lparr>dc_Version = 0,
     dc_RefIndex = 3, dc_Txs = [], dc_XXX = []\<rparr>], bd_XXX = []\<rparr>, blk_XXX = []\<rparr>"

lemma sample_bh_ok: "BlockHead_plain sample_bh" "length (BlockHead_Marshal sample_bh) < 2 ^ 63" "bh_Version sample_bh = 0"
proof -
  have "length (BlockHead_Marshal sample_bh) = 12" by code_simp
  then show "length (BlockHead_Marshal sample_bh) < 2 ^ 63" by simp
  show "BlockHead_plain sample_bh" "bh_Version sample_bh = 0" by code_simp+
qed

lemma sample_new_block_size: "Block_Size sample_new_block < 2 ^ 63"
proof -
  have "length (Block_Marshal sample_new_block) < 100" by code_simp
  then show ?thesis by (simp add: Block_Marshal_def Block_Size_def length_enc)
qed

lemma sample_construct:
  "\<exists>br. constructBlockAndBlockResult sample_X 3 sample_bh sample_result (ex_packedTxs (sample_entry v)) rs = Inr (sample_new_block, br)"
  using BlockHead_roundtrip [OF sample_bh_ok(1,2)] sample_bh_ok(3)
  by (simp add: constructBlockAndBlockResult_def BlockHead_DeepCopy_def Let_def Block_HashBytes_def BlockResult_HashBytes_def sample_new_block_def
      sample_entry_def sample_packed_def)

lemma sample_can_save: "\<exists>cw. can_save rbt_ops cw 0 \<and> lg_id (w_ledger cw) = ''L''"
proof -
  have "db_inv rbt_ops (lg_backendStateDB sample_ledger)"
    using NewMemDBBackend_inv [of "rbt_ops :: ((bytes, bytes) rbt, bytes) btree_ops"] sample_libs
    by (simp add: sample_ledger_def NewLedger_def ledger_libs_def)
  moreover have "mdb_openWriters (lg_backendStateDB sample_ledger) = 0" "vm_last (mdb_vmgr (lg_backendStateDB sample_ledger)) \<noteq> - 1" "lg_id sample_ledger = ''L''"
    by (simp_all add: sample_ledger_def NewLedger_def NewMemDBBackend_def NewVersionManager_def)
  ultimately show ?thesis
    using new_state_can_save [OF sample_libs, of "\<lparr>w_ledger = sample_ledger, w_objs = []\<rparr>" 1] by auto
qed

lemma sample_hyps:
  assumes "can_save rbt_ops cw 0" "lg_id (w_ledger cw) = ''L''"
  shows "can_save rbt_ops (cw_world (sample_world cw)) (ex_compState (sample_entry 1))"
    "find (\<lambda>x. 1 = ex_StateVersion x) (sch_exePackedTxsList (sample_sched [1])) = Some (sample_entry 1)"
    "ex_packedTxsRS (sample_entry 1) = Some (the (ex_packedTxsRS (sample_entry 1)))"
    "latestBlockMap (cw_env (sample_world cw)) (node_id (sample_world cw)) = Some (sample_block 1 [])"
    "blk_Head (sample_block 1 []) = Some (Block_Types.sample_head 1 [])" "bh_Height (Block_Types.sample_head 1 []) < bh_Height sample_bh"
    "latestBlockRSMap (cw_env (sample_world cw)) (node_id (sample_world cw)) = Some sample_result"
    "\<And>l m cs y. \<exists>m' y' err. np_UpdateEpoch sample_parts l m (cs, y) sample_bh = ((cs, m', y'), err) \<and> \<not> (\<exists>msg. err = Some (Panic msg))"
    "node_id (sample_world cw) = ''L''" "sch_exePackedCount (sample_sched [1]) = 1"
  using assms by (simp_all add: sample_world_def sample_entry_def sample_sched_def NewExecutionScheduler_def ex_StateVersion_def sample_packed_def node_id_def
      sample_block_def Block_Types.sample_head_def sample_parts_def)


theorem height_committed_once_witness:
  "\<exists>w w' sch'. fst (CommitPackedTx sample_X w (sample_sched [1]) 1 3 sample_bh) = (w', sch') \<and>
     sch_exePackedCount sch' = 0 \<and> fst (CommitPackedTx sample_X w' sch' 1 3 sample_bh) = (w', sch'\<lparr>sch_schedulerState := SchedulerState_Idle\<rparr>)"
proof -
  obtain cw where cw: "can_save rbt_ops cw 0" "lg_id (w_ledger cw) = ''L''" using sample_can_save by blast
  note h = sample_hyps [OF cw]
  obtain br where br: "constructBlockAndBlockResult sample_X 3 sample_bh sample_result (ex_packedTxs (sample_entry 1)) (the (ex_packedTxsRS (sample_entry 1))) =
      Inr (sample_new_block, br)" using sample_construct by blast
  obtain w' where c: "CommitPackedTx sample_X (sample_world cw) (sample_sched [1]) 1 3 sample_bh =
      ((w', (sample_sched [1])\<lparr>sch_schedulerState := SchedulerState_Idle, sch_exePackedCount := sch_exePackedCount (sample_sched [1]) - 1\<rparr>), None)"
    by (rule node_commit [OF sample_libs h(1-7) sample_bh_ok(1,2) br sample_new_block_size h(8)]) (rule that)
  let ?sch = "(sample_sched [1])\<lparr>sch_schedulerState := SchedulerState_Idle, sch_exePackedCount := sch_exePackedCount (sample_sched [1]) - 1\<rparr>"
  have "sch_exePackedCount ?sch \<noteq> sch_exePackedCount (sample_sched [1])" "sch_exePackedCount ?sch = 0" by (simp_all add: h(10))
  with height_committed_once [OF c _ sample_bh_ok(1,2), of sample_bh ?sch 1 3] c show ?thesis
    by (intro exI [of _ "sample_world cw"] exI [of _ w'] exI [of _ ?sch]) simp
qed


end
