(* ===== verification/Spec2Isabelle.thy ===== *)
theory Spec2Isabelle
  imports Comp_Builder Fork_Choice Tx_Pool Exec_Scheduler
begin

text \<open>
  Verification of the ledger, the state layers and the transaction pool of the Topia
  blockchain node (the Go sources under \<open>src/\<close>).

  \<^bold>\<open>The program.\<close> A node keeps a versioned key-value database (\<open>ledger/backend\<close>). A state
  store (\<open>ledger/state\<close>) opens one transaction on it and offers named stores, each a region
  of data keys and a region of Merkle tree nodes, through prefixed views of the transaction;
  the ledger (\<open>ledger/ledger.go\<close>) creates state stores. The parts of the chain's state
  (\<open>state/account\<close>, \<open>state/chain\<close>, \<open>state/domain\<close>, \<open>state/node\<close>, \<open>state/epoch\<close>) keep their
  values as JSON or protobuf bytes in named stores, and a composed state
  (\<open>state/composition.go\<close>) is all of them on one state store; builders
  (\<open>state/composition_builder.go\<close>) hand out composed states per node and version. Blocks and
  transactions are protobuf messages (\<open>chain/types\<close>, \<open>transaction\<close>). Received blocks are
  collected from their parts, and chains are compared by weight (\<open>chain\<close>). Transactions are
  created and verified (\<open>transaction/basic\<close>), and wait in the pool (\<open>transaction_pool\<close>), which
  orders them by account and nonce until a block contains them.

  \<^bold>\<open>Conventions.\<close> A struct is a record, an enumeration a datatype, \<open>uint64\<close> is \<open>64 word\<close>, a
  Go string a list of characters and a byte slice a list of \<open>8 word\<close>, with \<open>None\<close> for nil where
  the code tells them apart. A result \<open>(T, error)\<close> is \<open>error + 'a\<close>; an operation that changes
  state returns the new state and \<open>error option\<close>; a panic is the error \<open>Panic\<close>. A loop that may
  run for ever is a \<open>partial_function\<close> whose result \<open>None\<close> means that it does not return, and an
  operation that blocks for ever has the result \<open>None\<close>. Locks make each method one step;
  goroutines, timers and other nodes are steps of a run. Libraries that are not in the
  repository (the B-tree, the sparse Merkle tree, hashes, signatures, the LRU cache, floating
  point arithmetic) are arguments of the definitions; what is used of them is stated in
  locales and hypotheses, and every property with such a hypothesis has a witness on a
  concrete instance. Parts of the Go standard library that the sources use are modelled:
  \<open>encoding/json\<close>, base 64, base 32, hexadecimal, \<open>sort.Search\<close>, maps.

  \<^bold>\<open>The theories,\<close> from the bottom up:

  \<^item> \<open>Topia_Prelude\<close>: types and errors, big-endian numbers, lemmas on sorted lists and maps.
  \<^item> \<open>Go_Map\<close>: Go maps as sorted association lists, the interface locale \<open>go_map\<close>.
    \<open>Shrink_Map\<close>: the map of \<open>common/shrink_map.go\<close>, an instance of it; any sequence of
    operations equals that on one map.
  \<^item> \<open>Common_Util\<close>: \<open>common/util.go\<close>, \<open>safe_calculate.go\<close>, \<open>rand_reader.go\<close>, \<open>types.go\<close>. The
    rejection loop of random numbers ends when the source yields a value in range.
  \<^item> \<open>Version_Manager\<close>: \<open>ledger/backend/common/version_manager.go\<close>: which versions exist after
    saving and deleting, and the wrap-around of the next version.
  \<^item> \<open>Memdb\<close>: \<open>ledger/backend/memdb\<close> with the transaction interface of
    \<open>ledger/backend/common/interface.go\<close>: the invariant of all reachable databases, a saved
    version never changes, iterators list exactly the keys of a range.
  \<^item> \<open>Prefix_Backend\<close>: \<open>ledger/backend/backend_prefixed.go\<close>: reads, writes and iteration of a
    prefixed view are those of the keys under the prefix.
  \<^item> \<open>State_Store\<close>, \<open>Ledger\<close>: \<open>ledger/state\<close> and \<open>ledger/ledger.go\<close>: the locale \<open>state_store\<close> is
    the contract of the state store. \<open>Ledger\<close> proves it of the model: named stores behave as
    independent maps, committed values are found by the next store, and what goes wrong after a
    commit, with an open writer and with roots after reopening.
  \<^item> \<open>Json\<close>, \<open>Proto_Wire\<close>: the encodings, with their round trips; \<open>Proto_Wire\<close> has the generated
    \<open>Marshal\<close>, \<open>Size\<close> and \<open>Unmarshal\<close> as functions of a description of the fields.
    \<open>Block_Types\<close>, \<open>Tx_Types\<close>: the messages of \<open>chain/types/block.pb.go\<close>,
    \<open>transaction/basic/transaction.pb.go\<close> and \<open>transaction/universal/universal.pb.go\<close> as records.
  \<^item> \<open>Bytes_Store\<close>: the locale \<open>bytes_store\<close>, the state store as the state components use it;
    their operations take the store's operations as an argument and their lemmas are proved
    from the contract alone. It is interpreted on the ledger's store.
  \<^item> \<open>Node_State\<close>, \<open>Node_Registry\<close> (\<open>state/node\<close>), \<open>Domain_State\<close> (\<open>state/domain\<close>), \<open>Account\<close>,
    \<open>Account_State\<close> (\<open>account\<close>, \<open>state/account\<close>), \<open>Chain_State\<close> (\<open>state/chain\<close>, \<open>state/epoch\<close>): the
    parts of the state. The registry refines four lists of nodes with their weights, the
    domains and the accounts refine maps; errors of the code are stated as such.
  \<^item> \<open>Address\<close>: \<open>crypt/types\<close>: encoding and decoding of addresses.
  \<^item> \<open>Composition\<close>: \<open>state/composition.go\<close>: a session from the creation of the state over
    registrations, balances and the latest block to the commit, and what the next state reads.
  \<^item> \<open>Comp_Builder\<close>: \<open>state/composition_builder.go\<close> as steps on a world of live states.
  \<^item> \<open>Fork_Choice\<close>: \<open>chain/fork_choice.go\<close>, \<open>block_weight.go\<close> and the block collectors.
  \<^item> \<open>Tx_Types\<close> also has \<open>transaction/basic\<close>: hashes and roots, the creation of a signed
    transaction and the basic verifiers.
  \<^item> \<open>Tx_Pool_Core\<close>: \<open>transaction_pool/core\<close>: orders, sorted lists, the account manager, the
    collection and its channel. For every order of arrival the transactions of an account are
    sent on by nonce without a gap; what the sorted lists hold and in which order.
  \<^item> \<open>Tx_Pool\<close>: \<open>transaction_pool\<close>: the pool as a transition system over its operations, block
    events and turns of the receiving goroutine; its counters are exact in every run.
  \<^item> \<open>Tx_Universal\<close>: \<open>transaction/universal\<close>, \<open>transaction/factory.go\<close>, \<open>validator.go\<close> and the gas
    and chain configuration: what a transfer moves between accounts, which built transfers are
    accepted, the way from a transaction to its action and back, gas and its estimate. The
    node, the virtual machines and float arithmetic are records of functions.
  \<^item> \<open>Exec_Scheduler\<close>: \<open>execution/scheduler.go\<close>, \<open>execution_packedtx.go\<close>, \<open>types.go\<close>: the list of
    executed versions, the slots, the block built from a version and its commit. What the
    scheduler uses of the node is the record \<open>exec_ops\<close>, what it relies on the locale
    \<open>exec_world\<close>, interpreted on the composed states and caches of the other theories
    (\<open>node_ops\<close>); a commit is followed down to the version that the ledger saves.
  \<^bold>\<open>Bounds and fuel.\<close> The JSON parser takes the length of the text as fuel, which is proved to be
  enough for every printed value; the protobuf decoder recurses over the remaining bytes. The
  pool's theorems assume fewer than \<open>2 ^ 64 - 2\<close> additions, the round trips of messages fewer
  than \<open>2 ^ 63\<close> bytes, as the lengths of Go slices are. Other loops terminate by a measure or are
  partial functions whose return is proved where it is claimed.

  \<^bold>\<open>Not modelled.\<close>
  \<^item> The persistent backends (\<open>ledger/backend/badger\<close>, \<open>leveldb\<close>, \<open>rocksdb\<close>) are calls into the
    libraries of that name; the in-memory backend stands for the interface. The block and
    history stores (\<open>ledger/block\<close>, \<open>ledger/history\<close>) read and write files.
  \<^item> The network (\<open>network\<close>), the RPC and web interfaces (\<open>api\<close>), the event hub, the node's
    start-up (\<open>node\<close>, \<open>cmd\<close>, \<open>runner\<close>), the wallet, logging and configuration files are input
    and output around libraries.
  \<^item> The consensus (\<open>consensus\<close>), the forwarder of \<open>execution\<close> and the synchronisation
    (\<open>sync\<close>) are message handlers on actors over threshold signatures, verifiable random functions
    and the network. The virtual machine (\<open>vm\<close>) calls an interpreter library.
  \<^item> The cryptography (\<open>crypt\<close> without \<open>crypt/types\<close>) is C code behind an interface, of which the
    verifiers' hypotheses state what they use.
  \<^item> Generated message code is modelled once, in \<open>Proto_Wire\<close>; partial results of a failed
    \<open>Unmarshal\<close> are arguments where the code goes on with them.
\<close>

end
